(* ===== verification/Prelude.thy ===== *)
theory Prelude
  imports Main "HOL-Library.Word" "HOL-Library.Char_ord" "HOL-Library.List_Lexorder"
    "HOL-Library.Product_Lexorder"
begin

text \<open>
  Shared material of the development: the machine types the Rust sources use, the pieces of
  the Rust standard library the modelled functions call (checked slice access, big-endian
  conversions, \<open>Iterator::min_by_key\<close>, \<open>Iterator::position\<close>, \<open>Iterator::find_map\<close>,
  \<open>BTreeMap\<close> as a sorted association list), and the lemmas the component theories share.

  Time. \<open>std::time::Instant\<close> and \<open>tokio::time::Instant\<close> are natural numbers of nanoseconds
  since an arbitrary origin, and a \<open>Duration\<close> is a natural number of nanoseconds. Subtracting
  a later instant from an earlier one saturates at zero in both libraries, which is what
  subtraction on natural numbers does. The overflow of a 64-bit second counter (584 years of
  nanoseconds and more) is not modelled.
\<close>

named_theorems slice_simps \<open>evaluation of checked slice access\<close>
named_theorems map_simps \<open>look-ups in the ordered maps after an update\<close>
named_theorems map_inv \<open>operations that keep the order of an ordered map\<close>

section \<open>Machine types\<close>

type_synonym u8 = "8 word"
type_synonym u16 = "16 word"
type_synonym u32 = "32 word"
type_synonym u64 = "64 word"

type_synonym ipv4 = u32
type_synonym mac = "u8 \<times> u8 \<times> u8 \<times> u8 \<times> u8 \<times> u8"
type_synonym instant = nat
type_synonym duration = nat

definition from_secs :: "nat \<Rightarrow> duration" where
  "from_secs s = s * 1000000000"

definition from_millis :: "nat \<Rightarrow> duration" where
  "from_millis s = s * 1000000"

definition mac_bytes :: "mac \<Rightarrow> u8 list" where
  "mac_bytes m = (case m of (a, b, c, d, e, f) \<Rightarrow> [a, b, c, d, e, f])"

text \<open>\<open><[u8; 6]>::try_from\<close> of a slice: defined on slices of length six only.\<close>

fun mac_of_bytes :: "u8 list \<Rightarrow> mac option" where
  "mac_of_bytes [a, b, c, d, e, f] = Some (a, b, c, d, e, f)"
| "mac_of_bytes _ = None"

lemma length_mac_bytes [simp]: "length (mac_bytes m) = 6"
  by (auto simp: mac_bytes_def split: prod.split)

lemma mac_of_bytes_mac_bytes [simp]: "mac_of_bytes (mac_bytes m) = Some m"
  by (auto simp: mac_bytes_def split: prod.split)

lemma mac_bytes_inject [simp]: "mac_bytes m = mac_bytes n \<longleftrightarrow> m = n"
  by (metis mac_of_bytes_mac_bytes option.inject)

lemma mac_of_bytes_Some: "mac_of_bytes bs = Some m \<longleftrightarrow> bs = mac_bytes m"
  by (cases bs rule: mac_of_bytes.cases) (auto simp: mac_bytes_def split: prod.splits)

section \<open>Big-endian conversions\<close>

definition u16_from_be :: "u8 \<Rightarrow> u8 \<Rightarrow> u16" where
  "u16_from_be a b = word_of_nat (unat a * 256 + unat b)"

definition u32_from_be :: "u8 \<Rightarrow> u8 \<Rightarrow> u8 \<Rightarrow> u8 \<Rightarrow> u32" where
  "u32_from_be a b c d =
     word_of_nat (((unat a * 256 + unat b) * 256 + unat c) * 256 + unat d)"

definition u16_to_be :: "u16 \<Rightarrow> u8 list" where
  "u16_to_be w = [word_of_nat (unat w div 256), word_of_nat (unat w)]"

definition octets :: "ipv4 \<Rightarrow> u8 list" where
  "octets w = [word_of_nat (unat w div 16777216), word_of_nat (unat w div 65536),
               word_of_nat (unat w div 256), word_of_nat (unat w)]"

lemma unat_inject: "unat (a :: 'a::len word) = unat b \<longleftrightarrow> a = b"
  by (rule word_unat_eq_iff [symmetric])

lemma unat_sum_list:
  fixes ws :: "'a::len word list"
  assumes "sum_list (map unat ws) < 2 ^ LENGTH('a)"
  shows "unat (sum_list ws) = sum_list (map unat ws)"
  using assms
proof (induction ws)
  case (Cons w ws)
  then show ?case
    by (simp add: unat_word_ariths)
qed simp

lemma unat_u8_less [simp]: "unat (x :: u8) < 256"
  using unsigned_less [of x, where ?'a = nat] by simp

lemma unat_u8_le: "unat (x :: u8) \<le> 255"
  using unat_u8_less [of x] by linarith

lemma unat_u16_from_be: "unat (u16_from_be a b) = unat a * 256 + unat b"
proof -
  have "unat a * 256 + unat b < 2 ^ LENGTH(16)"
    using unat_u8_le [of a] unat_u8_le [of b] by simp
  then show ?thesis
    unfolding u16_from_be_def by (rule of_nat_inverse [OF refl])
qed

lemma unat_u32_from_be:
  "unat (u32_from_be a b c d) = ((unat a * 256 + unat b) * 256 + unat c) * 256 + unat d"
proof -
  have "((unat a * 256 + unat b) * 256 + unat c) * 256 + unat d < 2 ^ LENGTH(32)"
    using unat_u8_le [of a] unat_u8_le [of b] unat_u8_le [of c] unat_u8_le [of d] by simp
  then show ?thesis
    unfolding u32_from_be_def by (rule of_nat_inverse [OF refl])
qed

lemma base256_inject:
  fixes x y :: nat and b d :: u8
  shows "x * 256 + unat b = y * 256 + unat d \<longleftrightarrow> x = y \<and> b = d"
proof
  assume eq: "x * 256 + unat b = y * 256 + unat d"
  have "unat b = unat d"
    using arg_cong [OF eq, of "\<lambda>n. n mod 256"] by simp
  with eq show "x = y \<and> b = d"
    by (simp add: unat_inject)
qed simp

lemma u16_from_be_inject [simp]:
  "u16_from_be a b = u16_from_be c d \<longleftrightarrow> a = c \<and> b = d"
  unfolding unat_inject [symmetric, where 'a = 16] unat_u16_from_be base256_inject
  by (simp add: unat_inject)

lemma u32_from_be_inject [simp]:
  "u32_from_be a b c d = u32_from_be a' b' c' d' \<longleftrightarrow>
     a = a' \<and> b = b' \<and> c = c' \<and> d = d'"
  unfolding unat_inject [symmetric, where 'a = 32] unat_u32_from_be base256_inject
  by (auto simp: unat_inject)

lemma word8_of_nat_base256: "(word_of_nat (n * 256 + unat (b :: u8)) :: u8) = b"
proof -
  have "unat (word_of_nat (n * 256 + unat b) :: u8) = (n * 256 + unat b) mod 2 ^ LENGTH(8)"
    by (rule unat_of_nat)
  then show ?thesis
    by (subst unat_inject [symmetric]) simp
qed

lemma base256_div: "(x * 256 + unat (b :: u8)) div 256 = x"
  using unat_u8_less [of b] by simp

lemma octets_u32_from_be [simp]: "octets (u32_from_be a b c d) = [a, b, c, d]"
proof -
  let ?n = "((unat a * 256 + unat b) * 256 + unat c) * 256 + unat d"
  have div1: "?n div 256 = (unat a * 256 + unat b) * 256 + unat c"
    by (rule base256_div)
  have "?n div 65536 = ?n div 256 div 256"
    using div_mult2_eq [of ?n 256 256] by simp
  then have div2: "?n div 65536 = unat a * 256 + unat b"
    unfolding div1 base256_div .
  have "?n div 16777216 = ?n div 65536 div 256"
    using div_mult2_eq [of ?n 65536 256] by simp
  then have div3: "?n div 16777216 = 0 * 256 + unat a"
    unfolding div2 base256_div by simp
  show ?thesis
    unfolding octets_def unat_u32_from_be div1 div2 div3 by (simp only: word8_of_nat_base256)
qed

lemma u32_exhaust:
  obtains a b c d where "w = u32_from_be a b c d"
proof
  let ?w8 = "\<lambda>n. (word_of_nat n :: u8)"
  have digit: "unat (?w8 n) = n mod 256" for n
    by (subst unat_of_nat) simp
  have less: "unat w div 16777216 < 256"
    using unsigned_less [of w, where ?'a = nat] by (simp add: less_mult_imp_div_less)
  have step: "n = n div 256 * 256 + n mod 256" for n :: nat
    by simp
  have "unat w = unat w div 256 * 256 + unat w mod 256"
    by (rule step)
  also have "unat w div 256 = unat w div 65536 * 256 + unat w div 256 mod 256"
    using step [of "unat w div 256"] by (simp add: div_mult2_eq [symmetric])
  also have "unat w div 65536 = unat w div 16777216 mod 256 * 256 + unat w div 65536 mod 256"
    using step [of "unat w div 65536"] less by (simp add: div_mult2_eq [symmetric])
  finally show "w = u32_from_be (?w8 (unat w div 16777216)) (?w8 (unat w div 65536))
      (?w8 (unat w div 256)) (?w8 (unat w))"
    by (subst unat_inject [symmetric]) (simp only: unat_u32_from_be digit)
qed

lemma length_octets [simp]: "length (octets w) = 4"
  by (simp add: octets_def)

lemma octets_inject [simp]: "octets v = octets w \<longleftrightarrow> v = w"
  by (rule u32_exhaust [of v], rule u32_exhaust [of w]) simp

section \<open>Slices\<close>

text \<open>
  \<open>slice.get(k)\<close>, \<open>slice.get(lo..hi)\<close> and writing a sub-slice
  (\<open>f[off..off + src.len()].copy_from_slice(src)\<close>).
\<close>

definition get_at :: "'a list \<Rightarrow> nat \<Rightarrow> 'a option" where
  "get_at xs k = (if k < length xs then Some (xs ! k) else None)"

definition get_range :: "'a list \<Rightarrow> nat \<Rightarrow> nat \<Rightarrow> 'a list option" where
  "get_range xs lo hi =
     (if lo \<le> hi \<and> hi \<le> length xs then Some (take (hi - lo) (drop lo xs)) else None)"

definition copy_at :: "nat \<Rightarrow> 'a list \<Rightarrow> 'a list \<Rightarrow> 'a list" where
  "copy_at off src xs = take off xs @ src @ drop (off + length src) xs"

lemma replicate_numeral [slice_simps]:
  "replicate (numeral k) x = x # replicate (pred_numeral k) x"
  by (simp add: numeral_eq_Suc)

lemma list_update_numeral [slice_simps]:
  "(x # xs)[numeral k := y] = x # xs[pred_numeral k := y]"
  by (simp add: numeral_eq_Suc)

lemma copy_at_steps [slice_simps]:
  "copy_at 0 [] xs = xs"
  "copy_at 0 (y # ys) (x # xs) = y # copy_at 0 ys xs"
  "copy_at (Suc n) ys (x # xs) = x # copy_at n ys xs"
  "copy_at (numeral k) ys (x # xs) = x # copy_at (pred_numeral k) ys xs"
  by (simp_all add: copy_at_def numeral_eq_Suc)

lemma length_copy_at [simp]:
  "off + length src \<le> length xs \<Longrightarrow> length (copy_at off src xs) = length xs"
  by (simp add: copy_at_def)

lemma nth_copy_at:
  "off + length src \<le> length xs \<Longrightarrow> i < length xs \<Longrightarrow>
     copy_at off src xs ! i =
       (if off \<le> i \<and> i < off + length src then src ! (i - off) else xs ! i)"
  by (auto simp: copy_at_def nth_append min_def)

lemma get_range_Some: "get_range xs lo hi = Some ys \<longleftrightarrow>
    lo \<le> hi \<and> hi \<le> length xs \<and> ys = take (hi - lo) (drop lo xs)"
  by (auto simp: get_range_def)

lemma length_get_range: "get_range xs lo hi = Some ys \<Longrightarrow> length ys = hi - lo"
  by (auto simp: get_range_Some)

lemma nth_get_range:
  "get_range xs lo hi = Some ys \<Longrightarrow> i < hi - lo \<Longrightarrow> ys ! i = xs ! (lo + i)"
  by (auto simp: get_range_Some)

lemma get_range_split:
  "get_range xs lo hi = Some ys \<longleftrightarrow>
     (\<exists>pre post. xs = pre @ ys @ post \<and> length pre = lo \<and> lo + length ys = hi)"
proof
  assume "get_range xs lo hi = Some ys"
  then have le: "lo \<le> hi" "hi \<le> length xs" and ys: "ys = take (hi - lo) (drop lo xs)"
    by (auto simp: get_range_Some)
  have "drop hi xs = drop (hi - lo) (drop lo xs)"
    using le by simp
  then have "xs = take lo xs @ ys @ drop hi xs"
    unfolding ys by (simp only: append_take_drop_id)
  moreover have "length (take lo xs) = lo" "lo + length ys = hi"
    using le ys by auto
  ultimately show "\<exists>pre post. xs = pre @ ys @ post \<and> length pre = lo \<and> lo + length ys = hi"
    by blast
qed (auto simp: get_range_def)

lemma get_range_append [slice_simps]:
  "length pre = lo \<Longrightarrow> lo + length ys = hi \<Longrightarrow> get_range (pre @ ys @ post) lo hi = Some ys"
  by (auto simp: get_range_split)

lemma split_at_length:
  assumes "length xs = m + n"
  obtains ys zs where "xs = ys @ zs" "length ys = m" "length zs = n"
proof
  show "xs = take m xs @ drop m xs" by simp
qed (use assms in auto)

lemma append_prefix_unique: "xs @ ys = us @ vs \<Longrightarrow> length xs = length us \<Longrightarrow> xs = us"
  by simp

lemma ex_mac_bytes: "length xs = 6 \<Longrightarrow> \<exists>m. xs = mac_bytes m"
  by (auto simp: length_Suc_conv numeral_eq_Suc mac_bytes_def)

lemma ex_octets: "length xs = 4 \<Longrightarrow> \<exists>w. xs = octets w"
proof -
  assume "length xs = 4"
  then obtain a b c d where "xs = [a, b, c, d]"
    by (auto simp: length_Suc_conv numeral_eq_Suc)
  then have "xs = octets (u32_from_be a b c d)"
    by simp
  then show ?thesis ..
qed

lemma list2_nth: "length xs = 2 \<Longrightarrow> xs = [xs ! 0, xs ! 1]"
  by (cases xs; cases "tl xs") auto

lemma get_range2:
  "get_range xs k (k + 2) = (if k + 2 \<le> length xs then Some [xs ! k, xs ! (k + 1)] else None)"
  by (auto simp: get_range_def take_Suc_conv_app_nth numeral_2_eq_2)

lemma get_range4:
  "get_range xs k (k + 4) =
     (if k + 4 \<le> length xs
      then Some [xs ! k, xs ! (k + 1), xs ! (k + 2), xs ! (k + 3)] else None)"
  by (auto simp: get_range_def take_Suc_conv_app_nth numeral_eq_Suc)

section \<open>Iterators\<close>

text \<open>\<open>Iterator::min_by_key\<close> returns the first of several minimal elements.\<close>

fun min_by_key :: "('a \<Rightarrow> 'k::linorder) \<Rightarrow> 'a list \<Rightarrow> 'a option" where
  "min_by_key k [] = None"
| "min_by_key k (x # xs) =
     (case min_by_key k xs of None \<Rightarrow> Some x | Some y \<Rightarrow> if k y < k x then Some y else Some x)"

lemma min_by_key_None [simp]: "min_by_key k xs = None \<longleftrightarrow> xs = []"
  by (cases xs) (auto split: option.splits)

lemma min_by_key_in: "min_by_key k xs = Some x \<Longrightarrow> x \<in> set xs"
  by (induction xs arbitrary: x) (auto split: option.splits if_splits)

lemma min_by_key_le: "min_by_key k xs = Some x \<Longrightarrow> y \<in> set xs \<Longrightarrow> k x \<le> k y"
  by (induction xs arbitrary: x y) (fastforce split: option.splits if_splits)+

fun position :: "('a \<Rightarrow> bool) \<Rightarrow> 'a list \<Rightarrow> nat option" where
  "position P [] = None"
| "position P (x # xs) = (if P x then Some 0 else map_option Suc (position P xs))"

lemma position_Some:
  "position P xs = Some i \<Longrightarrow> i < length xs \<and> P (xs ! i) \<and> (\<forall>j<i. \<not> P (xs ! j))"
  by (induction xs arbitrary: i) (auto split: if_splits simp: less_Suc_eq_0_disj)

lemma position_None [simp]: "position P xs = None \<longleftrightarrow> (\<forall>x\<in>set xs. \<not> P x)"
  by (induction xs) auto

fun find_map :: "('a \<Rightarrow> 'b option) \<Rightarrow> 'a list \<Rightarrow> 'b option" where
  "find_map f [] = None"
| "find_map f (x # xs) = (case f x of None \<Rightarrow> find_map f xs | Some y \<Rightarrow> Some y)"

lemma find_in: "find P xs = Some x \<Longrightarrow> x \<in> set xs \<and> P x"
  by (auto simp: find_Some_iff)

section \<open>Decimal text\<close>

text \<open>The \<open>Display\<close> of unsigned integers, of IPv4 addresses, and \<open>Vec::join\<close>.\<close>

definition digit :: "nat \<Rightarrow> char" where
  "digit d = char_of (48 + d)"

function dec :: "nat \<Rightarrow> string" where
  "dec n = (if n < 10 then [digit n] else dec (n div 10) @ [digit (n mod 10)])"
  by pat_completeness auto
termination
  by (relation "measure id") auto

declare dec.simps [simp del]

lemma dec_nonempty [simp]: "dec n \<noteq> []"
  by (subst dec.simps) simp

text \<open>\<open>str::parse\<close> for unsigned integers of a given bound, on digit strings: an optional plus
  sign, at least one digit, and a value within the bound.\<close>

definition digit_val :: "char \<Rightarrow> nat option" where
  "digit_val c = (let n = of_char c in if 48 \<le> n \<and> n \<le> (57 :: nat) then Some (n - 48) else None)"

fun digits_val :: "nat \<Rightarrow> string \<Rightarrow> nat option" where
  "digits_val acc [] = Some acc"
| "digits_val acc (c # cs) =
     (case digit_val c of None \<Rightarrow> None | Some d \<Rightarrow> digits_val (acc * 10 + d) cs)"

definition parse_uint :: "nat \<Rightarrow> string \<Rightarrow> nat option" where
  "parse_uint bound s =
     (let ds = (case s of c # cs \<Rightarrow> if c = CHR ''+'' then cs else s | [] \<Rightarrow> []) in
      if ds = [] then None
      else case digits_val 0 ds of
             None \<Rightarrow> None
           | Some n \<Rightarrow> if n \<le> bound then Some n else None)"

lemma digit_val_digit: "d < 10 \<Longrightarrow> digit_val (digit d) = Some d"
  by (simp add: digit_val_def digit_def Let_def)

lemma digits_val_append:
  "digits_val acc (xs @ ys) = Option.bind (digits_val acc xs) (\<lambda>a. digits_val a ys)"
  by (induction xs arbitrary: acc) (auto split: option.splits)

lemma digits_val_dec: "digits_val 0 (dec n) = Some n"
proof (induction n rule: dec.induct)
  case (1 n)
  show ?case
  proof (cases "n < 10")
    case True
    then show ?thesis
      by (subst dec.simps) (simp add: digit_val_digit)
  next
    case False
    with 1 have "digits_val 0 (dec (n div 10)) = Some (n div 10)"
      by simp
    with False show ?thesis
      by (subst dec.simps) (simp add: digits_val_append digit_val_digit)
  qed
qed

lemma plus_not_digit: "digit_val (CHR ''+'') = None"
  by (simp add: digit_val_def)

lemma hd_dec_not_plus: "hd (dec n) \<noteq> CHR ''+''"
proof
  assume eq: "hd (dec n) = CHR ''+''"
  obtain c cs where d: "dec n = c # cs"
    by (cases "dec n") auto
  then show False
    using eq digits_val_dec [of n] by (simp add: plus_not_digit)
qed

lemma parse_uint_dec: "parse_uint bound (dec n) = (if n \<le> bound then Some n else None)"
  using hd_dec_not_plus [of n] digits_val_dec [of n]
  by (cases "dec n") (auto simp: parse_uint_def)

fun join :: "string \<Rightarrow> string list \<Rightarrow> string" where
  "join sep [] = []"
| "join sep [x] = x"
| "join sep (x # y # xs) = x @ sep @ join sep (y # xs)"

definition ipv4_str :: "ipv4 \<Rightarrow> string" where
  "ipv4_str a = join ''.'' (map (dec \<circ> unat) (octets a))"

end
