(* ===== verification/Prober_Frame.thy ===== *)
theory Prober_Frame
  imports Prelude "HOL-Library.Monad_Syntax"
begin

text \<open>
  The frame codec of the prober (\<open>src/src/prober/frame.rs\<close>): the ARP probe it sends, the
  recognition of an ARP reply to it, and the Router ID of an OSPF packet to AllSPFRouters.
  The two parsers are characterised completely: they accept exactly the frames that the
  printers \<open>arp_packet\<close> and \<open>ospf_packet\<close> below build, behind at most one VLAN tag.
\<close>

section \<open>Constants\<close>

definition PROBE_LEN :: nat where "PROBE_LEN = 42"

definition ETHERTYPE_ARP :: u16 where "ETHERTYPE_ARP = 0x0806"
definition ETHERTYPE_VLAN :: u16 where "ETHERTYPE_VLAN = 0x8100"
definition ETHERTYPE_QINQ :: u16 where "ETHERTYPE_QINQ = 0x88a8"
definition HTYPE_ETHERNET :: u16 where "HTYPE_ETHERNET = 1"
definition PTYPE_IPV4 :: u16 where "PTYPE_IPV4 = 0x0800"
definition OP_REQUEST :: u16 where "OP_REQUEST = 1"
definition OP_REPLY :: u16 where "OP_REPLY = 2"
definition ETHERTYPE_IPV4 :: u16 where "ETHERTYPE_IPV4 = 0x0800"
definition IPPROTO_OSPF :: u8 where "IPPROTO_OSPF = 89"
definition ALL_SPF_ROUTERS :: "u8 list" where "ALL_SPF_ROUTERS = [224, 0, 0, 5]"

lemmas frame_consts = PROBE_LEN_def ETHERTYPE_ARP_def ETHERTYPE_VLAN_def ETHERTYPE_QINQ_def
  HTYPE_ETHERNET_def PTYPE_IPV4_def OP_REQUEST_def OP_REPLY_def ETHERTYPE_IPV4_def
  IPPROTO_OSPF_def ALL_SPF_ROUTERS_def

section \<open>The codec\<close>

definition synthetic_mac :: "u8 \<Rightarrow> u8 \<Rightarrow> u8 \<Rightarrow> mac" where
  "synthetic_mac node zone_id port_index = (0x02, 0xcf, 0xab, node, zone_id, port_index)"

definition probe :: "mac \<Rightarrow> ipv4 \<Rightarrow> u8 list" where
  "probe src router =
     (let f = replicate PROBE_LEN 0;
          f = copy_at 0 (replicate 6 0xff) f;
          f = copy_at 6 (mac_bytes src) f;
          f = copy_at 12 (u16_to_be ETHERTYPE_ARP) f;
          f = copy_at 14 (u16_to_be HTYPE_ETHERNET) f;
          f = copy_at 16 (u16_to_be PTYPE_IPV4) f;
          f = f[18 := 6];
          f = f[19 := 4];
          f = copy_at 20 (u16_to_be OP_REQUEST) f;
          f = copy_at 22 (mac_bytes src) f
      in copy_at 38 (octets router) f)"

definition be16 :: "u8 list \<Rightarrow> u16" where
  "be16 b = u16_from_be (b ! 0) (b ! 1)"

definition reply_from :: "u8 list \<Rightarrow> mac \<Rightarrow> ipv4 list \<Rightarrow> mac option" where
  "reply_from frame src targets = do {
     et \<leftarrow> get_range frame 12 14;
     (arp, ethertype) \<leftarrow>
       (if be16 et = ETHERTYPE_VLAN \<or> be16 et = ETHERTYPE_QINQ
        then do { et' \<leftarrow> get_range frame 16 18; Some (18, be16 et') }
        else Some (14, be16 et));
     if ethertype \<noteq> ETHERTYPE_ARP then None else do {
       a \<leftarrow> get_range frame arp (arp + 28);
       if be16 (take 2 a) \<noteq> HTYPE_ETHERNET \<or> be16 (take 2 (drop 2 a)) \<noteq> PTYPE_IPV4
          \<or> a ! 4 \<noteq> 6 \<or> a ! 5 \<noteq> 4 then None
       else if be16 (take 2 (drop 6 a)) \<noteq> OP_REPLY then None
       else do {
         sender_mac \<leftarrow> mac_of_bytes (take 6 (drop 8 a));
         let sender_ip = u32_from_be (a ! 14) (a ! 15) (a ! 16) (a ! 17);
         target_mac \<leftarrow> mac_of_bytes (take 6 (drop 18 a));
         if sender_ip \<notin> set targets \<or> target_mac \<noteq> src then None else Some sender_mac
       }
     }
   }"

definition hello_router_id :: "u8 list \<Rightarrow> u32 option" where
  "hello_router_id frame = do {
     et \<leftarrow> get_range frame 12 14;
     (ip, ethertype) \<leftarrow>
       (if be16 et = ETHERTYPE_VLAN \<or> be16 et = ETHERTYPE_QINQ
        then do { et' \<leftarrow> get_range frame 16 18; Some (18, be16 et') }
        else Some (14, be16 et));
     if ethertype \<noteq> ETHERTYPE_IPV4 then None else do {
       vihl \<leftarrow> get_at frame ip;
       let ihl = unat (take_bit 4 vihl) * 4;
       if ihl < 20 then None else do {
         hdr \<leftarrow> get_range frame ip (ip + ihl);
         if hdr ! 9 \<noteq> IPPROTO_OSPF \<or> take 4 (drop 16 hdr) \<noteq> ALL_SPF_ROUTERS then None else do {
           rid \<leftarrow> get_range frame (ip + ihl + 4) (ip + ihl + 8);
           Some (u32_from_be (rid ! 0) (rid ! 1) (rid ! 2) (rid ! 3))
         }
       }
     }
   }"

text \<open>\<open>frame.get(ip)? & 0x0f\<close> is the low nibble, written \<^term>\<open>take_bit 4\<close>.\<close>

lemma take_bit_4_mask: "take_bit 4 (x :: u8) = and x 0x0f"
  by (simp add: take_bit_eq_mask mask_eq_exp_minus_1)

section \<open>Printers the parsers are measured against\<close>

text \<open>
  An Ethernet header (destination, source, an optional 802.1Q or 802.1ad tag), an ARP body,
  and the part of an IPv4 packet the OSPF recogniser reads.
\<close>

datatype tag = Untagged | Tagged bool u8 u8 \<comment> \<open>QinQ outer type?, then the tag's two bytes\<close>

fun tag_bytes :: "tag \<Rightarrow> u8 list" where
  "tag_bytes Untagged = []"
| "tag_bytes (Tagged qinq a b) = (if qinq then [0x88, 0xa8] else [0x81, 0x00]) @ [a, b]"

definition arp_body :: "u8 \<Rightarrow> mac \<Rightarrow> ipv4 \<Rightarrow> mac \<Rightarrow> ipv4 \<Rightarrow> u8 list" where
  "arp_body op sha spa tha tpa =
     [0, 1, 8, 0, 6, 4, 0, op] @ mac_bytes sha @ octets spa @ mac_bytes tha @ octets tpa"

definition arp_packet ::
  "mac \<Rightarrow> mac \<Rightarrow> tag \<Rightarrow> u8 \<Rightarrow> mac \<Rightarrow> ipv4 \<Rightarrow> mac \<Rightarrow> ipv4 \<Rightarrow> u8 list" where
  "arp_packet dst src t op sha spa tha tpa =
     mac_bytes dst @ mac_bytes src @ tag_bytes t @ [8, 6] @ arp_body op sha spa tha tpa"

definition broadcast_mac :: mac where
  "broadcast_mac = (0xff, 0xff, 0xff, 0xff, 0xff, 0xff)"

text \<open>The probe on the wire is an RFC 5227 probe: an ARP request with a zero sender address.\<close>

lemma probe_layout:
  "probe src router =
     arp_packet broadcast_mac src Untagged 1 src 0 (0, 0, 0, 0, 0, 0) router"
proof -
  obtain a b c d e f where src: "src = (a, b, c, d, e, f)"
    by (cases src)
  obtain r1 r2 r3 r4 where r: "octets router = [r1, r2, r3, r4]"
    by (rule u32_exhaust [of router]) simp
  have z: "octets 0 = [0, 0, 0, 0]"
    by (simp add: octets_def)
  show ?thesis
    unfolding probe_def Let_def
    by (simp add: arp_packet_def arp_body_def frame_consts mac_bytes_def broadcast_mac_def
        src r z u16_to_be_def slice_simps)
qed

section \<open>The reply recogniser\<close>

lemma be_consts:
  "ETHERTYPE_ARP = u16_from_be 8 6" "ETHERTYPE_VLAN = u16_from_be 0x81 0"
  "ETHERTYPE_QINQ = u16_from_be 0x88 0xa8" "HTYPE_ETHERNET = u16_from_be 0 1"
  "PTYPE_IPV4 = u16_from_be 8 0" "OP_REPLY = u16_from_be 0 2"
  "ETHERTYPE_IPV4 = u16_from_be 8 0"
  by (simp_all add: frame_consts u16_from_be_def)

lemma be16_pair [simp]: "be16 (x # y # zs) = u16_from_be x y"
  by (simp add: be16_def)

text \<open>
  Both parsers start by finding the network header behind at most one tag. The shared prefix,
  and what it accepts.
\<close>

definition network_header :: "u8 list \<Rightarrow> (nat \<times> u16) option" where
  "network_header frame = do {
     et \<leftarrow> get_range frame 12 14;
     if be16 et = ETHERTYPE_VLAN \<or> be16 et = ETHERTYPE_QINQ
     then do { et' \<leftarrow> get_range frame 16 18; Some (18, be16 et') }
     else Some (14, be16 et)
   }"

lemma length2E:
  assumes "length xs = 2" obtains a b where "xs = [a, b]"
  using assms by (auto simp: length_Suc_conv numeral_eq_Suc)

lemma network_header_Some:
  assumes "network_header frame = Some (off, et)"
  obtains dst src t x y rest where
    "frame = mac_bytes dst @ mac_bytes src @ tag_bytes t @ [x, y] @ rest"
    "et = u16_from_be x y" "off = 14 + length (tag_bytes t)"
    "t = Untagged \<longrightarrow> et \<noteq> ETHERTYPE_VLAN \<and> et \<noteq> ETHERTYPE_QINQ"
proof -
  from assms obtain e where e: "get_range frame 12 14 = Some e"
    by (auto simp: network_header_def split: Option.bind_splits)
  then obtain pre post where f: "frame = pre @ e @ post" "length pre = 12" "length e = 2"
    by (auto simp: get_range_split)
  obtain x y where xy: "e = [x, y]"
    using f(3) by (rule length2E)
  obtain p q where "pre = p @ q" "length p = 6" "length q = 6"
    using f(2) by (auto intro: split_at_length [of pre 6 6])
  then obtain dst src where pre: "pre = mac_bytes dst @ mac_bytes src"
    by (metis ex_mac_bytes)
  show thesis
  proof (cases "be16 e = ETHERTYPE_VLAN \<or> be16 e = ETHERTYPE_QINQ")
    case False
    with assms e xy have "et = u16_from_be x y" "off = 14"
      by (auto simp: network_header_def)
    with False f(1) pre xy show thesis
      by (intro that [of dst src Untagged x y post]) auto
  next
    case True
    with assms e obtain e' where e': "get_range frame 16 18 = Some e'"
      and et: "et = be16 e'" "off = 18"
      by (auto simp: network_header_def split: Option.bind_splits if_splits)
    from e' obtain pre' post' where f': "frame = pre' @ e' @ post'" "length pre' = 16" "length e' = 2"
      by (auto simp: get_range_split)
    obtain x' y' where xy': "e' = [x', y']"
      using f'(3) by (rule length2E)
    obtain h r where hr: "pre' = h @ r" "length h = 14" "length r = 2"
      using f'(2) by (auto intro: split_at_length [of pre' 14 2])
    obtain a b where ab: "r = [a, b]"
      using hr(3) by (rule length2E)
    have "(pre @ e) @ post = h @ (r @ e' @ post')"
      using f(1) f'(1) hr(1) by simp
    then have "pre @ e = h"
      by (rule append_prefix_unique) (use f hr in auto)
    moreover from True xy have "x = 0x81 \<and> y = 0 \<or> x = 0x88 \<and> y = 0xa8"
      by (simp add: be_consts)
    ultimately have "frame = mac_bytes dst @ mac_bytes src @ tag_bytes (Tagged (x = 0x88) a b)
        @ [x', y'] @ post'"
      using f' hr ab xy xy' pre by auto
    then show thesis
      using et xy' by (intro that [of dst src "Tagged (x = 0x88) a b" x' y' post']) auto
  qed
qed

lemma network_header_frame:
  "network_header (mac_bytes dst @ mac_bytes src @ tag_bytes t @ [x, y] @ rest) =
     (if t = Untagged \<and> (u16_from_be x y = ETHERTYPE_VLAN \<or> u16_from_be x y = ETHERTYPE_QINQ)
      then network_header (mac_bytes dst @ mac_bytes src @ [x, y] @ rest)
      else Some (14 + length (tag_bytes t), u16_from_be x y))"
proof (cases t)
  case Untagged
  have "get_range ((mac_bytes dst @ mac_bytes src) @ [x, y] @ rest) 12 14 = Some [x, y]"
    by (rule get_range_append) auto
  then show ?thesis
    using Untagged by (auto simp: network_header_def)
next
  case (Tagged q a b)
  let ?e = "if q then [0x88, 0xa8] else [0x81, 0x00] :: u8 list"
  have "get_range ((mac_bytes dst @ mac_bytes src) @ ?e @ ([a, b, x, y] @ rest)) 12 14 = Some ?e"
    by (rule get_range_append) auto
  moreover have "get_range ((mac_bytes dst @ mac_bytes src @ ?e @ [a, b]) @ [x, y] @ rest) 16 18
      = Some [x, y]"
    by (rule get_range_append) auto
  ultimately show ?thesis
    using Tagged by (auto simp: network_header_def be_consts)
qed

lemma length_arp_body [simp]: "length (arp_body op sha spa tha tpa) = 28"
  by (simp add: arp_body_def)

text \<open>The checks on the 28 bytes of the ARP body, as \<open>reply_from\<close> makes them.\<close>

definition check_body :: "u8 list \<Rightarrow> mac \<Rightarrow> ipv4 list \<Rightarrow> mac option" where
  "check_body a src targets =
     (if be16 (take 2 a) \<noteq> HTYPE_ETHERNET \<or> be16 (take 2 (drop 2 a)) \<noteq> PTYPE_IPV4
          \<or> a ! 4 \<noteq> 6 \<or> a ! 5 \<noteq> 4 then None
      else if be16 (take 2 (drop 6 a)) \<noteq> OP_REPLY then None
      else do {
         sender_mac \<leftarrow> mac_of_bytes (take 6 (drop 8 a));
         let sender_ip = u32_from_be (a ! 14) (a ! 15) (a ! 16) (a ! 17);
         target_mac \<leftarrow> mac_of_bytes (take 6 (drop 18 a));
         if sender_ip \<notin> set targets \<or> target_mac \<noteq> src then None else Some sender_mac
       })"

lemma reply_from_alt:
  "reply_from frame src targets = do {
     (arp, ethertype) \<leftarrow> network_header frame;
     if ethertype \<noteq> ETHERTYPE_ARP then None else do {
       a \<leftarrow> get_range frame arp (arp + 28);
       check_body a src targets
     }
   }"
  by (auto simp: reply_from_def network_header_def check_body_def split: Option.bind_splits)

lemma check_body_arp_body:
  "check_body (arp_body op sha spa tha tpa) src targets =
     (if op = 2 \<and> spa \<in> set targets \<and> tha = src then Some sha else None)"
proof -
  obtain s1 s2 s3 s4 s5 s6 where sha: "sha = (s1, s2, s3, s4, s5, s6)" by (cases sha)
  obtain t1 t2 t3 t4 t5 t6 where tha: "tha = (t1, t2, t3, t4, t5, t6)" by (cases tha)
  obtain p1 p2 p3 p4 where spa: "spa = u32_from_be p1 p2 p3 p4" by (rule u32_exhaust)
  show ?thesis
    by (auto simp: check_body_def arp_body_def mac_bytes_def sha tha spa be_consts)
qed

lemma check_body_Some:
  assumes "check_body a src targets = Some m" "length a = 28"
  obtains spa tpa where "a = arp_body 2 m spa src tpa" "spa \<in> set targets"
proof -
  obtain h r1 where 1: "a = h @ r1" "length h = 8" "length r1 = 20"
    using assms(2) by (auto intro: split_at_length [of a 8 20])
  obtain m1 r2 where 2: "r1 = m1 @ r2" "length m1 = 6" "length r2 = 14"
    using 1(3) by (auto intro: split_at_length [of r1 6 14])
  obtain p1 r3 where 3: "r2 = p1 @ r3" "length p1 = 4" "length r3 = 10"
    using 2(3) by (auto intro: split_at_length [of r2 4 10])
  obtain m2 p2 where 4: "r3 = m2 @ p2" "length m2 = 6" "length p2 = 4"
    using 3(3) by (auto intro: split_at_length [of r3 6 4])
  obtain sha spa tha tpa where fields:
    "m1 = mac_bytes sha" "p1 = octets spa" "m2 = mac_bytes tha" "p2 = octets tpa"
    using 2(2) 3(2) 4(2,3) by (metis ex_mac_bytes ex_octets)
  obtain h0 h1 h2 h3 h4 h5 h6 h7 where h: "h = [h0, h1, h2, h3, h4, h5, h6, h7]"
    using 1(2) by (auto simp: length_Suc_conv numeral_eq_Suc)
  have "h = [0, 1, 8, 0, 6, 4, 0, 2]"
    using assms(1) 1(1) h by (auto simp: check_body_def be_consts split: if_splits)
  then have a: "a = arp_body 2 sha spa tha tpa"
    using 1 2 3 4 fields by (simp add: arp_body_def)
  then show thesis
    using assms(1) by (intro that) (auto simp: check_body_arp_body split: if_splits)
qed

lemma reply_from_iff:
  "reply_from frame src targets = Some m \<longleftrightarrow>
     (\<exists>dst from t spa tpa pad.
        frame = arp_packet dst from t 2 m spa src tpa @ pad \<and> spa \<in> set targets)"
proof
  assume l: "reply_from frame src targets = Some m"
  then obtain off et a where nh: "network_header frame = Some (off, et)" and et: "et = ETHERTYPE_ARP"
    and a: "get_range frame off (off + 28) = Some a" and chk: "check_body a src targets = Some m"
    by (auto simp: reply_from_alt split: Option.bind_splits if_splits)
  obtain dst "from" t x y rest where
    f: "frame = mac_bytes dst @ mac_bytes from @ tag_bytes t @ [x, y] @ rest"
    and xy: "et = u16_from_be x y" and off: "off = 14 + length (tag_bytes t)"
    using nh by (rule network_header_Some) blast
  have len: "length a = 28"
    using a by (auto dest: length_get_range)
  obtain spa tpa where body: "a = arp_body 2 m spa src tpa" "spa \<in> set targets"
    using chk len by (rule check_body_Some)
  obtain pre post where "frame = pre @ a @ post" "length pre = off"
    using a by (auto simp: get_range_split)
  moreover have "frame = (mac_bytes dst @ mac_bytes from @ tag_bytes t @ [x, y]) @ rest"
    using f by simp
  ultimately have "pre = mac_bytes dst @ mac_bytes from @ tag_bytes t @ [x, y]"
    using off by (intro append_prefix_unique [of pre "a @ post" _ rest]) auto
  then have "frame = arp_packet dst from t 2 m spa src tpa @ post"
    using \<open>frame = pre @ a @ post\<close> xy et body by (simp add: arp_packet_def be_consts)
  then show "\<exists>dst from t spa tpa pad.
      frame = arp_packet dst from t 2 m spa src tpa @ pad \<and> spa \<in> set targets"
    using body by blast
next
  assume "\<exists>dst from t spa tpa pad.
      frame = arp_packet dst from t 2 m spa src tpa @ pad \<and> spa \<in> set targets"
  then obtain dst "from" t spa tpa pad where
    f: "frame = arp_packet dst from t 2 m spa src tpa @ pad" and spa: "spa \<in> set targets"
    by blast
  let ?body = "arp_body 2 m spa src tpa"
  let ?pre = "mac_bytes dst @ mac_bytes from @ tag_bytes t @ [8, 6]"
  have "network_header frame = Some (14 + length (tag_bytes t), ETHERTYPE_ARP)"
    using network_header_frame [of dst "from" t 8 6 "?body @ pad"] f
    by (simp add: arp_packet_def be_consts)
  moreover have "get_range (?pre @ ?body @ pad) (14 + length (tag_bytes t))
      (14 + length (tag_bytes t) + 28) = Some ?body"
    by (rule get_range_append) auto
  ultimately show "reply_from frame src targets = Some m"
    using f spa by (simp add: reply_from_alt arp_packet_def check_body_arp_body)
qed

lemma arp_packet_Untagged_inject:
  "arp_packet dst from Untagged op sha spa tha tpa @ pad =
     arp_packet dst' from' t' op' sha' spa' tha' tpa' @ pad' \<Longrightarrow>
   t' = Untagged \<and> op = op' \<and> sha = sha' \<and> spa = spa' \<and> tha = tha' \<and> tpa = tpa'"
proof (cases t')
  case (Tagged q a b)
  assume "arp_packet dst from Untagged op sha spa tha tpa @ pad =
     arp_packet dst' from' t' op' sha' spa' tha' tpa' @ pad'"
  then have "[8, 6] @ arp_body op sha spa tha tpa @ pad =
      tag_bytes t' @ [8, 6] @ arp_body op' sha' spa' tha' tpa' @ pad'"
    by (simp add: arp_packet_def)
  then show ?thesis
    using Tagged by (auto split: if_splits)
qed (auto simp: arp_packet_def arp_body_def)

section \<open>The OSPF recogniser\<close>

definition ospf_header :: "u8 list \<Rightarrow> bool" where
  "ospf_header hdr \<longleftrightarrow> 20 \<le> length hdr \<and> length hdr = unat (take_bit 4 (hdr ! 0)) * 4 \<and>
     hdr ! 9 = 89 \<and> take 4 (drop 16 hdr) = [224, 0, 0, 5]"

definition ospf_packet ::
  "mac \<Rightarrow> mac \<Rightarrow> tag \<Rightarrow> u8 list \<Rightarrow> u8 list \<Rightarrow> u32 \<Rightarrow> u8 list" where
  "ospf_packet dst src t hdr vtl rid =
     mac_bytes dst @ mac_bytes src @ tag_bytes t @ [8, 0] @ hdr @ vtl @ octets rid"

lemma hello_router_id_alt:
  "hello_router_id frame = do {
     (ip, ethertype) \<leftarrow> network_header frame;
     if ethertype \<noteq> ETHERTYPE_IPV4 then None else do {
       vihl \<leftarrow> get_at frame ip;
       let ihl = unat (take_bit 4 vihl) * 4;
       if ihl < 20 then None else do {
         hdr \<leftarrow> get_range frame ip (ip + ihl);
         if hdr ! 9 \<noteq> IPPROTO_OSPF \<or> take 4 (drop 16 hdr) \<noteq> ALL_SPF_ROUTERS then None else do {
           rid \<leftarrow> get_range frame (ip + ihl + 4) (ip + ihl + 8);
           Some (u32_from_be (rid ! 0) (rid ! 1) (rid ! 2) (rid ! 3))
         }
       }
     }
   }"
  by (auto simp: hello_router_id_def network_header_def split: Option.bind_splits)

lemma u32_from_be_nth: "length xs = 4 \<Longrightarrow> u32_from_be (xs ! 0) (xs ! 1) (xs ! 2) (xs ! 3) = w \<longleftrightarrow>
    xs = octets w"
proof -
  assume "length xs = 4"
  then obtain a b c d where "xs = [a, b, c, d]"
    by (auto simp: length_Suc_conv numeral_eq_Suc)
  then show ?thesis
    by (rule_tac u32_exhaust [of w]) simp
qed

text \<open>The OSPF recogniser. A router id is read from a frame exactly when the frame is, behind at most
  one VLAN tag, an IPv4 packet of protocol OSPF to 224.0.0.5 whose header is complete, followed
  by an OSPF header that carries that router id.\<close>

theorem hello_router_id_iff:
  "hello_router_id frame = Some rid \<longleftrightarrow>
     (\<exists>dst from t hdr vtl rest. frame = ospf_packet dst from t hdr vtl rid @ rest \<and>
        ospf_header hdr \<and> length vtl = 4)"
proof
  assume "hello_router_id frame = Some rid"
  then obtain ip et vihl hdr r where nh: "network_header frame = Some (ip, et)"
    and et: "et = ETHERTYPE_IPV4" and v: "get_at frame ip = Some vihl"
    and ihl: "20 \<le> unat (take_bit 4 vihl) * 4"
    and hdr: "get_range frame ip (ip + unat (take_bit 4 vihl) * 4) = Some hdr"
    and ospf: "hdr ! 9 = 89" "take 4 (drop 16 hdr) = [224, 0, 0, 5]"
    and r: "get_range frame (ip + unat (take_bit 4 vihl) * 4 + 4)
        (ip + unat (take_bit 4 vihl) * 4 + 8) = Some r"
    and rid: "u32_from_be (r ! 0) (r ! 1) (r ! 2) (r ! 3) = rid"
    by (auto simp: hello_router_id_alt Let_def frame_consts split: Option.bind_splits if_splits)
  let ?ihl = "unat (take_bit 4 vihl) * 4"
  obtain dst "from" t x y rest where
    f: "frame = mac_bytes dst @ mac_bytes from @ tag_bytes t @ [x, y] @ rest"
    and xy: "et = u16_from_be x y" and off: "ip = 14 + length (tag_bytes t)"
    using nh by (rule network_header_Some) blast
  obtain pre post where 1: "frame = pre @ r @ post" "length pre = ip + ?ihl + 4" "length r = 4"
    using r by (auto simp: get_range_split)
  obtain p vtl where 2: "pre = p @ vtl" "length p = ip + ?ihl" "length vtl = 4"
    using 1(2) by (rule split_at_length)
  obtain q hdr' where 3: "p = q @ hdr'" "length q = ip" "length hdr' = ?ihl"
    using 2(2) by (rule split_at_length)
  have "frame = q @ hdr' @ (vtl @ r @ post)"
    using 1(1) 2(1) 3(1) by simp
  then have hdr': "hdr' = hdr"
    using hdr 3 by (auto simp: get_range_def)
  have vihl: "hdr ! 0 = vihl"
    using v 3 ihl hdr' \<open>frame = q @ hdr' @ (vtl @ r @ post)\<close>
    by (cases hdr) (auto simp: get_at_def split: if_splits)
  have "q @ (hdr' @ vtl @ r @ post) = (mac_bytes dst @ mac_bytes from @ tag_bytes t @ [x, y]) @ rest"
    using f 1(1) 2(1) 3(1) by simp
  then have "q = mac_bytes dst @ mac_bytes from @ tag_bytes t @ [x, y]"
    by (rule append_prefix_unique) (use 3(2) off in auto)
  moreover have "r = octets rid"
    using rid 1(3) u32_from_be_nth by blast
  ultimately have "frame = ospf_packet dst from t hdr vtl rid @ post"
    using 1 2 3 hdr' xy et by (simp add: ospf_packet_def be_consts)
  moreover have "ospf_header hdr"
    using 3(3) hdr' ihl ospf vihl by (simp add: ospf_header_def)
  ultimately show "\<exists>dst from t hdr vtl rest. frame = ospf_packet dst from t hdr vtl rid @ rest \<and>
        ospf_header hdr \<and> length vtl = 4"
    using 2(3) by blast
next
  assume "\<exists>dst from t hdr vtl rest. frame = ospf_packet dst from t hdr vtl rid @ rest \<and>
        ospf_header hdr \<and> length vtl = 4"
  then obtain dst "from" t hdr vtl rest where f: "frame = ospf_packet dst from t hdr vtl rid @ rest"
    and h: "ospf_header hdr" and vtl: "length vtl = 4"
    by blast
  let ?pre = "mac_bytes dst @ mac_bytes from @ tag_bytes t @ [8, 0]"
  let ?ip = "14 + length (tag_bytes t)"
  have f': "frame = ?pre @ hdr @ vtl @ octets rid @ rest"
    using f by (simp add: ospf_packet_def)
  have "network_header frame = Some (?ip, ETHERTYPE_IPV4)"
    using network_header_frame [of dst "from" t 8 0 "hdr @ vtl @ octets rid @ rest"] f'
    by (simp add: be_consts)
  moreover have "get_at frame ?ip = Some (hdr ! 0)"
    using h unfolding f' by (auto simp: get_at_def nth_append ospf_header_def)
  moreover have "get_range frame ?ip (?ip + unat (take_bit 4 (hdr ! 0)) * 4) = Some hdr"
    using h unfolding f' by (intro get_range_append) (auto simp: ospf_header_def)
  moreover have "get_range ((?pre @ hdr @ vtl) @ octets rid @ rest)
      (?ip + unat (take_bit 4 (hdr ! 0)) * 4 + 4) (?ip + unat (take_bit 4 (hdr ! 0)) * 4 + 8)
      = Some (octets rid)"
    using h vtl by (intro get_range_append) (auto simp: ospf_header_def)
  moreover have "u32_from_be (octets rid ! 0) (octets rid ! 1) (octets rid ! 2) (octets rid ! 3) = rid"
    by (subst u32_from_be_nth) auto
  ultimately show "hello_router_id frame = Some rid"
    using h f' by (simp add: hello_router_id_alt Let_def frame_consts ospf_header_def)
qed

lemma request_is_no_reply:
  "reply_from (arp_packet dst sender Untagged 1 sha spa tha tpa @ pad) src targets = None"
proof (rule ccontr)
  assume "reply_from (arp_packet dst sender Untagged 1 sha spa tha tpa @ pad) src targets \<noteq> None"
  then obtain m where "reply_from (arp_packet dst sender Untagged 1 sha spa tha tpa @ pad) src targets = Some m"
    by blast
  then obtain dst' from' t' spa' tpa' pad' where
    "arp_packet dst sender Untagged 1 sha spa tha tpa @ pad = arp_packet dst' from' t' 2 m spa' src tpa' @ pad'"
    unfolding reply_from_iff by blast
  from arp_packet_Untagged_inject [OF this] show False
    by simp
qed

text \<open>The reply recogniser. A frame counts as an answer, from the MAC \<open>m\<close>, exactly when it is, behind
  at most one VLAN tag, an ARP reply sent by \<open>m\<close> to the prober's own synthetic address on behalf
  of one of the routers asked for; trailing padding is ignored. A probe, the prober's own or
  another member's, is never an answer.\<close>

theorem reply_codec:
  "(reply_from frame src targets = Some m \<longleftrightarrow>
     (\<exists>dst from t spa tpa pad.
        frame = arp_packet dst from t 2 m spa src tpa @ pad \<and> spa \<in> set targets)) \<and>
   reply_from (probe src' router @ pad') src targets = None"
  unfolding probe_layout by (rule conjI [OF reply_from_iff request_is_no_reply])

end
