(* ===== verification/Prober_Bpf.thy ===== *)
theory Prober_Bpf
  imports Prober_Frame
begin

text \<open>
  The classic-BPF program every tap wears (\<open>src/src/prober/bpf.rs\<close>) and the interpreter of
  the classic subset that ships beside it (module \<open>interp\<close>). The program is shown to decide
  exactly "ARP, or OSPF to AllSPFRouters", never to run out of its instruction budget, and
  never to drop a frame that the codec of \<open>Prober_Frame\<close> would read as evidence.
\<close>

record Insn =
  code :: u16
  jt :: u8
  jf :: u8
  k :: u32

definition insn :: "u16 \<Rightarrow> u8 \<Rightarrow> u8 \<Rightarrow> u32 \<Rightarrow> Insn" where
  "insn c t f v = \<lparr>code = c, jt = t, jf = f, k = v\<rparr>"

definition LD_H_ABS :: u16 where "LD_H_ABS = 0x28"
definition LD_B_ABS :: u16 where "LD_B_ABS = 0x30"
definition LD_W_ABS :: u16 where "LD_W_ABS = 0x20"
definition JEQ_K :: u16 where "JEQ_K = 0x15"
definition RET_K :: u16 where "RET_K = 0x06"

definition BPF_ETHERTYPE_ARP :: u32 where "BPF_ETHERTYPE_ARP = 0x0806"
definition BPF_ETHERTYPE_IPV4 :: u32 where "BPF_ETHERTYPE_IPV4 = 0x0800"
definition BPF_IPPROTO_OSPF :: u32 where "BPF_IPPROTO_OSPF = 89"
definition BPF_ALL_SPF_ROUTERS :: u32 where "BPF_ALL_SPF_ROUTERS = 0xe0000005"
definition ACCEPT :: u32 where "ACCEPT = 0x00040000"

definition FILTER :: "Insn list" where
  "FILTER = [
     insn LD_H_ABS 0 0 12,
     insn JEQ_K 5 0 BPF_ETHERTYPE_ARP,
     insn JEQ_K 0 5 BPF_ETHERTYPE_IPV4,
     insn LD_B_ABS 0 0 23,
     insn JEQ_K 0 3 BPF_IPPROTO_OSPF,
     insn LD_W_ABS 0 0 30,
     insn JEQ_K 0 1 BPF_ALL_SPF_ROUTERS,
     insn RET_K 0 0 ACCEPT,
     insn RET_K 0 0 0]"

text \<open>
  The interpreter: \<open>Returned v\<close> is the value handed back to the kernel, the other two
  constructors are the interpreter's two panics.
\<close>

datatype bpf_result = Returned u32 | BadOpcode u16 | BudgetExceeded

fun run_loop :: "nat \<Rightarrow> Insn list \<Rightarrow> u8 list \<Rightarrow> nat \<Rightarrow> u32 \<Rightarrow> bpf_result" where
  "run_loop 0 prog frame pc a = BudgetExceeded"
| "run_loop (Suc budget) prog frame pc a =
     (case get_at prog pc of
        None \<Rightarrow> Returned 0
      | Some i \<Rightarrow>
          (let pc = pc + 1; kk = unat (k i) in
           if code i = LD_B_ABS then
             (case get_at frame kk of
                Some b \<Rightarrow> run_loop budget prog frame pc (ucast b)
              | None \<Rightarrow> Returned 0)
           else if code i = LD_H_ABS then
             (case get_range frame kk (kk + 2) of
                Some b \<Rightarrow> run_loop budget prog frame pc (ucast (u16_from_be (b ! 0) (b ! 1)))
              | None \<Rightarrow> Returned 0)
           else if code i = LD_W_ABS then
             (case get_range frame kk (kk + 4) of
                Some b \<Rightarrow> run_loop budget prog frame pc (u32_from_be (b ! 0) (b ! 1) (b ! 2) (b ! 3))
              | None \<Rightarrow> Returned 0)
           else if code i = JEQ_K then
             run_loop budget prog frame (pc + unat (if a = k i then jt i else jf i)) a
           else if code i = RET_K then Returned (k i)
           else BadOpcode (code i)))"

definition run :: "Insn list \<Rightarrow> u8 list \<Rightarrow> bpf_result" where
  "run prog frame = run_loop 4096 prog frame 0 0"

section \<open>What the filter decides\<close>

definition evidence_frame :: "u8 list \<Rightarrow> bool" where
  "evidence_frame f \<longleftrightarrow> 14 \<le> length f \<and>
     ([f ! 12, f ! 13] = [8, 6] \<or>
      [f ! 12, f ! 13] = [8, 0] \<and> 34 \<le> length f \<and> f ! 23 = 89 \<and>
        [f ! 30, f ! 31, f ! 32, f ! 33] = [224, 0, 0, 5])"

lemmas bpf_consts = LD_H_ABS_def LD_B_ABS_def LD_W_ABS_def JEQ_K_def RET_K_def
  BPF_ETHERTYPE_ARP_def BPF_ETHERTYPE_IPV4_def BPF_IPPROTO_OSPF_def BPF_ALL_SPF_ROUTERS_def

lemma ucast_u16_eq:
  "(ucast (u16_from_be a b) :: u32) = 0x0806 \<longleftrightarrow> a = 8 \<and> b = 6"
  "(ucast (u16_from_be a b) :: u32) = 0x0800 \<longleftrightarrow> a = 8 \<and> b = 0"
proof -
  have "ucast (ucast w :: u32) = w" for w :: u16
    by (rule ucast_up_ucast_id) (simp add: is_up)
  then have u: "(ucast w :: u32) = ucast v \<longleftrightarrow> w = v" for w v :: u16
    by metis
  have "(0x0806 :: u32) = ucast (u16_from_be 8 6)" "(0x0800 :: u32) = ucast (u16_from_be 8 0)"
    by (simp_all add: u16_from_be_def)
  then show "(ucast (u16_from_be a b) :: u32) = 0x0806 \<longleftrightarrow> a = 8 \<and> b = 6"
    "(ucast (u16_from_be a b) :: u32) = 0x0800 \<longleftrightarrow> a = 8 \<and> b = 0"
    by (simp_all only: u u16_from_be_inject)
qed

lemma u32_all_spf: "u32_from_be a b c d = 0xe0000005 \<longleftrightarrow> a = 224 \<and> b = 0 \<and> c = 0 \<and> d = 5"
proof -
  have "(0xe0000005 :: u32) = u32_from_be 224 0 0 5"
    by (simp add: u32_from_be_def)
  then show ?thesis
    by (simp only: u32_from_be_inject)
qed

lemma ucast_u8_eq: "(ucast (a :: u8) :: u32) = 89 \<longleftrightarrow> a = 89"
proof -
  have "ucast (ucast w :: u32) = w" for w :: u8
    by (rule ucast_up_ucast_id) (simp add: is_up)
  moreover have "(89 :: u32) = ucast (89 :: u8)"
    by simp
  ultimately show ?thesis
    by metis
qed

text \<open>One lemma per instruction: the loop at each program counter of \<open>FILTER\<close>.\<close>

lemma filter_at:
  "get_at FILTER 0 = Some (insn 0x28 0 0 12)"
  "get_at FILTER 1 = Some (insn 0x15 5 0 0x0806)"
  "get_at FILTER 2 = Some (insn 0x15 0 5 0x0800)"
  "get_at FILTER 3 = Some (insn 0x30 0 0 23)"
  "get_at FILTER 4 = Some (insn 0x15 0 3 89)"
  "get_at FILTER 5 = Some (insn 0x20 0 0 30)"
  "get_at FILTER 6 = Some (insn 0x15 0 1 0xe0000005)"
  "get_at FILTER 7 = Some (insn 0x06 0 0 ACCEPT)"
  "get_at FILTER 8 = Some (insn 0x06 0 0 0)"
  by (simp_all add: FILTER_def get_at_def bpf_consts)

lemma loads:
  "get_range f 12 14 = (if 14 \<le> length f then Some [f ! 12, f ! 13] else None)"
  "get_range f 30 34 = (if 34 \<le> length f then Some [f ! 30, f ! 31, f ! 32, f ! 33] else None)"
  "get_at f 23 = (if 24 \<le> length f then Some (f ! 23) else None)"
  using get_range2 [of f 12] get_range4 [of f 30] by (auto simp: get_at_def)

lemma filter_step:
  "run_loop (Suc n) FILTER f 0 a =
     (if 14 \<le> length f then run_loop n FILTER f 1 (ucast (u16_from_be (f ! 12) (f ! 13)))
      else Returned 0)"
  "run_loop (Suc n) FILTER f 1 a = run_loop n FILTER f (if a = 0x0806 then 7 else 2) a"
  "run_loop (Suc n) FILTER f 2 a = run_loop n FILTER f (if a = 0x0800 then 3 else 8) a"
  "run_loop (Suc n) FILTER f 3 a =
     (if 24 \<le> length f then run_loop n FILTER f 4 (ucast (f ! 23)) else Returned 0)"
  "run_loop (Suc n) FILTER f 4 a = run_loop n FILTER f (if a = 89 then 5 else 8) a"
  "run_loop (Suc n) FILTER f 5 a =
     (if 34 \<le> length f
      then run_loop n FILTER f 6 (u32_from_be (f ! 30) (f ! 31) (f ! 32) (f ! 33)) else Returned 0)"
  "run_loop (Suc n) FILTER f 6 a = run_loop n FILTER f (if a = 0xe0000005 then 7 else 8) a"
  "run_loop (Suc n) FILTER f 7 a = Returned ACCEPT"
  "run_loop (Suc n) FILTER f 8 a = Returned 0"
  by (simp_all add: filter_at insn_def bpf_consts loads del: One_nat_def)
    (simp add: numeral_2_eq_2)

lemma run_loop_FILTER:
  "run_loop (Suc (Suc (Suc (Suc (Suc (Suc (Suc (Suc (Suc n))))))))) FILTER f 0 0 =
     Returned (if evidence_frame f then ACCEPT else 0)"
  by (simp add: filter_step ucast_u16_eq ucast_u8_eq u32_all_spf evidence_frame_def
      del: One_nat_def run_loop.simps)

lemma run_FILTER: "run FILTER f = Returned (if evidence_frame f then ACCEPT else 0)"
  using run_loop_FILTER [of 4087 f] by (simp add: run_def)

lemma evidence_untagged:
  assumes "network_header f = Some (off, et)" "et = ETHERTYPE_ARP \<or> et = ETHERTYPE_IPV4" "off = 14"
  shows "14 \<le> length f \<and> et = u16_from_be (f ! 12) (f ! 13)"
proof -
  from assms obtain e where "get_range f 12 14 = Some e" and et: "et = be16 e"
    by (auto simp: network_header_def split: Option.bind_splits if_splits)
  then show ?thesis
    by (auto simp: loads split: if_splits)
qed

text \<open>C10: the filter a tap wears returns the accept value exactly on ARP frames and on OSPF
  packets to AllSPFRouters (untagged), returns zero on every other frame however short, and
  never panics or exhausts its instruction budget.\<close>

theorem filter_decides_evidence:
  "run FILTER f = Returned (if evidence_frame f then ACCEPT else 0)"
  by (rule run_FILTER)

text \<open>The filter never hides evidence. Every untagged frame that the codec reads as a reply
  to one of our probes, or as an OSPF packet of a member, is accepted by the filter.\<close>

theorem filter_keeps_evidence:
  assumes "reply_from f src targets \<noteq> None \<or> hello_router_id f \<noteq> None"
    and "\<exists>et. network_header f = Some (14, et)"
  shows "run FILTER f = Returned ACCEPT"
proof -
  obtain et where nh: "network_header f = Some (14, et)"
    using assms(2) by blast
  have "evidence_frame f"
    using assms(1)
  proof
    assume "reply_from f src targets \<noteq> None"
    with nh have "et = ETHERTYPE_ARP"
      by (auto simp: reply_from_alt split: if_splits)
    with evidence_untagged [OF nh] show ?thesis
      by (simp add: evidence_frame_def be_consts)
  next
    assume "hello_router_id f \<noteq> None"
    with nh obtain v :: u8 and hdr where et: "et = ETHERTYPE_IPV4" and v: "20 \<le> unat (take_bit 4 v) * 4"
      and hdr: "get_range f 14 (14 + unat (take_bit 4 v) * 4) = Some hdr"
      and ospf: "hdr ! 9 = 89" "take 4 (drop 16 hdr) = [224, 0, 0, 5]"
      by (auto simp: hello_router_id_alt frame_consts Let_def not_less
          split: if_splits Option.bind_splits)
    have "length hdr = unat (take_bit 4 v) * 4" and len: "14 + unat (take_bit 4 v) * 4 \<le> length f"
      using hdr by (auto simp: get_range_def split: if_splits)
    moreover have "hdr ! i = f ! (14 + i)" if "i < 20" for i
      using nth_get_range [OF hdr, of i] v that by simp
    moreover have "take 4 (drop 16 hdr) = [hdr ! 16, hdr ! 17, hdr ! 18, hdr ! 19]"
      using get_range4 [of hdr 16] v calculation(1) by (simp add: get_range_def split: if_splits)
    ultimately show ?thesis
      using evidence_untagged [OF nh] et v ospf by (simp add: evidence_frame_def be_consts)
  qed
  then show ?thesis
    by (simp add: run_FILTER)
qed

text \<open>Witness: a 42-byte ARP reply from a router that was probed.\<close>

theorem filter_keeps_evidence_witness:
  "let f = arp_packet (synthetic_mac 1 9 0) (1, 2, 3, 4, 5, 6) Untagged 2 (1, 2, 3, 4, 5, 6)
             0x0a630901 (synthetic_mac 1 9 0) 0x0a630902
   in reply_from f (synthetic_mac 1 9 0) [0x0a630901] = Some (1, 2, 3, 4, 5, 6) \<and>
      run FILTER f = Returned ACCEPT"
proof -
  let ?f = "arp_packet (synthetic_mac 1 9 0) (1, 2, 3, 4, 5, 6) Untagged 2 (1, 2, 3, 4, 5, 6)
             0x0a630901 (synthetic_mac 1 9 0) 0x0a630902"
  have r: "reply_from ?f (synthetic_mac 1 9 0) [0x0a630901] = Some (1, 2, 3, 4, 5, 6)"
    by (simp add: arp_packet_def arp_body_def synthetic_mac_def mac_bytes_def octets_def
        reply_from_def get_range_def be_consts u32_from_be_def)
  moreover have "\<exists>et. network_header ?f = Some (14, et)"
    by (simp add: arp_packet_def arp_body_def synthetic_mac_def mac_bytes_def octets_def
        network_header_def get_range_def be_consts)
  ultimately show ?thesis
    using filter_keeps_evidence [of ?f "synthetic_mac 1 9 0" "[0x0a630901]"] by simp
qed

end
