(* ===== verification/Machines.thy ===== *)
theory Machines
  imports Main
begin

text \<open>
  The interface every stateful component of the development is used through. A component is a
  step function on its state, a run is the fold of the step over the calls it receives, and the
  locale's law is that each call keeps the component's invariant. The component theories
  interpret the locale on their own step functions: the neighbor table, the hysteresis, the
  relays on their shared host and the announcer.
\<close>

locale invariant_machine =
  fixes step :: "'s \<Rightarrow> 'e \<Rightarrow> 's"
    and inv :: "'s \<Rightarrow> bool"
  assumes step_inv: "inv s \<Longrightarrow> inv (step s e)"
begin

lemma run_inv: "inv s \<Longrightarrow> inv (foldl step s es)"
  by (induction es arbitrary: s) (auto intro: step_inv)

text \<open>A quantity no call decreases is not decreased by a run.\<close>

lemma run_mono:
  fixes m :: "'s \<Rightarrow> 'a::preorder"
  assumes "\<And>s e. inv s \<Longrightarrow> m s \<le> m (step s e)" and "inv s"
  shows "m s \<le> m (foldl step s es)"
  using assms(2)
proof (induction es arbitrary: s)
  case (Cons e es)
  have "m s \<le> m (step s e)"
    using Cons.prems by (rule assms(1))
  also have "\<dots> \<le> m (foldl step (step s e) es)"
    using Cons.prems by (intro Cons.IH step_inv)
  finally show ?case
    by simp
qed simp

text \<open>A quantity each call raises by at most the call's cost is raised by a run by at most the
  sum of the costs.\<close>

lemma run_cost:
  fixes m :: "'s \<Rightarrow> nat"
  assumes "\<And>s e. inv s \<Longrightarrow> m (step s e) \<le> m s + cost e" and "inv s"
  shows "m (foldl step s es) \<le> m s + sum_list (map cost es)"
  using assms(2)
proof (induction es arbitrary: s)
  case (Cons e es)
  have "m (foldl step (step s e) es) \<le> m (step s e) + sum_list (map cost es)"
    using Cons.prems by (intro Cons.IH step_inv)
  with assms(1) [OF Cons.prems, of e] show ?case
    by simp
qed simp

end

end
