(* ===== verification/Prober_Decide.thy ===== *)
theory Prober_Decide
  imports Prelude Machines
begin

text \<open>
  The two pure decisions of the ingress prober (\<open>src/src/prober/decide.rs\<close>): the three-out-of-
  three hysteresis on one wire's reachability, and the choice of the port a bond should be
  active on. The hysteresis is shown equal to a reference definition that looks for the latest
  three equal observations; the choice is shown to pick the best usable port, to be stable
  once it has been followed, and never to ask for a port the kernel would refuse.
\<close>

section \<open>Hysteresis\<close>

definition HYSTERESIS :: u8 where "HYSTERESIS = 3"

record Hysteresis =
  reachable :: bool
  streak :: u8

definition default_hysteresis :: Hysteresis where
  "default_hysteresis = \<lparr>reachable = True, streak = 0\<rparr>"

definition saturating_add_u8 :: "u8 \<Rightarrow> u8 \<Rightarrow> u8" where
  "saturating_add_u8 a b = (if unat a + unat b \<ge> 256 then 255 else a + b)"

definition saturating_sub_u8 :: "u8 \<Rightarrow> u8 \<Rightarrow> u8" where
  "saturating_sub_u8 a b = (if a < b then 0 else a - b)"

definition observe :: "Hysteresis \<Rightarrow> bool \<Rightarrow> Hysteresis" where
  "observe h replied =
     (if replied = reachable h then h\<lparr>streak := 0\<rparr>
      else let s = saturating_add_u8 (streak h) 1 in
        if s \<ge> HYSTERESIS then h\<lparr>reachable := replied, streak := 0\<rparr>
        else h\<lparr>streak := s\<rparr>)"

definition heard :: "Hysteresis \<Rightarrow> Hysteresis" where
  "heard h = h\<lparr>reachable := True, streak := 0\<rparr>"

definition precharge :: "Hysteresis \<Rightarrow> Hysteresis" where
  "precharge h = (if reachable h then h\<lparr>streak := saturating_sub_u8 HYSTERESIS 1\<rparr> else h)"

datatype hys_call = Observe bool | Heard | Precharge

fun hys_step :: "Hysteresis \<Rightarrow> hys_call \<Rightarrow> Hysteresis" where
  "hys_step h (Observe r) = observe h r"
| "hys_step h Heard = heard h"
| "hys_step h Precharge = precharge h"

text \<open>The streak never reaches the threshold between two calls, so it never saturates.\<close>

definition hys_inv :: "Hysteresis \<Rightarrow> bool" where
  "hys_inv h \<longleftrightarrow> streak h \<in> {0, 1, 2}"

lemma hys_inv_default: "hys_inv default_hysteresis"
  by (simp add: hys_inv_def default_hysteresis_def)

lemmas hys_defs = observe_def heard_def precharge_def HYSTERESIS_def saturating_add_u8_def
  saturating_sub_u8_def Let_def

interpretation hys: invariant_machine hys_step hys_inv
proof
  fix h e
  show "hys_inv h \<Longrightarrow> hys_inv (hys_step h e)"
    by (cases e) (auto simp: hys_inv_def hys_defs)
qed

text \<open>The reference: the value of the latest three consecutive equal observations, and
  reachable when there is none yet. The argument lists the newest observation first.\<close>

fun latest_run :: "bool list \<Rightarrow> bool" where
  "latest_run (a # b # c # os) = (if a = b \<and> b = c then a else latest_run (b # c # os))"
| "latest_run _ = True"

text \<open>How many of the newest observations disagree with a verdict, in a row.\<close>

fun disagreeing :: "bool \<Rightarrow> bool list \<Rightarrow> nat" where
  "disagreeing r (a # os) = (if a \<noteq> r then Suc (disagreeing r os) else 0)"
| "disagreeing r [] = 0"

definition hys_abs :: "bool list \<Rightarrow> Hysteresis" where
  "hys_abs os = \<lparr>reachable = latest_run os, streak = word_of_nat (disagreeing (latest_run os) os)\<rparr>"

lemma disagreeing_less: "disagreeing (latest_run os) os < 3"
  by (induction os rule: latest_run.induct) (auto split: if_splits)

lemma observe_hys_abs: "observe (hys_abs os) r = hys_abs (r # os)"
proof -
  consider "os = []" | a where "os = [a]" | a b os' where "os = a # b # os'"
    by (metis neq_Nil_conv)
  then show ?thesis
  proof cases
    case (3 a b os')
    have "disagreeing (latest_run os) os < 3"
      by (rule disagreeing_less)
    then show ?thesis
      using 3 by (cases r; cases a; cases b)
        (auto simp: hys_abs_def hys_defs word_le_nat_alt split: if_splits)
  qed (auto simp: hys_abs_def hys_defs word_le_nat_alt)
qed

lemma hys_abs_Nil: "hys_abs [] = default_hysteresis"
  by (simp add: hys_abs_def default_hysteresis_def)

lemma observe_run: "foldl observe (hys_abs os) obs = hys_abs (rev obs @ os)"
  by (induction obs arbitrary: os) (auto simp: observe_hys_abs)

text \<open>C39: after any sequence of probe results a wire's verdict is the value of the latest three
  consecutive equal results, and reachable as long as there were no three equal ones: the
  verdict never moves on fewer than three agreeing results and always moves on three.\<close>

theorem hysteresis_is_latest_run:
  "reachable (foldl observe default_hysteresis obs) = latest_run (rev obs)"
  using observe_run [of "[]" obs] unfolding hys_abs_Nil by (simp add: hys_abs_def)

text \<open>Whatever mix of observations, heard frames and precharges a wire goes through, its
  streak stays below the threshold; one heard frame makes it reachable; and right after a
  precharge of a reachable wire a single further miss makes it unreachable.\<close>

theorem hysteresis_mixed_calls:
  "let h = foldl hys_step default_hysteresis calls in
     unat (streak h) < 3 \<and>
     reachable (hys_step h Heard) \<and> streak (hys_step h Heard) = 0 \<and>
     \<not> reachable (hys_step (hys_step h Precharge) (Observe False)) \<and>
     (reachable h \<longleftrightarrow> reachable (hys_step h Precharge))"
proof -
  have "hys_inv (foldl hys_step default_hysteresis calls)"
    by (rule hys.run_inv) (rule hys_inv_default)
  then show ?thesis
    by (auto simp: hys_inv_def hys_defs Let_def word_le_nat_alt)
qed

section \<open>The choice of the active port\<close>

datatype BondLink = Up | GoingBack | GoingDown | Down | UnknownLink u8

record Candidate =
  ifname :: string
  wire :: string
  cand_reachable :: bool
  carrier :: bool
  link_up :: bool

definition usable :: "Candidate \<Rightarrow> bool" where
  "usable c \<longleftrightarrow> cand_reachable c \<and> carrier c \<and> link_up c"

text \<open>\<open>usize::MAX - 1\<close> on a 64-bit host.\<close>

definition rank :: "string list \<Rightarrow> string \<Rightarrow> nat" where
  "rank prefs w = (case position (\<lambda>p. p = w) prefs of Some i \<Rightarrow> i | None \<Rightarrow> 2 ^ 64 - 2)"

definition skipped_for_carrier ::
  "string option \<Rightarrow> Candidate list \<Rightarrow> string list \<Rightarrow> Candidate option" where
  "skipped_for_carrier on cands prefs =
     (case Option.bind on (\<lambda>a. find (\<lambda>c. ifname c = a) cands) of
        None \<Rightarrow> None
      | Some c \<Rightarrow>
          let here = rank prefs (wire c) in
          min_by_key (\<lambda>c. rank prefs (wire c))
            (filter (\<lambda>c. \<not> carrier c \<and> rank prefs (wire c) < here) cands))"

definition best_usable :: "Candidate list \<Rightarrow> string list \<Rightarrow> Candidate option" where
  "best_usable cands prefs =
     map_option snd (min_by_key (\<lambda>(i, c). (rank prefs (wire c), i))
       (filter (\<lambda>(i, c). usable c) (enumerate 0 cands)))"

definition decide :: "string option \<Rightarrow> Candidate list \<Rightarrow> string list \<Rightarrow> string option" where
  "decide active cands prefs =
     (case best_usable cands prefs of
        None \<Rightarrow> None
      | Some best \<Rightarrow>
          (case Option.bind active (\<lambda>a. find (\<lambda>c. ifname c = a) cands) of
             Some c \<Rightarrow>
               if usable c \<and> rank prefs (wire c) \<le> rank prefs (wire best) then None
               else Some (ifname best)
           | None \<Rightarrow> Some (ifname best)))"

text \<open>The prober's preference: the first candidate of the least rank among the usable ones.\<close>

lemma best_usable_None: "best_usable cands prefs = None \<longleftrightarrow> (\<forall>c\<in>set cands. \<not> usable c)"
proof -
  have "filter (\<lambda>(i, c). usable c) (enumerate n cands) = [] \<longleftrightarrow> (\<forall>c\<in>set cands. \<not> usable c)" for n
    by (induction cands arbitrary: n) auto
  then show ?thesis
    by (simp add: best_usable_def)
qed

lemma best_usable_SomeD:
  assumes "best_usable cands prefs = Some b"
  obtains i where "i < length cands" "cands ! i = b" "usable b"
    "\<And>j. j < length cands \<Longrightarrow> usable (cands ! j) \<Longrightarrow>
       rank prefs (wire b) < rank prefs (wire (cands ! j)) \<or>
       rank prefs (wire b) = rank prefs (wire (cands ! j)) \<and> i \<le> j"
proof -
  let ?key = "\<lambda>(i, c). (rank prefs (wire c), i)"
  let ?cs = "filter (\<lambda>(i, c). usable c) (enumerate 0 cands)"
  obtain i where min: "min_by_key ?key ?cs = Some (i, b)"
    using assms by (auto simp: best_usable_def)
  then have "(i, b) \<in> set ?cs"
    by (rule min_by_key_in)
  then have "i < length cands" "cands ! i = b" "usable b"
    by (auto simp: in_set_enumerate_eq)
  moreover have "rank prefs (wire b) < rank prefs (wire (cands ! j)) \<or>
       rank prefs (wire b) = rank prefs (wire (cands ! j)) \<and> i \<le> j"
    if "j < length cands" "usable (cands ! j)" for j
  proof -
    have "(j, cands ! j) \<in> set ?cs"
      using that by (auto simp: in_set_enumerate_eq)
    from min_by_key_le [OF min this] show ?thesis
      by (auto simp: less_eq_prod_def)
  qed
  ultimately show thesis
    by (rule that)
qed

text \<open>The prober leaves the bond alone exactly when no port is usable, or when the port the
  bond is on is usable and no usable port is better preferred.\<close>

theorem decide_None_iff:
  "decide active cands prefs = None \<longleftrightarrow>
     (\<forall>c\<in>set cands. \<not> usable c) \<or>
     (\<exists>a c. active = Some a \<and> find (\<lambda>c. ifname c = a) cands = Some c \<and> usable c \<and>
        (\<forall>d\<in>set cands. usable d \<longrightarrow> rank prefs (wire c) \<le> rank prefs (wire d)))"
proof (cases "best_usable cands prefs")
  case None
  then show ?thesis
    using best_usable_None [of cands prefs] by (simp add: decide_def)
next
  case (Some b)
  then obtain i where b: "i < length cands" "cands ! i = b" "usable b"
    and min: "\<And>j. j < length cands \<Longrightarrow> usable (cands ! j) \<Longrightarrow>
       rank prefs (wire b) \<le> rank prefs (wire (cands ! j))"
    by (rule best_usable_SomeD) (metis order_less_imp_le order_refl)
  have "b \<in> set cands"
    using b by auto
  moreover have "\<forall>d\<in>set cands. usable d \<longrightarrow> rank prefs (wire b) \<le> rank prefs (wire d)"
    using min by (auto simp: in_set_conv_nth)
  ultimately show ?thesis
    using Some b(3)
    by (auto simp: decide_def split: option.splits Option.bind_splits intro: order_trans)
qed

text \<open>A move the prober asks for goes to a usable port of the bond, no usable port is better
  preferred than it, and among equally preferred usable ports it is the first in join order.\<close>

theorem decide_Some_best:
  assumes "decide active cands prefs = Some p"
  shows "\<exists>i < length cands. ifname (cands ! i) = p \<and> usable (cands ! i) \<and>
     (\<forall>j < length cands. usable (cands ! j) \<longrightarrow>
        rank prefs (wire (cands ! i)) < rank prefs (wire (cands ! j)) \<or>
        rank prefs (wire (cands ! i)) = rank prefs (wire (cands ! j)) \<and> i \<le> j)"
proof -
  from assms obtain b where "best_usable cands prefs = Some b" "p = ifname b"
    by (auto simp: decide_def split: option.splits if_splits Option.bind_splits)
  then show ?thesis
    by (elim best_usable_SomeD) metis
qed

text \<open>No flapping. Once the bond is on the port the prober asked for, and nothing about the
  ports has changed, the prober asks for nothing more.\<close>

theorem decide_stable:
  assumes "distinct (map ifname cands)" and "decide active cands prefs = Some p"
  shows "decide (Some p) cands prefs = None"
proof -
  from assms(2) obtain b where b: "best_usable cands prefs = Some b" "p = ifname b"
    by (auto simp: decide_def split: option.splits if_splits Option.bind_splits)
  then obtain i where i: "i < length cands" "cands ! i = b" "usable b"
    by (elim best_usable_SomeD)
  have "find (\<lambda>c. ifname c = p) cands = Some b"
    using i b assms(1) by (auto simp: find_Some_iff distinct_conv_nth intro!: exI [of _ i])
  then show ?thesis
    using b i by (simp add: decide_def)
qed

text \<open>The port named as skipped for its carrier has no carrier, is strictly better preferred
  than the port the bond is on, and no port without carrier is better preferred than it; and
  one is named whenever there is such a port.\<close>

theorem skipped_for_carrier_spec:
  assumes "on = Some a" and "find (\<lambda>c. ifname c = a) cands = Some here"
  shows "case skipped_for_carrier on cands prefs of
      Some c \<Rightarrow> c \<in> set cands \<and> \<not> carrier c \<and> rank prefs (wire c) < rank prefs (wire here) \<and>
        (\<forall>d\<in>set cands. \<not> carrier d \<longrightarrow> rank prefs (wire c) \<le> rank prefs (wire d))
    | None \<Rightarrow> (\<forall>d\<in>set cands. \<not> carrier d \<longrightarrow> rank prefs (wire here) \<le> rank prefs (wire d))"
proof -
  let ?out = "filter (\<lambda>c. \<not> carrier c \<and> rank prefs (wire c) < rank prefs (wire here)) cands"
  have eq: "skipped_for_carrier on cands prefs = min_by_key (\<lambda>c. rank prefs (wire c)) ?out"
    using assms by (simp add: skipped_for_carrier_def)
  show ?thesis
  proof (cases "min_by_key (\<lambda>c. rank prefs (wire c)) ?out")
    case None
    then have "?out = []"
      by simp
    then show ?thesis
      unfolding eq None by (auto simp: filter_empty_conv not_less)
  next
    case (Some c)
    have "c \<in> set ?out"
      using Some by (rule min_by_key_in)
    moreover have "rank prefs (wire c) \<le> rank prefs (wire d)" if "d \<in> set ?out" for d
      using Some that by (rule min_by_key_le)
    ultimately show ?thesis
      unfolding eq Some by force
  qed
qed

text \<open>Witnesses: a bond with a dead best wire, a live second and a live third.\<close>

definition sample_cands :: "Candidate list" where
  "sample_cands =
     [\<lparr>ifname = ''p0'', wire = ''w0'', cand_reachable = True, carrier = False, link_up = False\<rparr>,
      \<lparr>ifname = ''p1'', wire = ''w1'', cand_reachable = True, carrier = True, link_up = True\<rparr>,
      \<lparr>ifname = ''p2'', wire = ''w2'', cand_reachable = True, carrier = True, link_up = True\<rparr>]"

lemma sample_decide: "decide (Some ''p2'') sample_cands [''w0'', ''w1'', ''w2''] = Some ''p1''"
  by (simp add: decide_def best_usable_def sample_cands_def usable_def rank_def)

theorem decide_None_iff_witness:
  "decide (Some ''p1'') sample_cands [''w0'', ''w1'', ''w2''] = None"
proof -
  have "find (\<lambda>c. ifname c = ''p1'') sample_cands = Some (sample_cands ! 1)"
    by (simp add: sample_cands_def)
  then show ?thesis
    by (subst decide_None_iff) (auto simp: sample_cands_def usable_def rank_def)
qed

theorem decide_Some_best_witness:
  "\<exists>i < length sample_cands. ifname (sample_cands ! i) = ''p1'' \<and> usable (sample_cands ! i)"
  using decide_Some_best [OF sample_decide] by blast

theorem decide_stable_witness: "decide (Some ''p1'') sample_cands [''w0'', ''w1'', ''w2''] = None"
  by (rule decide_stable [OF _ sample_decide]) (simp add: sample_cands_def)

theorem skipped_for_carrier_spec_witness:
  "\<exists>c. skipped_for_carrier (Some ''p2'') sample_cands [''w0'', ''w1'', ''w2''] = Some c \<and>
     c \<in> set sample_cands \<and> \<not> carrier c"
proof -
  let ?p = "[''w0'', ''w1'', ''w2'']"
  have f: "find (\<lambda>c. ifname c = ''p2'') sample_cands = Some (sample_cands ! 2)"
    by (simp add: sample_cands_def)
  have "skipped_for_carrier (Some ''p2'') sample_cands ?p = Some (sample_cands ! 0)"
    by (simp add: skipped_for_carrier_def sample_cands_def rank_def)
  then show ?thesis
    using skipped_for_carrier_spec [OF refl f, of ?p] by simp
qed

end
