(* ===== verification/Prober_Passive.thy ===== *)
theory Prober_Passive
  imports Prelude
begin

text \<open>
  The passive channel's arithmetic (\<open>src/src/prober/passive.rs\<close>): the windows derived from
  \<open>[ospf]\<close>, what one port has heard, and the verdicts on all ports of one leg together.
\<close>

record Windows =
  w_active :: duration
  w_backup :: duration
  w_grace :: duration
  w_dead :: duration
  w_hello :: duration

definition from_ospf :: "u32 \<Rightarrow> u32 \<Rightarrow> Windows" where
  "from_ospf hello_s dead_s =
     (let hello = from_secs (unat hello_s); dead = from_secs (unat dead_s) in
      \<lparr>w_active = hello + hello div 2, w_backup = dead, w_grace = dead, w_dead = dead,
       w_hello = hello\<rparr>)"

definition move_fits_inside_dead :: "Windows \<Rightarrow> duration \<Rightarrow> u32 \<Rightarrow> bool" where
  "move_fits_inside_dead w tick dead_s \<longleftrightarrow> w_active w + tick \<le> from_secs (unat dead_s)"

record Evidence =
  ev_active :: bool
  ev_peer :: "instant option"
  ev_reflected :: "instant option"
  ev_grace_until :: "instant option"

definition max_option :: "'a::linorder list \<Rightarrow> 'a option" where
  "max_option xs = (if xs = [] then None else Some (foldl max (hd xs) (tl xs)))"

definition last_heard :: "Evidence \<Rightarrow> instant \<Rightarrow> instant option" where
  "last_heard e now =
     (let candidates = [ev_peer e, if \<not> ev_active e then ev_reflected e else None] in
      max_option (filter (\<lambda>t. t \<le> now) (List.map_filter id candidates)))"

datatype Verdict = Good | Watch | Suspect | Quiet

definition window :: "Evidence \<Rightarrow> Windows \<Rightarrow> duration" where
  "window e w = (if ev_active e then w_active w else w_backup w)"

definition heard_within :: "instant \<Rightarrow> Windows \<Rightarrow> Evidence \<Rightarrow> bool" where
  "heard_within now w e =
     (case last_heard e now of Some t \<Rightarrow> now - t \<le> window e w | None \<Rightarrow> False)"

definition verdict_of :: "instant \<Rightarrow> Windows \<Rightarrow> bool \<Rightarrow> bool \<Rightarrow> Evidence \<Rightarrow> bool \<Rightarrow> Verdict" where
  "verdict_of now w expect_peers any_good e g =
     (if g then Good
      else if (case ev_grace_until e of Some t \<Rightarrow> now < t | None \<Rightarrow> False) then Watch
      else if \<not> expect_peers then Watch
      else
        let silent_long_enough =
          (case last_heard e now of None \<Rightarrow> True | Some t \<Rightarrow> now - t > window e w) in
        if \<not> silent_long_enough then Watch
        else if any_good then Suspect else Quiet)"

definition verdicts :: "instant \<Rightarrow> Evidence list \<Rightarrow> Windows \<Rightarrow> bool \<Rightarrow> Verdict list" where
  "verdicts now ports w expect_peers =
     (let good = map (heard_within now w) ports; any_good = list_ex (\<lambda>g. g) good in
      map (\<lambda>(e, g). verdict_of now w expect_peers any_good e g) (zip ports good))"

section \<open>Properties\<close>

lemma max_option_two:
  "max_option (filter P (List.map_filter id [a, b])) =
     (let keep = (\<lambda>i. case i of Some t \<Rightarrow> if P t then Some t else None | None \<Rightarrow> None) in
      case keep a of
        None \<Rightarrow> keep b
      | Some s \<Rightarrow> Some (case keep b of None \<Rightarrow> s | Some t \<Rightarrow> max s t))"
  by (auto simp: max_option_def map_filter_simps split: option.splits)

text \<open>Whether a port was heard within its window, without the detour over the latest instant.\<close>

lemma heard_within_iff:
  "heard_within now w e \<longleftrightarrow>
     (\<exists>t. (ev_peer e = Some t \<or> \<not> ev_active e \<and> ev_reflected e = Some t) \<and>
        t \<le> now \<and> now - t \<le> window e w)"
proof -
  have "heard_within now w e \<longleftrightarrow> (\<exists>t. last_heard e now = Some t \<and> now - t \<le> window e w)"
    by (auto simp: heard_within_def split: option.splits)
  also have "\<dots> \<longleftrightarrow> (\<exists>t. (ev_peer e = Some t \<or> \<not> ev_active e \<and> ev_reflected e = Some t) \<and>
        t \<le> now \<and> now - t \<le> window e w)"
    unfolding last_heard_def max_option_two Let_def
    by (cases "ev_peer e"; cases "ev_reflected e") (auto simp: max_def)
  finally show ?thesis .
qed

lemma verdict_of_heard_within:
  "verdict_of now w expect any e (heard_within now w e) =
     (if heard_within now w e then Good
      else if (\<exists>t. ev_grace_until e = Some t \<and> now < t) \<or> \<not> expect then Watch
      else if any then Suspect else Quiet)"
proof -
  have "\<not> heard_within now w e \<Longrightarrow>
      (case last_heard e now of None \<Rightarrow> True | Some t \<Rightarrow> now - t > window e w)"
    by (auto simp: heard_within_def split: option.splits)
  then show ?thesis
    by (auto simp: verdict_of_def Let_def split: option.splits)
qed

lemma verdicts_map:
  "verdicts now ports w expect =
     map (\<lambda>e. verdict_of now w expect (list_ex (heard_within now w) ports) e (heard_within now w e))
       ports"
proof -
  have "list_ex (\<lambda>g. g) (map f ports) = list_ex f ports" for f :: "Evidence \<Rightarrow> bool"
    by (induction ports) auto
  then show ?thesis
    by (simp add: verdicts_def Let_def zip_map2 zip_same_conv_map)
qed

text \<open>The verdict on each port of a leg, in closed form. A port is good exactly when a peer's
  packet (or, on a backup port, our own reflected hello) arrived within the window of its role;
  a silent port is only watched while it is in its grace period or when the member expects no
  peers; otherwise it is suspect when some port of the leg is good and quiet when none is.\<close>

theorem verdicts_closed_form:
  "verdicts now ports w expect =
     map (\<lambda>e. if \<exists>t. (ev_peer e = Some t \<or> \<not> ev_active e \<and> ev_reflected e = Some t) \<and>
                  t \<le> now \<and> now - t \<le> window e w then Good
              else if \<exists>t. ev_grace_until e = Some t \<and> now < t then Watch
              else if \<not> expect then Watch
              else if list_ex (heard_within now w) ports then Suspect else Quiet) ports"
  unfolding verdicts_map verdict_of_heard_within heard_within_iff [symmetric] by simp

text \<open>Suspicion is relative. A leg never has a suspect port without a good one and never has a
  quiet port beside a good one, and a member that expects no peers never suspects or silences
  a port.\<close>

theorem verdicts_relative:
  "(Suspect \<in> set (verdicts now ports w expect) \<longrightarrow> Good \<in> set (verdicts now ports w expect)) \<and>
   (Quiet \<in> set (verdicts now ports w expect) \<longrightarrow> Good \<notin> set (verdicts now ports w expect)) \<and>
   set (verdicts now ports w False) \<subseteq> {Good, Watch}"
  unfolding verdicts_map verdict_of_heard_within by (auto simp: list_ex_iff image_iff)

theorem verdicts_relative_witness:
  "let ports = [\<lparr>ev_active = True, ev_peer = Some 0, ev_reflected = None, ev_grace_until = None\<rparr>,
        \<lparr>ev_active = False, ev_peer = Some 15000000000, ev_reflected = None, ev_grace_until = None\<rparr>];
       vs = verdicts 16000000000 ports (from_ospf 1 4) True in
   vs = [Suspect, Good] \<and> Good \<in> set vs"
proof -
  let ?ports = "[\<lparr>ev_active = True, ev_peer = Some 0, ev_reflected = None, ev_grace_until = None\<rparr>,
        \<lparr>ev_active = False, ev_peer = Some 15000000000, ev_reflected = None, ev_grace_until = None\<rparr>]"
  have "verdicts 16000000000 ?ports (from_ospf 1 4) True = [Suspect, Good]"
    by (simp add: verdicts_map verdict_of_def heard_within_iff window_def from_ospf_def last_heard_def
        max_option_def map_filter_simps
        from_secs_def)
  then show ?thesis
    using verdicts_relative [of 16000000000 ?ports "from_ospf 1 4" True] by simp
qed

text \<open>A failover lands inside the dead interval. With the windows derived from a declared hello
  and dead interval, a port that a peer was last heard on at \<open>t\<close> is no longer good at the first
  instant past its window, and when the windows pass the fit check that instant plus one more
  tick is still within the declared dead interval of \<open>t\<close>.\<close>

theorem active_port_detected_before_dead:
  assumes "move_fits_inside_dead (from_ospf hello_s dead_s) tick dead_s"
    and "ev_active e" and "ev_peer e = Some t"
    and "now = t + w_active (from_ospf hello_s dead_s) + 1"
  shows "\<not> heard_within now (from_ospf hello_s dead_s) e \<and>
     now - 1 + tick - t \<le> w_dead (from_ospf hello_s dead_s)"
  using assms
  by (auto simp: heard_within_iff window_def move_fits_inside_dead_def from_ospf_def Let_def)

theorem active_port_detected_before_dead_witness:
  "\<not> heard_within 1500000001 (from_ospf 1 4)
      \<lparr>ev_active = True, ev_peer = Some 0, ev_reflected = None, ev_grace_until = None\<rparr> \<and>
   1500000001 - 1 + 500000000 - 0 \<le> w_dead (from_ospf 1 4)"
  by (rule active_port_detected_before_dead)
    (simp_all add: move_fits_inside_dead_def from_ospf_def from_secs_def)

end
