(* ===== verification/Ordered_Map.thy ===== *)
theory Ordered_Map
  imports Prelude
begin

text \<open>
  \<open>BTreeMap\<close> as an association list in strictly ascending key order. Iteration order is the
  order of the list, which is what the sources rely on when they walk a map. The interface
  the client theories use is the locale \<open>map_store\<close>, interpreted below on the list
  operations.
\<close>

locale map_store =
  fixes get :: "'m \<Rightarrow> 'k \<Rightarrow> 'v option"
    and ins :: "'k \<Rightarrow> 'v \<Rightarrow> 'm \<Rightarrow> 'm"
    and del :: "'k \<Rightarrow> 'm \<Rightarrow> 'm"
    and ok :: "'m \<Rightarrow> bool"
  assumes get_ins: "get (ins k v m) j = (if j = k then Some v else get m j)"
    and get_del: "get (del k m) j = (if j = k then None else get m j)"
    and ok_ins: "ok m \<Longrightarrow> ok (ins k v m)"
    and ok_del: "ok m \<Longrightarrow> ok (del k m)"
begin

lemma dom_ins: "dom (get (ins k v m)) = insert k (dom (get m))"
  by (auto simp: dom_def get_ins)

lemma dom_del: "dom (get (del k m)) = dom (get m) - {k}"
  by (auto simp: dom_def get_del)

text \<open>Updating a value in place keeps the key set (\<open>get_mut\<close>).\<close>

lemma dom_ins_present: "get m k = Some v' \<Longrightarrow> dom (get (ins k v m)) = dom (get m)"
  by (auto simp: dom_ins)

end

type_synonym ('k, 'v) omap = "('k \<times> 'v) list"

abbreviation om_get :: "('k, 'v) omap \<Rightarrow> 'k \<Rightarrow> 'v option" where
  "om_get \<equiv> map_of"

fun om_insert :: "'k::linorder \<Rightarrow> 'v \<Rightarrow> ('k, 'v) omap \<Rightarrow> ('k, 'v) omap" where
  "om_insert k v [] = [(k, v)]"
| "om_insert k v ((j, w) # m) =
     (if k < j then (k, v) # (j, w) # m
      else if k = j then (k, v) # m
      else (j, w) # om_insert k v m)"

definition om_remove :: "'k \<Rightarrow> ('k, 'v) omap \<Rightarrow> ('k, 'v) omap" where
  "om_remove k m = filter (\<lambda>p. fst p \<noteq> k) m"

definition om_ok :: "('k::linorder, 'v) omap \<Rightarrow> bool" where
  "om_ok m \<longleftrightarrow> sorted_wrt (<) (map fst m)"

lemma om_ok_Nil [simp]: "om_ok []"
  by (simp add: om_ok_def)

lemma om_get_insert: "om_get (om_insert k v m) j = (if j = k then Some v else om_get m j)"
  by (induction m) auto

lemma om_get_remove: "om_get (om_remove k m) j = (if j = k then None else om_get m j)"
  by (induction m) (auto simp: om_remove_def)

lemma set_om_insert_subset: "set (om_insert k v m) \<subseteq> insert (k, v) (set m)"
  by (induction m) (auto split: if_splits)

lemma om_ok_insert: "om_ok m \<Longrightarrow> om_ok (om_insert k v m)"
proof (induction m)
  case (Cons p m)
  obtain j w where p: "p = (j, w)"
    by (cases p)
  have "om_ok (om_insert k v m)"
    using Cons by (simp add: om_ok_def)
  moreover have "\<forall>x\<in>set (om_insert k v m). j < k \<longrightarrow> j < fst x"
    using Cons.prems set_om_insert_subset [of k v m] by (auto simp: om_ok_def p)
  ultimately show ?case
    using Cons.prems by (auto simp: om_ok_def p)
qed (simp add: om_ok_def)

lemma sorted_wrt_map_filter: "sorted_wrt R (map f xs) \<Longrightarrow> sorted_wrt R (map f (filter P xs))"
  by (induction xs) auto

lemma om_ok_filter: "om_ok m \<Longrightarrow> om_ok (filter P m)"
  by (simp add: om_ok_def sorted_wrt_map_filter)

lemma om_ok_remove: "om_ok m \<Longrightarrow> om_ok (om_remove k m)"
  by (simp add: om_remove_def om_ok_filter)

interpretation om: map_store om_get om_insert om_remove om_ok
  by unfold_locales (simp_all add: om_get_insert om_get_remove om_ok_insert om_ok_remove)

declare om.get_ins [map_simps] om.get_del [map_simps]
declare om.ok_ins [map_inv] om.ok_del [map_inv] om_ok_filter [map_inv] om_ok_Nil [map_inv]

section \<open>Counting entries\<close>

lemma om_ok_distinct: "om_ok m \<Longrightarrow> distinct (map fst m)"
  unfolding om_ok_def using strict_sorted_iff by blast

lemma om_mem_iff: "om_ok m \<Longrightarrow> (k, v) \<in> set m \<longleftrightarrow> om_get m k = Some v"
  by (simp add: om_ok_distinct map_of_eq_Some_iff)

lemma om_get_filter:
  "om_ok m \<Longrightarrow> om_get (filter P m) k =
     (case om_get m k of Some v \<Rightarrow> if P (k, v) then Some v else None | None \<Rightarrow> None)"
proof -
  assume ok: "om_ok m"
  have eq: "om_get (filter P m) k = Some v \<longleftrightarrow> om_get m k = Some v \<and> P (k, v)" for v
    using om_mem_iff [OF om_ok_filter [OF ok, of P], of k v] om_mem_iff [OF ok, of k v] by simp
  show ?thesis
  proof (cases "\<exists>w. om_get m k = Some w \<and> P (k, w)")
    case True
    then show ?thesis
      using eq by auto
  next
    case False
    then have "om_get (filter P m) k = None"
      using eq by (metis not_None_eq)
    with False show ?thesis
      by (auto split: option.splits)
  qed
qed

definition om_count :: "('k \<times> 'v \<Rightarrow> bool) \<Rightarrow> ('k, 'v) omap \<Rightarrow> nat" where
  "om_count P m = length (filter P m)"

lemma om_count_card: "om_ok m \<Longrightarrow> om_count P m = card {k. \<exists>v. om_get m k = Some v \<and> P (k, v)}"
proof -
  assume ok: "om_ok m"
  have "om_count P m = card (set (map fst (filter P m)))"
    using om_ok_distinct [OF om_ok_filter [OF ok, of P]]
    by (subst distinct_card) (auto simp: om_count_def)
  moreover have "set (map fst (filter P m)) = {k. \<exists>v. om_get m k = Some v \<and> P (k, v)}"
    using om_mem_iff [OF ok] by (force simp: image_iff)
  ultimately show ?thesis
    by simp
qed

lemma finite_om_keys: "finite {k. \<exists>v. om_get m k = Some v \<and> P (k, v)}"
  by (rule finite_subset [OF _ finite_dom_map_of [of m]]) auto

lemma om_count_insert_new:
  "om_get m k = None \<Longrightarrow> om_ok m \<Longrightarrow>
     om_count P (om_insert k v m) = om_count P m + (if P (k, v) then 1 else 0)"
proof -
  assume new: "om_get m k = None" and ok: "om_ok m"
  let ?S = "{j. \<exists>w. om_get m j = Some w \<and> P (j, w)}"
  have "{j. \<exists>w. om_get (om_insert k v m) j = Some w \<and> P (j, w)} =
      (if P (k, v) then insert k ?S else ?S)"
    using new by (auto simp: map_simps split: if_splits)
  moreover have "k \<notin> ?S"
    using new by auto
  ultimately show ?thesis
    using ok finite_om_keys [of m P] by (simp add: om_count_card om_ok_insert)
qed

lemma om_count_update:
  assumes "om_get m k = Some w" "om_ok m" "P (k, w) = P (k, v)"
  shows "om_count P (om_insert k v m) = om_count P m"
proof -
  have "{j. \<exists>u. om_get (om_insert k v m) j = Some u \<and> P (j, u)} =
      {j. \<exists>u. om_get m j = Some u \<and> P (j, u)}"
    using assms by (auto simp: map_simps split: if_splits)
  then show ?thesis
    using assms(2) by (simp add: om_count_card om_ok_insert)
qed

lemma om_count_remove_le: "om_count P (om_remove k m) \<le> om_count P m"
  by (simp add: om_count_def om_remove_def filter_filter) (induction m; auto)

lemma om_count_filter_le: "om_count P (filter Q m) \<le> om_count P m"
  unfolding om_count_def by (induction m) auto

end
