(* ===== verification/Fabric_Decl.thy ===== *)
theory Fabric_Decl
  imports Ordered_Map
begin

text \<open>
  The declaration (\<open>src/src/decl.rs\<close>): the struct tree the TOML parser fills from
  \<open>fabric.toml\<close>, with the tables an operator may omit and their defaults. The parser itself
  is the \<open>toml\<close> crate; a value of type \<open>Declaration\<close> is what it hands over. The maps of the
  file (\<open>[domains]\<close> and a member's \<open>prefs\<close>) are ordered maps.
\<close>

datatype MemberKind = Host | Leaf

datatype Dscp = Cs0 | Cs2 | Cs6

record WireDecl =
  wd_nic :: string
  wd_domain :: string
  wd_speed_mbps :: u32
  wd_driver_features :: "string option"
  wd_usb :: "bool option"

record MemberWorkloadDecl =
  mwd_name :: string
  mwd_address :: string

record MemberDecl =
  md_name :: string
  md_node :: u8
  md_kind :: MemberKind
  md_wires :: "WireDecl list"
  md_prefs :: "(string, string list) omap"
  md_workloads :: "MemberWorkloadDecl list"

record SegmentDecl =
  sd_ifname :: string
  sd_domain :: string
  sd_seg :: u8
  sd_vid :: u16

record UniversalDecl =
  ud_ifname :: string
  ud_seg :: u8
  ud_vid :: u16

record GwDecl =
  gd_domain :: string
  gd_vid :: u16
  gd_router :: string

record ZoneDecl =
  zd_name :: string
  zd_id :: u8
  zd_pcp :: u8
  zd_dscp :: Dscp
  zd_floor_mbps :: u32
  zd_band :: u32
  zd_weight :: u32
  zd_primary :: string
  zd_segments :: "SegmentDecl list"
  zd_universal :: "UniversalDecl option"
  zd_gw :: "GwDecl option"

record WorkloadDecl =
  wld_name :: string
  wld_uplink :: string
  wld_vid :: u16
  wld_prefix :: string
  wld_gw :: string
  wld_dhcp_server :: "string option"
  wld_allow :: "string list"
  wld_router :: "string option"
  wld_span :: "string option"

record ForwardDecl =
  fd_enabled :: bool
  fd_allow :: "string list"

section \<open>The tables with defaults\<close>

definition ADMIN_FLOOR_MBPS :: u32 where "ADMIN_FLOOR_MBPS = 100"
definition ADMIN_BAND :: u32 where "ADMIN_BAND = 1"

record AdminDecl =
  ad_floor_mbps :: u32
  ad_band :: u32

definition default_admin :: AdminDecl where
  "default_admin = \<lparr>ad_floor_mbps = ADMIN_FLOOR_MBPS, ad_band = ADMIN_BAND\<rparr>"

definition PCP_CTRL :: u8 where "PCP_CTRL = 6"
definition SET_DSCP :: bool where "SET_DSCP = True"

record MarkingDecl =
  mk_pcp_ctrl :: u8
  mk_set_dscp :: bool

definition default_marking :: MarkingDecl where
  "default_marking = \<lparr>mk_pcp_ctrl = PCP_CTRL, mk_set_dscp = SET_DSCP\<rparr>"

definition LEAF_OFFSET :: u32 where "LEAF_OFFSET = 30000"

record CostDecl =
  cd_leaf_offset :: u32

definition default_cost :: CostDecl where
  "default_cost = \<lparr>cd_leaf_offset = LEAF_OFFSET\<rparr>"

definition BFD_RX_MS :: u32 where "BFD_RX_MS = 250"
definition BFD_TX_MS :: u32 where "BFD_TX_MS = 250"
definition BFD_MULT :: u32 where "BFD_MULT = 3"
definition BFD_PORT :: u16 where "BFD_PORT = 3784"

record BfdDecl =
  bd_rx_ms :: u32
  bd_tx_ms :: u32
  bd_mult :: u32
  bd_port :: u16

definition default_bfd :: BfdDecl where
  "default_bfd = \<lparr>bd_rx_ms = BFD_RX_MS, bd_tx_ms = BFD_TX_MS, bd_mult = BFD_MULT, bd_port = BFD_PORT\<rparr>"

definition OSPF_HELLO_S :: u32 where "OSPF_HELLO_S = 1"
definition OSPF_DEAD_S :: u32 where "OSPF_DEAD_S = 3"

record OspfDecl =
  od_hello_s :: u32
  od_dead_s :: u32

definition default_ospf :: OspfDecl where
  "default_ospf = \<lparr>od_hello_s = OSPF_HELLO_S, od_dead_s = OSPF_DEAD_S\<rparr>"

definition BGP_ASN :: u32 where "BGP_ASN = 65000"
definition BGP_KEEPALIVE_S :: u32 where "BGP_KEEPALIVE_S = 1"
definition BGP_HOLD_S :: u32 where "BGP_HOLD_S = 3"
definition BGP_CONNECT_S :: u32 where "BGP_CONNECT_S = 3"

record BgpDecl =
  bg_asn :: u32
  bg_keepalive_s :: u32
  bg_hold_s :: u32
  bg_connect_s :: u32

definition default_bgp :: BgpDecl where
  "default_bgp = \<lparr>bg_asn = BGP_ASN, bg_keepalive_s = BGP_KEEPALIVE_S, bg_hold_s = BGP_HOLD_S,
     bg_connect_s = BGP_CONNECT_S\<rparr>"

definition RUN_DIR :: string where "RUN_DIR = ''/run/cfab''"

record RuntimeDecl =
  rt_run_dir :: string

definition default_runtime :: RuntimeDecl where
  "default_runtime = \<lparr>rt_run_dir = RUN_DIR\<rparr>"

record Declaration =
  d_dns_domain :: string
  d_domains :: "(string, string) omap"
  d_members :: "MemberDecl list"
  d_zones :: "ZoneDecl list"
  d_workload :: "WorkloadDecl list"
  d_forward :: ForwardDecl
  d_admin :: "AdminDecl option"
  d_marking :: "MarkingDecl option"
  d_cost :: "CostDecl option"
  d_bfd :: "BfdDecl option"
  d_ospf :: "OspfDecl option"
  d_bgp :: "BgpDecl option"
  d_runtime :: "RuntimeDecl option"

text \<open>\<open>Option::unwrap_or_default\<close>.\<close>

definition or_default :: "'a \<Rightarrow> 'a option \<Rightarrow> 'a" where
  "or_default d x = (case x of None \<Rightarrow> d | Some y \<Rightarrow> y)"

end
