(* ===== verification/Outcome.thy ===== *)
theory Outcome
  imports Main
begin

text \<open>
  Fallible code of the fabric model: a call returns a value, returns an error, or panics
  (\<open>panic!\<close>, \<open>expect\<close>). \<open>and_then\<close> is the \<open>?\<close> operator, \<open>for_each\<close> a \<open>for\<close> loop whose body may
  return early, \<open>map_out\<close> and \<open>filter_map_out\<close> an iterator that is collected, and \<open>refuse\<close> an
  \<open>if\<close> that returns an error.
\<close>

named_theorems outcome_simps \<open>when a composed call returns a value, and when it cannot panic\<close>

datatype ('e, 'a) outcome = Panic | Err 'e | Ok 'a

fun and_then :: "('e, 'a) outcome \<Rightarrow> ('a \<Rightarrow> ('e, 'b) outcome) \<Rightarrow> ('e, 'b) outcome" where
  "and_then (Ok x) g = g x"
| "and_then (Err e) g = Err e"
| "and_then Panic g = Panic"

fun map_err :: "('e \<Rightarrow> 'd) \<Rightarrow> ('e, 'a) outcome \<Rightarrow> ('d, 'a) outcome" where
  "map_err h (Ok x) = Ok x"
| "map_err h (Err e) = Err (h e)"
| "map_err h Panic = Panic"

definition refuse :: "bool \<Rightarrow> 'e \<Rightarrow> ('e, unit) outcome" where
  "refuse b e = (if b then Err e else Ok ())"

fun for_each :: "('a \<Rightarrow> ('e, unit) outcome) \<Rightarrow> 'a list \<Rightarrow> ('e, unit) outcome" where
  "for_each g [] = Ok ()"
| "for_each g (x # xs) = and_then (g x) (\<lambda>_. for_each g xs)"

fun map_out :: "('a \<Rightarrow> ('e, 'b) outcome) \<Rightarrow> 'a list \<Rightarrow> ('e, 'b list) outcome" where
  "map_out g [] = Ok []"
| "map_out g (x # xs) = and_then (g x) (\<lambda>y. and_then (map_out g xs) (\<lambda>ys. Ok (y # ys)))"

definition filter_map_out :: "('a \<Rightarrow> ('e, 'b option) outcome) \<Rightarrow> 'a list \<Rightarrow> ('e, 'b list) outcome" where
  "filter_map_out g xs = and_then (map_out g xs) (\<lambda>ys. Ok (List.map_filter id ys))"

definition ok_or :: "'e \<Rightarrow> 'a option \<Rightarrow> ('e, 'a) outcome" where
  "ok_or e x = (case x of None \<Rightarrow> Err e | Some y \<Rightarrow> Ok y)"

text \<open>\<open>Option::expect\<close>, and \<open>unwrap_or_else(|| panic!(..))\<close>.\<close>

definition expect :: "'a option \<Rightarrow> ('e, 'a) outcome" where
  "expect x = (case x of None \<Rightarrow> Panic | Some y \<Rightarrow> Ok y)"

section \<open>When a call returns\<close>

lemma and_then_Ok [outcome_simps]: "and_then r g = Ok y \<longleftrightarrow> (\<exists>x. r = Ok x \<and> g x = Ok y)"
  by (cases r) auto

lemma map_err_Ok [outcome_simps]: "map_err h r = Ok x \<longleftrightarrow> r = Ok x"
  by (cases r) auto

lemma refuse_Ok [outcome_simps]: "refuse b e = Ok u \<longleftrightarrow> \<not> b"
  by (simp add: refuse_def)

lemma for_each_Ok [outcome_simps]: "for_each g xs = Ok u \<longleftrightarrow> (\<forall>x\<in>set xs. g x = Ok ())"
  by (induction xs) (auto simp: and_then_Ok)

lemma ok_or_Ok [outcome_simps]: "ok_or e x = Ok y \<longleftrightarrow> x = Some y"
  by (auto simp: ok_or_def split: option.splits)

lemma expect_Ok [outcome_simps]: "expect x = Ok y \<longleftrightarrow> x = Some y"
  by (auto simp: expect_def split: option.splits)

lemma map_out_Ok: "map_out g xs = Ok ys \<longleftrightarrow> list_all2 (\<lambda>x y. g x = Ok y) xs ys"
proof (induction xs arbitrary: ys)
  case (Cons x xs)
  then show ?case
    by (cases ys) (auto simp: and_then_Ok)
qed (auto split: list.splits)

lemma map_out_all: "map_out g xs = Ok ys \<Longrightarrow> y \<in> set ys \<Longrightarrow> \<exists>x\<in>set xs. g x = Ok y"
  by (induction xs arbitrary: ys) (auto simp: and_then_Ok)

lemma map_out_map: "map_out g xs = Ok ys \<Longrightarrow> (\<And>x y. g x = Ok y \<Longrightarrow> h y = k x) \<Longrightarrow> map h ys = map k xs"
  by (induction xs arbitrary: ys) (auto simp: and_then_Ok)

lemma map_out_eq:
  assumes "\<And>x. x \<in> set xs \<Longrightarrow> g x = Ok (h x)"
  shows "map_out g xs = Ok (map h xs)"
  using assms by (induction xs) auto

lemma filter_map_out_eq:
  assumes "\<And>x. x \<in> set xs \<Longrightarrow> g x = Ok (h x)"
  shows "filter_map_out g xs = Ok (List.map_filter h xs)"
  using map_out_eq [of xs g h] assms
  by (simp add: filter_map_out_def List.map_filter_def filter_map comp_def)

section \<open>When a call cannot panic\<close>

lemma and_then_Panic:
  "r \<noteq> Panic \<Longrightarrow> (\<And>x. r = Ok x \<Longrightarrow> g x \<noteq> Panic) \<Longrightarrow> and_then r g \<noteq> Panic"
  by (cases r) auto

lemma and_then_Panic_iff: "and_then r g = Panic \<longleftrightarrow> r = Panic \<or> (\<exists>x. r = Ok x \<and> g x = Panic)"
  by (cases r) auto

lemma map_err_Panic [simp]: "map_err h r = Panic \<longleftrightarrow> r = Panic"
  by (cases r) auto

lemma refuse_Panic [simp]: "refuse b e \<noteq> Panic"
  by (simp add: refuse_def)

lemma ok_or_Panic [simp]: "ok_or e x \<noteq> Panic"
  by (simp add: ok_or_def split: option.splits)

lemma expect_Panic [simp]: "expect x = Panic \<longleftrightarrow> x = None"
  by (simp add: expect_def split: option.splits)

lemma for_each_Panic: "(\<And>x. x \<in> set xs \<Longrightarrow> g x \<noteq> Panic) \<Longrightarrow> for_each g xs \<noteq> Panic"
  by (induction xs) (auto simp: and_then_Panic_iff)

lemma map_out_Panic: "(\<And>x. x \<in> set xs \<Longrightarrow> g x \<noteq> Panic) \<Longrightarrow> map_out g xs \<noteq> Panic"
  by (induction xs) (auto simp: and_then_Panic_iff)

end
