(* ===== verification/Ipv4_Prefix.thy ===== *)
theory Ipv4_Prefix
  imports Prelude
begin

text \<open>
  IPv4 networks (\<open>Ipv4Prefix\<close> of \<open>src/src/model.rs\<close>): the mask arithmetic, shown equal to the
  interval reading of a network, and the overlap test, shown to decide whether the two
  networks share an address. The text form is in \<open>Fabric_Model\<close>.
\<close>

unbundle bit_operations_syntax

record Ipv4Prefix =
  net :: ipv4
  len :: u8

text \<open>\<open>u32::MAX << (32 - len)\<close>; the subtraction is only reached with \<open>len \<le> 32\<close>, which
  \<open>parse\<close> establishes for every value of the type.\<close>

definition prefix_mask :: "u8 \<Rightarrow> u32" where
  "prefix_mask l = (if l = 0 then 0 else push_bit (32 - unat l) (- 1))"

definition contains :: "Ipv4Prefix \<Rightarrow> ipv4 \<Rightarrow> bool" where
  "contains p a \<longleftrightarrow> a AND prefix_mask (len p) = net p"

definition overlaps :: "Ipv4Prefix \<Rightarrow> Ipv4Prefix \<Rightarrow> bool" where
  "overlaps p q \<longleftrightarrow>
     (let l = min (len p) (len q) in net p AND prefix_mask l = net q AND prefix_mask l)"

definition first_host :: "Ipv4Prefix \<Rightarrow> ipv4" where
  "first_host p = (if net p = - 1 then - 1 else net p + 1)"

definition broadcast :: "Ipv4Prefix \<Rightarrow> ipv4" where
  "broadcast p = net p OR NOT (prefix_mask (len p))"

definition netmask :: "Ipv4Prefix \<Rightarrow> ipv4" where
  "netmask p = prefix_mask (len p)"

text \<open>What \<open>parse\<close> makes sure of: a length of at most 32, and no host bit set.\<close>

definition prefix_ok :: "Ipv4Prefix \<Rightarrow> bool" where
  "prefix_ok p \<longleftrightarrow> unat (len p) \<le> 32 \<and> net p AND prefix_mask (len p) = net p"

section \<open>Masking is dropping the host bits\<close>

lemma bit_mask: "unat l \<le> 32 \<Longrightarrow> bit (prefix_mask l) n \<longleftrightarrow> 32 - unat l \<le> n \<and> n < 32"
  by (cases "l = 0") (auto simp: prefix_mask_def bit_not_iff bit_mask_iff
      possible_bit_word)

lemma and_mask: "unat l \<le> 32 \<Longrightarrow>
    a AND prefix_mask l = push_bit (32 - unat l) (drop_bit (32 - unat l) a)"
  by (rule bit_eqI) (auto simp: bit_and_iff bit_mask bit_push_bit_iff bit_drop_bit_eq)

lemma and_mask_eq_iff:
  assumes "unat l \<le> 32"
  shows "a AND prefix_mask l = b AND prefix_mask l \<longleftrightarrow> drop_bit (32 - unat l) a = drop_bit (32 - unat l) b"
proof
  assume "a AND prefix_mask l = b AND prefix_mask l"
  then have "drop_bit (32 - unat l) (a AND prefix_mask l) = drop_bit (32 - unat l) (b AND prefix_mask l)"
    by simp
  moreover have "drop_bit (32 - unat l) (c AND prefix_mask l) = drop_bit (32 - unat l) c" for c :: u32
    using assms
    by (intro bit_eqI) (auto simp: bit_and_iff bit_mask bit_drop_bit_eq dest: bit_imp_le_length)
  ultimately show "drop_bit (32 - unat l) a = drop_bit (32 - unat l) b"
    by simp
qed (simp add: and_mask assms)

lemma contains_drop_bit:
  "prefix_ok p \<Longrightarrow> contains p a \<longleftrightarrow>
     drop_bit (32 - unat (len p)) a = drop_bit (32 - unat (len p)) (net p)"
  by (metis contains_def prefix_ok_def and_mask_eq_iff)

lemma unat_drop_bit_div: "unat (drop_bit n (w :: 'a::len word)) = unat w div 2 ^ n"
  by (subst unat_drop_bit_eq) (simp only: drop_bit_eq_div)

lemma contains_iff_div:
  "prefix_ok p \<Longrightarrow> contains p a \<longleftrightarrow>
     unat a div 2 ^ (32 - unat (len p)) = unat (net p) div 2 ^ (32 - unat (len p))"
  by (simp only: contains_drop_bit unat_inject [symmetric, where 'a = 32] unat_drop_bit_div)

section \<open>A network is an interval of addresses\<close>

lemma net_multiple:
  assumes "prefix_ok p"
  obtains q where "unat (net p) = q * 2 ^ (32 - unat (len p))" "q < 2 ^ unat (len p)"
proof
  let ?n = "32 - unat (len p)"
  have "net p = push_bit ?n (drop_bit ?n (net p))"
    using assms by (metis prefix_ok_def and_mask)
  moreover have less: "unat (drop_bit ?n (net p)) < 2 ^ unat (len p)"
  proof -
    have "unat (net p) < 2 ^ ?n * 2 ^ unat (len p)"
      using unsigned_less [of "net p", where ?'a = nat] assms
      by (simp add: prefix_ok_def flip: power_add)
    then show ?thesis
      by (simp add: unat_drop_bit_div less_mult_imp_div_less mult.commute del: drop_bit_eq_div)
  qed
  ultimately have "unat (net p) = unat (push_bit ?n (drop_bit ?n (net p)))"
    by simp
  also have "\<dots> = unat (drop_bit ?n (net p)) * 2 ^ ?n"
  proof -
    have "unat (drop_bit ?n (net p)) * 2 ^ ?n < 2 ^ unat (len p) * 2 ^ ?n"
      using less by simp
    also have "\<dots> = 2 ^ 32"
      using assms by (simp add: prefix_ok_def flip: power_add)
    finally show ?thesis
      by (subst unsigned_push_bit_eq) (simp add: push_bit_eq_mult take_bit_eq_mod)
  qed
  finally show "unat (net p) = unat (drop_bit ?n (net p)) * 2 ^ ?n" .
  show "unat (drop_bit ?n (net p)) < 2 ^ unat (len p)"
    by (rule less)
qed

lemma net_below: "prefix_ok p \<Longrightarrow> unat (net p) + 2 ^ (32 - unat (len p)) \<le> 2 ^ 32"
proof -
  assume ok: "prefix_ok p"
  then obtain q where q: "unat (net p) = q * 2 ^ (32 - unat (len p))" "q < 2 ^ unat (len p)"
    by (rule net_multiple)
  have "unat (net p) + 2 ^ (32 - unat (len p)) = Suc q * 2 ^ (32 - unat (len p))"
    using q by simp
  also have "\<dots> \<le> 2 ^ unat (len p) * 2 ^ (32 - unat (len p))"
    using q by (intro mult_right_mono) auto
  also have "\<dots> = 2 ^ 32"
    using ok by (simp add: prefix_ok_def flip: power_add)
  finally show ?thesis .
qed

lemma unat_broadcast:
  assumes "prefix_ok p"
  shows "unat (broadcast p) = unat (net p) + (2 ^ (32 - unat (len p)) - 1)"
proof -
  let ?n = "32 - unat (len p)"
  have le: "unat (len p) \<le> 32"
    using assms by (simp add: prefix_ok_def)
  have "broadcast p = net p OR Bit_Operations.mask ?n"
    unfolding broadcast_def using le
    by (intro bit_eqI) (auto simp: bit_or_iff bit_not_iff bit_mask bit_mask_iff possible_bit_word)
  also have "\<dots> = net p + Bit_Operations.mask ?n"
  proof (rule disjunctive_add [symmetric])
    fix k
    have "bit (net p) k \<Longrightarrow> bit (net p AND prefix_mask (len p)) k"
      using assms by (simp add: prefix_ok_def)
    then show "\<not> bit (net p) k \<or> \<not> bit (Bit_Operations.mask ?n :: u32) k"
      using le by (auto simp: bit_and_iff bit_mask bit_mask_iff)
  qed
  finally have eq: "broadcast p = net p + Bit_Operations.mask ?n" .
  have "unat (Bit_Operations.mask ?n :: u32) = 2 ^ ?n - 1"
  proof -
    have "unat (Bit_Operations.mask ?n :: u32) = unat (take_bit ?n (- 1 :: u32))"
      by (simp only: take_bit_minus_one_eq_mask)
    also have "\<dots> = take_bit ?n (Bit_Operations.mask 32)"
      by (simp only: unsigned_take_bit_eq unsigned_minus_1_eq_mask) simp
    also have "\<dots> = Bit_Operations.mask ?n"
      by (simp add: take_bit_of_mask min_def)
    finally show ?thesis
      by (simp only: mask_eq_exp_minus_1)
  qed
  moreover have "unat (net p) + (2 ^ ?n - 1) < 2 ^ 32"
    using net_below [OF assms] by (simp add: less_le_trans [of _ "unat (net p) + 2 ^ ?n"])
  ultimately show ?thesis
    unfolding eq by (subst unat_add_lem [THEN iffD1]) auto
qed

lemma Suc_broadcast:
  "prefix_ok p \<Longrightarrow> Suc (unat (broadcast p)) = unat (net p) + 2 ^ (32 - unat (len p))"
  by (simp add: unat_broadcast)

lemma le_broadcast_iff:
  "prefix_ok p \<Longrightarrow> a \<le> broadcast p \<longleftrightarrow> unat a < unat (net p) + 2 ^ (32 - unat (len p))"
  by (simp only: word_le_nat_alt Suc_broadcast [symmetric] less_Suc_eq_le)

lemma contains_interval:
  assumes "prefix_ok p"
  shows "contains p a \<longleftrightarrow> net p \<le> a \<and> a \<le> broadcast p"
proof -
  let ?s = "2 ^ (32 - unat (len p)) :: nat"
  obtain q where q: "unat (net p) = q * ?s"
    using assms by (rule net_multiple)
  have "contains p a \<longleftrightarrow> unat a div ?s = q"
    using assms q by (simp add: contains_iff_div)
  also have "\<dots> \<longleftrightarrow> q \<le> unat a div ?s \<and> unat a div ?s < Suc q"
    by auto
  also have "\<dots> \<longleftrightarrow> q * ?s \<le> unat a \<and> unat a < Suc q * ?s"
    by (simp only: less_eq_div_iff_mult_less_eq div_less_iff_less_mult zero_less_power zero_less_numeral)
  also have "\<dots> \<longleftrightarrow> net p \<le> a \<and> a \<le> broadcast p"
    using q by (simp add: le_broadcast_iff [OF assms] word_le_nat_alt [of "net p"] add.commute)
  finally show ?thesis .
qed

lemma contains_net: "prefix_ok p \<Longrightarrow> contains p (net p)"
  by (simp add: contains_drop_bit)

lemma contains_broadcast: "prefix_ok p \<Longrightarrow> contains p (broadcast p)"
  by (simp add: contains_interval le_broadcast_iff)

lemma card_contains: "prefix_ok p \<Longrightarrow> card {a. contains p a} = 2 ^ (32 - unat (len p))"
proof -
  assume ok: "prefix_ok p"
  let ?s = "2 ^ (32 - unat (len p)) :: nat"
  have "unat ` {a. contains p a} = {unat (net p) ..< unat (net p) + ?s}"
  proof (intro equalityI subsetI)
    fix n
    assume n: "n \<in> {unat (net p) ..< unat (net p) + ?s}"
    then have "n < 2 ^ 32"
      using net_below [OF ok] by auto
    then have "unat (word_of_nat n :: u32) = n"
      by (subst unat_of_nat) simp
    moreover from this n have "contains p (word_of_nat n)"
      using ok by (auto simp: contains_interval le_broadcast_iff word_le_nat_alt [of "net p"])
    ultimately show "n \<in> unat ` {a. contains p a}"
      by (metis (mono_tags) image_eqI mem_Collect_eq)
  next
    fix n
    assume "n \<in> unat ` {a. contains p a}"
    then show "n \<in> {unat (net p) ..< unat (net p) + ?s}"
      using ok by (auto simp: contains_interval le_broadcast_iff word_le_nat_alt [of "net p"])
  qed
  moreover have "card (unat ` {a. contains p a}) = card {a. contains p a}"
    by (rule card_image) (auto simp: inj_on_def unat_inject)
  ultimately show ?thesis
    by simp
qed

lemma prefix_mask_mono_drop:
  assumes "drop_bit m (a :: u32) = drop_bit m b" "m \<le> n"
  shows "drop_bit n a = drop_bit n b"
proof -
  have "drop_bit n c = drop_bit (n - m) (drop_bit m c)" for c :: u32
    using assms(2) by (simp add: drop_bit_drop_bit)
  then show ?thesis
    using assms(1) by metis
qed

lemma overlaps_iff_shared:
  assumes "prefix_ok p" "prefix_ok q"
  shows "overlaps p q \<longleftrightarrow> (\<exists>a. contains p a \<and> contains q a)"
proof -
  let ?l = "min (len p) (len q)"
  have l: "unat ?l = min (unat (len p)) (unat (len q))"
    by (simp add: min_def word_le_nat_alt)
  have le: "unat ?l \<le> 32"
    using assms by (auto simp: l prefix_ok_def)
  have ov: "overlaps p q \<longleftrightarrow> drop_bit (32 - unat ?l) (net p) = drop_bit (32 - unat ?l) (net q)"
    by (simp only: overlaps_def Let_def and_mask_eq_iff [OF le])
  show ?thesis
  proof
    assume o: "overlaps p q"
    show "\<exists>a. contains p a \<and> contains q a"
    proof (cases "unat (len p) \<le> unat (len q)")
      case True
      then show ?thesis
        using o ov assms l contains_net [OF assms(2)]
        by (intro exI [of _ "net q"]) (simp add: contains_drop_bit)
    next
      case False
      then show ?thesis
        using o ov assms l contains_net [OF assms(1)]
        by (intro exI [of _ "net p"]) (simp add: contains_drop_bit)
    qed
  next
    assume "\<exists>a. contains p a \<and> contains q a"
    then obtain a where "contains p a" "contains q a"
      by blast
    then have "drop_bit (32 - unat ?l) a = drop_bit (32 - unat ?l) (net p)"
      "drop_bit (32 - unat ?l) a = drop_bit (32 - unat ?l) (net q)"
      using assms l by (auto simp: contains_drop_bit intro: prefix_mask_mono_drop)
    then show "overlaps p q"
      using ov by simp
  qed
qed

text \<open>A well-formed network is the interval of addresses from its network address to its
  broadcast address, it holds two to the number of host bits of them, and two networks
  overlap exactly when they share an address.\<close>

theorem ipv4_prefix_correct:
  assumes "prefix_ok p" and "prefix_ok q"
  shows "(\<forall>a. contains p a \<longleftrightarrow> net p \<le> a \<and> a \<le> broadcast p) \<and>
     card {a. contains p a} = 2 ^ (32 - unat (len p)) \<and>
     (overlaps p q \<longleftrightarrow> (\<exists>a. contains p a \<and> contains q a))"
  using contains_interval [OF assms(1)] card_contains [OF assms(1)] overlaps_iff_shared [OF assms]
  by blast

theorem ipv4_prefix_correct_witness:
  "overlaps \<lparr>net = 0x0a010000, len = 16\<rparr> \<lparr>net = 0x0a010200, len = 24\<rparr> \<and>
   card {a. contains \<lparr>net = 0x0a010200, len = 24\<rparr> a} = 256"
proof -
  have ok: "prefix_ok \<lparr>net = 0x0a010200, len = 24\<rparr>" "prefix_ok \<lparr>net = 0x0a010000, len = 16\<rparr>"
    by (simp_all add: prefix_ok_def prefix_mask_def mask_eq_exp_minus_1)
  have "overlaps \<lparr>net = 0x0a010000, len = 16\<rparr> \<lparr>net = 0x0a010200, len = 24\<rparr>"
    by (simp add: overlaps_def prefix_mask_def min_def Let_def mask_eq_exp_minus_1)
  then show ?thesis
    using ipv4_prefix_correct [OF ok, THEN conjunct2, THEN conjunct1] by simp
qed

end
