(* ===== verification/Host_Io.thy ===== *)
theory Host_Io
  imports Prelude
begin

text \<open>
  What the host hands back and how it is read: the outcome of a forked command (\<open>sys.rs\<close>,
  \<open>Output\<close>), JSON documents as \<open>serde_json\<close> yields them, and the textual forms of addresses the
  commands take and print. \<open>serde_json::from_str\<close> itself is not part of the repository; the
  definitions that use it take the parsed document, or a parser, as an argument.
\<close>

section \<open>Forked commands\<close>

record Output =
  status :: int
  stdout :: string
  stderr :: string

definition output_ok :: "Output \<Rightarrow> bool" where
  "output_ok o' \<longleftrightarrow> status o' = 0"

text \<open>\<open>Result<Output>\<close>: \<open>Inl\<close> is the error's text.\<close>

type_synonym io_result = "string + Output"

definition int_str :: "int \<Rightarrow> string" where
  "int_str i = (if i < 0 then ''-'' @ dec (nat (- i)) else dec (nat i))"

section \<open>JSON documents\<close>

text \<open>\<open>JNum\<close> is a number \<open>serde_json\<close> holds as an integer, \<open>JFloat\<close> any other, by its text.\<close>

datatype json = JNull | JBool bool | JNum int | JFloat string | JStr string | JArr "json list" | JObj "(string \<times> json) list"

text \<open>\<open>v[key]\<close>: \<open>Null\<close> for a missing key and for a value that is no object.\<close>

fun json_at :: "json \<Rightarrow> string \<Rightarrow> json" where
  "json_at (JObj fs) key = (case map_of fs key of Some v \<Rightarrow> v | None \<Rightarrow> JNull)"
| "json_at _ key = JNull"

text \<open>\<open>Value::get\<close>: \<open>None\<close> for a missing key and for a value that is no object.\<close>

fun json_get :: "json \<Rightarrow> string \<Rightarrow> json option" where
  "json_get (JObj fs) key = map_of fs key"
| "json_get _ key = None"

fun as_str :: "json \<Rightarrow> string option" where
  "as_str (JStr s) = Some s"
| "as_str _ = None"

fun as_array :: "json \<Rightarrow> json list option" where
  "as_array (JArr xs) = Some xs"
| "as_array _ = None"

fun as_u64 :: "json \<Rightarrow> nat option" where
  "as_u64 (JNum i) = (if 0 \<le> i \<and> i < 2 ^ 64 then Some (nat i) else None)"
| "as_u64 _ = None"

section \<open>Addresses as text\<close>

text \<open>\<open>format!("{b:02x}")\<close> and \<open>mac_str\<close> of \<open>relay.rs\<close>.\<close>

definition hex_digit :: "nat \<Rightarrow> char" where
  "hex_digit d = (if d < 10 then char_of (48 + d) else char_of (87 + d))"

definition hex2 :: "u8 \<Rightarrow> string" where
  "hex2 b = [hex_digit (unat b div 16), hex_digit (unat b mod 16)]"

definition mac_str :: "mac \<Rightarrow> string" where
  "mac_str m = join '':'' (map hex2 (mac_bytes m))"

text \<open>\<open>Ipv4Addr::from_str\<close>: four octets of one to three digits, no leading zero, no sign.\<close>

fun split_on :: "char \<Rightarrow> string \<Rightarrow> string list" where
  "split_on c [] = [[]]"
| "split_on c (d # s) =
     (if d = c then [] # split_on c s
      else case split_on c s of w # ws \<Rightarrow> (d # w) # ws | [] \<Rightarrow> [[d]])"

definition parse_octet :: "string \<Rightarrow> u8 option" where
  "parse_octet s =
     (if s = [] \<or> length s > 3 \<or> (length s > 1 \<and> hd s = CHR ''0'') then None
      else case digits_val 0 s of
             None \<Rightarrow> None
           | Some n \<Rightarrow> if n \<le> 255 then Some (word_of_nat n) else None)"

definition parse_ipv4 :: "string \<Rightarrow> ipv4 option" where
  "parse_ipv4 s =
     (case map parse_octet (split_on (CHR ''.'') s) of
        [Some a, Some b, Some c, Some d] \<Rightarrow> Some (u32_from_be a b c d)
      | _ \<Rightarrow> None)"

lemma split_on_no_sep: "c \<notin> set s \<Longrightarrow> split_on c s = [s]"
  by (induction s) auto

lemma split_on_append_sep: "c \<notin> set s \<Longrightarrow> split_on c (s @ c # t) = s # split_on c t"
  by (induction s) auto

lemma set_dec: "set (dec n) \<subseteq> digit ` {..<10}"
proof (induction n rule: dec.induct)
  case (1 n)
  then show ?case
    by (subst dec.simps) auto
qed

lemma dot_notin_dec: "CHR ''.'' \<notin> set (dec n)"
proof
  assume "CHR ''.'' \<in> set (dec n)"
  then obtain d where "d < 10" "digit d = CHR ''.''"
    using set_dec [of n] by auto
  then show False
    using digit_val_digit [of d] by (simp add: digit_val_def)
qed

lemma digits_val_mono: "digits_val acc s = Some n \<Longrightarrow> acc * 10 ^ length s \<le> n"
proof (induction s arbitrary: acc)
  case (Cons c s)
  then obtain d where d: "digit_val c = Some d" "digits_val (acc * 10 + d) s = Some n"
    by (auto split: option.splits)
  have "(acc * 10 + d) * 10 ^ length s \<le> n"
    using d by (intro Cons.IH) simp
  then show ?case
    by (simp add: algebra_simps)
qed simp

lemma dec_hd_zero: "hd (dec n) = CHR ''0'' \<Longrightarrow> n = 0"
proof (induction n rule: dec.induct)
  case (1 n)
  show ?case
  proof (cases "n < 10")
    case True
    have z: "digit_val (CHR ''0'') = Some 0"
      by (simp add: digit_val_def)
    from True 1(2) have "digit n = CHR ''0''"
      by (subst (asm) dec.simps) simp
    with z digit_val_digit [OF True] show ?thesis
      by simp
  next
    case False
    have "hd (dec (n div 10)) = CHR ''0''"
      using 1(2) False by (subst (asm) (1) dec.simps) (simp add: hd_append)
    then have "n div 10 = 0"
      using False 1(1) by simp
    with False show ?thesis
      by simp
  qed
qed

lemma length_dec_le:
  assumes "n < 10 ^ k" "0 < k"
  shows "length (dec n) \<le> k"
  using assms
proof (induction n arbitrary: k rule: dec.induct)
  case (1 n)
  show ?case
  proof (cases "n < 10")
    case True
    then show ?thesis
      using 1(3) by (subst dec.simps) simp
  next
    case False
    then obtain j where k: "k = Suc j" "0 < j"
      using 1(2) 1(3) by (cases k; cases "k - 1") auto
    have "length (dec (n div 10)) \<le> j"
      using 1(1) [OF False, of j] 1(2) k by (simp add: less_mult_imp_div_less mult.commute)
    then show ?thesis
      using False k by (subst dec.simps) simp
  qed
qed

lemma dec_single_zero: "length (dec n) > 1 \<Longrightarrow> hd (dec n) \<noteq> CHR ''0''"
  using dec_hd_zero [of n] by (auto simp: dec.simps [of 0])

lemma parse_octet_dec: "parse_octet (dec (unat (b :: u8))) = Some b"
proof -
  have "length (dec (unat b)) \<le> 3"
    using order_less_trans [OF unat_u8_less [of b], of "10 ^ 3"] by (intro length_dec_le) simp_all
  then show ?thesis
    using digits_val_dec [of "unat b"] dec_single_zero [of "unat b"] unat_u8_le [of b]
    by (auto simp: parse_octet_def)
qed

lemma ipv4_str_bytes:
  "ipv4_str (u32_from_be a b c d) =
     dec (unat a) @ CHR ''.'' # dec (unat b) @ CHR ''.'' # dec (unat c) @ CHR ''.'' # dec (unat d)"
  by (simp add: ipv4_str_def)

text \<open>Round trip: the address a command prints is the address that is read back.\<close>

lemma parse_ipv4_str: "parse_ipv4 (ipv4_str a) = Some a"
proof -
  obtain p q r s where a: "a = u32_from_be p q r s"
    using u32_exhaust [of a] by blast
  have "split_on (CHR ''.'') (ipv4_str a) = map (dec \<circ> unat) [p, q, r, s]"
    by (simp add: a ipv4_str_bytes split_on_append_sep split_on_no_sep dot_notin_dec)
  then show ?thesis
    by (simp add: parse_ipv4_def parse_octet_dec a)
qed

lemma ipv4_str_inject [simp]: "ipv4_str a = ipv4_str b \<longleftrightarrow> a = b"
  by (metis option.inject parse_ipv4_str)

end
