(* ===== verification/Fabric_Model.thy ===== *)
theory Fabric_Model
  imports Fabric_Decl Outcome Ipv4_Prefix Host_Io
begin

text \<open>
  The typed fabric (\<open>src/src/model.rs\<close>): the records the declaration is resolved into, the
  names derived from them, the readers of the declaration's text fields, and the look-ups
  every derivation uses. A string is its UTF-8 bytes. An error is a value with one constructor
  per message of the source, carrying what the message interpolates.
\<close>

text \<open>What \<open>from_decl\<close> refuses, one row at a time.\<close>

datatype DeclError =
    BadDomain string
  | BadGwRouter string string
  | BadPrefix string
  | RetiredKey string string
  | BadGw string string
  | BadDhcpServer string string
  | BadVid string u16
  | BadMemberAddress string string string
  | BadForward string
  | BadPcpCtrl u8
  | BadBfdPort u16

text \<open>What \<open>validate\<close> refuses: names and domains, preference overrides, workload rows, a member's
  workload addresses, and the derived costs.\<close>

datatype NameError =
    NoDomains
  | NoWires string
  | UndeclaredDomain string string
  | TwoWires string string "string list"
  | UnusedDomain string
  | Duplicate string string
  | LongIfname string
  | ZoneIdZero u8
  | PrimaryNoSegment string string
  | NotAMember string "string list"
  | NotAZone string "string list"
  | ForwardZone string string string

datatype PrefError =
    PrefNotAWire string string string
  | PrefTwice string string
  | PrefIncomplete string string "string list" "string list"

datatype WorkloadError =
    WorkloadIsZone
  | WorkloadTwice
  | LegTaken string string
  | VlanTaken string u16 string
  | LegCollides string
  | PrefixTooWide Ipv4Prefix
  | GwOutside ipv4 Ipv4Prefix
  | GwReserved ipv4 Ipv4Prefix
  | PrefixInZone Ipv4Prefix string Ipv4Prefix
  | AllowEmpty
  | ForwardingOff
  | AllowZone string "string list"
  | NobodyCarries u8
  | AddressTwice ipv4 string string

datatype ServerError = ServerIsGw | ServerIsMember string | ServerInside Ipv4Prefix | ServerUnusable

datatype MemberWorkloadError =
    MemberWorkloadTwice
  | NotAWorkload "string list"
  | LeafWorkload
  | AddressOutside string Ipv4Prefix
  | AddressMask string u8
  | AddressIsGw string ipv4
  | AddressReserved string Ipv4Prefix

datatype IngressError = LongGw u8 | GwVidTaken u16 | RouterCollides string u8 string

datatype DerivedError =
    UniversalCost string u32 u32
  | Rank0Unshared string string string string string
  | EqualCost string string string u32 u32 "string list"
  | NoLinkSpeed string string
  | NoZoneOnWire string
  | NoDefaultBand string

datatype Error =
    Context string Error
  | DeclE DeclError
  | NameE NameError
  | PrefE PrefError
  | WorkloadE string WorkloadError
  | ServerE string ipv4 ServerError
  | MemberWorkloadE string string MemberWorkloadError
  | IngressE string IngressError
  | DerivedE DerivedError

type_synonym 'a result = "(Error, 'a) outcome"

section \<open>Domains and scopes\<close>

type_synonym DomainId = string

definition MAX_DOMAIN_TOKEN :: nat where "MAX_DOMAIN_TOKEN = 1"

definition is_ascii_alphabetic :: "char \<Rightarrow> bool" where
  "is_ascii_alphabetic c \<longleftrightarrow>
     (let n = of_char c in 65 \<le> n \<and> n \<le> (90 :: nat) \<or> 97 \<le> n \<and> n \<le> 122)"

definition domain_parse :: "string \<Rightarrow> DomainId result" where
  "domain_parse s =
     (if length s \<noteq> MAX_DOMAIN_TOKEN \<or> \<not> list_all is_ascii_alphabetic s then Err (DeclE (BadDomain s)) else Ok s)"

datatype SegScope = InDomain DomainId | Universal

definition scope_parse :: "string \<Rightarrow> SegScope result" where
  "scope_parse s =
     (if s = ''any'' then Ok Universal else and_then (domain_parse s) (\<lambda>d. Ok (InDomain d)))"

fun scope_domain :: "SegScope \<Rightarrow> DomainId option" where
  "scope_domain (InDomain d) = Some d"
| "scope_domain Universal = None"

fun is_universal :: "SegScope \<Rightarrow> bool" where
  "is_universal Universal \<longleftrightarrow> True"
| "is_universal (InDomain d) \<longleftrightarrow> False"

fun scope_str :: "SegScope \<Rightarrow> string" where
  "scope_str (InDomain d) = d"
| "scope_str Universal = ''any''"

section \<open>Members\<close>

record Wire =
  wire_name :: string
  wire_domain :: DomainId
  wire_speed_mbps :: u32

definition MAX_BOND_IFNAME :: nat where "MAX_BOND_IFNAME = 15 - 1 - MAX_DOMAIN_TOKEN"

definition bond_ifname_too_long :: "string \<Rightarrow> bool" where
  "bond_ifname_too_long ifname \<longleftrightarrow> length ifname > MAX_BOND_IFNAME"

record MemberWorkload =
  mw_name :: string
  mw_address :: ipv4
  mw_len :: u8

definition address_cidr :: "MemberWorkload \<Rightarrow> string" where
  "address_cidr mw = ipv4_str (mw_address mw) @ ''/'' @ dec (unat (mw_len mw))"

record Member =
  mem_name :: string
  mem_node :: u8
  mem_kind :: MemberKind
  mem_wires :: "Wire list"
  mem_workloads :: "MemberWorkload list"

definition wire_on :: "Member \<Rightarrow> DomainId \<Rightarrow> Wire option" where
  "wire_on m d = find (\<lambda>w. wire_domain w = d) (mem_wires m)"

definition wire_named :: "Member \<Rightarrow> string \<Rightarrow> Wire option" where
  "wire_named m n = find (\<lambda>w. wire_name w = n) (mem_wires m)"

fun dscp_str :: "Dscp \<Rightarrow> string" where
  "dscp_str Cs0 = ''cs0''" | "dscp_str Cs2 = ''cs2''" | "dscp_str Cs6 = ''cs6''"

fun tos :: "Dscp \<Rightarrow> string" where
  "tos Cs0 = ''0x00''" | "tos Cs2 = ''0x40''" | "tos Cs6 = ''0xc0''"

section \<open>Zones, segments and workloads\<close>

record ZoneGw =
  gw_scope :: SegScope
  gw_vid :: u16
  gw_router :: string

text \<open>\<open>str::split_once\<close> and \<open>str::rsplit_once\<close>.\<close>

fun split_once :: "char \<Rightarrow> string \<Rightarrow> (string \<times> string) option" where
  "split_once c [] = None"
| "split_once c (x # s) =
     (if x = c then Some ([], s) else map_option (\<lambda>(a, b). (x # a, b)) (split_once c s))"

definition rsplit_once :: "char \<Rightarrow> string \<Rightarrow> (string \<times> string) option" where
  "rsplit_once c s = map_option (\<lambda>(a, b). (rev b, rev a)) (split_once c (rev s))"

definition subnet_prefix :: "ZoneGw \<Rightarrow> string" where
  "subnet_prefix g = (case rsplit_once (CHR ''.'') (gw_router g) of Some (p, _) \<Rightarrow> p | None \<Rightarrow> gw_router g)"

definition leg_cidr :: "ZoneGw \<Rightarrow> u8 \<Rightarrow> string" where
  "leg_cidr g node = subnet_prefix g @ ''.'' @ dec (unat node) @ ''/24''"

definition router_octet :: "ZoneGw \<Rightarrow> u8 result" where
  "router_octet g =
     expect (Option.bind (rsplit_once (CHR ''.'') (gw_router g))
       (\<lambda>(_, oct). map_option word_of_nat (parse_uint 255 oct)))"

record Zone =
  zone_name :: string
  zone_id :: u8
  zone_pcp :: u8
  zone_dscp :: Dscp
  zone_floor_mbps :: u32
  zone_band :: u32
  zone_weight :: u32
  zone_primary :: DomainId
  zone_gw :: "ZoneGw option"

definition block :: "Zone \<Rightarrow> string" where
  "block z = ''10.'' @ dec (unat (zone_id z))"

definition identity_ifnames :: "u8 \<Rightarrow> string \<times> string" where
  "identity_ifnames i = (let n = ''cfab-id'' @ dec (unat i) in (n, n @ ''-peer''))"

definition gw_ifname :: "u8 \<Rightarrow> string" where
  "gw_ifname i = ''cfab-gw'' @ dec (unat i)"

record Segment =
  seg_ifname :: string
  seg_scope :: SegScope
  seg_zone :: string
  seg_seg :: u8
  seg_vid :: u16

record WirePref =
  pref_member :: string
  pref_zone :: string
  pref_order :: "string list"

definition prefix_parse :: "string \<Rightarrow> Ipv4Prefix result" where
  "prefix_parse s =
     (case split_once (CHR ''/'') s of
        None \<Rightarrow> Err (DeclE (BadPrefix s))
      | Some (a, l) \<Rightarrow>
          (case parse_ipv4 a of
             None \<Rightarrow> Err (DeclE (BadPrefix s))
           | Some raw \<Rightarrow>
               (case parse_uint 255 l of
                  None \<Rightarrow> Err (DeclE (BadPrefix s))
                | Some n \<Rightarrow>
                    if n > 32 then Err (DeclE (BadPrefix s))
                    else if raw AND prefix_mask (word_of_nat n) \<noteq> raw then Err (DeclE (BadPrefix s))
                    else Ok \<lparr>net = raw AND prefix_mask (word_of_nat n), len = word_of_nat n\<rparr>)))"

definition prefix_str :: "Ipv4Prefix \<Rightarrow> string" where
  "prefix_str p = ipv4_str (net p) @ ''/'' @ dec (unat (len p))"

definition IFNAME_MAX :: nat where "IFNAME_MAX = 15"
definition LEG_PREFIX :: string where "LEG_PREFIX = ''cfab-work-''"
definition MIN_WORKLOAD_PREFIX_LEN :: u8 where "MIN_WORKLOAD_PREFIX_LEN = 22"

record Workload =
  wl_name :: string
  wl_uplink :: string
  wl_vid :: u16
  wl_prefix :: Ipv4Prefix
  wl_gw :: ipv4
  wl_dhcp_server :: "ipv4 option"
  wl_allow :: "string list"

text \<open>The ends of the characters of a UTF-8 string: every position behind the first byte that a
  continuation byte (\<open>10xxxxxx\<close>) does not follow.\<close>

definition is_continuation :: "char \<Rightarrow> bool" where
  "is_continuation c \<longleftrightarrow> of_char c div 64 = (2 :: nat)"

definition char_ends :: "string \<Rightarrow> nat list" where
  "char_ends s =
     filter (\<lambda>i. i = length s \<or> \<not> is_continuation (s ! i)) [1 ..< Suc (length s)]"

definition leg_ifname :: "Workload \<Rightarrow> string" where
  "leg_ifname wl =
     (let room = IFNAME_MAX - length LEG_PREFIX;
          ends = takeWhile (\<lambda>e. e \<le> room) (char_ends (wl_name wl));
          cut = (if ends = [] then 0 else last ends) in
      LEG_PREFIX @ take cut (wl_name wl))"

definition gw_cidr :: "Workload \<Rightarrow> string" where
  "gw_cidr wl = ipv4_str (wl_gw wl) @ ''/'' @ dec (unat (len (wl_prefix wl)))"

definition local_set :: "Workload \<Rightarrow> string" where
  "local_set wl = leg_ifname wl @ ''-local''"

section \<open>The fabric and its look-ups\<close>

record Fabric =
  fab_domains :: "DomainId list"
  fab_members :: "Member list"
  fab_zones :: "Zone list"
  fab_segments :: "Segment list"
  fab_wire_prefs :: "WirePref list"
  fab_leaf_cost_offset :: u32
  fab_host_forward :: bool
  fab_forward_allow :: "(string \<times> string) list"
  fab_admin_floor_mbps :: u32
  fab_admin_band :: u32
  fab_pcp_ctrl :: u8
  fab_dscp_mark :: bool
  fab_bfd_rx_ms :: u32
  fab_bfd_tx_ms :: u32
  fab_bfd_mult :: u32
  fab_bfd_port :: u16
  fab_ospf_hello :: u32
  fab_ospf_dead :: u32
  fab_bgp_as :: u32
  fab_bgp_keepalive_s :: u32
  fab_bgp_hold_s :: u32
  fab_bgp_connect_s :: u32
  fab_run_dir :: string
  fab_dns_domain :: string
  fab_workloads :: "Workload list"

definition candidate_wires :: "Fabric \<Rightarrow> Member \<Rightarrow> string \<Rightarrow> Wire list" where
  "candidate_wires f m zone =
     filter (\<lambda>w. \<exists>s\<in>set (fab_segments f). seg_zone s = zone \<and> seg_scope s = InDomain (wire_domain w))
       (mem_wires m)"

definition member_of :: "Fabric \<Rightarrow> string \<Rightarrow> Member result" where
  "member_of f n =
     ok_or (NameE (NotAMember n (map mem_name (fab_members f)))) (find (\<lambda>m. mem_name m = n) (fab_members f))"

definition zone_of :: "Fabric \<Rightarrow> string \<Rightarrow> Zone result" where
  "zone_of f n =
     ok_or (NameE (NotAZone n (map zone_name (fab_zones f)))) (find (\<lambda>z. zone_name z = n) (fab_zones f))"

definition wire_pref :: "Fabric \<Rightarrow> string \<Rightarrow> string \<Rightarrow> WirePref option" where
  "wire_pref f mem zone = find (\<lambda>p. pref_member p = mem \<and> pref_zone p = zone) (fab_wire_prefs f)"

definition workload_of :: "Fabric \<Rightarrow> string \<Rightarrow> Workload option" where
  "workload_of f n = find (\<lambda>w. wl_name w = n) (fab_workloads f)"

end
