(* ===== verification/Fabric_Derive.thy ===== *)
theory Fabric_Derive
  imports Fabric_Model
begin

text \<open>
  The derivation (\<open>src/src/derive.rs\<close>): from the typed fabric to what one member runs. The
  wire order of a zone, the interface costs it gives, the segments, bonds and ingress legs a
  member carries, the cost of the universal segment and the interfaces cfab owns. Costs are
  32-bit words. A panic of the source is the value \<open>Panic\<close>, and the theory \<open>Fabric_Accept\<close>
  shows that no declaration reaches one.
\<close>

section \<open>Rows\<close>

record ClassRow =
  cr_ifname :: string
  cr_wire :: string
  cr_zone :: string
  cr_seg :: u8
  cr_vid :: u16
  cr_ospf_cost :: u32

record Port =
  port_ifname :: string
  port_wire :: string

record GwRow =
  gr_ifname :: string
  gr_home :: string
  gr_zone :: string
  gr_vid :: u16
  gr_ports :: "Port list"

definition migrates :: "GwRow \<Rightarrow> bool" where
  "migrates r \<longleftrightarrow> gr_ports r \<noteq> []"

record FallbackRow =
  fr_ifname :: string
  fr_zone :: string
  fr_seg :: u8
  fr_vid :: u16
  fr_ospf_cost :: u32
  fr_home :: string
  fr_ports :: "Port list"

record WorkloadRow =
  wr_wl :: Workload
  wr_address :: string
  wr_addr :: ipv4

datatype PrefSource = Derived | Override

fun source_str :: "PrefSource \<Rightarrow> string" where
  "source_str Derived = ''derived''"
| "source_str Override = ''override''"

record HostZonePref =
  hp_zone :: string
  hp_order :: "string list"
  hp_source :: PrefSource

definition hp_render :: "HostZonePref \<Rightarrow> string" where
  "hp_render p =
     hp_zone p @ '': '' @ (if hp_order p = [] then ''-'' else join '' '' (hp_order p)) @
     '' ('' @ source_str (hp_source p) @ '')''"

definition ladder_cost :: "nat \<Rightarrow> u32" where
  "ladder_cost rank = (if rank = 0 then 10 else 100 * word_of_nat rank)"

definition LADDER_STEP :: u32 where "LADDER_STEP = 100"

section \<open>The wire order of a zone\<close>

text \<open>\<open>sort_by\<close> with the speed descending and then the index: a sort by that pair.\<close>

definition derived_order :: "Fabric \<Rightarrow> Member \<Rightarrow> Zone \<Rightarrow> string list" where
  "derived_order f m z =
     (let candidates = candidate_wires f m (zone_name z);
          rest = sort_key (\<lambda>(i, w). (- int (unat (wire_speed_mbps w)), i))
                   (filter (\<lambda>(i, w). wire_domain w \<noteq> zone_primary z) (List.enumerate 0 candidates)) in
      (case find (\<lambda>w. wire_domain w = zone_primary z) candidates of
         Some w \<Rightarrow> [wire_name w]
       | None \<Rightarrow> []) @ map (\<lambda>(i, w). wire_name w) rest)"

definition zone_pref :: "Fabric \<Rightarrow> Member \<Rightarrow> Zone \<Rightarrow> HostZonePref" where
  "zone_pref f m z =
     (case wire_pref f (mem_name m) (zone_name z) of
        Some p \<Rightarrow> \<lparr>hp_zone = zone_name z, hp_order = pref_order p, hp_source = Override\<rparr>
      | None \<Rightarrow> \<lparr>hp_zone = zone_name z, hp_order = derived_order f m z, hp_source = Derived\<rparr>)"

definition prefs_of :: "Fabric \<Rightarrow> Member \<Rightarrow> HostZonePref list" where
  "prefs_of f m = map (zone_pref f m) (fab_zones f)"

section \<open>Segments, bonds and ingress legs\<close>

definition class_row :: "Member \<Rightarrow> HostZonePref list \<Rightarrow> Segment \<Rightarrow> ClassRow option result" where
  "class_row m prefs r =
     (case scope_domain (seg_scope r) of
        None \<Rightarrow> Ok None
      | Some d \<Rightarrow>
          (case wire_on m d of
             None \<Rightarrow> Ok None
           | Some w \<Rightarrow>
               and_then (expect (find (\<lambda>p. hp_zone p = seg_zone r) prefs)) (\<lambda>p.
               and_then (expect (position (\<lambda>n. n = wire_name w) (hp_order p))) (\<lambda>rank.
               Ok (Some \<lparr>cr_ifname = seg_ifname r, cr_wire = wire_name w, cr_zone = seg_zone r,
                 cr_seg = seg_seg r, cr_vid = seg_vid r, cr_ospf_cost = ladder_cost rank\<rparr>)))))"

definition class_rows_of :: "Fabric \<Rightarrow> Member \<Rightarrow> ClassRow list result" where
  "class_rows_of f m = filter_map_out (class_row m (prefs_of f m)) (fab_segments f)"

definition ports_of :: "Member \<Rightarrow> string \<Rightarrow> Port list" where
  "ports_of m ifname =
     map (\<lambda>w. \<lparr>port_ifname = ifname @ ''-'' @ wire_domain w, port_wire = wire_name w\<rparr>) (mem_wires m)"

fun home_loop :: "string \<Rightarrow> (u32 \<times> string) option \<Rightarrow> ClassRow list \<Rightarrow> (u32 \<times> string) option" where
  "home_loop zone best [] = best"
| "home_loop zone best (r # rs) =
     (if cr_zone r \<noteq> zone then home_loop zone best rs
      else if (case best of None \<Rightarrow> True | Some (cost, _) \<Rightarrow> cr_ospf_cost r < cost)
      then home_loop zone (Some (cr_ospf_cost r, cr_wire r)) rs
      else home_loop zone best rs)"

definition home_wire :: "Fabric \<Rightarrow> Member \<Rightarrow> string \<Rightarrow> string option result" where
  "home_wire f m zone =
     and_then (class_rows_of f m) (\<lambda>rows. Ok (map_option snd (home_loop zone None rows)))"

text \<open>\<open>filter_map(..).max().unwrap_or(0)\<close> over the members, for one segment.\<close>

definition segment_max :: "Fabric \<Rightarrow> Segment \<Rightarrow> u32 result" where
  "segment_max f s =
     and_then (filter_map_out (\<lambda>m. and_then (class_rows_of f m) (\<lambda>rows.
         Ok (map_option cr_ospf_cost (find (\<lambda>r. cr_ifname r = seg_ifname s) rows)))) (fab_members f))
       (\<lambda>costs. Ok (fold max costs 0))"

definition universal_cost :: "Fabric \<Rightarrow> string \<Rightarrow> u32 result" where
  "universal_cost f zone =
     and_then (map_out (segment_max f)
         (filter (\<lambda>s. seg_zone s = zone \<and> \<not> is_universal (seg_scope s)) (fab_segments f)))
       (\<lambda>maxima. Ok (sum_list maxima + LADDER_STEP))"

text \<open>The home of a bond leg: the zone's cheapest wire, else the first port's.\<close>

definition bond_home :: "Fabric \<Rightarrow> Member \<Rightarrow> string \<Rightarrow> Port list \<Rightarrow> string option result" where
  "bond_home f m zone ports =
     and_then (home_wire f m zone) (\<lambda>h.
       Ok (case h of Some x \<Rightarrow> Some x | None \<Rightarrow> (case ports of [] \<Rightarrow> None | p # _ \<Rightarrow> Some (port_wire p))))"

definition fallback_row :: "Fabric \<Rightarrow> Member \<Rightarrow> Segment \<Rightarrow> FallbackRow option result" where
  "fallback_row f m r =
     (let ports = ports_of m (seg_ifname r) in
      and_then (bond_home f m (seg_zone r) ports) (\<lambda>h.
        case h of
          None \<Rightarrow> Ok None
        | Some home \<Rightarrow>
            and_then (universal_cost f (seg_zone r)) (\<lambda>cost.
              Ok (Some \<lparr>fr_ifname = seg_ifname r, fr_zone = seg_zone r, fr_seg = seg_seg r,
                fr_vid = seg_vid r, fr_ospf_cost = cost, fr_home = home, fr_ports = ports\<rparr>))))"

definition fallback_rows_of :: "Fabric \<Rightarrow> Member \<Rightarrow> FallbackRow list result" where
  "fallback_rows_of f m =
     filter_map_out (fallback_row f m) (filter (\<lambda>r. is_universal (seg_scope r)) (fab_segments f))"

definition gw_row :: "Fabric \<Rightarrow> Member \<Rightarrow> Zone \<Rightarrow> GwRow option result" where
  "gw_row f m z =
     (case zone_gw z of
        None \<Rightarrow> Ok None
      | Some gw \<Rightarrow>
          (let ifname = gw_ifname (zone_id z);
               row = (\<lambda>home ports. \<lparr>gr_ifname = ifname, gr_home = home, gr_zone = zone_name z,
                        gr_vid = gw_vid gw, gr_ports = ports\<rparr>) in
           case gw_scope gw of
             InDomain d \<Rightarrow> Ok (map_option (\<lambda>w. row (wire_name w) []) (wire_on m d))
           | Universal \<Rightarrow>
               (let ports = ports_of m ifname in
                and_then (bond_home f m (zone_name z) ports) (\<lambda>h. Ok (map_option (\<lambda>home. row home ports) h)))))"

definition gw_rows_of :: "Fabric \<Rightarrow> Member \<Rightarrow> GwRow list result" where
  "gw_rows_of f m =
     (if mem_kind m \<noteq> Host then Ok [] else filter_map_out (gw_row f m) (fab_zones f))"

text \<open>A \<open>BTreeSet\<close> that is only asked for membership and equality is a set.\<close>

definition segments_of :: "Fabric \<Rightarrow> Member \<Rightarrow> string set result" where
  "segments_of f m =
     and_then (class_rows_of f m) (\<lambda>rows.
       Ok (set (map (\<lambda>r. cr_zone r @ '':'' @ dec (unat (cr_seg r))) rows)))"

section \<open>The view of one member\<close>

record View =
  v_fabric :: Fabric
  v_member :: Member

definition new_view :: "Fabric \<Rightarrow> string \<Rightarrow> View result" where
  "new_view f n = and_then (member_of f n) (\<lambda>m. Ok \<lparr>v_fabric = f, v_member = m\<rparr>)"

definition class_rows :: "View \<Rightarrow> ClassRow list result" where
  "class_rows v = class_rows_of (v_fabric v) (v_member v)"

definition gw_rows :: "View \<Rightarrow> GwRow list result" where
  "gw_rows v = gw_rows_of (v_fabric v) (v_member v)"

definition fallback_rows :: "View \<Rightarrow> FallbackRow list result" where
  "fallback_rows v = fallback_rows_of (v_fabric v) (v_member v)"

definition workload_rows :: "View \<Rightarrow> WorkloadRow list" where
  "workload_rows v =
     List.map_filter (\<lambda>wl. map_option
         (\<lambda>mw. \<lparr>wr_wl = wl, wr_address = address_cidr mw, wr_addr = mw_address mw\<rparr>)
         (find (\<lambda>mw. mw_name mw = wl_name wl) (mem_workloads (v_member v))))
       (fab_workloads (v_fabric v))"

definition zone_ifs :: "View \<Rightarrow> string \<Rightarrow> string list result" where
  "zone_ifs v zone =
     and_then (class_rows v) (\<lambda>cs.
     and_then (fallback_rows v) (\<lambda>fs.
     and_then (gw_rows v) (\<lambda>gs.
       Ok (map cr_ifname (filter (\<lambda>r. cr_zone r = zone) cs) @
           map fr_ifname (filter (\<lambda>r. fr_zone r = zone) fs) @
           map gr_ifname (filter (\<lambda>r. gr_zone r = zone) gs)))))"

text \<open>A \<open>BTreeSet\<close> that is collected back into a vector: sorted, each once.\<close>

definition view_wires :: "View \<Rightarrow> string list result" where
  "view_wires v = and_then (class_rows v) (\<lambda>rows. Ok (remdups_adj (sort (map cr_wire rows))))"

definition admin_ifs :: "View \<Rightarrow> string list" where
  "admin_ifs v = (case mem_kind (v_member v) of Host \<Rightarrow> map wire_name (mem_wires (v_member v)) | Leaf \<Rightarrow> [])"

definition is_admin_if :: "View \<Rightarrow> string \<Rightarrow> bool" where
  "is_admin_if v ifname \<longleftrightarrow> ifname \<in> set (admin_ifs v)"

text \<open>\<open>dedup_by\<close> on the name: of equal neighbours the first stays.\<close>

fun dedup_fst :: "('a \<times> 'b) list \<Rightarrow> ('a \<times> 'b) list" where
  "dedup_fst [] = []"
| "dedup_fst [x] = [x]"
| "dedup_fst (x # y # xs) = (if fst x = fst y then dedup_fst (x # xs) else x # dedup_fst (y # xs))"

definition owned_forwarding :: "View \<Rightarrow> (string \<times> bool) list result" where
  "owned_forwarding v =
     (let f = v_fabric v; m = v_member v;
          transit = (mem_kind m = Host \<and> fab_host_forward f) in
      and_then (class_rows v) (\<lambda>cs.
      and_then (gw_rows v) (\<lambda>gs.
      and_then (fallback_rows v) (\<lambda>fs.
        Ok (dedup_fst (sort
          (map (\<lambda>w. (wire_name w, False)) (mem_wires m) @
           map (\<lambda>r. (cr_ifname r, transit)) cs @
           concat (map (\<lambda>r. (gr_ifname r, transit) # map (\<lambda>p. (port_ifname p, False)) (gr_ports r)) gs) @
           concat (map (\<lambda>r. (fr_ifname r, transit) # map (\<lambda>p. (port_ifname p, False)) (fr_ports r)) fs) @
           map (\<lambda>r. (leg_ifname (wr_wl r), transit)) (workload_rows v) @
           concat (map (\<lambda>z. let (i, peer) = identity_ifnames (zone_id z) in [(peer, False), (i, False)])
             (fab_zones f)))))))))"

definition starts_with :: "string \<Rightarrow> string \<Rightarrow> bool" where
  "starts_with p s \<longleftrightarrow> take (length p) s = p"

definition owns_if :: "View \<Rightarrow> string \<Rightarrow> bool result" where
  "owns_if v ifname =
     (if starts_with ''cfab-'' ifname then Ok True
      else and_then (owned_forwarding v) (\<lambda>o'. Ok (ifname \<in> set (map fst o'))))"

definition link_speed :: "View \<Rightarrow> string \<Rightarrow> u32 result" where
  "link_speed v wire =
     ok_or (DerivedE (NoLinkSpeed (mem_name (v_member v)) wire))
       (map_option wire_speed_mbps (wire_named (v_member v) wire))"

definition identity_if :: "Zone \<Rightarrow> string" where
  "identity_if z = fst (identity_ifnames (zone_id z))"

definition identity_addr_of :: "Zone \<Rightarrow> Member \<Rightarrow> string" where
  "identity_addr_of z m = block z @ ''.0.'' @ dec (unat (mem_node m))"

definition segment_addr :: "View \<Rightarrow> Zone \<Rightarrow> u8 \<Rightarrow> string" where
  "segment_addr v z seg = block z @ ''.'' @ dec (unat seg) @ ''.'' @ dec (unat (mem_node (v_member v)))"

definition render_prefs :: "Fabric \<Rightarrow> string" where
  "render_prefs f =
     concat (map (\<lambda>m. concat (map (\<lambda>p. mem_name m @ '' '' @ hp_render p @ [CHR 0x0A]) (prefs_of f m)))
       (fab_members f))"

end
