(* ===== verification/Text_Scan.thy ===== *)
theory Text_Scan
  imports Fabric_Model
begin

text \<open>
  The \<open>str\<close> functions the line-based readers use: \<open>lines\<close>, \<open>strip_prefix\<close>, \<open>trim\<close> and
  \<open>split_whitespace\<close>. A string is its UTF-8 bytes, so a white-space character is one of the byte
  sequences below, the UTF-8 forms of the Unicode property \<open>White_Space\<close>.
\<close>

definition white :: "string list" where
  "white = [[CHR '' ''], [CHR 0x09], [CHR 0x0A], [CHR 0x0B], [CHR 0x0C], [CHR 0x0D], [CHR 0xC2, CHR 0x85], [CHR 0xC2, CHR 0xA0],
     [CHR 0xE1, CHR 0x9A, CHR 0x80]] @
     map (\<lambda>n. [CHR 0xE2, CHR 0x80, char_of (n :: nat)]) ([128..<139] @ [168, 169, 175]) @
     [[CHR 0xE2, CHR 0x81, CHR 0x9F], [CHR 0xE3, CHR 0x80, CHR 0x80]]"

text \<open>\<open>str::contains\<close>.\<close>

fun has_substring :: "string \<Rightarrow> string \<Rightarrow> bool" where
  "has_substring w [] \<longleftrightarrow> w = []"
| "has_substring w (c # s) \<longleftrightarrow> take (length w) (c # s) = w \<or> has_substring w s"

lemma has_substring_iff: "has_substring w s \<longleftrightarrow> (\<exists>a b. s = a @ w @ b)"
proof (induction s)
  case (Cons c s)
  have "take (length w) (c # s) = w \<longleftrightarrow> (\<exists>b. c # s = w @ b)"
    by (metis append_take_drop_id append_eq_conv_conj)
  moreover have "(\<exists>a b. c # s = a @ w @ b) \<longleftrightarrow> (\<exists>b. c # s = w @ b) \<or> (\<exists>a b. s = a @ w @ b)"
    by (auto simp: Cons_eq_append_conv)
  ultimately show ?case
    using Cons.IH by simp
qed simp

definition strip_prefix :: "string \<Rightarrow> string \<Rightarrow> string option" where
  "strip_prefix p s = (if take (length p) s = p then Some (drop (length p) s) else None)"

lemma strip_prefix_Some: "strip_prefix p s = Some r \<longleftrightarrow> s = p @ r"
  by (metis append_eq_conv_conj append_take_drop_id option.distinct(1) option.inject strip_prefix_def)

lemma strip_prefix_append [simp]: "strip_prefix p (p @ r) = Some r"
  by (simp add: strip_prefix_Some)

lemma find_map_Some: "find_map g xs = Some y \<Longrightarrow> \<exists>x\<in>set xs. g x = Some y"
  by (induction xs) (auto split: option.splits)

lemma find_map_None: "(\<And>x. x \<in> set xs \<Longrightarrow> g x = None) \<Longrightarrow> find_map g xs = None"
  by (induction xs) auto

text \<open>One of the words at the head of a string is cut off; none is empty.\<close>

definition cut :: "string list \<Rightarrow> string \<Rightarrow> string option" where
  "cut ws s = find_map (\<lambda>w. if w = [] then None else strip_prefix w s) ws"

lemma cut_Some: "cut ws s = Some r \<Longrightarrow> \<exists>w\<in>set ws. w \<noteq> [] \<and> s = w @ r"
  unfolding cut_def by (drule find_map_Some) (auto simp: strip_prefix_Some split: if_splits)

lemma cut_shorter: "cut ws s = Some r \<Longrightarrow> length r < length s"
  by (auto dest!: cut_Some)

lemma cut_None: "s = [] \<or> hd s \<notin> hd ` set ws \<Longrightarrow> cut ws s = None"
  unfolding cut_def
  by (rule find_map_None) (cases s, auto simp: strip_prefix_def image_iff Cons_eq_append_conv neq_Nil_conv)

function trim_with :: "string list \<Rightarrow> string \<Rightarrow> string" where
  "trim_with ws s = (case cut ws s of None \<Rightarrow> s | Some r \<Rightarrow> trim_with ws r)"
  by pat_completeness auto
termination
  by (relation "measure (length \<circ> snd)") (auto dest: cut_shorter)

declare trim_with.simps [simp del]

definition trim_text :: "string \<Rightarrow> string" where
  "trim_text s = rev (trim_with (map rev white) (rev (trim_with white s)))"

function split_ws :: "string \<Rightarrow> string \<Rightarrow> string list" where
  "split_ws cur s =
     (let word = (if cur = [] then [] else [rev cur]) in
      case cut white s of
        Some r \<Rightarrow> word @ split_ws [] r
      | None \<Rightarrow> (case s of [] \<Rightarrow> word | c # r \<Rightarrow> split_ws (c # cur) r))"
  by pat_completeness auto
termination
  by (relation "measure (length \<circ> snd)") (auto dest: cut_shorter)

declare split_ws.simps [simp del]

definition split_whitespace :: "string \<Rightarrow> string list" where
  "split_whitespace s = split_ws [] s"

text \<open>\<open>lines\<close>: a line ends at a newline, which a carriage return may precede; an unterminated last
  line is a line unless it is empty.\<close>

definition strip_cr :: "string \<Rightarrow> string" where
  "strip_cr l = (if l \<noteq> [] \<and> last l = CHR 0x0D then butlast l else l)"

definition str_lines :: "string \<Rightarrow> string list" where
  "str_lines s =
     (let parts = split_on (CHR 0x0A) s in
      map strip_cr (butlast parts) @ (if last parts = [] then [] else [last parts]))"

section \<open>Scanning what was printed\<close>

lemma split_on_not_Nil [simp]: "split_on c s \<noteq> []"
  by (induction s) (auto split: list.splits)

lemma str_lines_line: "CHR 0x0A \<notin> set l \<Longrightarrow> str_lines (l @ CHR 0x0A # s) = strip_cr l # str_lines s"
  by (simp add: str_lines_def split_on_append_sep Let_def)

lemma str_lines_Nil [simp]: "str_lines [] = []"
  by (simp add: str_lines_def)

lemma strip_cr_keep: "l = [] \<or> last l \<noteq> CHR 0x0D \<Longrightarrow> strip_cr l = l"
  by (auto simp: strip_cr_def)

text \<open>A visible ASCII character begins and ends no white space.\<close>

definition visible :: "char \<Rightarrow> bool" where
  "visible c \<longleftrightarrow> of_char c \<in> {33 :: nat..126}"

lemma visible_not_white: "visible c \<Longrightarrow> w \<in> set white \<Longrightarrow> c \<notin> set w"
  by (auto simp: white_def visible_def)

lemma white_not_Nil: "[] \<notin> set white"
  by (auto simp: white_def)

lemma visible_not_head: "visible c \<Longrightarrow> c \<notin> hd ` set white" "visible c \<Longrightarrow> c \<notin> hd ` set (map rev white)"
  using visible_not_white white_not_Nil by (auto simp: hd_rev) (metis hd_in_set, metis last_in_set)

lemma trim_with_id: "s = [] \<or> hd s \<notin> hd ` set ws \<Longrightarrow> trim_with ws s = s"
  by (simp add: trim_with.simps [of ws s] cut_None)

lemma trim_text_visible: "list_all visible s \<Longrightarrow> trim_text s = s"
proof (cases "s = []")
  case False
  assume "list_all visible s"
  then have "visible (hd s)" "visible (hd (rev s))"
    using False by (simp_all add: list_all_iff hd_rev)
  then show ?thesis
    by (simp add: trim_text_def trim_with_id visible_not_head del: set_map)
qed (simp add: trim_text_def trim_with_id)

text \<open>A visible character is never trimmed away.\<close>

lemma trim_with_keeps: "(\<And>w. w \<in> set ws \<Longrightarrow> c \<notin> set w) \<Longrightarrow> c \<in> set s \<Longrightarrow> c \<in> set (trim_with ws s)"
proof (induction ws s rule: trim_with.induct)
  case (1 ws s)
  show ?case
  proof (cases "cut ws s")
    case (Some r)
    then have "c \<in> set r"
      using 1(2,3) by (auto dest!: cut_Some)
    then show ?thesis
      using 1(1) [OF Some 1(2)] Some by (simp add: trim_with.simps [of ws s])
  qed (simp add: 1 trim_with.simps [of ws s])
qed

lemma trim_text_nonempty: "visible c \<Longrightarrow> c \<in> set s \<Longrightarrow> trim_text s \<noteq> []"
proof -
  assume c: "visible c" "c \<in> set s"
  have "c \<in> set (trim_with white s)"
    using c visible_not_white by (intro trim_with_keeps) auto
  then have "c \<in> set (trim_with (map rev white) (rev (trim_with white s)))"
    using c visible_not_white by (intro trim_with_keeps) auto
  then show ?thesis
    by (auto simp: trim_text_def)
qed

lemma cut_visible: "visible c \<Longrightarrow> cut white (c # s) = None"
  using visible_not_head(1) [of c] by (intro cut_None) simp

lemma cut_space: "cut white (CHR '' '' # s) = Some s"
  by (simp add: cut_def white_def strip_prefix_def)

lemma split_ws_word: "list_all visible t \<Longrightarrow> split_ws cur (t @ s) = split_ws (rev t @ cur) s"
  by (induction t arbitrary: cur) (simp_all add: split_ws.simps [of _ "_ # _"] cut_visible)

lemma split_whitespace_word:
  "list_all visible t \<Longrightarrow> t \<noteq> [] \<Longrightarrow> s = [] \<or> hd s = CHR '' '' \<Longrightarrow>
     split_whitespace (CHR '' '' # t @ s) = t # split_whitespace s"
  unfolding split_whitespace_def
  by (cases s) (simp_all add: split_ws.simps [of _ "CHR '' '' # _"] cut_space split_ws_word split_ws_word [where s = "[]", simplified] split_ws.simps [of _ "[]"] cut_None)

end
