(* ===== verification/Prober_Leg.thy ===== *)
theory Prober_Leg
  imports Prober_Decide Prober_Passive Prober_Frame Fabric_Derive Host_Io Text_Scan Ordered_Map
begin

text \<open>
  The prober (\<open>src/src/prober/mod.rs\<close>): the legs a member probes, what one tick of a leg reads,
  how it judges each port, when it moves a bond and what it asks, and the lines it has to say.
  Every call to the system and to the packet sockets is kept in one trace, in order; the answers
  come from an arbitrary environment. The counter of moves is an unbounded number.
\<close>

section \<open>System and packet sockets\<close>

datatype ProbeErr = FatalErr string | NoDeviceErr string | OtherErr string

fun without_fatal :: "ProbeErr \<Rightarrow> string" where
  "without_fatal (FatalErr m) = m"
| "without_fatal (NoDeviceErr m) = m"
| "without_fatal (OtherErr m) = m"

fun is_no_device :: "ProbeErr \<Rightarrow> bool" where
  "is_no_device (NoDeviceErr _) = True"
| "is_no_device _ = False"

record PortState =
  ps_link :: "BondLink option"
  ps_carrier :: bool

datatype ProbeOp =
    ReadFile string
  | PortStateOp string
  | WriteFile string string
  | SetActive string string
  | AskEngine string string
  | Listen string
  | Send string "u8 list"
  | Recv string

record World =
  pw_ops :: "ProbeOp list"
  pw_read :: "nat \<Rightarrow> string \<Rightarrow> string option"
  pw_port :: "nat \<Rightarrow> string \<Rightarrow> ProbeErr + PortState"
  pw_write :: "nat \<Rightarrow> string \<Rightarrow> string \<Rightarrow> ProbeErr option"
  pw_active :: "nat \<Rightarrow> string \<Rightarrow> string \<Rightarrow> ProbeErr option"
  pw_request :: "nat \<Rightarrow> string \<Rightarrow> string \<Rightarrow> string option"
  pw_listen :: "nat \<Rightarrow> string \<Rightarrow> ProbeErr option"
  pw_send :: "nat \<Rightarrow> string \<Rightarrow> u8 list \<Rightarrow> bool"
  pw_recv :: "nat \<Rightarrow> string \<Rightarrow> u8 list list option"

definition traced :: "ProbeOp \<Rightarrow> (nat \<Rightarrow> 'a) \<Rightarrow> World \<Rightarrow> 'a \<times> World" where
  "traced op answer w = (answer (length (pw_ops w)), w\<lparr>pw_ops := pw_ops w @ [op]\<rparr>)"

definition p_read :: "string \<Rightarrow> World \<Rightarrow> string option \<times> World" where
  "p_read path w = traced (ReadFile path) (\<lambda>n. pw_read w n path) w"

definition p_port_state :: "string \<Rightarrow> World \<Rightarrow> (ProbeErr + PortState) \<times> World" where
  "p_port_state port w = traced (PortStateOp port) (\<lambda>n. pw_port w n port) w"

definition p_write :: "string \<Rightarrow> string \<Rightarrow> World \<Rightarrow> ProbeErr option \<times> World" where
  "p_write path content w = traced (WriteFile path content) (\<lambda>n. pw_write w n path content) w"

definition p_set_active :: "string \<Rightarrow> string \<Rightarrow> World \<Rightarrow> ProbeErr option \<times> World" where
  "p_set_active bond port w = traced (SetActive bond port) (\<lambda>n. pw_active w n bond port) w"

definition p_request :: "string \<Rightarrow> string \<Rightarrow> World \<Rightarrow> string option \<times> World" where
  "p_request sock line w = traced (AskEngine sock line) (\<lambda>n. pw_request w n sock line) w"

definition p_listen :: "string \<Rightarrow> World \<Rightarrow> ProbeErr option \<times> World" where
  "p_listen port w = traced (Listen port) (\<lambda>n. pw_listen w n port) w"

definition p_send :: "string \<Rightarrow> u8 list \<Rightarrow> World \<Rightarrow> bool \<times> World" where
  "p_send port frame w = traced (Send port frame) (\<lambda>n. pw_send w n port frame) w"

definition p_recv :: "string \<Rightarrow> World \<Rightarrow> u8 list list option \<times> World" where
  "p_recv port w = traced (Recv port) (\<lambda>n. pw_recv w n port) w"

section \<open>The engine's neighbor table\<close>

definition NBR_STATES :: "string list" where
  "NBR_STATES = [''down'', ''attempt'', ''init'', ''2-way'', ''exstart'', ''exchange'', ''loading'', ''full'']"

definition at_least_two_way :: "string \<Rightarrow> bool" where
  "at_least_two_way state = (case position (\<lambda>s. s = state) NBR_STATES of Some i \<Rightarrow> i \<ge> 3 | None \<Rightarrow> False)"

definition ospf_neighbors :: "json \<Rightarrow> string \<Rightarrow> string \<Rightarrow> json option" where
  "ospf_neighbors doc zone ifn =
     map_option (\<lambda>i. json_at i ''neighbors'')
       (json_get (json_at (json_at (json_at doc ''ospf'') zone) ''interfaces'') ifn)"

definition neighbor_state :: "json \<Rightarrow> string \<Rightarrow> string" where
  "neighbor_state nbrs router_id =
     (case Option.bind
             (find (\<lambda>n. json_at n ''router_id'' = JStr router_id) (case as_array nbrs of Some xs \<Rightarrow> xs | None \<Rightarrow> []))
             (\<lambda>n. as_str (json_at n ''state'')) of
        Some s \<Rightarrow> last (split_on (CHR '':'') s)
      | None \<Rightarrow> ''absent'')"

definition peers_all_below_two_way ::
  "(string \<Rightarrow> json option) \<Rightarrow> string \<Rightarrow> string \<Rightarrow> string \<Rightarrow> u32 set \<Rightarrow> World \<Rightarrow> bool option \<times> World" where
  "peers_all_below_two_way parse sock zone ifn peers w =
     (let (reply, w) = p_request sock (''state'' @ [CHR 0x0A]) w in
      (Option.bind reply (\<lambda>t. Option.bind (parse t) (\<lambda>doc.
         map_option (\<lambda>nbrs. \<not> (\<exists>rid\<in>peers. at_least_two_way (neighbor_state nbrs (ipv4_str rid))))
           (ospf_neighbors doc zone ifn))), w))"

section \<open>Ports and legs\<close>

definition PROBE_INTERVAL :: duration where "PROBE_INTERVAL = from_millis 500"
definition ESCALATION_TARGETS :: nat where "ESCALATION_TARGETS = 4"

record ProbePort =
  pp_ifname :: string
  pp_wire :: string
  pp_island :: string
  pp_mac :: mac
  pp_state :: Hysteresis
  pp_probed :: bool
  pp_carrier :: bool
  pp_bond_link :: "BondLink option"
  pp_noted_bond_link :: "u8 option"
  pp_present :: bool
  pp_last_reply :: "instant option"
  pp_peer_heard :: "instant option"
  pp_self_heard :: "instant option"
  pp_recent :: "u32 list"
  pp_grace_until :: "instant option"
  pp_escalating :: bool
  pp_hello_dead :: bool
  pp_next_ask :: "instant option"
  pp_deaf :: "string option"
  pp_usable_prev :: "bool option"
  pp_returned :: bool

record Fallback =
  fb_targets :: "ipv4 list"
  fb_peers :: "u32 set"
  fb_self_rid :: u32
  fb_windows :: Windows
  fb_quiet_now :: bool
  fb_noted_quiet :: bool
  fb_noted_deaf :: bool
  fb_engine_sock :: string
  fb_noted_engine_unreadable :: bool

datatype Kind = Ingress ipv4 | FallbackKind Fallback

fun noun :: "Kind \<Rightarrow> string" where
  "noun (Ingress _) = ''router''"
| "noun (FallbackKind _) = ''peers''"

fun family :: "Kind \<Rightarrow> string" where
  "family (Ingress _) = ''ingress''"
| "family (FallbackKind _) = ''fallback''"

fun grace_of :: "Kind \<Rightarrow> duration" where
  "grace_of (Ingress _) = 0"
| "grace_of (FallbackKind f) = w_grace (fb_windows f)"

record Leg =
  lg_zone :: string
  lg_bond :: string
  lg_actuates :: bool
  lg_prefs :: "string list"
  lg_held :: string
  lg_active_now :: "string option"
  lg_ports :: "ProbePort list"
  lg_noted_no_carrier :: "(string \<times> string) option"
  lg_refused :: "(string \<times> string option) option"
  lg_moves :: nat
  lg_noted_nl_err :: "string option"
  lg_kind :: Kind

definition new_port :: "string \<Rightarrow> string \<Rightarrow> string \<Rightarrow> mac \<Rightarrow> ProbePort" where
  "new_port i w island m =
     \<lparr>pp_ifname = i, pp_wire = w, pp_island = island, pp_mac = m, pp_state = default_hysteresis, pp_probed = False,
      pp_carrier = False, pp_bond_link = None, pp_noted_bond_link = None, pp_present = False, pp_last_reply = None,
      pp_peer_heard = None, pp_self_heard = None, pp_recent = [], pp_grace_until = None, pp_escalating = False,
      pp_hello_dead = False, pp_next_ask = None, pp_deaf = None, pp_usable_prev = None, pp_returned = False\<rparr>"

definition new_leg :: "string \<Rightarrow> string \<Rightarrow> bool \<Rightarrow> string list \<Rightarrow> string \<Rightarrow> ProbePort list \<Rightarrow> Kind \<Rightarrow> Leg" where
  "new_leg zone bond actuates prefs home ports kind =
     \<lparr>lg_zone = zone, lg_bond = bond, lg_actuates = actuates, lg_prefs = prefs,
      lg_held = (case find (\<lambda>s. pp_wire s = home) ports of
                   Some s \<Rightarrow> pp_ifname s
                 | None \<Rightarrow> (case ports of s # _ \<Rightarrow> pp_ifname s | [] \<Rightarrow> [])),
      lg_active_now = None, lg_ports = ports, lg_noted_no_carrier = None, lg_refused = None, lg_moves = 0,
      lg_noted_nl_err = None, lg_kind = kind\<rparr>"

definition port_candidate :: "ProbePort \<Rightarrow> Candidate" where
  "port_candidate s =
     \<lparr>ifname = pp_ifname s, wire = pp_wire s, cand_reachable = reachable (pp_state s) \<and> \<not> pp_hello_dead s,
      carrier = pp_carrier s, link_up = (pp_bond_link s = Some Up)\<rparr>"

definition note_usability :: "ProbePort \<Rightarrow> ProbePort" where
  "note_usability s =
     (let cur = usable (port_candidate s);
          s = (if pp_usable_prev s = Some False \<and> cur then s\<lparr>pp_returned := True\<rparr> else s) in
      s\<lparr>pp_usable_prev := Some cur\<rparr>)"

definition port_evidence :: "string option \<Rightarrow> ProbePort \<Rightarrow> Evidence" where
  "port_evidence active s =
     \<lparr>ev_active = (active = Some (pp_ifname s)), ev_peer = pp_peer_heard s, ev_reflected = pp_self_heard s,
      ev_grace_until = pp_grace_until s\<rparr>"

definition saw :: "u32 \<Rightarrow> ProbePort \<Rightarrow> ProbePort" where
  "saw rid s = s\<lparr>pp_recent := take ESCALATION_TARGETS (rid # filter (\<lambda>r. r \<noteq> rid) (pp_recent s))\<rparr>"

definition leg_probed :: "Leg \<Rightarrow> bool" where
  "leg_probed l = (case lg_kind l of FallbackKind f \<Rightarrow> \<not> fb_noted_deaf f | Ingress _ \<Rightarrow> True)"

definition leg_quiet :: "Leg \<Rightarrow> bool" where
  "leg_quiet l = (case lg_kind l of FallbackKind f \<Rightarrow> fb_quiet_now f | Ingress _ \<Rightarrow> False)"

section \<open>Observing one port\<close>

text \<open>What the loop over the ports gathers: how many taps failed, those that have just started
  to, the first reason a state could not be read, and the lines.\<close>

record Gathered =
  ga_deaf :: nat
  ga_newly_deaf :: "(string \<times> string) list"
  ga_nl_err :: "string option"
  ga_log :: "string list"

definition em_dash :: string where
  "em_dash = '' '' @ [CHR 0xE2, CHR 0x80, CHR 0x94] @ '' ''"

definition leg_line :: "string \<Rightarrow> string \<Rightarrow> string \<Rightarrow> string" where
  "leg_line zone fam rest = ''cfab: '' @ zone @ '' '' @ fam @ '': '' @ rest"

definition read_state ::
  "string \<Rightarrow> Kind \<Rightarrow> ProbeErr + PortState \<Rightarrow> ProbePort \<Rightarrow> Gathered \<Rightarrow> bool \<times> ProbePort \<times> Gathered" where
  "read_state zone kind answer s g =
     (case answer of
        Inr st \<Rightarrow>
          let s = s\<lparr>pp_carrier := ps_carrier st\<rparr> in
          (case ps_link st of
             None \<Rightarrow> (True, s\<lparr>pp_bond_link := None, pp_noted_bond_link := None\<rparr>, g)
           | Some (UnknownLink n) \<Rightarrow>
               let s = s\<lparr>pp_bond_link := None\<rparr> in
               if pp_noted_bond_link s = Some n then (True, s, g)
               else (True, s\<lparr>pp_noted_bond_link := Some n\<rparr>,
                     g\<lparr>ga_log := ga_log g @ [leg_line zone (family kind)
                       (pp_wire s @ '' reports bonding link state '' @ dec (unat n) @ '' the prober does not know'' @
                        em_dash @ ''treated as not up'')]\<rparr>)
           | Some bl \<Rightarrow> (True, s\<lparr>pp_bond_link := Some bl, pp_noted_bond_link := None\<rparr>, g))
      | Inl e \<Rightarrow>
          let s = s\<lparr>pp_carrier := False, pp_bond_link := None, pp_noted_bond_link := None\<rparr> in
          if is_no_device e then (False, s, g)
          else (False, s, g\<lparr>ga_nl_err := Some (case ga_nl_err g of None \<Rightarrow> without_fatal e | Some why \<Rightarrow> why)\<rparr>))"

text \<open>One frame of a fallback port: what it does to the port, whether it is a reply to the
  escalation, whether the port has been heard.\<close>

definition fold_frame ::
  "Fallback \<Rightarrow> string option \<Rightarrow> instant \<Rightarrow> ProbePort \<times> bool \<times> bool \<Rightarrow> u8 list \<Rightarrow> ProbePort \<times> bool \<times> bool" where
  "fold_frame f active now sh fr =
     (let (s, replied, heard_now) = sh in
      case hello_router_id fr of
        Some rid \<Rightarrow>
          if rid = fb_self_rid f then
            (s\<lparr>pp_self_heard := Some now\<rparr>, replied, heard_now \<or> active \<noteq> Some (pp_ifname s))
          else if rid \<in> fb_peers f then (saw rid (s\<lparr>pp_peer_heard := Some now\<rparr>), replied, True)
          else (s, replied, heard_now)
      | None \<Rightarrow>
          if pp_escalating s \<and> reply_from fr (pp_mac s) (fb_targets f) \<noteq> None then (s, True, heard_now)
          else (s, replied, heard_now))"

definition hear_port :: "Kind \<Rightarrow> string option \<Rightarrow> instant \<Rightarrow> u8 list list \<Rightarrow> ProbePort \<Rightarrow> ProbePort" where
  "hear_port kind active now frames s =
     (let (s, replied, heard_now) =
            (case kind of
               Ingress router \<Rightarrow> (s, list_ex (\<lambda>f. reply_from f (pp_mac s) [router] \<noteq> None) frames, False)
             | FallbackKind f \<Rightarrow> foldl (fold_frame f active now) (s, False, False) frames);
          s = (if replied \<or> pp_peer_heard s = Some now \<or> pp_self_heard s = Some now
               then s\<lparr>pp_last_reply := Some now\<rparr> else s) in
      case kind of
        Ingress _ \<Rightarrow> if pp_probed s then s\<lparr>pp_state := observe (pp_state s) replied\<rparr> else s
      | FallbackKind _ \<Rightarrow>
          let s = (if heard_now then s\<lparr>pp_hello_dead := False\<rparr> else s) in
          if heard_now \<or> replied then
            s\<lparr>pp_state := heard (pp_state s), pp_escalating := False, pp_next_ask := None\<rparr>
          else if pp_escalating s \<and> pp_probed s then s\<lparr>pp_state := observe (pp_state s) False\<rparr>
          else s)"

definition recv_port :: "Kind \<Rightarrow> string option \<Rightarrow> instant \<Rightarrow> ProbePort \<Rightarrow> World \<Rightarrow> ProbePort \<times> World" where
  "recv_port kind active now s w =
     (let (frames, w) = p_recv (pp_ifname s) w in
      (hear_port kind active now (case frames of Some fs \<Rightarrow> fs | None \<Rightarrow> []) s, w))"

text \<open>A netdev that has just come back gets its grace period.\<close>

definition appear :: "Kind \<Rightarrow> instant \<Rightarrow> bool \<Rightarrow> ProbePort \<Rightarrow> ProbePort" where
  "appear kind now present s =
     (let s = (if present \<and> \<not> pp_present s then s\<lparr>pp_grace_until := Some (now + grace_of kind)\<rparr> else s) in
      s\<lparr>pp_present := present\<rparr>)"

text \<open>A fallback leg asks for its tap before it reads it.\<close>

definition listen_port :: "Kind \<Rightarrow> string option \<Rightarrow> instant \<Rightarrow> ProbePort \<Rightarrow> World \<times> Gathered \<Rightarrow> ProbePort \<times> World \<times> Gathered" where
  "listen_port kind active now s wg =
     (let (w, g) = wg; (failed, w) = p_listen (pp_ifname s) w in
      case failed of
        Some e \<Rightarrow>
          let why = without_fatal e; g = g\<lparr>ga_deaf := ga_deaf g + 1\<rparr> in
          if pp_deaf s = Some why then (s, w, g)
          else (s\<lparr>pp_deaf := Some why\<rparr>, w, g\<lparr>ga_newly_deaf := ga_newly_deaf g @ [(pp_wire s, why)]\<rparr>)
      | None \<Rightarrow> let (s, w) = recv_port kind active now (s\<lparr>pp_deaf := None\<rparr>) w in (s, w, g))"

definition observe_port ::
  "string \<Rightarrow> Kind \<Rightarrow> string option \<Rightarrow> instant \<Rightarrow> ProbePort \<Rightarrow> World \<times> Gathered \<Rightarrow> ProbePort \<times> World \<times> Gathered" where
  "observe_port zone kind active now s wg =
     (let (w, g) = wg; (answer, w) = p_port_state (pp_ifname s) w;
          (present, s, g) = read_state zone kind answer s g; s = appear kind now present s in
      case kind of
        Ingress _ \<Rightarrow> let (s, w) = recv_port kind active now s w in (s, w, g)
      | FallbackKind _ \<Rightarrow> listen_port kind active now s (w, g))"

fun each_port :: "(ProbePort \<Rightarrow> 'c \<Rightarrow> ProbePort \<times> 'c) \<Rightarrow> ProbePort list \<Rightarrow> 'c \<Rightarrow> ProbePort list \<times> 'c" where
  "each_port f [] c = ([], c)"
| "each_port f (s # ss) c = (let (s, c) = f s c; (ss, c) = each_port f ss c in (s # ss, c))"

section \<open>Judging the ports of a leg\<close>

definition condemned :: "Fallback \<Rightarrow> string option \<Rightarrow> instant \<Rightarrow> ProbePort \<Rightarrow> Verdict \<Rightarrow> bool" where
  "condemned f active now s v \<longleftrightarrow>
     v = Suspect \<and> \<not> pp_hello_dead s \<and> active = Some (pp_ifname s) \<and>
     (case pp_peer_heard s of None \<Rightarrow> True | Some t \<Rightarrow> now - t > w_dead (fb_windows f))"

definition condemn ::
  "(string \<Rightarrow> json option) \<Rightarrow> string \<Rightarrow> string \<Rightarrow> bool list \<Rightarrow> ProbePort list \<times> Fallback \<times> World \<times> string list \<Rightarrow>
     ProbePort list \<times> Fallback \<times> World \<times> string list" where
  "condemn parse zone bond cs st =
     (let (ports, f, w, log) = st in
      if \<not> list_ex (\<lambda>c. c) cs then st
      else
        let (down, w) = peers_all_below_two_way parse (fb_engine_sock f) zone bond (fb_peers f) w in
        case down of
          Some down \<Rightarrow>
            (if down then map (\<lambda>(s, c). if c then s\<lparr>pp_hello_dead := True\<rparr> else s) (zip ports cs) else ports,
             f\<lparr>fb_noted_engine_unreadable := False\<rparr>, w, log)
        | None \<Rightarrow>
            if fb_noted_engine_unreadable f then (ports, f, w, log)
            else (ports, f\<lparr>fb_noted_engine_unreadable := True\<rparr>, w,
                  log @ [leg_line zone ''fallback'' (''the engine's ospf state for '' @ bond @ '' cannot be read'' @ em_dash @
                    ''hello silence on the active wire is left to the arp escalation'')]))"

fun settle :: "Verdict \<Rightarrow> ProbePort \<Rightarrow> ProbePort" where
  "settle Suspect s =
     (if pp_hello_dead s then s\<lparr>pp_escalating := False, pp_probed := False, pp_next_ask := None\<rparr>
      else if \<not> pp_escalating s then
        s\<lparr>pp_escalating := True, pp_probed := False, pp_next_ask := None, pp_state := precharge (pp_state s)\<rparr>
      else s)"
| "settle Watch s = s"
| "settle _ s = s\<lparr>pp_escalating := False, pp_probed := False, pp_next_ask := None\<rparr>"

definition deaf_line :: "string \<Rightarrow> bool \<Rightarrow> string \<times> string \<Rightarrow> string" where
  "deaf_line zone all_deaf wy =
     (let (wn, why) = wy in
      leg_line zone ''fallback'' (''cannot listen on '' @ wn @ '' ('' @ why @ '')'' @ em_dash @
        (if all_deaf then ''the leg is not probed'' else wn @ '' is not judged'')))"

definition judge_fallback ::
  "(string \<Rightarrow> json option) \<Rightarrow> string \<Rightarrow> string \<Rightarrow> string option \<Rightarrow> instant \<Rightarrow> Fallback \<Rightarrow>
     ProbePort list \<Rightarrow> World \<Rightarrow> string list \<Rightarrow> ProbePort list \<times> Fallback \<times> World \<times> string list" where
  "judge_fallback parse zone bond active now f ports w log =
     (let vs = verdicts now (map (port_evidence active) ports) (fb_windows f) (fb_peers f \<noteq> {});
          cs = map (\<lambda>(s, v). condemned f active now s v) (zip ports vs);
          (ports, f, w, log) = condemn parse zone bond cs (ports, f, w, log);
          all_quiet = (ports \<noteq> [] \<and> list_all (\<lambda>v. v = Quiet) vs);
          ports = map (\<lambda>(s, v). settle v s) (zip ports vs);
          f = f\<lparr>fb_quiet_now := all_quiet\<rparr>;
          log = (if all_quiet \<and> \<not> fb_noted_quiet f
                 then log @ [leg_line zone ''fallback'' (''no peers heard on any wire'' @ em_dash @ ''nothing to move to'')] else log);
          f = f\<lparr>fb_noted_quiet := all_quiet\<rparr> in
      (ports, f, w, log))"

definition note_nl_err :: "string option \<Rightarrow> Leg \<Rightarrow> string list \<Rightarrow> Leg \<times> string list" where
  "note_nl_err err l log =
     (case err of
        Some why \<Rightarrow>
          if lg_noted_nl_err l = Some why then (l, log)
          else (l\<lparr>lg_noted_nl_err := Some why\<rparr>,
                log @ [leg_line (lg_zone l) (family (lg_kind l)) (''bond state unreadable over netlink: '' @ why)])
      | None \<Rightarrow> (l\<lparr>lg_noted_nl_err := None\<rparr>, log))"

definition observe_leg ::
  "(string \<Rightarrow> json option) \<Rightarrow> string option \<Rightarrow> instant \<Rightarrow> Leg \<Rightarrow> World \<times> string list \<Rightarrow> Leg \<times> World \<times> string list" where
  "observe_leg parse active now l wl =
     (let (w, log) = wl;
          (ports, w, g) = each_port (observe_port (lg_zone l) (lg_kind l) active now) (lg_ports l)
            (w, \<lparr>ga_deaf = 0, ga_newly_deaf = [], ga_nl_err = None, ga_log = log\<rparr>);
          (l, log) = note_nl_err (ga_nl_err g) (l\<lparr>lg_ports := ports\<rparr>) (ga_log g);
          all_deaf = (ga_deaf g > 0 \<and> ga_deaf g = length ports) in
      case lg_kind l of
        Ingress _ \<Rightarrow> (l\<lparr>lg_ports := map note_usability ports\<rparr>, w, log)
      | FallbackKind f \<Rightarrow>
          let log = log @ map (deaf_line (lg_zone l) all_deaf) (ga_newly_deaf g); f = f\<lparr>fb_noted_deaf := all_deaf\<rparr> in
          if all_deaf then (l\<lparr>lg_ports := map note_usability ports, lg_kind := FallbackKind f\<rparr>, w, log)
          else
            let (ports, f, w, log) = judge_fallback parse (lg_zone l) (lg_bond l) active now f ports w log in
            (l\<lparr>lg_ports := map note_usability ports, lg_kind := FallbackKind f\<rparr>, w, log))"

section \<open>Asking\<close>

definition ask_ingress :: "ipv4 \<Rightarrow> ProbePort \<Rightarrow> World \<Rightarrow> ProbePort \<times> World" where
  "ask_ingress router s w =
     (let (sent, w) = p_send (pp_ifname s) (probe (pp_mac s) router) w in
      if sent then (s\<lparr>pp_probed := True\<rparr>, w)
      else (s\<lparr>pp_probed := False, pp_state := observe (pp_state s) False\<rparr>, w))"

definition target_of :: "ipv4 list \<Rightarrow> u32 \<Rightarrow> ipv4 option" where
  "target_of targets rid = find (\<lambda>t. octets t ! 3 = octets rid ! 3) targets"

text \<open>The loop that fills the targets up from the segment.\<close>

fun fill_targets :: "ipv4 list \<Rightarrow> ipv4 list \<Rightarrow> ipv4 list" where
  "fill_targets acc [] = acc"
| "fill_targets acc (t # ts) =
     (if length acc \<ge> ESCALATION_TARGETS then acc
      else fill_targets (if t \<in> set acc then acc else acc @ [t]) ts)"

definition ask_targets :: "Fallback \<Rightarrow> ProbePort \<Rightarrow> ipv4 list" where
  "ask_targets f s = fill_targets (List.map_filter (target_of (fb_targets f)) (pp_recent s)) (fb_targets f)"

fun send_all :: "string \<Rightarrow> mac \<Rightarrow> ipv4 list \<Rightarrow> bool \<Rightarrow> World \<Rightarrow> bool \<times> World" where
  "send_all ifn m [] sent w = (sent, w)"
| "send_all ifn m (t # ts) sent w =
     (let (ok, w) = p_send ifn (probe m t) w in send_all ifn m ts (sent \<or> ok) w)"

definition ask_fallback :: "Fallback \<Rightarrow> instant \<Rightarrow> ProbePort \<Rightarrow> World \<Rightarrow> ProbePort \<times> World" where
  "ask_fallback f now s w =
     (if \<not> pp_escalating s then (s, w)
      else if \<not> reachable (pp_state s) \<and> (case pp_next_ask s of Some t \<Rightarrow> now < t | None \<Rightarrow> False)
      then (s\<lparr>pp_probed := False\<rparr>, w)
      else
        let s = (if \<not> reachable (pp_state s) then s\<lparr>pp_next_ask := Some (now + w_hello (fb_windows f))\<rparr> else s);
            (sent, w) = send_all (pp_ifname s) (pp_mac s) (ask_targets f s) False w in
        if sent then (s\<lparr>pp_probed := True\<rparr>, w)
        else
          let st = observe (pp_state s) False; s = s\<lparr>pp_probed := False, pp_state := st, pp_escalating := reachable st\<rparr> in
          (if \<not> pp_escalating s then s\<lparr>pp_next_ask := None\<rparr> else s, w))"

definition ask_leg :: "instant \<Rightarrow> Leg \<Rightarrow> World \<Rightarrow> Leg \<times> World" where
  "ask_leg now l w =
     (let (ports, w) =
            (case lg_kind l of
               Ingress router \<Rightarrow> each_port (ask_ingress router) (lg_ports l) w
             | FallbackKind f \<Rightarrow> each_port (ask_fallback f now) (lg_ports l) w) in
      (l\<lparr>lg_ports := ports\<rparr>, w))"

section \<open>Moving the bond\<close>

text \<open>\<open>iter_mut().find(..)\<close>: the first port of that name.\<close>

fun on_port :: "string \<Rightarrow> (ProbePort \<Rightarrow> ProbePort) \<Rightarrow> ProbePort list \<Rightarrow> ProbePort list" where
  "on_port n f [] = []"
| "on_port n f (s # ss) = (if pp_ifname s = n then f s # ss else s # on_port n f ss)"

definition port_at :: "string \<Rightarrow> ProbePort list \<Rightarrow> ProbePort option" where
  "port_at n = find (\<lambda>s. pp_ifname s = n)"

definition note_no_carrier :: "string option \<Rightarrow> Candidate list \<Rightarrow> Leg \<Rightarrow> string list \<Rightarrow> Leg \<times> string list" where
  "note_no_carrier active cands l log =
     (let on = Option.bind active (\<lambda>a. find (\<lambda>c. ifname c = a) cands);
          note = (case (skipped_for_carrier active cands (lg_prefs l), on) of
                    (Some skipped, Some on) \<Rightarrow> Some (wire skipped, wire on)
                  | _ \<Rightarrow> None) in
      if note = lg_noted_no_carrier l then (l, log)
      else (l\<lparr>lg_noted_no_carrier := note\<rparr>,
            case note of
              Some (skipped, on) \<Rightarrow>
                log @ [leg_line (lg_zone l) (family (lg_kind l)) (skipped @ '' has no carrier, staying on '' @ on)]
            | None \<Rightarrow> log))"

text \<open>The line of a move that went through.\<close>

definition move_line :: "Leg \<Rightarrow> ProbePort option \<Rightarrow> bool \<Rightarrow> string \<Rightarrow> string" where
  "move_line l from target_returned to =
     leg_line (lg_zone l) (family (lg_kind l))
       (case from of
          None \<Rightarrow> ''no port of ours was active on '' @ lg_bond l @ '', moved it to '' @ to
        | Some s \<Rightarrow>
            if \<not> pp_carrier s then pp_wire s @ '' lost carrier, moved '' @ lg_bond l @ '' to '' @ to
            else if pp_hello_dead s then
              noun (lg_kind l) @ '' silent on '' @ pp_wire s @ '' (adjacency down, arp still answers), moved '' @ lg_bond l @ '' to '' @ to
            else if \<not> reachable (pp_state s) then
              noun (lg_kind l) @ '' unreachable on '' @ pp_wire s @ '', moved '' @ lg_bond l @ '' to '' @ to
            else if target_returned then
              noun (lg_kind l) @ '' reachable on '' @ to @ '' again, moved '' @ lg_bond l @ '' back from '' @ pp_wire s
            else if pp_bond_link s \<noteq> Some Up then
              pp_wire s @ '' link not up (bonding), moved '' @ lg_bond l @ '' to '' @ to
            else to @ '' is preferred, moved '' @ lg_bond l @ '' from '' @ pp_wire s)"

definition bonding_file :: "string \<Rightarrow> string \<Rightarrow> string" where
  "bonding_file bond name = ''/sys/class/net/'' @ bond @ ''/bonding/'' @ name"

definition write_move :: "string \<Rightarrow> string \<Rightarrow> World \<Rightarrow> ProbeErr option \<times> World" where
  "write_move bond target w =
     (let (failed, w) = p_write (bonding_file bond ''primary'') target w in
      case failed of Some e \<Rightarrow> (Some e, w) | None \<Rightarrow> p_set_active bond target w)"

text \<open>The second half of \<open>actuate\<close>: the move itself, unless the same move was refused before.\<close>

definition try_move :: "string option \<Rightarrow> instant \<Rightarrow> string \<Rightarrow> Leg \<Rightarrow> World \<times> string list \<Rightarrow> Leg \<times> World \<times> string list" where
  "try_move active now target l wl =
     (let (w, log) = wl; l = l\<lparr>lg_noted_no_carrier := None\<rparr>;
          to = (case port_at target (lg_ports l) of Some s \<Rightarrow> pp_wire s | None \<Rightarrow> target);
          from = Option.bind active (\<lambda>a. port_at a (lg_ports l)) in
      if lg_refused l = Some (target, active) then (l, w, log)
      else
        let (failed, w) = write_move (lg_bond l) target w in
        case failed of
          Some e \<Rightarrow>
            (l\<lparr>lg_refused := Some (target, active)\<rparr>, w,
             log @ [''cfab: warn: '' @ lg_zone l @ '' '' @ family (lg_kind l) @ '': cannot move '' @ lg_bond l @ '' to '' @
               to @ '' ('' @ target @ ''): '' @ without_fatal e])
        | None \<Rightarrow>
            let target_returned = (case port_at target (lg_ports l) of Some s \<Rightarrow> pp_returned s | None \<Rightarrow> False);
                l' = l\<lparr>lg_refused := None, lg_moves := lg_moves l + 1, lg_held := target, lg_active_now := Some target,
                  lg_ports := on_port target (\<lambda>s. s\<lparr>pp_grace_until := Some (now + grace_of (lg_kind l))\<rparr>) (lg_ports l)\<rparr> in
            (l', w, log @ [move_line l from target_returned to]))"

definition named_port :: "string option \<Rightarrow> string option" where
  "named_port active = (case active of Some a \<Rightarrow> if a = [] then None else Some a | None \<Rightarrow> None)"

definition restart_window :: "string option \<Rightarrow> Leg \<Rightarrow> Leg" where
  "restart_window active l =
     (case active of
        Some a \<Rightarrow> l\<lparr>lg_ports := on_port a (\<lambda>s. s\<lparr>pp_returned := False\<rparr>) (lg_ports l)\<rparr>
      | None \<Rightarrow> l)"

definition actuate :: "string option \<Rightarrow> instant \<Rightarrow> Leg \<Rightarrow> World \<times> string list \<Rightarrow> Leg \<times> World \<times> string list" where
  "actuate active now l wl =
     (let (w, log) = wl in
      if \<not> lg_actuates l then (l, w, log)
      else
        let active = named_port active; l = restart_window active l; cands = map port_candidate (lg_ports l) in
        case decide active cands (lg_prefs l) of
          None \<Rightarrow> let (l, log) = note_no_carrier active cands l log in (l, w, log)
        | Some target \<Rightarrow> try_move active now target l (w, log))"

section \<open>The tick\<close>

definition read_active :: "Leg \<Rightarrow> World \<Rightarrow> string option \<times> Leg \<times> World" where
  "read_active l w =
     (let (text, w) = p_read (bonding_file (lg_bond l) ''active_slave'') w in
      case text of
        None \<Rightarrow> (None, l, w)
      | Some t \<Rightarrow>
          let active = trim_text t in
          (Some active, l\<lparr>lg_active_now := (if active = [] then None else Some active)\<rparr>, w))"

definition leg_tick ::
  "(string \<Rightarrow> json option) \<Rightarrow> instant \<Rightarrow> Leg \<Rightarrow> World \<times> string list \<Rightarrow> Leg \<times> World \<times> string list" where
  "leg_tick parse now l wl =
     (let (w, log) = wl;
          (active, l, w) = (if lg_actuates l then read_active l w else (None, l, w));
          (l, w, log) = observe_leg parse active now l (w, log);
          (l, w, log) = (if active \<noteq> None \<and> leg_probed l then actuate active now l (w, log) else (l, w, log));
          (l, w) = ask_leg now l w in
      (l, w, log))"

record Prober =
  pr_legs :: "Leg list"
  pr_log :: "string list"

fun each_leg :: "(Leg \<Rightarrow> 'c \<Rightarrow> Leg \<times> 'c) \<Rightarrow> Leg list \<Rightarrow> 'c \<Rightarrow> Leg list \<times> 'c" where
  "each_leg f [] c = ([], c)"
| "each_leg f (l # ls) c = (let (l, c) = f l c; (ls, c) = each_leg f ls c in (l # ls, c))"

definition probers_tick :: "(string \<Rightarrow> json option) \<Rightarrow> instant \<Rightarrow> Prober \<Rightarrow> World \<Rightarrow> Prober \<times> World" where
  "probers_tick parse now p w =
     (let (legs, w, log) = each_leg (leg_tick parse now) (pr_legs p) (w, pr_log p) in
      (\<lparr>pr_legs = legs, pr_log = log\<rparr>, w))"

definition drain_log :: "Prober \<Rightarrow> string list \<times> Prober" where
  "drain_log p = (pr_log p, p\<lparr>pr_log := []\<rparr>)"

definition held_primaries :: "Prober \<Rightarrow> (string \<times> string) list" where
  "held_primaries p = foldl (\<lambda>m l. om_insert (lg_bond l) (lg_held l) m) [] (filter lg_actuates (pr_legs p))"

definition port_for :: "(string \<times> string) list \<Rightarrow> string \<Rightarrow> string option" where
  "port_for held bond = map_of held bond"

definition hold :: "string \<Rightarrow> string \<Rightarrow> (string \<times> string) list \<Rightarrow> (string \<times> string) list" where
  "hold bond port held = om_insert bond port held"

section \<open>The report\<close>

record ProbedPort =
  rp_wire :: string
  rp_island :: string
  rp_reachable :: bool
  rp_suspect :: bool
  rp_last_reply_ms :: "nat option"

record ProbedLeg =
  rl_zone :: string
  rl_bond :: string
  rl_active :: "string option"
  rl_quiet :: bool
  rl_moves :: nat
  rl_ports :: "ProbedPort list"

definition probed_leg :: "instant \<Rightarrow> Leg \<Rightarrow> ProbedLeg" where
  "probed_leg now l =
     \<lparr>rl_zone = lg_zone l, rl_bond = lg_bond l, rl_active = lg_active_now l, rl_quiet = leg_quiet l, rl_moves = lg_moves l,
      rl_ports = map (\<lambda>s. \<lparr>rp_wire = pp_wire s, rp_island = pp_island s,
        rp_reachable = (reachable (pp_state s) \<and> pp_carrier s \<and> \<not> pp_hello_dead s), rp_suspect = pp_escalating s,
        rp_last_reply_ms = map_option (\<lambda>t. (now - t) div 1000000) (pp_last_reply s)\<rparr>) (lg_ports l)\<rparr>"

definition is_ingress :: "Leg \<Rightarrow> bool" where
  "is_ingress l = (case lg_kind l of Ingress _ \<Rightarrow> True | FallbackKind _ \<Rightarrow> False)"

definition report :: "instant \<Rightarrow> Prober \<Rightarrow> ProbedLeg list \<times> ProbedLeg list" where
  "report now p =
     (map (probed_leg now) (filter is_ingress (pr_legs p)), map (probed_leg now) (filter (\<lambda>l. \<not> is_ingress l) (pr_legs p)))"

section \<open>The legs of a member\<close>

definition island_of :: "View \<Rightarrow> string \<Rightarrow> string" where
  "island_of v w = (case find (\<lambda>x. wire_name x = w) (mem_wires (v_member v)) of Some x \<Rightarrow> wire_domain x | None \<Rightarrow> [])"

definition prefs_for :: "View \<Rightarrow> string \<Rightarrow> string list" where
  "prefs_for v zone =
     (case find (\<lambda>p. hp_zone p = zone) (prefs_of (v_fabric v) (v_member v)) of Some p \<Rightarrow> hp_order p | None \<Rightarrow> [])"

definition bond_ports :: "View \<Rightarrow> Zone \<Rightarrow> Port list \<Rightarrow> ProbePort list" where
  "bond_ports v z ps =
     map (\<lambda>(i, s). new_port (port_ifname s) (port_wire s) (island_of v (port_wire s))
                     (synthetic_mac (mem_node (v_member v)) (zone_id z) (word_of_nat i))) (enumerate 0 ps)"

definition ingress_leg :: "View \<Rightarrow> GwRow \<Rightarrow> Leg option" where
  "ingress_leg v r =
     (case find (\<lambda>z. zone_name z = gr_zone r) (fab_zones (v_fabric v)) of
        None \<Rightarrow> None
      | Some z \<Rightarrow>
          Option.bind (zone_gw z) (\<lambda>gw. Option.bind (parse_ipv4 (gw_router gw)) (\<lambda>router.
            Some (new_leg (gr_zone r) (gr_ifname r) (migrates r) (prefs_for v (gr_zone r)) (gr_home r)
              (if migrates r then bond_ports v z (gr_ports r)
               else [new_port (gr_ifname r) (gr_home r) (island_of v (gr_home r))
                       (synthetic_mac (mem_node (v_member v)) (zone_id z) 0)])
              (Ingress router)))))"

definition seg_addr :: "Zone \<Rightarrow> u8 \<Rightarrow> u8 \<Rightarrow> ipv4 option" where
  "seg_addr z seg node = parse_ipv4 (block z @ ''.'' @ dec (unat seg) @ ''.'' @ dec (unat node))"

definition rid_of :: "Zone \<Rightarrow> Member \<Rightarrow> u32 option" where
  "rid_of z m = parse_ipv4 (identity_addr_of z m)"

definition peer_members :: "View \<Rightarrow> string \<Rightarrow> Member list result" where
  "peer_members v zone =
     filter_map_out (\<lambda>m. and_then (fallback_rows_of (v_fabric v) m) (\<lambda>rows.
         Ok (if list_ex (\<lambda>p. fr_zone p = zone) rows then Some m else None)))
       (filter (\<lambda>m. mem_name m \<noteq> mem_name (v_member v)) (fab_members (v_fabric v)))"

definition fallback_leg :: "View \<Rightarrow> FallbackRow \<Rightarrow> Leg option result" where
  "fallback_leg v r =
     (case find (\<lambda>z. zone_name z = fr_zone r) (fab_zones (v_fabric v)) of
        None \<Rightarrow> Ok None
      | Some z \<Rightarrow>
          (case rid_of z (v_member v) of
             None \<Rightarrow> Ok None
           | Some self_rid \<Rightarrow>
               and_then (peer_members v (fr_zone r)) (\<lambda>peers.
               Ok (Some (new_leg (fr_zone r) (fr_ifname r) True (prefs_for v (fr_zone r)) (fr_home r)
                 (bond_ports v z (fr_ports r))
                 (FallbackKind \<lparr>fb_targets = List.map_filter (\<lambda>m. seg_addr z (fr_seg r) (mem_node m)) peers,
                    fb_peers = set (List.map_filter (rid_of z) peers), fb_self_rid = self_rid,
                    fb_windows = from_ospf (fab_ospf_hello (v_fabric v)) (fab_ospf_dead (v_fabric v)),
                    fb_quiet_now = False, fb_noted_quiet = False, fb_noted_deaf = False,
                    fb_engine_sock = fab_run_dir (v_fabric v) @ ''/engine.sock'', fb_noted_engine_unreadable = False\<rparr>))))))"

definition from_view :: "View \<Rightarrow> Prober result" where
  "from_view v =
     and_then (gw_rows v) (\<lambda>gs.
     and_then (fallback_rows v) (\<lambda>fs.
     and_then (filter_map_out (fallback_leg v) fs) (\<lambda>fallbacks.
       let legs = List.map_filter (ingress_leg v) gs @ fallbacks; hello = fab_ospf_hello (v_fabric v); dead = fab_ospf_dead (v_fabric v) in
       Ok \<lparr>pr_legs = legs,
           pr_log = (if list_ex (\<lambda>l. \<not> is_ingress l) legs \<and> \<not> move_fits_inside_dead (from_ospf hello dead) PROBE_INTERVAL dead
                     then [''cfab: warn: [ospf] hello '' @ dec (unat hello) @ '' s with dead '' @ dec (unat dead) @
                       '' s leaves no room to move a fallback bond before the adjacency expires''] else [])\<rparr>)))"

end
