(* ===== verification/Prober_Moves.thy ===== *)
theory Prober_Moves
  imports Prober_Leg
begin

text \<open>
  What a tick of the prober changes and keeps. The trace only grows; observing a leg changes
  nothing on the system, asking only sends; and each step of a tick relates a port to what it was
  before by one relation, \<open>evolves\<close>, which carries the identity of the port, the bound on its recent
  peers and, on ports where the environment delivers no hello, the condemnation.
\<close>

named_theorems tick_simps \<open>what one step of a tick leaves alone\<close>

section \<open>The trace\<close>

definition only :: "(ProbeOp \<Rightarrow> bool) \<Rightarrow> World \<Rightarrow> World \<Rightarrow> bool" where
  "only P w w' \<longleftrightarrow> (\<exists>ps. list_all P ps \<and> w' = w\<lparr>pw_ops := pw_ops w @ ps\<rparr>)"

lemma only_refl [simp]: "only P w w"
  by (auto simp: only_def intro!: exI [of _ "[]"])

lemma only_trans [trans]: "only P w u \<Longrightarrow> only P u x \<Longrightarrow> only P w x"
proof -
  assume "only P w u" "only P u x"
  then obtain ps qs where "list_all P ps" "u = w\<lparr>pw_ops := pw_ops w @ ps\<rparr>" "list_all P qs" "x = u\<lparr>pw_ops := pw_ops u @ qs\<rparr>"
    by (auto simp: only_def)
  then have "list_all P (ps @ qs)" "x = w\<lparr>pw_ops := pw_ops w @ ps @ qs\<rparr>"
    by simp_all
  then show "only P w x"
    unfolding only_def by blast
qed

lemma only_mono: "only P w u \<Longrightarrow> (\<And>p. P p \<Longrightarrow> Q p) \<Longrightarrow> only Q w u"
  by (auto simp: only_def list_all_iff)

lemma only_traced: "traced op answer w = (a, w') \<Longrightarrow> P op \<Longrightarrow> only P w w'"
  by (auto simp: traced_def only_def intro!: exI [of _ "[op]"])

lemma only_recv: "only P w u \<Longrightarrow> pw_recv u = pw_recv w"
  by (auto simp: only_def)

lemma only_calls:
  "p_read path w = (a, w') \<Longrightarrow> P (ReadFile path) \<Longrightarrow> only P w w'"
  "p_port_state port w = (b, w') \<Longrightarrow> P (PortStateOp port) \<Longrightarrow> only P w w'"
  "p_request sock line w = (c, w') \<Longrightarrow> P (AskEngine sock line) \<Longrightarrow> only P w w'"
  "p_listen port w = (d, w') \<Longrightarrow> P (Listen port) \<Longrightarrow> only P w w'"
  "p_send port frame w = (e, w') \<Longrightarrow> P (Send port frame) \<Longrightarrow> only P w w'"
  "p_recv port w = (f, w') \<Longrightarrow> P (Recv port) \<Longrightarrow> only P w w'"
  by (auto simp: p_read_def p_port_state_def p_request_def p_listen_def p_send_def p_recv_def intro: only_traced)

text \<open>The operations that change the system, that put a frame on the wire, and the rest.\<close>

fun is_change :: "ProbeOp \<Rightarrow> bool" where
  "is_change (WriteFile _ _) = True"
| "is_change (SetActive _ _) = True"
| "is_change _ = False"

fun is_send :: "ProbeOp \<Rightarrow> bool" where
  "is_send (Send _ _) = True"
| "is_send _ = False"

definition is_read :: "ProbeOp \<Rightarrow> bool" where
  "is_read op \<longleftrightarrow> \<not> is_change op \<and> \<not> is_send op"

lemma is_read_simps [simp]:
  "is_read (ReadFile p)" "is_read (PortStateOp p)" "is_read (AskEngine s t)" "is_read (Listen p)" "is_read (Recv p)"
  by (simp_all add: is_read_def)

section \<open>How a port evolves\<close>

definition same_port :: "ProbePort \<Rightarrow> ProbePort \<Rightarrow> bool" where
  "same_port s s' \<longleftrightarrow> pp_ifname s' = pp_ifname s \<and> pp_wire s' = pp_wire s \<and> pp_mac s' = pp_mac s"

text \<open>\<open>D\<close>: the ports on which no hello counts.\<close>

definition evolves :: "string set \<Rightarrow> ProbePort \<Rightarrow> ProbePort \<Rightarrow> bool" where
  "evolves D s s' \<longleftrightarrow> same_port s s' \<and> (length (pp_recent s) \<le> 4 \<longrightarrow> length (pp_recent s') \<le> 4) \<and>
     (pp_ifname s \<in> D \<longrightarrow> pp_hello_dead s \<longrightarrow> pp_hello_dead s')"

lemma evolves_refl [simp]: "evolves D s s"
  by (simp add: evolves_def same_port_def)

lemma evolves_trans [trans]: "evolves D s t \<Longrightarrow> evolves D t u \<Longrightarrow> evolves D s u"
  by (auto simp: evolves_def same_port_def)

lemma evolves_all_trans:
  assumes "list_all2 (evolves D) ss ts" "list_all2 (evolves D) ts us"
  shows "list_all2 (evolves D) ss us"
  by (rule list_all2_trans [OF _ assms]) (rule evolves_trans)

text \<open>An update of the fields the relation does not mention.\<close>

lemma evolves_fields [tick_simps]:
  "evolves D s (t\<lparr>pp_state := a1\<rparr>) = evolves D s t" "evolves D s (t\<lparr>pp_probed := a2\<rparr>) = evolves D s t"
  "evolves D s (t\<lparr>pp_carrier := a2\<rparr>) = evolves D s t" "evolves D s (t\<lparr>pp_bond_link := a3\<rparr>) = evolves D s t"
  "evolves D s (t\<lparr>pp_noted_bond_link := a4\<rparr>) = evolves D s t" "evolves D s (t\<lparr>pp_present := a2\<rparr>) = evolves D s t"
  "evolves D s (t\<lparr>pp_last_reply := a5\<rparr>) = evolves D s t" "evolves D s (t\<lparr>pp_peer_heard := a5\<rparr>) = evolves D s t"
  "evolves D s (t\<lparr>pp_self_heard := a5\<rparr>) = evolves D s t" "evolves D s (t\<lparr>pp_grace_until := a5\<rparr>) = evolves D s t"
  "evolves D s (t\<lparr>pp_escalating := a2\<rparr>) = evolves D s t" "evolves D s (t\<lparr>pp_next_ask := a5\<rparr>) = evolves D s t"
  "evolves D s (t\<lparr>pp_deaf := a6\<rparr>) = evolves D s t" "evolves D s (t\<lparr>pp_usable_prev := a7\<rparr>) = evolves D s t"
  "evolves D s (t\<lparr>pp_returned := a2\<rparr>) = evolves D s t"
  by (simp_all add: evolves_def same_port_def)

lemma evolves_steps:
  "evolves D s t \<Longrightarrow> evolves D s (t\<lparr>pp_hello_dead := True\<rparr>)"
  "evolves D s t \<Longrightarrow> evolves D s (saw rid t)"
  "evolves D s t \<Longrightarrow> evolves D s (settle v t)"
  "evolves D s t \<Longrightarrow> evolves D s (note_usability t)"
  "evolves D s t \<Longrightarrow> pp_ifname t \<notin> D \<or> \<not> pp_hello_dead t \<Longrightarrow> evolves D s (t\<lparr>pp_hello_dead := x\<rparr>)"
proof -
  show "evolves D s t \<Longrightarrow> evolves D s (settle v t)"
    by (cases v) (auto simp: tick_simps)
qed (auto simp: evolves_def same_port_def saw_def note_usability_def Let_def ESCALATION_TARGETS_def)

text \<open>A loop over the ports, with a relation on the threaded state that composes.\<close>

lemma each_port_rel:
  assumes "each_port f ss c = (ss', c')" and "I c"
    and "\<And>s c s' c'. I c \<Longrightarrow> f s c = (s', c') \<Longrightarrow> R s s' \<and> Q c c' \<and> I c'"
    and "\<And>c. Q c c" and "\<And>a b c. Q a b \<Longrightarrow> Q b c \<Longrightarrow> Q a c"
  shows "list_all2 R ss ss' \<and> Q c c' \<and> I c'"
  using assms(1,2)
proof (induction ss arbitrary: c c' ss')
  case (Cons s ss)
  obtain t d where f: "f s c = (t, d)"
    by (cases "f s c")
  obtain ts e where e: "each_port f ss d = (ts, e)"
    by (cases "each_port f ss d")
  have "R s t \<and> Q c d \<and> I d"
    using assms(3) [OF Cons.prems(2) f] .
  with Cons.IH [OF e] Cons.prems(1) f e assms(5) show ?case
    by auto
qed (use assms(4) in auto)

section \<open>Observing\<close>

text \<open>A frame whose hello, if it is one, comes from nobody this leg expects.\<close>

definition no_hello :: "Fallback \<Rightarrow> u8 list \<Rightarrow> bool" where
  "no_hello f fr \<longleftrightarrow> (case hello_router_id fr of Some rid \<Rightarrow> rid \<noteq> fb_self_rid f \<and> rid \<notin> fb_peers f | None \<Rightarrow> True)"

fun hears_no_hello :: "Kind \<Rightarrow> World \<Rightarrow> string set \<Rightarrow> bool" where
  "hears_no_hello (Ingress _) w D = True"
| "hears_no_hello (FallbackKind f) w D = (\<forall>i n fs. i \<in> D \<longrightarrow> pw_recv w n i = Some fs \<longrightarrow> list_all (no_hello f) fs)"

lemma fold_frames_evolves:
  "foldl (fold_frame f active now) (t, r, h) frames = (s', r', h') \<Longrightarrow> evolves D s t \<Longrightarrow> evolves D s s'"
  by (induction frames arbitrary: t r h)
    (auto simp: fold_frame_def tick_simps evolves_steps(2) split: option.splits if_splits)

lemma fold_frames_no_hello:
  "foldl (fold_frame f active now) (t, r, h) frames = (s', r', h') \<Longrightarrow> list_all (no_hello f) frames \<Longrightarrow> h' = h \<and> pp_hello_dead s' = pp_hello_dead t"
  by (induction frames arbitrary: t r h)
    (auto simp: fold_frame_def no_hello_def split: option.splits if_splits)

lemma fold_frames_hello_dead:
  "foldl (fold_frame f active now) (t, r, h) frames = (s', r', h') \<Longrightarrow> pp_hello_dead s' = pp_hello_dead t \<and> pp_ifname s' = pp_ifname t"
  by (induction frames arbitrary: t r h) (auto simp: fold_frame_def saw_def split: option.splits if_splits)

lemma hear_port_evolves:
  assumes "\<And>f. kind = FallbackKind f \<Longrightarrow> pp_ifname s \<in> D \<Longrightarrow> list_all (no_hello f) frames"
  shows "evolves D s (hear_port kind active now frames s)"
proof (cases kind)
  case (Ingress router)
  then show ?thesis
    by (simp add: hear_port_def Let_def tick_simps)
next
  case (FallbackKind f)
  obtain s1 replied heard_now where r: "foldl (fold_frame f active now) (s, False, False) frames = (s1, replied, heard_now)"
    by (metis prod_cases3)
  have 1: "evolves D s s1"
    by (rule fold_frames_evolves [OF r]) simp
  have "\<not> heard_now \<or> pp_ifname s1 \<notin> D"
    using fold_frames_no_hello [OF r] fold_frames_hello_dead [OF r] assms [OF FallbackKind] by auto
  then have 2: "heard_now \<Longrightarrow> evolves D s (s1\<lparr>pp_hello_dead := False\<rparr>)"
    using evolves_steps(5) [OF 1] by blast
  have 3: "heard_now \<Longrightarrow> evolves D s (s1\<lparr>pp_last_reply := Some now, pp_hello_dead := False\<rparr>)"
    using 2 by (simp add: evolves_def same_port_def)
  show ?thesis
    using 1 2 3 FallbackKind r by (simp add: hear_port_def Let_def tick_simps)
qed

lemma read_state_evolves:
  "read_state zone kind answer s g = (present, s', g') \<Longrightarrow> evolves D s s'"
  by (auto simp: read_state_def Let_def tick_simps split: sum.splits option.splits BondLink.splits if_splits)

lemma recv_port_evolves:
  assumes "recv_port kind active now s w = (s', w')" "hears_no_hello kind w D"
  shows "evolves D s s' \<and> only is_read w w'"
proof -
  obtain frames u where f: "p_recv (pp_ifname s) w = (frames, u)"
    by (cases "p_recv (pp_ifname s) w")
  have "\<exists>n. frames = pw_recv w n (pp_ifname s)"
    using f by (auto simp: p_recv_def traced_def)
  then have "list_all (no_hello f) (case frames of Some fs \<Rightarrow> fs | None \<Rightarrow> [])" if "kind = FallbackKind f" "pp_ifname s \<in> D" for f
    using assms(2) that by (auto split: option.splits)
  then have "evolves D s (hear_port kind active now (case frames of Some fs \<Rightarrow> fs | None \<Rightarrow> []) s)"
    by (rule hear_port_evolves)
  then show ?thesis
    using assms(1) f only_calls(6) [OF f, of is_read] by (simp add: recv_port_def)
qed

lemma hears_no_hello_only: "only P w u \<Longrightarrow> hears_no_hello kind u D = hears_no_hello kind w D"
  by (cases kind) (simp_all add: only_recv)

lemma appear_evolves: "evolves D s (appear kind now present t) = evolves D s t"
  by (simp add: appear_def tick_simps)

lemma listen_port_evolves:
  assumes "listen_port kind active now s (w, g) = (s', w', g')" "hears_no_hello kind w D"
  shows "evolves D s s' \<and> only is_read w w'"
proof -
  obtain failed u where l: "p_listen (pp_ifname s) w = (failed, u)"
    by (cases "p_listen (pp_ifname s) w")
  have u: "only is_read w u"
    by (rule only_calls(4) [OF l]) simp
  show ?thesis
  proof (cases failed)
    case (Some e)
    then show ?thesis
      using assms(1) l u by (auto simp: listen_port_def Let_def tick_simps split: if_splits)
  next
    case None
    then have "recv_port kind active now (s\<lparr>pp_deaf := None\<rparr>) u = (s', w')"
      using assms(1) l by (simp add: listen_port_def split: prod.splits)
    from recv_port_evolves [OF this, of D] have "evolves D (s\<lparr>pp_deaf := None\<rparr>) s'" "only is_read u w'"
      using assms(2) hears_no_hello_only [OF u] by simp_all
    moreover have "evolves D s (s\<lparr>pp_deaf := None\<rparr>)"
      by (simp add: tick_simps)
    ultimately show ?thesis
      using u by (blast intro: evolves_trans only_trans)
  qed
qed

lemma observe_port_evolves:
  assumes "observe_port zone kind active now s (w, g) = (s', w', g')" "hears_no_hello kind w D"
  shows "evolves D s s' \<and> only is_read w w'"
proof -
  obtain answer u where a: "p_port_state (pp_ifname s) w = (answer, u)"
    by (cases "p_port_state (pp_ifname s) w")
  obtain present s1 g1 where b: "read_state zone kind answer s g = (present, s1, g1)"
    by (metis prod_cases3)
  have s1: "evolves D s (appear kind now present s1)"
    using read_state_evolves [OF b] by (simp add: appear_evolves)
  have u: "only is_read w u"
    by (rule only_calls(2) [OF a]) simp
  have h: "hears_no_hello kind u D"
    using assms(2) hears_no_hello_only [OF u] by simp
  have "evolves D (appear kind now present s1) s' \<and> only is_read u w'"
  proof (cases kind)
    case (Ingress router)
    then have "recv_port kind active now (appear kind now present s1) u = (s', w')"
      using assms(1) a b by (simp add: observe_port_def split: prod.splits)
    then show ?thesis
      by (rule recv_port_evolves [OF _ h])
  next
    case (FallbackKind f)
    then have "listen_port kind active now (appear kind now present s1) (u, g1) = (s', w', g')"
      using assms(1) a b by (simp add: observe_port_def)
    then show ?thesis
      by (rule listen_port_evolves [OF _ h])
  qed
  then show ?thesis
    using s1 u by (blast intro: evolves_trans only_trans)
qed

lemma observe_ports_evolve:
  assumes "each_port (observe_port zone kind active now) ss (w, g) = (ss', w', g')" "hears_no_hello kind w D"
  shows "list_all2 (evolves D) ss ss' \<and> only is_read w w'"
proof -
  have "evolves D s s' \<and> only is_read (fst c) (fst c') \<and> hears_no_hello kind (fst c') D"
    if "hears_no_hello kind (fst c) D" "observe_port zone kind active now s c = (s', c')" for s c s' c'
    using observe_port_evolves [of zone kind active now s "fst c" "snd c" s' "fst c'" "snd c'" D] that hears_no_hello_only by auto
  note one = this
  have "list_all2 (evolves D) ss ss' \<and> only is_read (fst (w, g)) (fst (w', g')) \<and> hears_no_hello kind (fst (w', g')) D"
  proof (rule each_port_rel [OF assms(1)])
    show "hears_no_hello kind (fst (w, g)) D"
      using assms(2) by simp
  next
    fix a b c :: "World \<times> Gathered"
    show "only is_read (fst a) (fst b) \<Longrightarrow> only is_read (fst b) (fst c) \<Longrightarrow> only is_read (fst a) (fst c)"
      by (rule only_trans)
  qed (use one in simp_all)
  then show ?thesis
    by simp
qed

section \<open>Judging\<close>

text \<open>What of a fallback leg the declaration fixes.\<close>

definition kind_conf :: "Kind \<Rightarrow> (ipv4 list \<times> u32 set \<times> u32 \<times> Windows \<times> string) option" where
  "kind_conf k =
     (case k of
        Ingress _ \<Rightarrow> None
      | FallbackKind f \<Rightarrow> Some (fb_targets f, fb_peers f, fb_self_rid f, fb_windows f, fb_engine_sock f))"

definition leg_evolves :: "string set \<Rightarrow> Leg \<Rightarrow> Leg \<Rightarrow> bool" where
  "leg_evolves D l l' \<longleftrightarrow> list_all2 (evolves D) (lg_ports l) (lg_ports l') \<and> lg_zone l' = lg_zone l \<and> lg_bond l' = lg_bond l \<and>
     lg_actuates l' = lg_actuates l \<and> lg_prefs l' = lg_prefs l \<and> kind_conf (lg_kind l') = kind_conf (lg_kind l)"

lemma leg_evolves_refl [simp]: "leg_evolves D l l"
  by (simp add: leg_evolves_def list.rel_refl)

lemma leg_evolves_trans [trans]: "leg_evolves D l m \<Longrightarrow> leg_evolves D m n \<Longrightarrow> leg_evolves D l n"
  using evolves_all_trans [of D "lg_ports l" "lg_ports m" "lg_ports n"] by (simp add: leg_evolves_def)

lemma condemn_evolves:
  assumes "condemn parse zone bond cs (ports, f, w, log) = (ports', f', w', log')" "length cs = length ports"
  shows "list_all2 (evolves D) ports ports' \<and> kind_conf (FallbackKind f') = kind_conf (FallbackKind f) \<and> only is_read w w'"
proof -
  obtain down u where d: "peers_all_below_two_way parse (fb_engine_sock f) zone bond (fb_peers f) w = (down, u)"
    by (cases "peers_all_below_two_way parse (fb_engine_sock f) zone bond (fb_peers f) w")
  have u: "only is_read w u"
    using d by (auto simp: peers_all_below_two_way_def p_request_def intro: only_traced split: prod.splits)
  have p: "list_all2 (evolves D) ports (map (\<lambda>(s, c). if c then s\<lparr>pp_hello_dead := True\<rparr> else s) (zip ports cs))"
    using assms(2) by (auto simp: list_all2_conv_all_nth evolves_steps(1))
  show ?thesis
    using assms(1) d u p
    by (auto simp: condemn_def Let_def kind_conf_def list.rel_refl split: if_splits option.splits)
qed

lemma judge_fallback_evolves:
  assumes "judge_fallback parse zone bond active now f ports w log = (ports', f', w', log')"
  shows "list_all2 (evolves D) ports ports' \<and> kind_conf (FallbackKind f') = kind_conf (FallbackKind f) \<and> only is_read w w'"
proof -
  define vs where "vs = verdicts now (map (port_evidence active) ports) (fb_windows f) (fb_peers f \<noteq> {})"
  define cs where "cs = map (\<lambda>(s, v). condemned f active now s v) (zip ports vs)"
  have len: "length vs = length ports" "length cs = length ports"
    by (simp_all add: vs_def cs_def verdicts_def Let_def)
  obtain ports1 f1 w1 log1 where c: "condemn parse zone bond cs (ports, f, w, log) = (ports1, f1, w1, log1)"
    by (metis prod_cases4)
  have 1: "list_all2 (evolves D) ports ports1" "kind_conf (FallbackKind f1) = kind_conf (FallbackKind f)" "only is_read w w1"
    using condemn_evolves [OF c len(2), of D] by auto
  have "length ports1 = length ports"
    using 1(1) by (simp add: list_all2_lengthD)
  then have "list_all2 (evolves D) ports1 (map (\<lambda>(s, v). settle v s) (zip ports1 vs))"
    using len by (auto simp: list_all2_conv_all_nth evolves_steps(3))
  then show ?thesis
    using assms 1 evolves_all_trans [OF 1(1)] c
    unfolding judge_fallback_def Let_def vs_def [symmetric] cs_def [symmetric] by (auto simp: kind_conf_def)
qed

lemma note_nl_err_fields:
  assumes "note_nl_err err l log = (l', log')"
  shows "lg_ports l' = lg_ports l \<and> lg_zone l' = lg_zone l \<and> lg_bond l' = lg_bond l \<and> lg_actuates l' = lg_actuates l \<and>
    lg_prefs l' = lg_prefs l \<and> lg_kind l' = lg_kind l \<and> lg_held l' = lg_held l \<and> lg_moves l' = lg_moves l \<and> lg_refused l' = lg_refused l"
  using assms by (auto simp: note_nl_err_def split: option.splits if_splits)

lemma observe_leg_evolves:
  assumes "observe_leg parse active now l (w, log) = (l', w', log')" "hears_no_hello (lg_kind l) w D"
  shows "leg_evolves D l l' \<and> only is_read w w' \<and> lg_held l' = lg_held l \<and> lg_moves l' = lg_moves l \<and> lg_refused l' = lg_refused l"
proof -
  obtain ports u g where p: "each_port (observe_port (lg_zone l) (lg_kind l) active now) (lg_ports l)
      (w, \<lparr>ga_deaf = 0, ga_newly_deaf = [], ga_nl_err = None, ga_log = log\<rparr>) = (ports, u, g)"
    by (metis prod_cases3)
  have 1: "list_all2 (evolves D) (lg_ports l) ports" "only is_read w u"
    using observe_ports_evolve [OF p assms(2)] by simp_all
  obtain l1 log1 where n: "note_nl_err (ga_nl_err g) (l\<lparr>lg_ports := ports\<rparr>) (ga_log g) = (l1, log1)"
    by (cases "note_nl_err (ga_nl_err g) (l\<lparr>lg_ports := ports\<rparr>) (ga_log g)")
  note l1 = note_nl_err_fields [OF n]
  have usab: "list_all2 (evolves D) (lg_ports l) (map note_usability ss)" if "list_all2 (evolves D) (lg_ports l) ss" for ss
    using that by (auto simp: list_all2_conv_all_nth evolves_steps(4))
  show ?thesis
  proof (cases "lg_kind l")
    case (Ingress router)
    then show ?thesis
      using assms(1) p n l1 1 usab by (auto simp: observe_leg_def Let_def leg_evolves_def)
  next
    case (FallbackKind f)
    define all_deaf where "all_deaf \<longleftrightarrow> ga_deaf g > 0 \<and> ga_deaf g = length ports"
    show ?thesis
    proof (cases all_deaf)
      case True
      then show ?thesis
        using assms(1) p n l1 1 usab FallbackKind
        by (auto simp: observe_leg_def Let_def leg_evolves_def all_deaf_def kind_conf_def)
    next
      case False
      obtain ports2 f2 w2 log2 where j: "judge_fallback parse (lg_zone l) (lg_bond l) active now (f\<lparr>fb_noted_deaf := False\<rparr>) ports u
          (log1 @ map (deaf_line (lg_zone l) False) (ga_newly_deaf g)) = (ports2, f2, w2, log2)"
        by (metis prod_cases4)
      have "l' = l1\<lparr>lg_ports := map note_usability ports2, lg_kind := FallbackKind f2\<rparr> \<and> w' = w2"
        using assms(1) p n l1 FallbackKind False j
        by (simp add: observe_leg_def Let_def all_deaf_def [symmetric])
      then show ?thesis
        using judge_fallback_evolves [OF j, of D] l1 1 FallbackKind usab evolves_all_trans [OF 1(1)] only_trans [OF 1(2)]
        by (auto simp: leg_evolves_def kind_conf_def)
    qed
  qed
qed

section \<open>Moving\<close>

lemma on_port_map: "(\<And>s. g (f s) = g s) \<Longrightarrow> map g (on_port n f ss) = map g ss"
  by (induction ss) auto

lemma on_port_evolves: "(\<And>s. evolves D s (f s)) \<Longrightarrow> list_all2 (evolves D) ss (on_port n f ss)"
  by (induction ss) (auto simp: list.rel_refl)

lemma decide_better:
  assumes "decide active cands prefs = Some p"
  shows "\<exists>b\<in>set cands. ifname b = p \<and> usable b \<and>
     (\<forall>c\<in>set cands. usable c \<longrightarrow> rank prefs (wire b) \<le> rank prefs (wire c)) \<and>
     (\<forall>a c. active = Some a \<and> find (\<lambda>c. ifname c = a) cands = Some c \<and> usable c \<longrightarrow> rank prefs (wire b) < rank prefs (wire c))"
proof -
  from assms obtain b where b: "best_usable cands prefs = Some b" "p = ifname b"
    by (auto simp: decide_def split: option.splits if_splits Option.bind_splits)
  obtain i where i: "i < length cands" "cands ! i = b" "usable b"
      "\<forall>j<length cands. usable (cands ! j) \<longrightarrow> rank prefs (wire b) \<le> rank prefs (wire (cands ! j))"
    by (rule best_usable_SomeD [OF b(1)]) (metis less_or_eq_imp_le)
  have "rank prefs (wire b) \<le> rank prefs (wire c)" if "c \<in> set cands" "usable c" for c
    using i(4) that by (metis in_set_conv_nth)
  moreover have "rank prefs (wire b) < rank prefs (wire c)"
    if "active = Some a" "find (\<lambda>c. ifname c = a) cands = Some c" "usable c" for a c
    using assms b that by (auto simp: decide_def split: if_splits)
  ultimately show ?thesis
    using i(1-3) b(2) by (intro bexI [of _ b]) auto
qed

text \<open>The port \<open>t\<close> is one the leg should be on: usable, of the best rank, and better than the port that is
  active now.\<close>

definition justified :: "string option \<Rightarrow> Leg \<Rightarrow> string \<Rightarrow> bool" where
  "justified active l t \<longleftrightarrow>
     (\<exists>s\<in>set (lg_ports l). pp_ifname s = t \<and>
        reachable (pp_state s) \<and> \<not> pp_hello_dead s \<and> pp_carrier s \<and> pp_bond_link s = Some Up \<and>
        (\<forall>s'\<in>set (lg_ports l). usable (port_candidate s') \<longrightarrow> rank (lg_prefs l) (pp_wire s) \<le> rank (lg_prefs l) (pp_wire s')) \<and>
        (\<forall>a c. active = Some a \<and> port_at a (lg_ports l) = Some c \<and> usable (port_candidate c) \<longrightarrow>
           rank (lg_prefs l) (pp_wire s) < rank (lg_prefs l) (pp_wire c)))"

lemma decide_justified:
  assumes "decide active (map port_candidate (lg_ports l)) (lg_prefs l) = Some t"
  shows "justified active l t"
proof -
  have f: "find (\<lambda>c. ifname c = a) (map port_candidate ss) = map_option port_candidate (port_at a ss)" for a ss
    by (induction ss) (auto simp: port_at_def port_candidate_def)
  have c: "ifname (port_candidate s) = pp_ifname s" "wire (port_candidate s) = pp_wire s" for s
    by (simp_all add: port_candidate_def)
  obtain s where s: "s \<in> set (lg_ports l)" "pp_ifname s = t" "usable (port_candidate s)"
      "\<forall>s'\<in>set (lg_ports l). usable (port_candidate s') \<longrightarrow> rank (lg_prefs l) (pp_wire s) \<le> rank (lg_prefs l) (pp_wire s')"
      "\<forall>a c. active = Some a \<and> map_option port_candidate (port_at a (lg_ports l)) = Some c \<and> usable c \<longrightarrow>
         rank (lg_prefs l) (pp_wire s) < rank (lg_prefs l) (wire c)"
    using decide_better [OF assms] by (auto simp: f c)
  moreover have "reachable (pp_state s) \<and> \<not> pp_hello_dead s \<and> pp_carrier s \<and> pp_bond_link s = Some Up"
    using s(3) by (simp add: usable_def port_candidate_def)
  ultimately show ?thesis
    unfolding justified_def by (intro bexI [of _ s]) (auto simp: c)
qed

text \<open>What a move writes, and what is kept of it.\<close>

definition moved :: "Leg \<Rightarrow> ProbeOp list \<Rightarrow> string \<Rightarrow> Leg \<Rightarrow> bool" where
  "moved l changes t l' \<longleftrightarrow>
     (let primary = WriteFile (bonding_file (lg_bond l) ''primary'') t in
      (changes = [primary] \<or> changes = [primary, SetActive (lg_bond l) t]) \<and> lg_held l' = lg_held l \<and> lg_moves l' = lg_moves l \<or>
      changes = [primary, SetActive (lg_bond l) t] \<and> lg_held l' = t \<and> lg_moves l' = lg_moves l + 1)"

lemma write_move_ops:
  assumes "write_move bond t w = (failed, w')"
  obtains ops where "w' = w\<lparr>pw_ops := pw_ops w @ ops\<rparr>"
    "ops = [WriteFile (bonding_file bond ''primary'') t] \<and> failed \<noteq> None \<or>
     ops = [WriteFile (bonding_file bond ''primary'') t, SetActive bond t]"
proof -
  define pw where "pw = pw_write w (length (pw_ops w)) (bonding_file bond ''primary'') t"
  show thesis
  proof (cases pw)
    case None
    then show thesis
      using assms by (intro that [of "[WriteFile (bonding_file bond ''primary'') t, SetActive bond t]"])
        (auto simp: write_move_def p_write_def p_set_active_def traced_def pw_def)
  next
    case (Some e)
    then show thesis
      using assms by (intro that [of "[WriteFile (bonding_file bond ''primary'') t]"])
        (auto simp: write_move_def p_write_def traced_def pw_def [symmetric])
  qed
qed

lemma note_no_carrier_fields:
  assumes "note_no_carrier active cands l log = (l', log')"
  shows "lg_ports l' = lg_ports l \<and> lg_zone l' = lg_zone l \<and> lg_bond l' = lg_bond l \<and> lg_actuates l' = lg_actuates l \<and>
    lg_prefs l' = lg_prefs l \<and> lg_kind l' = lg_kind l \<and> lg_held l' = lg_held l \<and> lg_moves l' = lg_moves l"
  using assms by (auto simp: note_no_carrier_def Let_def split: if_splits option.splits)

text \<open>The fields of a port that a move does not touch.\<close>

definition core :: "ProbePort \<Rightarrow> ProbePort" where
  "core s = s\<lparr>pp_returned := False, pp_grace_until := None\<rparr>"

lemma try_move_moves:
  assumes "try_move active now t l (w, log) = (l', w', log')"
  obtains changes where "w' = w\<lparr>pw_ops := pw_ops w @ changes\<rparr>" "leg_evolves D l l'" "lg_kind l' = lg_kind l"
    "map core (lg_ports l') = map core (lg_ports l)"
    "changes = [] \<and> lg_held l' = lg_held l \<and> lg_moves l' = lg_moves l \<or> lg_refused l \<noteq> Some (t, active) \<and> moved l changes t l'"
proof -
  have g: "list_all2 (evolves D) (lg_ports l) (on_port t (\<lambda>s. s\<lparr>pp_grace_until := x\<rparr>) (lg_ports l))" for x
    by (rule on_port_evolves) (simp add: tick_simps)
  have h: "map core (on_port t (\<lambda>s. s\<lparr>pp_grace_until := x\<rparr>) (lg_ports l)) = map core (lg_ports l)" for x
    by (rule on_port_map) (simp add: core_def)
  show thesis
  proof (cases "lg_refused l = Some (t, active)")
    case True
    then show thesis
      using assms by (intro that [of "[]"]) (auto simp: try_move_def Let_def leg_evolves_def list.rel_refl)
  next
    case False
    obtain failed u where wm: "write_move (lg_bond l) t w = (failed, u)"
      by (cases "write_move (lg_bond l) t w")
    obtain ops where ops: "u = w\<lparr>pw_ops := pw_ops w @ ops\<rparr>"
        "ops = [WriteFile (bonding_file (lg_bond l) ''primary'') t] \<and> failed \<noteq> None \<or>
         ops = [WriteFile (bonding_file (lg_bond l) ''primary'') t, SetActive (lg_bond l) t]"
      by (rule write_move_ops [OF wm])
    show thesis
    proof (cases failed)
      case None
      then show thesis
        using assms ops wm False g h
        by (intro that [of ops]) (auto simp: try_move_def Let_def moved_def leg_evolves_def)
    next
      case (Some e)
      then show thesis
        using assms ops wm False
        by (intro that [of ops]) (auto simp: try_move_def Let_def moved_def leg_evolves_def list.rel_refl)
    qed
  qed
qed

lemma restart_window_keeps:
  "leg_evolves D l (restart_window active l)" "lg_kind (restart_window active l) = lg_kind l" "lg_held (restart_window active l) = lg_held l"
  "lg_moves (restart_window active l) = lg_moves l" "lg_bond (restart_window active l) = lg_bond l"
  "lg_refused (restart_window active l) = lg_refused l" "lg_prefs (restart_window active l) = lg_prefs l"
  "map core (lg_ports (restart_window active l)) = map core (lg_ports l)"
  "map port_candidate (lg_ports (restart_window active l)) = map port_candidate (lg_ports l)"
  by (auto simp: restart_window_def leg_evolves_def list.rel_refl tick_simps core_def port_candidate_def split: option.splits
      intro!: on_port_evolves on_port_map)

lemma actuate_moves:
  assumes "actuate active now l (w, log) = (l', w', log')"
  obtains changes where "w' = w\<lparr>pw_ops := pw_ops w @ changes\<rparr>" "leg_evolves D l l'" "lg_kind l' = lg_kind l"
    "map core (lg_ports l') = map core (lg_ports l)"
    "changes = [] \<and> lg_held l' = lg_held l \<and> lg_moves l' = lg_moves l \<or>
     (\<exists>t. lg_actuates l \<and> justified (named_port active) l t \<and> lg_refused l \<noteq> Some (t, named_port active) \<and> moved l changes t l')"
proof -
  define act l1 where "act = named_port active" and "l1 = restart_window act l"
  note keeps = restart_window_keeps(1) [of D l act, folded l1_def] restart_window_keeps(2-) [of act l, folded l1_def]
  show thesis
  proof (cases "lg_actuates l")
    case False
    then show thesis
      using assms by (intro that [of "[]"]) (auto simp: actuate_def)
  next
    case True
    then have a: "actuate active now l (w, log) =
      (case decide act (map port_candidate (lg_ports l)) (lg_prefs l) of
         None \<Rightarrow> let (l, log) = note_no_carrier act (map port_candidate (lg_ports l)) l1 log in (l, w, log)
       | Some target \<Rightarrow> try_move act now target l1 (w, log))"
      using keeps by (simp add: actuate_def Let_def act_def [symmetric] l1_def [symmetric] cong del: option.case_cong_weak)
    show thesis
    proof (cases "decide act (map port_candidate (lg_ports l)) (lg_prefs l)")
      case None
      obtain l2 log2 where n: "note_no_carrier act (map port_candidate (lg_ports l)) l1 log = (l2, log2)"
        by (cases "note_no_carrier act (map port_candidate (lg_ports l)) l1 log")
      then show thesis
        using assms a None keeps note_no_carrier_fields [OF n]
        by (intro that [of "[]"]) (auto simp: leg_evolves_def)
    next
      case (Some t)
      have j: "justified (named_port active) l t"
        using decide_justified Some by (simp add: act_def)
      have "try_move act now t l1 (w, log) = (l', w', log')"
        using assms a Some by simp
      then obtain changes where c: "w' = w\<lparr>pw_ops := pw_ops w @ changes\<rparr>" "leg_evolves D l1 l'" "lg_kind l' = lg_kind l1"
          "map core (lg_ports l') = map core (lg_ports l1)"
          "changes = [] \<and> lg_held l' = lg_held l1 \<and> lg_moves l' = lg_moves l1 \<or>
           lg_refused l1 \<noteq> Some (t, act) \<and> moved l1 changes t l'"
        by (rule try_move_moves)
      moreover have "moved l changes t l' = moved l1 changes t l'"
        using keeps by (simp add: moved_def)
      ultimately show thesis
        using keeps j True leg_evolves_trans [OF keeps(1) c(2)]
        by (intro that [of changes]) (auto simp: act_def)
    qed
  qed
qed

section \<open>Asking\<close>

text \<open>Whom a port of a fallback leg asks in this tick.\<close>

definition asked :: "Fallback \<Rightarrow> instant \<Rightarrow> ProbePort \<Rightarrow> ipv4 list" where
  "asked f now s =
     (if \<not> pp_escalating s \<or> \<not> reachable (pp_state s) \<and> (case pp_next_ask s of Some t \<Rightarrow> now < t | None \<Rightarrow> False) then []
      else ask_targets f s)"

definition probes :: "ProbePort \<Rightarrow> ipv4 list \<Rightarrow> ProbeOp list" where
  "probes s ts = map (\<lambda>t. Send (pp_ifname s) (probe (pp_mac s) t)) ts"

definition leg_sends :: "instant \<Rightarrow> Leg \<Rightarrow> ProbeOp list" where
  "leg_sends now l =
     (case lg_kind l of
        Ingress router \<Rightarrow> concat (map (\<lambda>s. probes s [router]) (lg_ports l))
      | FallbackKind f \<Rightarrow> concat (map (\<lambda>s. probes s (asked f now s)) (lg_ports l)))"

lemma send_all_ops: "send_all i m ts b w = (b', w') \<Longrightarrow> w' = w\<lparr>pw_ops := pw_ops w @ map (\<lambda>t. Send i (probe m t)) ts\<rparr>"
proof (induction ts arbitrary: b w)
  case (Cons t ts)
  then show ?case
    by (auto simp: p_send_def traced_def dest!: Cons.IH)
qed simp

lemma ask_ingress_ops:
  assumes "ask_ingress router s w = (s', w')"
  shows "evolves D s s' \<and> w' = w\<lparr>pw_ops := pw_ops w @ probes s [router]\<rparr>"
  using assms by (auto simp: ask_ingress_def p_send_def traced_def probes_def tick_simps split: if_splits)

lemma ask_fallback_ops:
  assumes "ask_fallback f now s w = (s', w')"
  shows "evolves D s s' \<and> w' = w\<lparr>pw_ops := pw_ops w @ probes s (asked f now s)\<rparr>"
proof (cases "\<not> pp_escalating s \<or> \<not> reachable (pp_state s) \<and> (case pp_next_ask s of Some t \<Rightarrow> now < t | None \<Rightarrow> False)")
  case True
  then show ?thesis
    using assms by (auto simp: ask_fallback_def probes_def asked_def tick_simps split: if_splits)
next
  case False
  define s1 where "s1 = (if \<not> reachable (pp_state s) then s\<lparr>pp_next_ask := Some (now + w_hello (fb_windows f))\<rparr> else s)"
  have s1: "evolves D s s1" "pp_ifname s1 = pp_ifname s" "pp_mac s1 = pp_mac s" "asked f now s = ask_targets f s1"
    using False by (auto simp: s1_def tick_simps asked_def ask_targets_def)
  obtain sent u where u: "send_all (pp_ifname s1) (pp_mac s1) (ask_targets f s1) False w = (sent, u)"
    by (cases "send_all (pp_ifname s1) (pp_mac s1) (ask_targets f s1) False w")
  have "evolves D s s' \<and> w' = u"
    using assms u s1(1) False unfolding ask_fallback_def Let_def s1_def [symmetric]
    by (auto simp: tick_simps split: if_splits)
  then show ?thesis
    using s1 send_all_ops [OF u] by (simp add: probes_def)
qed

lemma each_port_ops:
  assumes "each_port f ss w = (ss', w')" "\<And>s w s' w'. f s w = (s', w') \<Longrightarrow> R s s' \<and> w' = w\<lparr>pw_ops := pw_ops w @ out s\<rparr>"
  shows "list_all2 R ss ss' \<and> w' = w\<lparr>pw_ops := pw_ops w @ concat (map out ss)\<rparr>"
  using assms(1)
proof (induction ss arbitrary: w ss')
  case (Cons s ss)
  obtain t d where f: "f s w = (t, d)"
    by (cases "f s w")
  obtain ts e where e: "each_port f ss d = (ts, e)"
    by (cases "each_port f ss d")
  show ?case
    using assms(2) [OF f] Cons.IH [of d ts] Cons.prems f e by auto
qed simp

lemma ask_leg_ops:
  assumes "ask_leg now l w = (l', w')"
  shows "leg_evolves D l l' \<and> w' = w\<lparr>pw_ops := pw_ops w @ leg_sends now l\<rparr> \<and> lg_held l' = lg_held l \<and> lg_moves l' = lg_moves l \<and>
    lg_kind l' = lg_kind l"
proof (cases "lg_kind l")
  case (Ingress router)
  obtain ss u where e: "each_port (ask_ingress router) (lg_ports l) w = (ss, u)"
    by (cases "each_port (ask_ingress router) (lg_ports l) w")
  from each_port_ops [OF e ask_ingress_ops] show ?thesis
    using assms e Ingress by (auto simp: ask_leg_def leg_evolves_def leg_sends_def)
next
  case (FallbackKind f)
  obtain ss u where e: "each_port (ask_fallback f now) (lg_ports l) w = (ss, u)"
    by (cases "each_port (ask_fallback f now) (lg_ports l) w")
  from each_port_ops [OF e ask_fallback_ops] show ?thesis
    using assms e FallbackKind by (auto simp: ask_leg_def leg_evolves_def leg_sends_def)
qed

lemma leg_sends_core:
  assumes "map core (lg_ports l') = map core (lg_ports l)" "lg_kind l' = lg_kind l"
  shows "leg_sends now l' = leg_sends now l"
proof -
  have c: "probes (core s) ts = probes s ts" "asked f now (core s) = asked f now s" for s ts f
    by (simp_all add: core_def probes_def asked_def ask_targets_def)
  have m: "map g (lg_ports l') = map g (lg_ports l)" if "\<And>s. g (core s) = g s" for g :: "ProbePort \<Rightarrow> ProbeOp list"
    using arg_cong [OF assms(1), of "map g"] that by (simp add: comp_def)
  show ?thesis
    using assms(2) m [of "\<lambda>s. probes s [r]" for r] m [of "\<lambda>s. probes s (asked f now s)" for f]
    by (simp add: leg_sends_def c split: Kind.splits)
qed

section \<open>A tick in its parts\<close>

text \<open>The port the kernel has active and the leg as it stands when the tick decides.\<close>

definition leg_seen :: "(string \<Rightarrow> json option) \<Rightarrow> instant \<Rightarrow> Leg \<Rightarrow> World \<Rightarrow> string list \<Rightarrow> string option \<times> Leg" where
  "leg_seen parse now l w log =
     (let (active, l, w) = (if lg_actuates l then read_active l w else (None, l, w));
          (l, w, log) = observe_leg parse active now l (w, log) in (active, l))"

lemma read_active_evolves:
  assumes "read_active l w = (active, l', w')"
  shows "leg_evolves D l l' \<and> only is_read w w' \<and> lg_kind l' = lg_kind l \<and> lg_held l' = lg_held l \<and> lg_moves l' = lg_moves l \<and>
    lg_refused l' = lg_refused l"
proof -
  obtain t u where t: "p_read (bonding_file (lg_bond l) ''active_slave'') w = (t, u)"
    by (cases "p_read (bonding_file (lg_bond l) ''active_slave'') w")
  have "only is_read w u"
    by (rule only_calls(1) [OF t]) simp
  then show ?thesis
    using assms t by (auto simp: read_active_def leg_evolves_def Let_def list.rel_refl split: option.splits)
qed

lemma leg_tick_parts:
  assumes "leg_tick parse now l (w, log) = (l', w', log')" "hears_no_hello (lg_kind l) w D"
  obtains active seen reads changes where "leg_seen parse now l w log = (active, seen)"
    "w' = w\<lparr>pw_ops := pw_ops w @ reads @ changes @ leg_sends now seen\<rparr>" "list_all is_read reads"
    "leg_evolves D l seen" "leg_evolves D seen l'"
    "changes = [] \<and> lg_held l' = lg_held l \<and> lg_moves l' = lg_moves l \<or>
     (\<exists>t. lg_actuates l \<and> leg_probed seen \<and> justified (named_port active) seen t \<and> lg_refused l \<noteq> Some (t, named_port active) \<and>
        lg_held seen = lg_held l \<and> lg_moves seen = lg_moves l \<and> moved seen changes t l')"
proof -
  obtain active l0 w0 where 0: "(if lg_actuates l then read_active l w else (None, l, w)) = (active, l0, w0)"
    by (metis prod_cases3)
  obtain l1 w1 log1 where 1: "observe_leg parse active now l0 (w0, log) = (l1, w1, log1)"
    by (metis prod_cases3)
  obtain l2 w2 log2 where 2: "(if active \<noteq> None \<and> leg_probed l1 then actuate active now l1 (w1, log1) else (l1, w1, log1)) = (l2, w2, log2)"
    by (metis prod_cases3)
  have 3: "ask_leg now l2 w2 = (l', w')"
    using assms(1) 0 1 2 unfolding leg_tick_def Let_def by (auto split: prod.splits)
  have k0: "leg_evolves D l l0" "only is_read w w0" "lg_kind l0 = lg_kind l" "lg_held l0 = lg_held l" "lg_moves l0 = lg_moves l"
      "lg_refused l0 = lg_refused l"
    using 0 read_active_evolves [of l w active l0 w0 D] by (auto split: if_splits)
  have "hears_no_hello (lg_kind l0) w0 D"
    using assms(2) k0 hears_no_hello_only by metis
  then have k1: "leg_evolves D l0 l1" "only is_read w0 w1" "lg_held l1 = lg_held l0" "lg_moves l1 = lg_moves l0" "lg_refused l1 = lg_refused l0"
    using observe_leg_evolves [OF 1] by auto
  have seen: "leg_evolves D l l1"
    using leg_evolves_trans [OF k0(1) k1(1)] .
  obtain reads where r: "list_all is_read reads" "w1 = w\<lparr>pw_ops := pw_ops w @ reads\<rparr>"
    using only_trans [OF k0(2) k1(2)] by (auto simp: only_def)
  obtain changes where c: "w2 = w1\<lparr>pw_ops := pw_ops w1 @ changes\<rparr>" "leg_evolves D l1 l2" "lg_kind l2 = lg_kind l1"
      "map core (lg_ports l2) = map core (lg_ports l1)"
      "changes = [] \<and> lg_held l2 = lg_held l1 \<and> lg_moves l2 = lg_moves l1 \<or>
       (\<exists>t. lg_actuates l1 \<and> leg_probed l1 \<and> justified (named_port active) l1 t \<and> lg_refused l1 \<noteq> Some (t, named_port active) \<and> moved l1 changes t l2)"
  proof (cases "active \<noteq> None \<and> leg_probed l1")
    case True
    then have "actuate active now l1 (w1, log1) = (l2, w2, log2)"
      using 2 by simp
    then show thesis
      by (rule actuate_moves [where D = D]) (rule that; use True in auto)
  next
    case False
    then have "l2 = l1" "w2 = w1"
      using 2 by auto
    then show thesis
      by (intro that [of "[]"]) simp_all
  qed
  have 4: "leg_evolves D l2 l'" "w' = w2\<lparr>pw_ops := pw_ops w2 @ leg_sends now l1\<rparr>" "lg_held l' = lg_held l2" "lg_moves l' = lg_moves l2"
    using ask_leg_ops [OF 3] leg_sends_core [OF c(4,3)] by auto
  have m: "moved l1 changes t l' = moved l1 changes t l2" for t
    using 4(3,4) by (simp add: moved_def)
  have "lg_actuates l1 = lg_actuates l"
    using seen by (simp add: leg_evolves_def)
  then show thesis
    using that [of active l1 reads changes] 0 1 r c 4 k0 k1 m seen leg_evolves_trans [OF c(2) 4(1)]
    by (simp add: leg_seen_def)
qed

end
