(* ===== verification/Prober_Rules.thy ===== *)
theory Prober_Rules
  imports Prober_Moves Machines
begin

text \<open>
  The rules of the prober: when a tick moves a bond and onto what, that a condemned wire stays out of
  the running until a hello is heard on it, and how little a fallback leg sends.
\<close>

section \<open>Moves\<close>


section \<open>Condemned wires\<close>

definition leg_step :: "(string \<Rightarrow> json option) \<Rightarrow> Leg \<times> World \<times> string list \<Rightarrow> instant \<Rightarrow> Leg \<times> World \<times> string list" where
  "leg_step parse st now = (case st of (l, wl) \<Rightarrow> leg_tick parse now l wl)"

definition never_onto :: "string \<Rightarrow> ProbeOp list \<Rightarrow> bool" where
  "never_onto i ps \<longleftrightarrow> (\<forall>b. SetActive b i \<notin> set ps) \<and> (\<forall>path. WriteFile path i \<notin> set ps)"

definition out_of_running :: "string \<Rightarrow> Leg \<Rightarrow> bool" where
  "out_of_running i l \<longleftrightarrow> (\<forall>s\<in>set (lg_ports l). pp_ifname s = i \<longrightarrow> pp_hello_dead s)"

definition condemned_inv :: "string \<Rightarrow> Leg \<Rightarrow> World \<Rightarrow> Leg \<times> World \<times> string list \<Rightarrow> bool" where
  "condemned_inv i l0 w0 st \<longleftrightarrow>
     (case st of (l, w, log) \<Rightarrow>
        hears_no_hello (lg_kind l) w {i} \<and> out_of_running i l \<and> (\<exists>ps. pw_ops w = pw_ops w0 @ ps \<and> never_onto i ps))"

lemma hears_kind_conf:
  assumes "kind_conf k' = kind_conf k"
  shows "hears_no_hello k' w D = hears_no_hello k w D"
proof (cases k; cases k')
  fix f f' assume k: "k = FallbackKind f" "k' = FallbackKind f'"
  then have "fb_peers f' = fb_peers f" "fb_self_rid f' = fb_self_rid f"
    using assms by (simp_all add: kind_conf_def)
  then have "no_hello f' = no_hello f"
    by (simp add: no_hello_def fun_eq_iff split: option.splits)
  then show ?thesis
    using k by simp
qed (use assms in \<open>auto simp: kind_conf_def\<close>)

lemma out_of_running_evolves:
  assumes "leg_evolves {i} l l'" "out_of_running i l"
  shows "out_of_running i l'"
  unfolding out_of_running_def
proof (intro ballI impI)
  fix s' assume s': "s' \<in> set (lg_ports l')" "pp_ifname s' = i"
  have "list_all2 (evolves {i}) (lg_ports l) (lg_ports l')"
    using assms(1) by (simp add: leg_evolves_def)
  with s'(1) obtain s where "s \<in> set (lg_ports l)" "evolves {i} s s'"
    by (metis in_set_conv_nth list_all2_conv_all_nth)
  then show "pp_hello_dead s'"
    using assms(2) s'(2) by (auto simp: out_of_running_def evolves_def same_port_def)
qed

lemma moved_never_onto:
  assumes "justified active seen t" "moved seen changes t l'" "out_of_running i seen"
  shows "never_onto i changes"
proof -
  have "t \<noteq> i"
    using assms(1,3) by (auto simp: justified_def out_of_running_def)
  then show ?thesis
    using assms(2) by (auto simp: moved_def never_onto_def Let_def)
qed

lemma never_onto_other: "list_all is_read ps \<Longrightarrow> never_onto i ps" "never_onto i (leg_sends now l)"
  by (auto simp: never_onto_def list_all_iff is_read_def leg_sends_def probes_def split: Kind.splits)

interpretation wire: invariant_machine "leg_step parse" "condemned_inv i l0 w0" for parse i l0 w0
proof
  fix st now assume inv: "condemned_inv i l0 w0 st"
  obtain l w log where st: "st = (l, w, log)"
    by (metis prod_cases3)
  obtain l' w' log' where t: "leg_tick parse now l (w, log) = (l', w', log')"
    by (metis prod_cases3)
  have h: "hears_no_hello (lg_kind l) w {i}" and o: "out_of_running i l"
    and p: "\<exists>ps. pw_ops w = pw_ops w0 @ ps \<and> never_onto i ps"
    using inv by (simp_all add: condemned_inv_def st)
  obtain active seen reads changes where s: "w' = w\<lparr>pw_ops := pw_ops w @ reads @ changes @ leg_sends now seen\<rparr>" "list_all is_read reads"
      "leg_evolves {i} l seen" "leg_evolves {i} seen l'"
      "changes = [] \<or> (\<exists>t. justified (named_port active) seen t \<and> moved seen changes t l')"
    by (rule leg_tick_parts [OF t h]) blast
  have "out_of_running i seen" "out_of_running i l'"
    using out_of_running_evolves s(3,4) o by blast+
  moreover have "never_onto i changes"
    using s(5) moved_never_onto \<open>out_of_running i seen\<close> by (auto simp: never_onto_def)
  moreover have "hears_no_hello (lg_kind l') w' {i}"
  proof -
    have "only (\<lambda>_. True) w w'"
      using s(1) unfolding only_def by (metis list.pred_True)
    moreover have "kind_conf (lg_kind l') = kind_conf (lg_kind l)"
      using leg_evolves_trans [OF s(3,4)] by (simp add: leg_evolves_def)
    ultimately show ?thesis
      using h hears_kind_conf hears_no_hello_only by blast
  qed
  moreover have "\<exists>ps. pw_ops w' = pw_ops w0 @ ps \<and> never_onto i ps"
    using p s(1) never_onto_other(1) [OF s(2)] never_onto_other(2) [of i now seen] \<open>never_onto i changes\<close>
    by (auto simp: never_onto_def)
  ultimately show "condemned_inv i l0 w0 (leg_step parse st now)"
    using t by (simp add: condemned_inv_def leg_step_def st)
qed

text \<open>C15: only a hello rehabilitates a condemned wire. As long as the environment delivers on a
  condemned port no hello of an expected peer and no reflection of our own, and however readily the
  wire answers ARP, then after any sequence of ticks the port is still condemned, and no tick has
  moved the bond onto it or named it as its primary.\<close>

theorem condemned_until_hello:
  assumes "lg_kind l = FallbackKind f" and "out_of_running i l"
    and "\<forall>n fs fr. pw_recv w n i = Some fs \<and> fr \<in> set fs \<longrightarrow> no_hello f fr"
    and "foldl (leg_step parse) (l, w, log) nows = (l', w', log')"
  shows "out_of_running i l' \<and> (\<exists>ps. pw_ops w' = pw_ops w @ ps \<and> never_onto i ps)"
proof -
  have "condemned_inv i l w (l, w, log)"
    using assms(1-3) by (auto simp: condemned_inv_def never_onto_def list_all_iff)
  from wire.run_inv [OF this, of parse nows] show ?thesis
    using assms(4) by (simp add: condemned_inv_def)
qed

section \<open>How little is asked\<close>

lemma evidence_kept:
  "port_evidence active (note_usability s) = port_evidence active s" "port_evidence active (settle v s) = port_evidence active s"
  "pp_escalating (note_usability s) = pp_escalating s"
  by (simp add: port_evidence_def note_usability_def Let_def, cases v, auto simp: port_evidence_def note_usability_def Let_def)

lemma condemn_evidence:
  assumes "condemn parse zone bond cs (ports, f, w, log) = (ports', f', w', log')" "length cs = length ports"
  shows "map (port_evidence active) ports' = map (port_evidence active) ports"
proof -
  have "map (port_evidence active) (map (\<lambda>(s, c). if c then s\<lparr>pp_hello_dead := True\<rparr> else s) (zip ports cs)) = map (port_evidence active) ports"
    using assms(2) by (intro nth_equalityI) (auto simp: port_evidence_def)
  then show ?thesis
    using assms(1) by (auto simp: condemn_def Let_def split: if_splits option.splits prod.splits)
qed

text \<open>A port that was heard within its window is not asked.\<close>

lemma judge_fallback_heard:
  assumes "judge_fallback parse zone bond active now f ports w log = (ports', f', w', log')" "s \<in> set ports'"
    and "heard_within now (fb_windows f) (port_evidence active s)"
  shows "\<not> pp_escalating s"
proof -
  define vs where "vs = verdicts now (map (port_evidence active) ports) (fb_windows f) (fb_peers f \<noteq> {})"
  define cs where "cs = map (\<lambda>(s, v). condemned f active now s v) (zip ports vs)"
  have len: "length vs = length ports" "length cs = length ports"
    by (simp_all add: vs_def cs_def verdicts_def Let_def)
  obtain ports1 f1 w1 log1 where c: "condemn parse zone bond cs (ports, f, w, log) = (ports1, f1, w1, log1)"
    by (metis prod_cases4)
  have e: "map (port_evidence active) ports1 = map (port_evidence active) ports"
    by (rule condemn_evidence [OF c len(2)])
  have "ports' = map (\<lambda>(s, v). settle v s) (zip ports1 vs)"
    using assms(1) c unfolding judge_fallback_def Let_def vs_def [symmetric] cs_def [symmetric] by simp
  then obtain k where k: "k < length ports1" "k < length vs" "s = settle (vs ! k) (ports1 ! k)"
    using assms(2) by (auto simp: in_set_conv_nth)
  have "k < length ports"
    using k(2) len(1) by simp
  then have "port_evidence active (ports ! k) = port_evidence active s"
    using k e evidence_kept(2) by (metis nth_map)
  then have "vs ! k = Good"
    using assms(3) \<open>k < length ports\<close> by (simp add: vs_def verdicts_map verdict_of_heard_within)
  then show ?thesis
    using k(3) by simp
qed

lemma seen_heard:
  assumes "leg_seen parse now l w log = (active, seen)" "lg_kind l = FallbackKind f" "leg_probed seen" "s \<in> set (lg_ports seen)"
    and "heard_within now (fb_windows f) (port_evidence active s)"
  shows "\<not> pp_escalating s"
proof -
  obtain l0 w0 where 0: "(if lg_actuates l then read_active l w else (None, l, w)) = (active, l0, w0)"
    using assms(1) by (auto simp: leg_seen_def split: prod.splits)
  have k0: "lg_kind l0 = FallbackKind f"
    using 0 assms(2) read_active_evolves [of l w active l0 w0 "{}"] by (auto split: if_splits)
  obtain w1 log1 where 1: "observe_leg parse active now l0 (w0, log) = (seen, w1, log1)"
    using assms(1) 0 by (auto simp: leg_seen_def split: prod.splits)
  obtain ports u g where p: "each_port (observe_port (lg_zone l0) (lg_kind l0) active now) (lg_ports l0)
      (w0, \<lparr>ga_deaf = 0, ga_newly_deaf = [], ga_nl_err = None, ga_log = log\<rparr>) = (ports, u, g)"
    by (metis prod_cases3)
  obtain l1 lg1 where n: "note_nl_err (ga_nl_err g) (l0\<lparr>lg_ports := ports\<rparr>) (ga_log g) = (l1, lg1)"
    by (cases "note_nl_err (ga_nl_err g) (l0\<lparr>lg_ports := ports\<rparr>) (ga_log g)")
  note l1 = note_nl_err_fields [OF n]
  define all_deaf where "all_deaf \<longleftrightarrow> ga_deaf g > 0 \<and> ga_deaf g = length ports"
  have "\<not> all_deaf"
  proof
    assume all_deaf
    then have "lg_kind seen = FallbackKind (f\<lparr>fb_noted_deaf := True\<rparr>)"
      using 1 p n l1 k0 by (auto simp: observe_leg_def Let_def all_deaf_def)
    then show False
      using assms(3) by (simp add: leg_probed_def)
  qed
  obtain ports2 f2 w2 log2 where j: "judge_fallback parse (lg_zone l0) (lg_bond l0) active now (f\<lparr>fb_noted_deaf := False\<rparr>) ports u
      (lg1 @ map (deaf_line (lg_zone l0) False) (ga_newly_deaf g)) = (ports2, f2, w2, log2)"
    by (metis prod_cases4)
  have "lg_ports seen = map note_usability ports2"
    using 1 p n l1 k0 \<open>\<not> all_deaf\<close> j by (auto simp: observe_leg_def Let_def all_deaf_def [symmetric])
  then obtain s2 where s2: "s2 \<in> set ports2" "s = note_usability s2"
    using assms(4) by auto
  then show ?thesis
    using judge_fallback_heard [OF j s2(1)] assms(5) by (simp add: evidence_kept)
qed

lemma fill_targets_bound:
  "length acc \<le> 4 \<Longrightarrow> length (fill_targets acc ts) \<le> 4" "set acc \<subseteq> T \<Longrightarrow> set ts \<subseteq> T \<Longrightarrow> set (fill_targets acc ts) \<subseteq> T"
  by (induction ts arbitrary: acc) (auto simp: ESCALATION_TARGETS_def)

lemma ask_targets_bound:
  assumes "length (pp_recent s) \<le> 4"
  shows "length (asked f now s) \<le> 4 \<and> set (asked f now s) \<subseteq> set (fb_targets f)"
proof -
  have m: "length (List.map_filter h xs) \<le> length xs" for h :: "u32 \<Rightarrow> ipv4 option" and xs
    by (induction xs) (auto simp: map_filter_simps split: option.splits)
  have "set (List.map_filter (target_of (fb_targets f)) xs) \<subseteq> set (fb_targets f)" for xs
    by (induction xs) (auto simp: map_filter_simps target_of_def find_Some_iff split: option.splits)
  then show ?thesis
    using fill_targets_bound [of "List.map_filter (target_of (fb_targets f)) (pp_recent s)"] m [of "target_of (fb_targets f)" "pp_recent s"] assms
    by (auto simp: asked_def ask_targets_def)
qed

definition recent_inv :: "Leg \<times> World \<times> string list \<Rightarrow> bool" where
  "recent_inv st \<longleftrightarrow> list_all (\<lambda>s. length (pp_recent s) \<le> 4) (lg_ports (fst st))"

lemma recent_evolves: "leg_evolves D l l' \<Longrightarrow> recent_inv (l, x) \<Longrightarrow> recent_inv (l', y)"
  by (auto simp: recent_inv_def leg_evolves_def list_all2_conv_all_nth list_all_length evolves_def)

lemma hears_none: "hears_no_hello k w {}"
  by (cases k) simp_all

interpretation recent: invariant_machine "leg_step parse" recent_inv for parse
proof
  fix st now assume "recent_inv st"
  moreover obtain l w log where st: "st = (l, w, log)"
    by (metis prod_cases3)
  moreover obtain l' w' log' where t: "leg_tick parse now l (w, log) = (l', w', log')"
    by (metis prod_cases3)
  moreover have "leg_evolves {} l l'"
    by (rule leg_tick_parts [OF t hears_none]) (blast intro: leg_evolves_trans)
  ultimately show "recent_inv (leg_step parse st now)"
    using recent_evolves by (auto simp: leg_step_def)
qed

text \<open>C17: a fallback leg is quiet. After any sequence of ticks from a leg that has just started, the
  frames of the next tick are exactly the probes of the ports that are being escalated and whose next
  question is due: at most four a port, each an ARP request from that port's own address to a peer's
  address on the segment; and, while the leg can be heard, a port that was heard within its window is
  not asked at all, so a healthy leg sends nothing.\<close>

theorem fallback_asks_little:
  assumes "list_all (\<lambda>s. pp_recent s = []) (lg_ports l0)" and "foldl (leg_step parse) (l0, w0, log0) nows = (l, w, log)"
    and "lg_kind l = FallbackKind f" and "leg_tick parse now l (w, log) = (l', w', log')"
  shows "\<exists>active seen g.
     leg_seen parse now l w log = (active, seen) \<and> lg_kind seen = FallbackKind g \<and>
     filter is_send (drop (length (pw_ops w)) (pw_ops w')) = concat (map (\<lambda>s. probes s (asked g now s)) (lg_ports seen)) \<and>
     list_all (\<lambda>s. length (asked g now s) \<le> 4 \<and> set (asked g now s) \<subseteq> set (fb_targets f) \<and>
       (leg_probed seen \<and> heard_within now (fb_windows f) (port_evidence active s) \<longrightarrow> asked g now s = [])) (lg_ports seen)"
proof -
  have "recent_inv (l0, w0, log0)"
    using assms(1) by (auto simp: recent_inv_def list_all_iff)
  from recent.run_inv [OF this, of parse nows] have r: "recent_inv (l, w, log)"
    using assms(2) by simp
  obtain active seen reads changes where s: "leg_seen parse now l w log = (active, seen)"
      "w' = w\<lparr>pw_ops := pw_ops w @ reads @ changes @ leg_sends now seen\<rparr>" "list_all is_read reads" "leg_evolves {} l seen"
      "changes = [] \<or> (\<exists>t. moved seen changes t l')"
    by (rule leg_tick_parts [OF assms(4) hears_none]) blast
  obtain g where g: "lg_kind seen = FallbackKind g" "fb_targets g = fb_targets f"
    using s(4) assms(3) by (cases "lg_kind seen") (auto simp: leg_evolves_def kind_conf_def)
  have sends: "filter is_send (probes x ts) = probes x ts" for x ts
    by (induction ts) (auto simp: probes_def)
  have "filter is_send reads = []" "filter is_send changes = []"
    using s(3,5) by (auto simp: list_all_iff is_read_def filter_empty_conv moved_def Let_def)
  then have 1: "filter is_send (drop (length (pw_ops w)) (pw_ops w')) = concat (map (\<lambda>s. probes s (asked g now s)) (lg_ports seen))"
    using s(2) g by (simp add: leg_sends_def filter_concat comp_def sends)
  have "recent_inv (seen, w, log)"
    using recent_evolves [OF s(4) r] .
  then have 2: "length (asked g now x) \<le> 4 \<and> set (asked g now x) \<subseteq> set (fb_targets f)" if "x \<in> set (lg_ports seen)" for x
    using ask_targets_bound [of x g now] g(2) that by (auto simp: recent_inv_def list_all_iff)
  have 3: "asked g now x = []" if "x \<in> set (lg_ports seen)" "leg_probed seen" "heard_within now (fb_windows f) (port_evidence active x)" for x
    using seen_heard [OF s(1) assms(3) that(2,1,3)] by (simp add: asked_def)
  show ?thesis
    using s(1) g(1) 1 2 3 by (intro exI [of _ active] exI [of _ seen] exI [of _ g]) (auto simp: list_all_iff)
qed

end
