(* ===== verification/Path_Count.thy ===== *)
theory Path_Count
  imports Ordered_Map Outcome
begin

text \<open>
  The shortest-path counting of \<open>check_no_equal_cost_paths\<close> (\<open>src/src/derive.rs\<close>): Dijkstra's
  algorithm over directed edges with 32-bit costs, counting the shortest paths to each node.
  The loop is a recursive function with a termination proof, so it returns for every input. It is shown
  to leave exact distances and counts that satisfy the recurrence over the last edges of
  shortest paths, from which the check decides whether two shortest paths exist, although the
  counts themselves may wrap around.
\<close>

record edge =
  e_from :: string
  e_to :: string
  e_cost :: u32
  e_ifname :: string

record Search =
  dist :: "(string, u32) omap"
  counts :: "(string, u32) omap"
  via :: "(string, string list) omap"
  settled :: "string list"

text \<open>\<open>settled\<close> is the set the source calls \<open>done\<close>. \<open>unwrap_or(0)\<close> and \<open>or_insert(0)\<close>.\<close>

definition count_at :: "Search \<Rightarrow> string \<Rightarrow> u32" where
  "count_at s n = (case om_get (counts s) n of None \<Rightarrow> 0 | Some c \<Rightarrow> c)"

definition via_at :: "Search \<Rightarrow> string \<Rightarrow> string list" where
  "via_at s n = (case om_get (via s) n of None \<Rightarrow> [] | Some v \<Rightarrow> v)"

definition start_search :: "string \<Rightarrow> Search" where
  "start_search src = \<lparr>dist = om_insert src 0 [], counts = om_insert src 1 [], via = [], settled = []\<rparr>"

definition next_node :: "Search \<Rightarrow> (string \<times> u32) option" where
  "next_node s = min_by_key (\<lambda>(n, d). (d, n)) (filter (\<lambda>(n, d). n \<notin> set (settled s)) (dist s))"

definition relax :: "string \<Rightarrow> u32 \<Rightarrow> edge \<Rightarrow> Search \<Rightarrow> Search" where
  "relax node d e s =
     (if e_to e \<in> set (settled s) then s
      else
        let nd = d + e_cost e; paths = count_at s node; hop = node @ '':'' @ e_ifname e;
            replace = s\<lparr>dist := om_insert (e_to e) nd (dist s), counts := om_insert (e_to e) paths (counts s),
                        via := om_insert (e_to e) [hop] (via s)\<rparr> in
        case om_get (dist s) (e_to e) of
          None \<Rightarrow> replace
        | Some c \<Rightarrow>
            if c < nd then s
            else if c = nd
            then s\<lparr>counts := om_insert (e_to e) (count_at s (e_to e) + paths) (counts s),
                   via := om_insert (e_to e) (via_at s (e_to e) @ [hop]) (via s)\<rparr>
            else replace)"

definition expand :: "edge list \<Rightarrow> (string \<Rightarrow> bool) \<Rightarrow> string \<Rightarrow> string \<Rightarrow> u32 \<Rightarrow> Search \<Rightarrow> Search" where
  "expand es leaf src node d s =
     (let s' = s\<lparr>settled := node # settled s\<rparr> in
      if node \<noteq> src \<and> leaf node then s'
      else fold (relax node d) (filter (\<lambda>e. e_from e = node) es) s')"

section \<open>The loop ends\<close>

lemma relax_settled [simp]: "settled (relax node d e s) = settled s"
  by (simp add: relax_def Let_def split: option.split)

lemma fold_relax_settled [simp]: "settled (fold (relax node d) es s) = settled s"
  by (induction es arbitrary: s) simp_all

lemma expand_settled [simp]: "settled (expand es leaf src node d s) = node # settled s"
  by (simp add: expand_def Let_def)

lemma dom_relax: "dom (om_get (dist (relax node d e s))) \<subseteq> insert (e_to e) (dom (om_get (dist s)))"
  by (auto simp: relax_def Let_def om_get_insert split: option.splits if_splits)

lemma dom_fold_relax:
  "dom (om_get (dist (fold (relax node d) es s))) \<subseteq> dom (om_get (dist s)) \<union> e_to ` set es"
proof (induction es arbitrary: s)
  case (Cons e es)
  have "dom (om_get (dist (fold (relax node d) es (relax node d e s)))) \<subseteq>
      dom (om_get (dist (relax node d e s))) \<union> e_to ` set es"
    by (rule Cons.IH)
  also have "\<dots> \<subseteq> dom (om_get (dist s)) \<union> e_to ` set (e # es)"
    using dom_relax [of node d e s] by auto
  finally show ?case
    by simp
qed simp

lemma dom_expand:
  "dom (om_get (dist (expand es leaf src node d s))) \<subseteq> dom (om_get (dist s)) \<union> e_to ` set es"
  using dom_fold_relax [of node d "filter (\<lambda>e. e_from e = node) es" "s\<lparr>settled := node # settled s\<rparr>"]
  by (auto simp: expand_def Let_def)

lemma next_node_Some:
  assumes "next_node s = Some (n, d)"
  shows "(n, d) \<in> set (dist s)" "n \<notin> set (settled s)" "n \<in> dom (om_get (dist s))"
proof -
  have "(n, d) \<in> set (filter (\<lambda>(n, d). n \<notin> set (settled s)) (dist s))"
    using assms unfolding next_node_def by (rule min_by_key_in)
  then show "(n, d) \<in> set (dist s)" "n \<notin> set (settled s)"
    by auto
  then have "n \<in> fst ` set (dist s)"
    by (intro image_eqI [where x = "(n, d)"]) simp_all
  then show "n \<in> dom (om_get (dist s))"
    by (simp only: dom_map_of_conv_image_fst)
qed

function search :: "edge list \<Rightarrow> (string \<Rightarrow> bool) \<Rightarrow> string \<Rightarrow> Search \<Rightarrow> Search" where
  "search es leaf src s =
     (case next_node s of
        None \<Rightarrow> s
      | Some (node, d) \<Rightarrow> search es leaf src (expand es leaf src node d s))"
  by pat_completeness auto

termination
proof (relation "measure (\<lambda>(es, leaf, src, s). card ((dom (om_get (dist s)) \<union> e_to ` set es) - set (settled s)))")
  fix es :: "edge list" and leaf src s nd node and d :: u32
  assume nn: "next_node s = Some nd" "(node, d) = nd"
  let ?N = "\<lambda>s. (dom (om_get (dist s)) \<union> e_to ` set es) - set (settled s)"
  have "?N (expand es leaf src node d s) \<subseteq> ?N s - {node}"
    using dom_expand [of es leaf src node d s] by auto
  moreover have "node \<in> ?N s"
    using next_node_Some [of s node d] nn by simp
  ultimately have "?N (expand es leaf src node d s) \<subset> ?N s"
    by blast
  moreover have "finite (?N s)"
    by (simp add: finite_dom_map_of)
  ultimately have "card (?N (expand es leaf src node d s)) < card (?N s)"
    by (rule psubset_card_mono [rotated])
  then show "((es, leaf, src, expand es leaf src node d s), es, leaf, src, s) \<in>
      measure (\<lambda>(es, leaf, src, s). card ((dom (om_get (dist s)) \<union> e_to ` set es) - set (settled s)))"
    by simp
qed simp

declare search.simps [simp del]

section \<open>What a run of the loop establishes\<close>

text \<open>Graphs the loop is exact on: every cost is positive and at most \<open>C\<close>, and no path through
  the nodes can overflow a 32-bit cost.\<close>

definition nodes :: "edge list \<Rightarrow> string \<Rightarrow> string set" where
  "nodes es src = insert src (e_to ` set es)"

definition graph_ok :: "nat \<Rightarrow> edge list \<Rightarrow> string \<Rightarrow> bool" where
  "graph_ok C es src \<longleftrightarrow>
     (\<forall>e\<in>set es. 0 < e_cost e \<and> unat (e_cost e) \<le> C) \<and> C * card (nodes es src) < 2 ^ 32 \<and>
     distinct es \<and> length es < 2 ^ 32"

abbreviation known :: "Search \<Rightarrow> string set" where
  "known s \<equiv> dom (om_get (dist s))"

definition delta :: "Search \<Rightarrow> string \<Rightarrow> nat" where
  "delta s v = unat (the (om_get (dist s) v))"

text \<open>The relaxed edges that reach \<open>v\<close> at exactly its distance.\<close>

definition tight :: "edge set \<Rightarrow> Search \<Rightarrow> string \<Rightarrow> edge set" where
  "tight rel s v = {e \<in> rel. e_to e = v \<and> delta s v = delta s (e_from e) + unat (e_cost e)}"

definition search_inv :: "nat \<Rightarrow> edge list \<Rightarrow> string \<Rightarrow> edge set \<Rightarrow> Search \<Rightarrow> bool" where
  "search_inv C es src rel s \<longleftrightarrow>
     om_ok (dist s) \<and> src \<in> known s \<and> delta s src = 0 \<and> count_at s src = 1 \<and>
     distinct (settled s) \<and> set (settled s) \<subseteq> known s \<and> known s \<subseteq> nodes es src \<and>
     (\<forall>n\<in>set (settled s). \<forall>v\<in>known s - set (settled s). delta s n \<le> delta s v) \<and>
     (\<forall>v\<in>known s. delta s v \<le> C * length (settled s)) \<and>
     rel \<subseteq> set es \<and>
     (\<forall>e\<in>rel. e_from e \<in> set (settled s) \<and> e_to e \<in> known s \<and>
        delta s (e_to e) \<le> delta s (e_from e) + unat (e_cost e)) \<and>
     (\<forall>v\<in>known s. v \<noteq> src \<longrightarrow>
        tight rel s v \<noteq> {} \<and> count_at s v = (\<Sum>e\<in>tight rel s v. count_at s (e_from e)))"

lemma search_invD:
  assumes "search_inv C es src rel s"
  shows "om_ok (dist s)" "src \<in> known s" "delta s src = 0" "count_at s src = 1"
    and "distinct (settled s)" "set (settled s) \<subseteq> known s" "known s \<subseteq> nodes es src"
    and "n \<in> set (settled s) \<Longrightarrow> v \<in> known s \<Longrightarrow> v \<notin> set (settled s) \<Longrightarrow> delta s n \<le> delta s v"
    and "v \<in> known s \<Longrightarrow> delta s v \<le> C * length (settled s)"
    and "rel \<subseteq> set es"
    and "e \<in> rel \<Longrightarrow> e_from e \<in> set (settled s)" "e \<in> rel \<Longrightarrow> e_to e \<in> known s"
    and "e \<in> rel \<Longrightarrow> delta s (e_to e) \<le> delta s (e_from e) + unat (e_cost e)"
    and "v \<in> known s \<Longrightarrow> v \<noteq> src \<Longrightarrow> tight rel s v \<noteq> {}"
    and "v \<in> known s \<Longrightarrow> v \<noteq> src \<Longrightarrow> count_at s v = (\<Sum>e\<in>tight rel s v. count_at s (e_from e))"
  using assms unfolding search_inv_def by blast+

lemma search_invI:
  assumes "om_ok (dist s)" "src \<in> known s" "delta s src = 0" "count_at s src = 1"
    and "distinct (settled s)" "set (settled s) \<subseteq> known s" "known s \<subseteq> nodes es src"
    and "\<And>n v. n \<in> set (settled s) \<Longrightarrow> v \<in> known s \<Longrightarrow> v \<notin> set (settled s) \<Longrightarrow> delta s n \<le> delta s v"
    and "\<And>v. v \<in> known s \<Longrightarrow> delta s v \<le> C * length (settled s)"
    and "rel \<subseteq> set es"
    and "\<And>e. e \<in> rel \<Longrightarrow> e_from e \<in> set (settled s)" "\<And>e. e \<in> rel \<Longrightarrow> e_to e \<in> known s"
    and "\<And>e. e \<in> rel \<Longrightarrow> delta s (e_to e) \<le> delta s (e_from e) + unat (e_cost e)"
    and "\<And>v. v \<in> known s \<Longrightarrow> v \<noteq> src \<Longrightarrow> tight rel s v \<noteq> {}"
    and "\<And>v. v \<in> known s \<Longrightarrow> v \<noteq> src \<Longrightarrow> count_at s v = (\<Sum>e\<in>tight rel s v. count_at s (e_from e))"
  shows "search_inv C es src rel s"
  using assms unfolding search_inv_def by simp

lemma unat_add_no_wrap:
  fixes a b :: u32
  assumes "unat a + unat b < 2 ^ 32"
  shows "unat (a + b) = unat a + unat b"
  using assms by (simp add: unat_word_ariths)

lemma settled_bound:
  assumes "graph_ok C es src" "search_inv C es src rel s"
  shows "C * length (settled s) < 2 ^ 32"
proof -
  have "length (settled s) \<le> card (nodes es src)"
    using search_invD(5-7) [OF assms(2)] card_mono [of "nodes es src" "set (settled s)"]
    by (simp add: distinct_card nodes_def)
  then have "C * length (settled s) \<le> C * card (nodes es src)"
    by simp
  then show ?thesis
    using assms(1) unfolding graph_ok_def by linarith
qed

text \<open>Relaxing one edge out of the node just settled, the largest of the settled ones.\<close>

definition relax_ok :: "nat \<Rightarrow> edge list \<Rightarrow> string \<Rightarrow> string \<Rightarrow> u32 \<Rightarrow> edge set \<Rightarrow> Search \<Rightarrow> bool" where
  "relax_ok C es src node d rel s \<longleftrightarrow>
     search_inv C es src rel s \<and> src \<in> set (settled s) \<and> node \<in> set (settled s) \<and>
     om_get (dist s) node = Some d \<and>
     (\<forall>n\<in>set (settled s). delta s n \<le> unat d) \<and> unat d + C \<le> C * length (settled s)"

text \<open>The new distance and count of the target, seen through the two look-ups.\<close>

lemma delta_replace:
  "delta (s\<lparr>dist := om_insert v nd (dist s), counts := cs, via := vs\<rparr>) u = (if u = v then unat nd else delta s u)"
  by (simp add: delta_def om_get_insert)

lemma delta_counts: "delta (s\<lparr>counts := cs, via := vs\<rparr>) u = delta s u"
  by (simp add: delta_def)

lemma count_at_insert:
  "count_at (s\<lparr>dist := ds, counts := om_insert v c (counts s), via := vs\<rparr>) u = (if u = v then c else count_at s u)"
  "count_at (s\<lparr>counts := om_insert v c (counts s), via := vs\<rparr>) u = (if u = v then c else count_at s u)"
  by (simp_all add: count_at_def om_get_insert)

lemma delta_eq: "om_get (dist s) v = Some c \<Longrightarrow> delta s v = unat c"
  by (simp add: delta_def)

lemma finite_tight: "search_inv C es src rel s \<Longrightarrow> finite (tight rel s v)"
proof -
  assume "search_inv C es src rel s"
  then have "finite rel"
    by (intro finite_subset [OF search_invD(10) finite_set])
  then show ?thesis
    unfolding tight_def by (rule finite_subset [rotated]) blast
qed

lemma relax_keep:
  assumes "relax_ok C es src node d rel s" and "e \<in> set es" "e_from e = node"
    and "e_to e \<in> known s" "delta s (e_to e) < unat d + unat (e_cost e)"
  shows "search_inv C es src (insert e rel) s"
proof -
  have inv: "search_inv C es src rel s" and node: "node \<in> set (settled s)" "delta s node = unat d"
    using assms(1) by (auto simp: relax_ok_def delta_eq)
  have "tight (insert e rel) s v = tight rel s v" for v
    using assms(3,5) node by (auto simp: tight_def)
  then show ?thesis
    using inv assms(2-5) node unfolding search_inv_def by simp
qed

lemma relax_bump:
  assumes "relax_ok C es src node d rel s" and "e \<in> set es" "e_from e = node" "e \<notin> rel"
    and "e_to e \<notin> set (settled s)" "e_to e \<in> known s" "delta s (e_to e) = unat d + unat (e_cost e)"
  shows "search_inv C es src (insert e rel)
    (s\<lparr>counts := om_insert (e_to e) (count_at s (e_to e) + count_at s node) (counts s), via := vs\<rparr>)"
proof -
  define t where "t = s\<lparr>counts := om_insert (e_to e) (count_at s (e_to e) + count_at s node) (counts s), via := vs\<rparr>"
  have inv: "search_inv C es src rel s" and node: "node \<in> set (settled s)" "delta s node = unat d"
    and src: "src \<in> set (settled s)"
    using assms(1) by (auto simp: relax_ok_def delta_eq)
  note D = search_invD [OF inv]
  have delta: "delta t v = delta s v" for v
    unfolding t_def by (rule delta_counts)
  have count: "count_at t u = (if u = e_to e then count_at s (e_to e) + count_at s node else count_at s u)" for u
    unfolding t_def by (rule count_at_insert)
  have same: "dist t = dist s" "settled t = settled s"
    by (simp_all add: t_def)
  have other: "count_at t (e_from e') = count_at s (e_from e')" if "e' \<in> insert e rel" for e'
    using that D(11) [of e'] assms(3,5) node by (auto simp: count)
  have tight: "tight (insert e rel) t v = (if v = e_to e then insert e (tight rel s v) else tight rel s v)" for v
    using assms(3,7) node by (auto simp: tight_def delta)
  have sum: "count_at t v = (\<Sum>e'\<in>tight (insert e rel) t v. count_at t (e_from e'))"
    if v: "v \<in> known s" "v \<noteq> src" for v
  proof -
    have "(\<Sum>e'\<in>tight (insert e rel) t v. count_at t (e_from e')) =
        (\<Sum>e'\<in>tight (insert e rel) t v. count_at s (e_from e'))"
      by (rule sum.cong) (auto simp: tight_def intro!: other)
    also have "\<dots> = count_at t v"
    proof (cases "v = e_to e")
      case True
      moreover have "e \<notin> tight rel s v"
        using assms(4) by (simp add: tight_def)
      ultimately show ?thesis
        using D(15) [OF v] finite_tight [OF inv, of v] assms(3) by (simp add: tight count add.commute)
    next
      case False
      then show ?thesis
        using D(15) [OF v] by (simp add: tight count)
    qed
    finally show ?thesis
      by simp
  qed
  have "search_inv C es src (insert e rel) t"
  proof (rule search_invI)
    show "count_at t src = 1"
      using src assms(5) D(4) by (auto simp: count)
    show "e_from e' \<in> set (settled t)" "e_to e' \<in> known t"
      and "delta t (e_to e') \<le> delta t (e_from e') + unat (e_cost e')" if "e' \<in> insert e rel" for e'
      using that D(11,12,13) [of e'] assms(3,6,7) node by (auto simp: same delta)
    show "tight (insert e rel) t v \<noteq> {}" if "v \<in> known t" "v \<noteq> src" for v
      using D(14) [of v] that by (auto simp: tight same)
  qed (use D assms(2) sum in \<open>simp_all add: same delta\<close>)
  then show ?thesis
    by (simp only: t_def)
qed

lemma relax_replace:
  assumes "graph_ok C es src" "relax_ok C es src node d rel s" and "e \<in> set es" "e_from e = node"
    and "e_to e \<notin> set (settled s)" and nd: "unat nd = unat d + unat (e_cost e)"
    and less: "e_to e \<notin> known s \<or> unat nd < delta s (e_to e)"
  shows "search_inv C es src (insert e rel)
    (s\<lparr>dist := om_insert (e_to e) nd (dist s), counts := om_insert (e_to e) (count_at s node) (counts s), via := vs\<rparr>)"
proof -
  define t where "t = s\<lparr>dist := om_insert (e_to e) nd (dist s), counts := om_insert (e_to e) (count_at s node) (counts s), via := vs\<rparr>"
  have inv: "search_inv C es src rel s" and node: "node \<in> set (settled s)" "delta s node = unat d"
    and src: "src \<in> set (settled s)" and top: "\<And>n. n \<in> set (settled s) \<Longrightarrow> delta s n \<le> unat d"
    and bound: "unat d + C \<le> C * length (settled s)"
    using assms(2) by (auto simp: relax_ok_def delta_eq)
  note D = search_invD [OF inv]
  have delta: "delta t v = (if v = e_to e then unat nd else delta s v)" for v
    unfolding t_def by (rule delta_replace)
  have count: "count_at t u = (if u = e_to e then count_at s node else count_at s u)" for u
    unfolding t_def by (rule count_at_insert)
  have same: "settled t = settled s" "om_ok (dist t)"
    using D(1) by (simp_all add: t_def om_ok_insert)
  have known: "known t = insert (e_to e) (known s)"
    by (auto simp: t_def om_get_insert split: if_splits)
  have from_old: "e_from e' \<in> set (settled s)" "e_from e' \<noteq> e_to e" if "e' \<in> insert e rel" for e'
    using that D(11) [of e'] assms(4,5) node by auto
  have tight: "tight (insert e rel) t v = (if v = e_to e then {e} else tight rel s v)" for v
  proof (cases "v = e_to e")
    case True
    have old: "unat nd < delta s (e_from e') + unat (e_cost e')" if "e' \<in> rel" "e_to e' = e_to e" for e'
      using less D(12,13) [OF that(1)] that(2) by auto
    have "e' \<notin> tight (insert e rel) t v" if "e' \<in> rel" "e' \<noteq> e" for e'
      using old [OF that(1)] from_old [of e'] that True by (auto simp: tight_def delta)
    moreover have "e \<in> tight (insert e rel) t v"
      using True assms(4) node nd from_old [of e] by (simp add: tight_def delta)
    ultimately show ?thesis
      using True by (auto simp: tight_def)
  next
    case False
    have "e' \<in> tight (insert e rel) t v \<longleftrightarrow> e' \<in> tight rel s v" for e'
      using from_old [of e'] False by (auto simp: tight_def delta)
    then show ?thesis
      using False by auto
  qed
  have sum: "count_at t v = (\<Sum>e'\<in>tight (insert e rel) t v. count_at t (e_from e'))" if "v \<in> known t" "v \<noteq> src" for v
  proof (cases "v = e_to e")
    case True
    then show ?thesis
      using from_old(2) [of e] assms(4) by (simp add: tight count)
  next
    case False
    then have "count_at s v = (\<Sum>e'\<in>tight rel s v. count_at s (e_from e'))"
      using D(15) [of v] that known by simp
    moreover have "(\<Sum>e'\<in>tight rel s v. count_at t (e_from e')) = (\<Sum>e'\<in>tight rel s v. count_at s (e_from e'))"
      using from_old by (intro sum.cong) (auto simp: tight_def count)
    ultimately show ?thesis
      using False by (simp add: tight count)
  qed
  have "search_inv C es src (insert e rel) t"
  proof (rule search_invI)
    show "om_ok (dist t)" "src \<in> known t" "delta t src = 0" "count_at t src = 1" "known t \<subseteq> nodes es src"
      using same D(2-4,7) src assms(3,5) known by (auto simp: delta count nodes_def)
    show "distinct (settled t)" "set (settled t) \<subseteq> known t" "insert e rel \<subseteq> set es"
      using D(5,6,10) assms(3) by (auto simp: same known)
    show "e_from e' \<in> set (settled t)" "e_to e' \<in> known t"
      and "delta t (e_to e') \<le> delta t (e_from e') + unat (e_cost e')" if "e' \<in> insert e rel" for e'
      using that D(12,13) [of e'] from_old [OF that] nd less assms(4) node by (auto simp: same delta known)
    show "delta t n \<le> delta t v" if "n \<in> set (settled t)" "v \<in> known t" "v \<notin> set (settled t)" for n v
      using that D(8) [of n v] top [of n] nd known assms(5) by (auto simp: same delta)
    show "delta t v \<le> C * length (settled t)" if "v \<in> known t" for v
      using that D(9) [of v] bound nd known assms(1,3) by (auto simp: same delta graph_ok_def dest!: bspec)
    show "tight (insert e rel) t v \<noteq> {}" if "v \<in> known t" "v \<noteq> src" for v
      using D(14) [of v] that known by (auto simp: tight)
  qed (rule sum)
  then show ?thesis
    by (simp only: t_def)
qed

lemma relax_step:
  assumes ok: "graph_ok C es src" "relax_ok C es src node d rel s"
    and e: "e \<in> set es" "e_from e = node" "e \<notin> rel"
  shows "search_inv C es src (insert e rel) (relax node d e s)"
proof -
  have inv: "search_inv C es src rel s" and node: "node \<in> set (settled s)" "om_get (dist s) node = Some d"
    and top: "\<And>n. n \<in> set (settled s) \<Longrightarrow> delta s n \<le> unat d" and bound: "unat d + C \<le> C * length (settled s)"
    using ok(2) by (auto simp: relax_ok_def)
  have cost: "0 < unat (e_cost e)" "unat (e_cost e) \<le> C"
    using ok(1) e(1) by (auto simp: graph_ok_def word_less_nat_alt)
  have nd: "unat (d + e_cost e) = unat d + unat (e_cost e)"
    using settled_bound [OF ok(1) inv] bound cost by (intro unat_add_no_wrap) linarith
  show ?thesis
  proof (cases "e_to e \<in> set (settled s)")
    case True
    have "delta s (e_to e) < unat d + unat (e_cost e)"
      using top [OF True] cost by linarith
    then show ?thesis
      using True relax_keep [OF ok(2) e(1,2)] search_invD(6) [OF inv] by (auto simp: relax_def)
  next
    case new: False
    show ?thesis
    proof (cases "om_get (dist s) (e_to e)")
      case None
      then show ?thesis
        using relax_replace [OF ok e(1,2) new nd] new by (auto simp: relax_def Let_def)
    next
      case (Some c)
      then have c: "delta s (e_to e) = unat c" "e_to e \<in> known s"
        by (auto simp: delta_eq)
      consider "c < d + e_cost e" | "c = d + e_cost e" | "d + e_cost e < c"
        by (rule linorder_cases)
      then show ?thesis
      proof cases
        case 1
        then have "delta s (e_to e) < unat d + unat (e_cost e)"
          using c nd by (simp add: word_less_nat_alt)
        then show ?thesis
          using 1 Some new c relax_keep [OF ok(2) e(1,2)] by (simp add: relax_def Let_def)
      next
        case 2
        then have "delta s (e_to e) = unat d + unat (e_cost e)"
          using c nd by simp
        then show ?thesis
          using 2 Some new relax_bump [OF ok(2) e new c(2)] by (simp add: relax_def Let_def)
      next
        case 3
        then have less: "e_to e \<notin> known s \<or> unat (d + e_cost e) < delta s (e_to e)"
          using c by (simp add: word_less_nat_alt)
        have "\<not> c < d + e_cost e" "c \<noteq> d + e_cost e"
          using 3 by auto
        then show ?thesis
          using Some new relax_replace [OF ok e(1,2) new nd less] by (simp add: relax_def Let_def)
      qed
    qed
  qed
qed

lemma relax_keeps_settled:
  assumes "n \<in> set (settled s)"
  shows "om_get (dist (relax node d e s)) n = om_get (dist s) n"
  using assms by (auto simp: relax_def Let_def om_get_insert split: option.split)

lemma relax_relax_ok:
  assumes "graph_ok C es src" "relax_ok C es src node d rel s"
    and "e \<in> set es" "e_from e = node" "e \<notin> rel"
  shows "relax_ok C es src node d (insert e rel) (relax node d e s)"
  using relax_step [OF assms] assms(2) by (simp add: relax_ok_def delta_def relax_keeps_settled)

lemma fold_relax_ok:
  assumes "graph_ok C es src" "relax_ok C es src node d rel s"
    and "distinct xs" "set xs \<subseteq> set es" "\<forall>e\<in>set xs. e_from e = node \<and> e \<notin> rel"
  shows "search_inv C es src (rel \<union> set xs) (fold (relax node d) xs s)"
  using assms
proof (induction xs arbitrary: rel s)
  case Nil
  then show ?case
    by (simp add: relax_ok_def)
next
  case (Cons e xs)
  have "relax_ok C es src node d (insert e rel) (relax node d e s)"
    using Cons.prems by (intro relax_relax_ok) auto
  then have "search_inv C es src (insert e rel \<union> set xs) (fold (relax node d) xs (relax node d e s))"
    using Cons.prems by (intro Cons.IH) auto
  then show ?case
    by simp
qed

text \<open>The edges relaxed so far, and the invariant of the whole loop.\<close>

definition relaxed :: "edge list \<Rightarrow> (string \<Rightarrow> bool) \<Rightarrow> string \<Rightarrow> Search \<Rightarrow> edge set" where
  "relaxed es leaf src s = {e \<in> set es. e_from e \<in> set (settled s) \<and> (e_from e = src \<or> \<not> leaf (e_from e))}"

definition loop_inv :: "nat \<Rightarrow> edge list \<Rightarrow> (string \<Rightarrow> bool) \<Rightarrow> string \<Rightarrow> Search \<Rightarrow> bool" where
  "loop_inv C es leaf src s \<longleftrightarrow>
     search_inv C es src (relaxed es leaf src s) s \<and>
     (src \<in> set (settled s) \<or> settled s = [] \<and> known s = {src})"

lemma loop_inv_start: "loop_inv C es leaf src (start_search src)"
  by (auto simp: loop_inv_def search_inv_def relaxed_def start_search_def delta_def count_at_def nodes_def om_ok_def)

lemma next_node_least:
  assumes "om_ok (dist s)" "next_node s = Some (n, d)"
  shows "om_get (dist s) n = Some d" "\<And>v. v \<in> known s \<Longrightarrow> v \<notin> set (settled s) \<Longrightarrow> unat d \<le> delta s v"
proof -
  show "om_get (dist s) n = Some d"
    using next_node_Some(1) [OF assms(2)] om_mem_iff [OF assms(1)] by blast
  fix v
  assume v: "v \<in> known s" "v \<notin> set (settled s)"
  then obtain c where c: "om_get (dist s) v = Some c"
    by auto
  then have "(v, c) \<in> set (filter (\<lambda>(n, d). n \<notin> set (settled s)) (dist s))"
    using om_mem_iff [OF assms(1)] v by simp
  then have "(d, n) \<le> (c, v)"
    using min_by_key_le [OF assms(2) [unfolded next_node_def]] by fastforce
  then show "unat d \<le> delta s v"
    using delta_eq [OF c] by (auto simp: less_eq_prod_def word_le_nat_alt word_less_nat_alt)
qed

text \<open>Settling the least unsettled node keeps the invariant, before any of its edges is relaxed.\<close>

lemma settle_node:
  assumes "loop_inv C es leaf src s" "next_node s = Some (node, d)"
  shows "relax_ok C es src node d (relaxed es leaf src s) (s\<lparr>settled := node # settled s\<rparr>)"
proof -
  let ?t = "s\<lparr>settled := node # settled s\<rparr>" and ?rel = "relaxed es leaf src s"
  have inv: "search_inv C es src ?rel s" and src: "src \<in> set (settled s) \<or> settled s = [] \<and> known s = {src}"
    using assms(1) by (auto simp: loop_inv_def)
  note D = search_invD [OF inv]
  note N = next_node_Some [OF assms(2)] next_node_least [OF D(1) assms(2)]
  have d: "delta s node = unat d"
    using delta_eq [OF N(4)] .
  have same: "delta ?t v = delta s v" "count_at ?t v = count_at s v" "tight r ?t v = tight r s v" for v r
    by (simp_all add: delta_def count_at_def tight_def)
  have top: "delta s n \<le> unat d" if "n \<in> insert node (set (settled s))" for n
    using that D(8) [of n node] N d by auto
  have "search_inv C es src ?rel ?t"
  proof (rule search_invI)
    show "delta ?t n \<le> delta ?t v" if "n \<in> set (settled ?t)" "v \<in> known ?t" "v \<notin> set (settled ?t)" for n v
      using that top [of n] N(5) [of v] by (simp add: same)
    show "delta ?t v \<le> C * length (settled ?t)" if "v \<in> known ?t" for v
      using D(9) [of v] that by (simp add: same)
    show "count_at ?t v = (\<Sum>e\<in>tight ?rel ?t v. count_at ?t (e_from e))" if "v \<in> known ?t" "v \<noteq> src" for v
      using D(15) [of v] that by (simp add: same)
  qed (use D N in \<open>auto simp: same\<close>)
  moreover have "src \<in> insert node (set (settled s))"
  proof (cases "src \<in> set (settled s)")
    case False
    then have "known s = {src}"
      using src by simp
    then have "node \<in> {src}"
      using N(3) by (simp only:)
    then show ?thesis
      by simp
  qed simp
  moreover have "unat d + C \<le> C * length (node # settled s)"
    using D(9) [OF N(3)] d by simp
  ultimately show ?thesis
    using top N(4) by (simp add: relax_ok_def same)
qed

lemma expand_loop_inv:
  assumes ok: "graph_ok C es src" and inv: "loop_inv C es leaf src s" and nn: "next_node s = Some (node, d)"
  shows "loop_inv C es leaf src (expand es leaf src node d s)"
proof -
  let ?t = "s\<lparr>settled := node # settled s\<rparr>" and ?rel = "relaxed es leaf src s"
  let ?xs = "filter (\<lambda>e. e_from e = node) es"
  have t: "relax_ok C es src node d ?rel ?t"
    by (rule settle_node [OF inv nn])
  have node: "node \<notin> set (settled s)"
    using next_node_Some [OF nn] by blast
  have src: "src \<in> set (settled ?t)"
    using t by (simp add: relax_ok_def)
  show ?thesis
  proof (cases "node \<noteq> src \<and> leaf node")
    case True
    then have "relaxed es leaf src ?t = ?rel"
      by (auto simp: relaxed_def)
    then show ?thesis
      using t src True by (simp add: loop_inv_def expand_def relax_ok_def)
  next
    case False
    have "search_inv C es src (?rel \<union> set ?xs) (fold (relax node d) ?xs ?t)"
      using ok node by (intro fold_relax_ok [OF ok t]) (auto simp: graph_ok_def relaxed_def)
    moreover have "relaxed es leaf src (fold (relax node d) ?xs ?t) = ?rel \<union> set ?xs"
      using False by (auto simp: relaxed_def)
    ultimately show ?thesis
      using False src by (auto simp: loop_inv_def expand_def Let_def)
  qed
qed

lemma search_loop_inv:
  assumes "graph_ok C es src" "loop_inv C es leaf src s"
  shows "loop_inv C es leaf src (search es leaf src s) \<and> next_node (search es leaf src s) = None"
  using assms
proof (induction es leaf src s rule: search.induct)
  case (1 es leaf src s)
  show ?case
  proof (cases "next_node s")
    case None
    then show ?thesis
      using 1 by (simp add: search.simps [of es leaf src s])
  next
    case (Some nd)
    obtain node d where nd: "nd = (node, d)"
      by fastforce
    have "loop_inv C es leaf src (expand es leaf src node d s)"
      using 1 Some nd by (intro expand_loop_inv) auto
    then show ?thesis
      using 1 Some nd by (simp add: search.simps [of es leaf src s])
  qed
qed

text \<open>Every node with a distance has a count, and the counts stay an ordered map.\<close>

definition counted :: "Search \<Rightarrow> bool" where
  "counted s \<longleftrightarrow> om_ok (counts s) \<and> dom (om_get (counts s)) = known s"

lemma counted_relax: "counted s \<Longrightarrow> counted (relax node d e s)"
proof -
  assume s: "counted s"
  then have dom: "dom (om_get (counts s)) = known s"
    by (simp add: counted_def)
  have old: "insert (e_to e) (known s) = known s" if "om_get (dist s) (e_to e) = Some c" for c
    using that by (intro insert_absorb domI)
  show ?thesis
    using s old by (simp add: counted_def relax_def Let_def om.dom_ins om_ok_insert dom split: option.split)
qed

lemma counted_expand: "counted s \<Longrightarrow> counted (expand es leaf src node d s)"
proof -
  have "counted s \<Longrightarrow> counted (fold (relax node d) xs s)" for s xs
    by (induction xs arbitrary: s) (auto intro: counted_relax)
  then show "counted s \<Longrightarrow> counted (expand es leaf src node d s)"
    by (simp add: expand_def Let_def counted_def)
qed

lemma counted_search: "counted s \<Longrightarrow> counted (search es leaf src s)"
proof (induction es leaf src s rule: search.induct)
  case (1 es leaf src s)
  show ?case
  proof (cases "next_node s")
    case None
    then show ?thesis
      using 1 by (simp add: search.simps [of es leaf src s])
  next
    case (Some nd)
    then show ?thesis
      using 1 counted_expand by (cases nd) (simp add: search.simps [of es leaf src s])
  qed
qed

lemma search_counts:
  "om_ok (counts (search es leaf src (start_search src))) \<and>
   dom (om_get (counts (search es leaf src (start_search src)))) = known (search es leaf src (start_search src))"
proof -
  have "counted (start_search src)"
    by (simp add: counted_def start_search_def om_ok_def)
  then show ?thesis
    using counted_search unfolding counted_def by blast
qed

section \<open>Walks\<close>

text \<open>The paths of the graph: a leaf is reached but never crossed, the source may be a leaf.\<close>

inductive walk :: "edge list \<Rightarrow> (string \<Rightarrow> bool) \<Rightarrow> string \<Rightarrow> edge list \<Rightarrow> string \<Rightarrow> bool"
  for es leaf src where
  walk_nil: "walk es leaf src [] src"
| walk_snoc: "walk es leaf src p u \<Longrightarrow> e \<in> set es \<Longrightarrow> e_from e = u \<Longrightarrow> u = src \<or> \<not> leaf u \<Longrightarrow>
    walk es leaf src (p @ [e]) (e_to e)"

inductive_cases walk_snocE: "walk es leaf src (p @ [e]) v"
inductive_cases walk_nilE: "walk es leaf src [] v"

definition walk_cost :: "edge list \<Rightarrow> nat" where
  "walk_cost p = sum_list (map (\<lambda>e. unat (e_cost e)) p)"

definition shortest :: "edge list \<Rightarrow> (string \<Rightarrow> bool) \<Rightarrow> string \<Rightarrow> edge list \<Rightarrow> string \<Rightarrow> bool" where
  "shortest es leaf src p v \<longleftrightarrow>
     walk es leaf src p v \<and> (\<forall>q. walk es leaf src q v \<longrightarrow> walk_cost p \<le> walk_cost q)"

definition one_shortest :: "edge list \<Rightarrow> (string \<Rightarrow> bool) \<Rightarrow> string \<Rightarrow> string \<Rightarrow> bool" where
  "one_shortest es leaf src v \<longleftrightarrow>
     (\<forall>p q. shortest es leaf src p v \<longrightarrow> shortest es leaf src q v \<longrightarrow> p = q)"

lemma walk_cost_snoc [simp]: "walk_cost [] = 0" "walk_cost (p @ [e]) = walk_cost p + unat (e_cost e)"
  by (simp_all add: walk_cost_def)

text \<open>The state the loop ends in: exact distances, and counts that add up over the last edges.\<close>

definition finished :: "edge list \<Rightarrow> (string \<Rightarrow> bool) \<Rightarrow> string \<Rightarrow> Search \<Rightarrow> bool" where
  "finished es leaf src s \<longleftrightarrow>
     (\<forall>e\<in>set es. 0 < unat (e_cost e)) \<and> length es < 2 ^ 32 \<and>
     src \<in> known s \<and> delta s src = 0 \<and> count_at s src = 1 \<and>
     (\<forall>e\<in>set es. e_from e \<in> known s \<and> (e_from e = src \<or> \<not> leaf (e_from e)) \<longrightarrow>
        e_to e \<in> known s \<and> delta s (e_to e) \<le> delta s (e_from e) + unat (e_cost e)) \<and>
     set (settled s) = known s \<and>
     (\<forall>v\<in>known s. v \<noteq> src \<longrightarrow>
        tight (relaxed es leaf src s) s v \<noteq> {} \<and>
        count_at s v = (\<Sum>e\<in>tight (relaxed es leaf src s) s v. count_at s (e_from e)))"

lemma search_finished:
  assumes "graph_ok C es src"
  shows "finished es leaf src (search es leaf src (start_search src))"
proof -
  define s where "s = search es leaf src (start_search src)"
  have "loop_inv C es leaf src s" and none: "next_node s = None"
    using search_loop_inv [OF assms loop_inv_start] by (auto simp: s_def)
  then have inv: "search_inv C es src (relaxed es leaf src s) s"
    by (simp add: loop_inv_def)
  note D = search_invD [OF inv]
  have "filter (\<lambda>(n, d). n \<notin> set (settled s)) (dist s) = []"
    using none by (simp add: next_node_def)
  then have "\<forall>x\<in>set (dist s). fst x \<in> set (settled s)"
    by (auto simp: filter_empty_conv)
  then have "known s \<subseteq> set (settled s)"
    unfolding dom_map_of_conv_image_fst by blast
  with D(6) have settled: "set (settled s) = known s"
    by blast
  have "e_to e \<in> known s \<and> delta s (e_to e) \<le> delta s (e_from e) + unat (e_cost e)"
    if "e \<in> set es" "e_from e \<in> known s" "e_from e = src \<or> \<not> leaf (e_from e)" for e
    using that D(12,13) [of e] settled by (simp add: relaxed_def)
  then show ?thesis
    using assms D settled unfolding s_def [symmetric] finished_def graph_ok_def
    by (simp add: word_less_nat_alt)
qed

lemma finishedD:
  assumes "finished es leaf src s"
  shows "e \<in> set es \<Longrightarrow> 0 < unat (e_cost e)" "length es < 2 ^ 32"
    and "src \<in> known s" "delta s src = 0" "count_at s src = 1"
    and "e \<in> set es \<Longrightarrow> e_from e \<in> known s \<Longrightarrow> e_from e = src \<or> \<not> leaf (e_from e) \<Longrightarrow>
      e_to e \<in> known s \<and> delta s (e_to e) \<le> delta s (e_from e) + unat (e_cost e)"
    and "set (settled s) = known s"
    and "v \<in> known s \<Longrightarrow> v \<noteq> src \<Longrightarrow> tight (relaxed es leaf src s) s v \<noteq> {}"
    and "v \<in> known s \<Longrightarrow> v \<noteq> src \<Longrightarrow>
      count_at s v = (\<Sum>e\<in>tight (relaxed es leaf src s) s v. count_at s (e_from e))"
  using assms unfolding finished_def by blast+

lemma walk_delta_le:
  assumes "finished es leaf src s" "walk es leaf src p v"
  shows "v \<in> known s \<and> delta s v \<le> walk_cost p"
  using assms(2)
proof induction
  case walk_nil
  then show ?case
    using finishedD(3,4) [OF assms(1)] by simp
next
  case (walk_snoc p u e)
  then have "e_to e \<in> known s \<and> delta s (e_to e) \<le> delta s u + unat (e_cost e)"
    using finishedD(6) [OF assms(1), of e] by simp
  then show ?case
    using walk_snoc by simp
qed

lemma tight_less:
  assumes "finished es leaf src s" "e \<in> tight (relaxed es leaf src s) s v"
  shows "delta s (e_from e) < delta s v" "e_from e \<in> known s" "e \<in> set es" "e_to e = v"
    "e_from e = src \<or> \<not> leaf (e_from e)" "delta s v = delta s (e_from e) + unat (e_cost e)"
  using assms(2) finishedD(1,7) [OF assms(1)] by (auto simp: tight_def relaxed_def)

text \<open>A walk to the source of a last edge of \<open>v\<close>, continued by the edge.\<close>

lemma walk_tight:
  assumes "finished es leaf src s" "e \<in> tight (relaxed es leaf src s) s v"
    and "walk es leaf src p (e_from e)" "walk_cost p = delta s (e_from e)"
  shows "walk es leaf src (p @ [e]) v \<and> walk_cost (p @ [e]) = delta s v"
  using walk_snoc [OF assms(3) tight_less(3) [OF assms(1,2)] refl tight_less(5) [OF assms(1,2)]]
    tight_less [OF assms(1,2)] assms(4) by simp

lemma delta_attained:
  assumes "finished es leaf src s" "v \<in> known s"
  shows "\<exists>p. walk es leaf src p v \<and> walk_cost p = delta s v"
  using assms(2)
proof (induction "delta s v" arbitrary: v rule: less_induct)
  case less
  show ?case
  proof (cases "v = src")
    case True
    then have "walk es leaf src [] v \<and> walk_cost [] = delta s v"
      using finishedD(4) [OF assms(1)] walk_nil by simp
    then show ?thesis ..
  next
    case False
    then obtain e where e: "e \<in> tight (relaxed es leaf src s) s v"
      using finishedD(8) [OF assms(1) less.prems] by blast
    then obtain p where "walk es leaf src p (e_from e)" "walk_cost p = delta s (e_from e)"
      using less.hyps tight_less [OF assms(1) e] by blast
    then show ?thesis
      using walk_tight [OF assms(1) e] by blast
  qed
qed

lemma shortest_iff:
  assumes "finished es leaf src s"
  shows "shortest es leaf src p v \<longleftrightarrow> walk es leaf src p v \<and> walk_cost p = delta s v"
  using walk_delta_le [OF assms] delta_attained [OF assms] unfolding shortest_def
  by (metis order_antisym)

lemma shortest_src:
  assumes "finished es leaf src s" "shortest es leaf src p src"
  shows "p = []"
proof (cases p rule: rev_cases)
  case (snoc q e)
  then have "walk es leaf src (q @ [e]) src" "walk_cost (q @ [e]) = 0"
    using assms(2) finishedD(4) [OF assms(1)] unfolding shortest_iff [OF assms(1)] by simp_all
  moreover from this(1) have "e \<in> set es"
    by (rule walk_snocE) simp
  ultimately show ?thesis
    using finishedD(1) [OF assms(1), of e] by simp
qed simp

lemma shortest_last:
  assumes fin: "finished es leaf src s" and p: "shortest es leaf src p v" and v: "v \<noteq> src"
  obtains q e where "p = q @ [e]" "e \<in> tight (relaxed es leaf src s) s v" "shortest es leaf src q (e_from e)"
proof (cases p rule: rev_cases)
  case Nil
  then have "walk es leaf src [] v"
    using p by (simp add: shortest_def)
  then show ?thesis
    using v by (blast elim: walk_nilE)
next
  case (snoc q e)
  have "walk es leaf src (q @ [e]) v" and cost: "walk_cost q + unat (e_cost e) = delta s v"
    using p snoc by (auto simp: shortest_iff [OF fin])
  then have q: "walk es leaf src q (e_from e)" and e: "e \<in> set es" "e_to e = v" "e_from e = src \<or> \<not> leaf (e_from e)"
    by (auto elim: walk_snocE)
  have "e_from e \<in> known s" "delta s (e_from e) \<le> walk_cost q"
    using walk_delta_le [OF fin q] by auto
  moreover from this e have "delta s v \<le> delta s (e_from e) + unat (e_cost e)"
    using finishedD(6) [OF fin] by blast
  ultimately have "e \<in> tight (relaxed es leaf src s) s v" "shortest es leaf src q (e_from e)"
    using cost q e finishedD(7) [OF fin] by (auto simp: tight_def relaxed_def shortest_iff [OF fin])
  then show ?thesis
    by (rule that [OF snoc])
qed

lemma card_one_of_word:
  assumes "finite A" "A \<noteq> {}" "card A < 2 ^ 32" "(word_of_nat (card A) :: u32) \<le> 1"
  shows "card A = 1"
proof -
  have "unat (word_of_nat (card A) :: u32) = card A"
    using assms(3) by (intro of_nat_inverse [OF refl]) simp
  then have "card A \<le> 1"
    using assms(4) by (simp add: word_le_nat_alt)
  moreover have "0 < card A"
    using assms(1,2) by (simp add: card_gt_0_iff)
  ultimately show ?thesis
    by simp
qed

text \<open>Counts of at most one everywhere leave one shortest walk to each node, and a count of one.\<close>

lemma counts_one_shortest:
  assumes fin: "finished es leaf src s" and one: "\<And>v. v \<in> known s \<Longrightarrow> v \<noteq> src \<Longrightarrow> count_at s v \<le> 1"
    and "v \<in> known s"
  shows "count_at s v = 1 \<and> one_shortest es leaf src v"
  using assms(3)
proof (induction "delta s v" arbitrary: v rule: less_induct)
  case less
  show ?case
  proof (cases "v = src")
    case True
    then show ?thesis
      using finishedD(5) [OF fin] shortest_src [OF fin] by (auto simp: one_shortest_def)
  next
    case False
    let ?T = "tight (relaxed es leaf src s) s v"
    have T: "?T \<noteq> {}" "count_at s v = (\<Sum>e\<in>?T. count_at s (e_from e))"
      using finishedD(8,9) [OF fin less.prems False] by blast+
    have IH: "count_at s (e_from e) = 1 \<and> one_shortest es leaf src (e_from e)" if "e \<in> ?T" for e
      using less.hyps tight_less [OF fin that] by blast
    have "?T \<subseteq> set es"
      using tight_less(3) [OF fin] by blast
    then have "finite ?T" "card ?T < 2 ^ 32"
      using finishedD(2) [OF fin] card_mono [of "set es" ?T] card_length [of es]
      by (auto intro: finite_subset)
    moreover have count: "count_at s v = word_of_nat (card ?T)"
      using T(2) IH by simp
    ultimately have "card ?T = 1"
      using one [OF less.prems False] T(1) by (intro card_one_of_word) simp_all
    then obtain e where e: "?T = {e}"
      by (auto simp: card_1_singleton_iff)
    have "p = q" if "shortest es leaf src p v" "shortest es leaf src q v" for p q
      using shortest_last [OF fin that(1) False] shortest_last [OF fin that(2) False] IH [of e] e
      unfolding one_shortest_def by (metis singletonD singletonI)
    then show ?thesis
      using count \<open>card ?T = 1\<close> by (simp add: one_shortest_def)
  qed
qed

text \<open>One shortest walk to each node leaves a count of one everywhere.\<close>

lemma one_shortest_counts:
  assumes fin: "finished es leaf src s" and one: "\<And>v. one_shortest es leaf src v" and "v \<in> known s"
  shows "count_at s v = 1"
  using assms(3)
proof (induction "delta s v" arbitrary: v rule: less_induct)
  case less
  show ?case
  proof (cases "v = src")
    case True
    then show ?thesis
      using finishedD(5) [OF fin] by simp
  next
    case False
    let ?T = "tight (relaxed es leaf src s) s v"
    have T: "?T \<noteq> {}" "count_at s v = (\<Sum>e\<in>?T. count_at s (e_from e))"
      using finishedD(8,9) [OF fin less.prems False] by blast+
    have ex: "\<exists>p. shortest es leaf src (p @ [e]) v" if "e \<in> ?T" for e
      using delta_attained [OF fin tight_less(2) [OF fin that]] walk_tight [OF fin that]
      unfolding shortest_iff [OF fin] by blast
    have "e = e'" if "e \<in> ?T" "e' \<in> ?T" for e e'
      using ex [OF that(1)] ex [OF that(2)] one [of v] by (auto simp: one_shortest_def)
    then obtain e where e: "?T = {e}"
      using T(1) by blast
    then have "count_at s (e_from e) = 1"
      using less.hyps tight_less [OF fin, of e v] by blast
    then show ?thesis
      using T(2) e by simp
  qed
qed

lemma counts_decide:
  assumes "finished es leaf src s"
  shows "(\<forall>v\<in>known s. v \<noteq> src \<longrightarrow> count_at s v \<le> 1) \<longleftrightarrow> (\<forall>v. one_shortest es leaf src v)"
proof
  assume one: "\<forall>v\<in>known s. v \<noteq> src \<longrightarrow> count_at s v \<le> 1"
  show "\<forall>v. one_shortest es leaf src v"
  proof
    fix v
    show "one_shortest es leaf src v"
    proof (cases "v \<in> known s")
      case False
      then show ?thesis
        using walk_delta_le [OF assms] by (auto simp: one_shortest_def shortest_def)
    qed (use counts_one_shortest [OF assms] one in blast)
  qed
qed (use one_shortest_counts [OF assms] in force)

end
