(* ===== verification/Fabric_Paths.thy ===== *)
theory Fabric_Paths
  imports Fabric_Derive Path_Count
begin

text \<open>
  The checks of a declaration that need the derived costs (\<open>src/src/derive.rs\<close>,
  \<open>validate_derived\<close>): the universal segment below the leaf offset, the rank-0 wire of a host
  shared with a neighbour, and no two shortest paths of equal cost between two members.
\<close>

section \<open>The derived graph of a zone\<close>

definition leaf_offset_of :: "Fabric \<Rightarrow> Member \<Rightarrow> u32" where
  "leaf_offset_of f m = (if mem_kind m = Leaf then fab_leaf_cost_offset f else 0)"

text \<open>The edges from one member to another: one per shared segment, then one per universal segment.\<close>

definition pair_edges ::
  "Fabric \<Rightarrow> string \<Rightarrow> Member \<Rightarrow> ClassRow list \<Rightarrow> FallbackRow list \<Rightarrow> Member \<Rightarrow> edge list result" where
  "pair_edges f zone m rows universal other =
     (if mem_name other = mem_name m then Ok []
      else and_then (class_rows_of f other) (\<lambda>others.
        let their = set (map cr_seg (filter (\<lambda>r. cr_zone r = zone) others)) in
        Ok (map (\<lambda>r. \<lparr>e_from = mem_name m, e_to = mem_name other,
                     e_cost = cr_ospf_cost r + leaf_offset_of f m, e_ifname = cr_ifname r\<rparr>)
              (filter (\<lambda>r. cr_seg r \<in> their) rows) @
            map (\<lambda>r. \<lparr>e_from = mem_name m, e_to = mem_name other,
                     e_cost = fr_ospf_cost r + leaf_offset_of f m, e_ifname = fr_ifname r\<rparr>) universal)))"

definition member_edges :: "Fabric \<Rightarrow> string \<Rightarrow> Member \<Rightarrow> edge list result" where
  "member_edges f zone m =
     and_then (class_rows_of f m) (\<lambda>cs.
     and_then (fallback_rows_of f m) (\<lambda>fs.
     and_then (map_out (pair_edges f zone m (filter (\<lambda>r. cr_zone r = zone) cs) (filter (\<lambda>r. fr_zone r = zone) fs))
         (fab_members f)) (\<lambda>es. Ok (concat es))))"

text \<open>The map of the source keeps one vector per member name, in the order of the pushes: the
  entries of a name are the edges that leave it.\<close>

definition zone_edges :: "Fabric \<Rightarrow> string \<Rightarrow> edge list result" where
  "zone_edges f zone = and_then (map_out (member_edges f zone) (fab_members f)) (\<lambda>es. Ok (concat es))"

definition is_leaf :: "Fabric \<Rightarrow> string \<Rightarrow> bool" where
  "is_leaf f n = (case member_of f n of Ok m \<Rightarrow> mem_kind m = Leaf | _ \<Rightarrow> False)"

section \<open>The checks\<close>

definition check_source :: "Fabric \<Rightarrow> string \<Rightarrow> edge list \<Rightarrow> Member \<Rightarrow> unit result" where
  "check_source f zone es src =
     (let s = search es (is_leaf f) (mem_name src) (start_search (mem_name src)) in
      case find (\<lambda>(dst, n). dst \<noteq> mem_name src \<and> n > 1) (counts s) of
        None \<Rightarrow> Ok ()
      | Some (dst, n) \<Rightarrow>
          Err (DerivedE (EqualCost zone (mem_name src) dst n
            (case om_get (dist s) dst of None \<Rightarrow> 0 | Some d \<Rightarrow> d) (via_at s dst))))"

definition check_no_equal_cost_paths :: "Fabric \<Rightarrow> string \<Rightarrow> unit result" where
  "check_no_equal_cost_paths f zone =
     and_then (zone_edges f zone) (\<lambda>es. for_each (check_source f zone es) (fab_members f))"

definition shared_domain :: "Fabric \<Rightarrow> Member \<Rightarrow> DomainId \<Rightarrow> bool" where
  "shared_domain f m d \<longleftrightarrow>
     (\<exists>other\<in>set (fab_members f). mem_name other \<noteq> mem_name m \<and> wire_on other d \<noteq> None)"

text \<open>\<open>find\<close> over the wires below rank 0, each looked up by name.\<close>

fun find_shared :: "Fabric \<Rightarrow> Member \<Rightarrow> string list \<Rightarrow> string option result" where
  "find_shared f m [] = Ok None"
| "find_shared f m (n # ns) =
     and_then (expect (wire_named m n)) (\<lambda>w.
       if shared_domain f m (wire_domain w) then Ok (Some n) else find_shared f m ns)"

definition check_rank0_member :: "Fabric \<Rightarrow> string \<Rightarrow> Member \<Rightarrow> unit result" where
  "check_rank0_member f zone m =
     (if mem_kind m \<noteq> Host then Ok ()
      else case find (\<lambda>p. hp_zone p = zone) (prefs_of f m) of
        None \<Rightarrow> Ok ()
      | Some p \<Rightarrow>
          (case hp_order p of
             [] \<Rightarrow> Ok ()
           | first # rest \<Rightarrow>
               and_then (expect (wire_named m first)) (\<lambda>w.
                 if shared_domain f m (wire_domain w) then Ok ()
                 else and_then (find_shared f m rest) (\<lambda>r.
                   case r of
                     None \<Rightarrow> Ok ()
                   | Some reaches \<Rightarrow>
                       Err (DerivedE (Rank0Unshared zone (mem_name m) first (wire_domain w) reaches))))))"

definition check_rank0_is_shared :: "Fabric \<Rightarrow> string \<Rightarrow> unit result" where
  "check_rank0_is_shared f zone = for_each (check_rank0_member f zone) (fab_members f)"

definition check_universal :: "Fabric \<Rightarrow> Zone \<Rightarrow> unit result" where
  "check_universal f z =
     (if \<exists>s\<in>set (fab_segments f). seg_zone s = zone_name z \<and> is_universal (seg_scope s)
      then and_then (universal_cost f (zone_name z)) (\<lambda>cost.
        refuse (cost \<ge> fab_leaf_cost_offset f) (DerivedE (UniversalCost (zone_name z) cost (fab_leaf_cost_offset f))))
      else Ok ())"

definition validate_derived :: "Fabric \<Rightarrow> unit result" where
  "validate_derived f =
     and_then (for_each (check_universal f) (fab_zones f)) (\<lambda>_.
       for_each (\<lambda>z. and_then (check_rank0_is_shared f (zone_name z)) (\<lambda>_.
         check_no_equal_cost_paths f (zone_name z))) (fab_zones f))"

end
