(* ===== verification/Fabric_Validate.thy ===== *)
theory Fabric_Validate
  imports Fabric_Paths
begin

text \<open>
  From the declaration to an accepted fabric (\<open>src/src/model.rs\<close>): \<open>from_decl\<close> resolves every row
  of the declaration, \<open>validate\<close> checks what holds between rows. Both stop at the first error, in
  the order of the source.
\<close>

section \<open>Validation\<close>

text \<open>The first element that occurred before.\<close>

fun first_dup :: "'a list \<Rightarrow> 'a list \<Rightarrow> 'a option" where
  "first_dup seen [] = None"
| "first_dup seen (x # xs) = (if x \<in> set seen then Some x else first_dup (x # seen) xs)"

definition dup :: "'a list \<Rightarrow> 'a option" where
  "dup xs = first_dup [] xs"

definition refuse_dup :: "string \<Rightarrow> string list \<Rightarrow> unit result" where
  "refuse_dup what xs = (case dup xs of None \<Rightarrow> Ok () | Some x \<Rightarrow> Err (NameE (Duplicate what x)))"

definition declared :: "Fabric \<Rightarrow> string \<Rightarrow> DomainId \<Rightarrow> unit result" where
  "declared f what d = refuse (d \<notin> set (fab_domains f)) (NameE (UndeclaredDomain what d))"

definition check_member_wires :: "Fabric \<Rightarrow> Member \<Rightarrow> unit result" where
  "check_member_wires f m =
     and_then (refuse (mem_wires m = []) (NameE (NoWires (mem_name m)))) (\<lambda>_.
     and_then (for_each (\<lambda>w. declared f (mem_name m @ '' wire '' @ wire_name w) (wire_domain w)) (mem_wires m)) (\<lambda>_.
       case dup (map wire_domain (mem_wires m)) of
         None \<Rightarrow> Ok ()
       | Some d \<Rightarrow>
           Err (NameE (TwoWires (mem_name m) d
             (map wire_name (filter (\<lambda>x. wire_domain x = d) (mem_wires m)))))))"

definition check_domains :: "Fabric \<Rightarrow> unit result" where
  "check_domains f =
     and_then (refuse (fab_domains f = []) (NameE NoDomains)) (\<lambda>_.
     and_then (for_each (check_member_wires f) (fab_members f)) (\<lambda>_.
     and_then (for_each (\<lambda>s. case scope_domain (seg_scope s) of
         None \<Rightarrow> Ok () | Some d \<Rightarrow> declared f (''segment '' @ seg_ifname s) d) (fab_segments f)) (\<lambda>_.
     and_then (for_each (\<lambda>z. and_then (declared f (''zone '' @ zone_name z @ '' primary'') (zone_primary z)) (\<lambda>_.
         case zone_gw z of
           None \<Rightarrow> Ok ()
         | Some gw \<Rightarrow> (case scope_domain (gw_scope gw) of
             None \<Rightarrow> Ok () | Some d \<Rightarrow> declared f (''zone '' @ zone_name z @ '' gw'') d))) (fab_zones f)) (\<lambda>_.
       for_each (\<lambda>d. refuse (\<not> (\<exists>m\<in>set (fab_members f). wire_on m d \<noteq> None)) (NameE (UnusedDomain d)))
         (fab_domains f)))))"

definition check_segments :: "Fabric \<Rightarrow> unit result" where
  "check_segments f =
     (let st = fab_segments f in
      and_then (refuse_dup ''vid'' (map (\<lambda>r. dec (unat (seg_vid r))) st)) (\<lambda>_.
      and_then (refuse_dup ''segment'' (map (\<lambda>r. seg_zone r @ '':'' @ dec (unat (seg_seg r))) st)) (\<lambda>_.
      and_then (refuse_dup ''zone:domain'' (map (\<lambda>r. seg_zone r @ '':'' @ scope_str (seg_scope r)) st)) (\<lambda>_.
      and_then (refuse_dup ''segment ifname'' (map seg_ifname st)) (\<lambda>_.
      and_then (for_each (\<lambda>r. and_then (zone_of f (seg_zone r)) (\<lambda>_. Ok ())) st) (\<lambda>_.
        for_each (\<lambda>r. refuse (bond_ifname_too_long (seg_ifname r)) (NameE (LongIfname (seg_ifname r))))
          (filter (\<lambda>r. is_universal (seg_scope r)) st)))))))"

definition check_zones :: "Fabric \<Rightarrow> unit result" where
  "check_zones f =
     and_then (refuse_dup ''zone id'' (map (\<lambda>z. dec (unat (zone_id z))) (fab_zones f))) (\<lambda>_.
       for_each (\<lambda>z.
         and_then (refuse (zone_id z < 1) (NameE (ZoneIdZero (zone_id z)))) (\<lambda>_.
           refuse (\<not> (\<exists>r\<in>set (fab_segments f). seg_zone r = zone_name z \<and> seg_scope r = InDomain (zone_primary z)))
             (NameE (PrimaryNoSegment (zone_name z) (zone_primary z))))) (fab_zones f))"

definition check_members :: "Fabric \<Rightarrow> unit result" where
  "check_members f =
     and_then (refuse_dup ''member'' (map mem_name (fab_members f))) (\<lambda>_.
       refuse_dup ''node id'' (map (\<lambda>m. dec (unat (mem_node m))) (fab_members f)))"

definition check_wire_pref :: "Fabric \<Rightarrow> WirePref \<Rightarrow> unit result" where
  "check_wire_pref f p =
     and_then (case member_of f (pref_member p) of Ok m \<Rightarrow> Ok m | _ \<Rightarrow> Panic) (\<lambda>m.
     and_then (map_err (Context (''member '' @ pref_member p @ '' prefs '' @ pref_zone p @ '': ''))
         (zone_of f (pref_zone p))) (\<lambda>_.
     and_then (for_each (\<lambda>w. refuse (wire_named m w = None) (PrefE (PrefNotAWire (pref_member p) (pref_zone p) w)))
         (pref_order p)) (\<lambda>_.
       let want = map wire_name (candidate_wires f m (pref_zone p)) in
       and_then (refuse (\<not> distinct (pref_order p)) (PrefE (PrefTwice (pref_member p) (pref_zone p)))) (\<lambda>_.
         refuse (set (pref_order p) \<noteq> set want)
           (PrefE (PrefIncomplete (pref_member p) (pref_zone p) (remdups_adj (sort want)) (pref_order p)))))))"

definition check_wire_prefs :: "Fabric \<Rightarrow> unit result" where
  "check_wire_prefs f = for_each (check_wire_pref f) (fab_wire_prefs f)"

definition check_forward :: "Fabric \<Rightarrow> unit result" where
  "check_forward f =
     for_each (\<lambda>(a, b). for_each (\<lambda>z. refuse (z \<notin> set (map zone_name (fab_zones f))) (NameE (ForwardZone a b z))) [a, b])
       (fab_forward_allow f)"

subsection \<open>Workload rows\<close>

definition bond_ifnames :: "Fabric \<Rightarrow> string list" where
  "bond_ifnames f =
     map seg_ifname (filter (\<lambda>s. is_universal (seg_scope s)) (fab_segments f)) @
     List.map_filter (\<lambda>z. case zone_gw z of
         None \<Rightarrow> None
       | Some gw \<Rightarrow> if is_universal (gw_scope gw) then Some (gw_ifname (zone_id z)) else None) (fab_zones f)"

definition leg_collides :: "Fabric \<Rightarrow> string \<Rightarrow> bool" where
  "leg_collides f leg \<longleftrightarrow>
     (\<exists>m\<in>set (fab_members f). \<exists>w\<in>set (mem_wires m). wire_name w = leg) \<or>
     (\<exists>s\<in>set (fab_segments f). seg_ifname s = leg) \<or>
     (\<exists>b\<in>set (bond_ifnames f). \<exists>d\<in>set (fab_domains f). leg = b @ ''-'' @ d) \<or>
     (\<exists>z\<in>set (fab_zones f). leg = gw_ifname (zone_id z) \<or> leg = fst (identity_ifnames (zone_id z)) \<or>
        leg = snd (identity_ifnames (zone_id z)))"

definition check_server :: "Fabric \<Rightarrow> Workload \<Rightarrow> unit result" where
  "check_server f wl =
     (case wl_dhcp_server wl of
        None \<Rightarrow> Ok ()
      | Some server \<Rightarrow>
          and_then (refuse (server = wl_gw wl) (ServerE (wl_name wl) server ServerIsGw)) (\<lambda>_.
          and_then (case find (\<lambda>m. \<exists>w\<in>set (mem_workloads m). mw_name w = wl_name wl \<and> mw_address w = server) (fab_members f) of
              None \<Rightarrow> Ok ()
            | Some m \<Rightarrow> Err (ServerE (wl_name wl) server (ServerIsMember (mem_name m)))) (\<lambda>_.
          and_then (refuse (contains (wl_prefix wl) server) (ServerE (wl_name wl) server (ServerInside (wl_prefix wl)))) (\<lambda>_.
            refuse (server = 0 \<or> server = - 1) (ServerE (wl_name wl) server ServerUnusable)))))"

definition check_blocks :: "Fabric \<Rightarrow> Workload \<Rightarrow> unit result" where
  "check_blocks f wl =
     for_each (\<lambda>z.
       and_then (case prefix_parse (block z @ ''.0.0/16'') of Ok b \<Rightarrow> Ok b | _ \<Rightarrow> Panic) (\<lambda>b.
         refuse (overlaps (wl_prefix wl) b) (WorkloadE (wl_name wl) (PrefixInZone (wl_prefix wl) (zone_name z) b))))
       (fab_zones f)"

text \<open>\<open>seen\<close> holds the rows already checked: the three maps of the source are look-ups in it.\<close>

definition check_workload :: "Fabric \<Rightarrow> Workload list \<Rightarrow> Workload \<Rightarrow> unit result" where
  "check_workload f seen wl =
     (let leg = leg_ifname wl; e = WorkloadE (wl_name wl) in
      and_then (refuse (\<exists>z\<in>set (fab_zones f). zone_name z = wl_name wl) (e WorkloadIsZone)) (\<lambda>_.
      and_then (refuse (wl_name wl \<in> set (map wl_name seen)) (e WorkloadTwice)) (\<lambda>_.
      and_then (case find (\<lambda>w. leg_ifname w = leg) seen of
          None \<Rightarrow> Ok () | Some other \<Rightarrow> Err (e (LegTaken leg (wl_name other)))) (\<lambda>_.
      and_then (case find (\<lambda>w. wl_uplink w = wl_uplink wl \<and> wl_vid w = wl_vid wl) seen of
          None \<Rightarrow> Ok () | Some other \<Rightarrow> Err (e (VlanTaken (wl_uplink wl) (wl_vid wl) (wl_name other)))) (\<lambda>_.
      and_then (refuse (leg_collides f leg) (e (LegCollides leg))) (\<lambda>_.
      and_then (refuse (len (wl_prefix wl) < MIN_WORKLOAD_PREFIX_LEN) (e (PrefixTooWide (wl_prefix wl)))) (\<lambda>_.
      and_then (refuse (\<not> contains (wl_prefix wl) (wl_gw wl)) (e (GwOutside (wl_gw wl) (wl_prefix wl)))) (\<lambda>_.
      and_then (refuse (wl_gw wl = net (wl_prefix wl) \<or> wl_gw wl = broadcast (wl_prefix wl))
          (e (GwReserved (wl_gw wl) (wl_prefix wl)))) (\<lambda>_.
      and_then (check_server f wl) (\<lambda>_.
      and_then (check_blocks f wl) (\<lambda>_.
      and_then (refuse (wl_allow wl = []) (e AllowEmpty)) (\<lambda>_.
      and_then (refuse (\<not> fab_host_forward f) (e ForwardingOff)) (\<lambda>_.
      and_then (for_each (\<lambda>z. refuse (\<not> (\<exists>zz\<in>set (fab_zones f). zone_name zz = z))
          (e (AllowZone z (map zone_name (fab_zones f))))) (wl_allow wl)) (\<lambda>_.
        refuse (\<not> (\<exists>m\<in>set (fab_members f). \<exists>w\<in>set (mem_workloads m). mw_name w = wl_name wl))
          (e (NobodyCarries (len (wl_prefix wl))))))))))))))))))"

fun check_workloads :: "Fabric \<Rightarrow> Workload list \<Rightarrow> Workload list \<Rightarrow> unit result" where
  "check_workloads f seen [] = Ok ()"
| "check_workloads f seen (wl # wls) =
     and_then (check_workload f seen wl) (\<lambda>_. check_workloads f (seen @ [wl]) wls)"

definition check_member_workload :: "Fabric \<Rightarrow> Member \<Rightarrow> MemberWorkload \<Rightarrow> unit result" where
  "check_member_workload f m mw =
     (let e = MemberWorkloadE (mem_name m) (mw_name mw) in
      and_then (ok_or (e (NotAWorkload (map wl_name (fab_workloads f)))) (workload_of f (mw_name mw))) (\<lambda>wl.
      and_then (refuse (mem_kind m = Leaf) (e LeafWorkload)) (\<lambda>_.
      and_then (refuse (\<not> contains (wl_prefix wl) (mw_address mw)) (e (AddressOutside (address_cidr mw) (wl_prefix wl)))) (\<lambda>_.
      and_then (refuse (mw_len mw \<noteq> len (wl_prefix wl)) (e (AddressMask (address_cidr mw) (len (wl_prefix wl))))) (\<lambda>_.
      and_then (refuse (mw_address mw = wl_gw wl) (e (AddressIsGw (address_cidr mw) (wl_gw wl)))) (\<lambda>_.
        refuse (mw_address mw = net (wl_prefix wl) \<or> mw_address mw = broadcast (wl_prefix wl))
          (e (AddressReserved (address_cidr mw) (wl_prefix wl)))))))))"

fun check_member_workloads :: "Fabric \<Rightarrow> Member \<Rightarrow> string list \<Rightarrow> MemberWorkload list \<Rightarrow> unit result" where
  "check_member_workloads f m seen [] = Ok ()"
| "check_member_workloads f m seen (mw # mws) =
     and_then (refuse (mw_name mw \<in> set seen) (MemberWorkloadE (mem_name m) (mw_name mw) MemberWorkloadTwice)) (\<lambda>_.
     and_then (check_member_workload f m mw) (\<lambda>_.
       check_member_workloads f m (mw_name mw # seen) mws))"

fun check_addresses :: "Workload \<Rightarrow> (ipv4 \<times> string) list \<Rightarrow> Member list \<Rightarrow> unit result" where
  "check_addresses wl seen [] = Ok ()"
| "check_addresses wl seen (m # ms) =
     (case find (\<lambda>w. mw_name w = wl_name wl) (mem_workloads m) of
        None \<Rightarrow> check_addresses wl seen ms
      | Some mw \<Rightarrow>
          (case map_of seen (mw_address mw) of
             Some prev \<Rightarrow> Err (WorkloadE (wl_name wl) (AddressTwice (mw_address mw) prev (mem_name m)))
           | None \<Rightarrow> check_addresses wl ((mw_address mw, mem_name m) # seen) ms))"

subsection \<open>Ingress\<close>

definition check_ingress :: "Fabric \<Rightarrow> Zone \<Rightarrow> unit result" where
  "check_ingress f z =
     (case zone_gw z of
        None \<Rightarrow> Ok ()
      | Some gw \<Rightarrow>
          and_then (refuse (is_universal (gw_scope gw) \<and> bond_ifname_too_long (gw_ifname (zone_id z)))
            (IngressE (zone_name z) (LongGw (zone_id z)))) (\<lambda>_.
          and_then (refuse (\<exists>r\<in>set (fab_segments f). seg_vid r = gw_vid gw)
            (IngressE (zone_name z) (GwVidTaken (gw_vid gw)))) (\<lambda>_.
          and_then (router_octet gw) (\<lambda>octet.
            for_each (\<lambda>m. refuse (mem_node m = octet)
              (IngressE (zone_name z) (RouterCollides (gw_router gw) (mem_node m) (mem_name m)))) (fab_members f)))))"

definition validate :: "Fabric \<Rightarrow> unit result" where
  "validate f =
     and_then (check_domains f) (\<lambda>_.
     and_then (check_segments f) (\<lambda>_.
     and_then (check_zones f) (\<lambda>_.
     and_then (check_members f) (\<lambda>_.
     and_then (check_wire_prefs f) (\<lambda>_.
     and_then (check_forward f) (\<lambda>_.
     and_then (check_workloads f [] (fab_workloads f)) (\<lambda>_.
     and_then (for_each (\<lambda>m. check_member_workloads f m [] (mem_workloads m)) (fab_members f)) (\<lambda>_.
     and_then (for_each (\<lambda>wl. check_addresses wl [] (fab_members f)) (fab_workloads f)) (\<lambda>_.
     and_then (for_each (check_ingress f) (fab_zones f)) (\<lambda>_.
       validate_derived f))))))))))"

section \<open>Resolving a declaration\<close>

definition MIN_BFD_PORT :: u16 where "MIN_BFD_PORT = 1024"

definition resolve_gw :: "string \<Rightarrow> GwDecl \<Rightarrow> ZoneGw result" where
  "resolve_gw zone g =
     (let bad = DeclE (BadGwRouter zone (gd_router g)) in
      and_then (ok_or bad (split_once (CHR ''/'') (gd_router g))) (\<lambda>(router, l).
      and_then (refuse (l \<noteq> ''24'') bad) (\<lambda>_.
      and_then (refuse (length (split_on (CHR ''.'') router) \<noteq> 4 \<or>
          (\<exists>oct\<in>set (split_on (CHR ''.'') router). parse_uint 255 oct = None)) bad) (\<lambda>_.
      and_then (map_err (Context (''zone '' @ zone @ '': gw '')) (scope_parse (gd_domain g))) (\<lambda>sc.
        Ok \<lparr>gw_scope = sc, gw_vid = gd_vid g, gw_router = router\<rparr>)))))"

definition parse_ipv4_with_len :: "string \<Rightarrow> (ipv4 \<times> u8) option" where
  "parse_ipv4_with_len s =
     Option.bind (split_once (CHR ''/'') s) (\<lambda>(a, l).
     Option.bind (parse_ipv4 a) (\<lambda>addr.
     Option.bind (parse_uint 255 l) (\<lambda>n.
       if n > 32 then None else Some (addr, word_of_nat n))))"

definition refuse_retired_workload_keys :: "WorkloadDecl \<Rightarrow> unit result" where
  "refuse_retired_workload_keys w =
     and_then (refuse (wld_span w \<noteq> None) (DeclE (RetiredKey (wld_name w) ''span''))) (\<lambda>_.
       refuse (wld_router w \<noteq> None) (DeclE (RetiredKey (wld_name w) ''router'')))"

definition resolve_workload :: "WorkloadDecl \<Rightarrow> Workload result" where
  "resolve_workload w =
     and_then (map_err (Context (''workload '' @ wld_name w @ '': '')) (prefix_parse (wld_prefix w))) (\<lambda>prefix.
     and_then (ok_or (DeclE (BadGw (wld_name w) (wld_gw w))) (parse_ipv4 (wld_gw w))) (\<lambda>gw.
     and_then (case wld_dhcp_server w of
         None \<Rightarrow> Ok None
       | Some s \<Rightarrow> and_then (ok_or (DeclE (BadDhcpServer (wld_name w) s)) (parse_ipv4 s)) (\<lambda>a. Ok (Some a))) (\<lambda>server.
     and_then (refuse (\<not> (2 \<le> wld_vid w \<and> wld_vid w \<le> 4094)) (DeclE (BadVid (wld_name w) (wld_vid w)))) (\<lambda>_.
       Ok \<lparr>wl_name = wld_name w, wl_uplink = wld_uplink w, wl_vid = wld_vid w, wl_prefix = prefix,
         wl_gw = gw, wl_dhcp_server = server, wl_allow = wld_allow w\<rparr>))))"

definition resolve_wire :: "MemberDecl \<Rightarrow> WireDecl \<Rightarrow> Wire result" where
  "resolve_wire m w =
     (let ctx = ''member '' @ md_name m @ '': wire '' @ wd_nic w @ '': '' in
      and_then (map_err (Context ctx) (domain_parse (wd_domain w))) (\<lambda>d.
      and_then (refuse (wd_driver_features w \<noteq> None) (DeclE (RetiredKey ctx ''driver_features''))) (\<lambda>_.
      and_then (refuse (wd_usb w \<noteq> None) (DeclE (RetiredKey ctx ''usb''))) (\<lambda>_.
        Ok \<lparr>wire_name = wd_nic w, wire_domain = d, wire_speed_mbps = wd_speed_mbps w\<rparr>))))"

definition resolve_prefs :: "MemberDecl \<Rightarrow> WirePref list" where
  "resolve_prefs m =
     map (\<lambda>(zone, order). \<lparr>pref_member = md_name m, pref_zone = zone, pref_order = order\<rparr>) (md_prefs m)"

definition resolve_member_workload :: "MemberDecl \<Rightarrow> MemberWorkloadDecl \<Rightarrow> MemberWorkload result" where
  "resolve_member_workload m mw =
     and_then (ok_or (DeclE (BadMemberAddress (md_name m) (mwd_name mw) (mwd_address mw)))
         (parse_ipv4_with_len (mwd_address mw))) (\<lambda>(address, l).
       Ok \<lparr>mw_name = mwd_name mw, mw_address = address, mw_len = l\<rparr>)"

definition resolve_member :: "MemberDecl \<Rightarrow> Member result" where
  "resolve_member m =
     and_then (map_out (resolve_wire m) (md_wires m)) (\<lambda>wires.
     and_then (map_out (resolve_member_workload m) (md_workloads m)) (\<lambda>wls.
       Ok \<lparr>mem_name = md_name m, mem_node = md_node m, mem_kind = md_kind m, mem_wires = wires,
         mem_workloads = wls\<rparr>))"

definition resolve_segment :: "ZoneDecl \<Rightarrow> SegmentDecl \<Rightarrow> Segment result" where
  "resolve_segment z s =
     and_then (map_err (Context (''zone '' @ zd_name z @ '': segment '' @ sd_ifname s @ '': ''))
         (domain_parse (sd_domain s))) (\<lambda>d.
       Ok \<lparr>seg_ifname = sd_ifname s, seg_scope = InDomain d, seg_zone = zd_name z, seg_seg = sd_seg s,
         seg_vid = sd_vid s\<rparr>)"

definition resolve_zone :: "ZoneDecl \<Rightarrow> (Segment list \<times> Zone) result" where
  "resolve_zone z =
     and_then (map_out (resolve_segment z) (zd_segments z)) (\<lambda>segs.
     let univ = (case zd_universal z of
            None \<Rightarrow> []
          | Some u \<Rightarrow> [\<lparr>seg_ifname = ud_ifname u, seg_scope = Universal, seg_zone = zd_name z,
                        seg_seg = ud_seg u, seg_vid = ud_vid u\<rparr>]) in
     and_then (case zd_gw z of
         None \<Rightarrow> Ok None
       | Some g \<Rightarrow> and_then (resolve_gw (zd_name z) g) (\<lambda>gw. Ok (Some gw))) (\<lambda>gw.
     and_then (map_err (Context (''zone '' @ zd_name z @ '': primary '')) (domain_parse (zd_primary z))) (\<lambda>primary.
       Ok (segs @ univ,
         \<lparr>zone_name = zd_name z, zone_id = zd_id z, zone_pcp = zd_pcp z, zone_dscp = zd_dscp z,
          zone_floor_mbps = zd_floor_mbps z, zone_band = zd_band z, zone_weight = zd_weight z,
          zone_primary = primary, zone_gw = gw\<rparr>))))"

definition resolve_fabric :: "Declaration \<Rightarrow> Fabric result" where
  "resolve_fabric d =
     and_then (map_out (\<lambda>(t, _). domain_parse t) (d_domains d)) (\<lambda>domains.
     and_then (map_out resolve_member (d_members d)) (\<lambda>members.
     and_then (map_out resolve_zone (d_zones d)) (\<lambda>zs.
     and_then (map_out (\<lambda>w. and_then (refuse_retired_workload_keys w) (\<lambda>_. resolve_workload w)) (d_workload d)) (\<lambda>wls.
     and_then (map_out (\<lambda>pair. ok_or (DeclE (BadForward pair)) (split_once (CHR ''>'') pair)) (fd_allow (d_forward d))) (\<lambda>fwd.
     let admin = or_default default_admin (d_admin d); marking = or_default default_marking (d_marking d);
         cost = or_default default_cost (d_cost d); bfd = or_default default_bfd (d_bfd d);
         ospf = or_default default_ospf (d_ospf d); bgp = or_default default_bgp (d_bgp d);
         runtime = or_default default_runtime (d_runtime d) in
     and_then (refuse (mk_pcp_ctrl marking > 6) (DeclE (BadPcpCtrl (mk_pcp_ctrl marking)))) (\<lambda>_.
     and_then (refuse (bd_port bfd < MIN_BFD_PORT) (DeclE (BadBfdPort (bd_port bfd)))) (\<lambda>_.
       Ok \<lparr>fab_domains = domains, fab_members = members, fab_zones = map snd zs,
         fab_segments = concat (map fst zs), fab_wire_prefs = concat (map resolve_prefs (d_members d)),
         fab_leaf_cost_offset = cd_leaf_offset cost, fab_host_forward = fd_enabled (d_forward d),
         fab_forward_allow = fwd, fab_admin_floor_mbps = ad_floor_mbps admin,
         fab_admin_band = ad_band admin, fab_pcp_ctrl = mk_pcp_ctrl marking,
         fab_dscp_mark = mk_set_dscp marking, fab_bfd_rx_ms = bd_rx_ms bfd, fab_bfd_tx_ms = bd_tx_ms bfd,
         fab_bfd_mult = bd_mult bfd, fab_bfd_port = bd_port bfd, fab_ospf_hello = od_hello_s ospf,
         fab_ospf_dead = od_dead_s ospf, fab_bgp_as = bg_asn bgp, fab_bgp_keepalive_s = bg_keepalive_s bgp,
         fab_bgp_hold_s = bg_hold_s bgp, fab_bgp_connect_s = bg_connect_s bgp,
         fab_run_dir = rt_run_dir runtime, fab_dns_domain = d_dns_domain d, fab_workloads = wls\<rparr>)))))))"

definition from_decl :: "Declaration \<Rightarrow> Fabric result" where
  "from_decl d = and_then (resolve_fabric d) (\<lambda>f. and_then (validate f) (\<lambda>_. Ok f))"

end
