(* ===== verification/Fabric_Ranks.thy ===== *)
theory Fabric_Ranks
  imports Fabric_Derive "HOL-Library.Multiset"
begin

text \<open>
  Wire orders and interface costs: what \<open>prefs_of\<close> and \<open>class_rows_of\<close> produce on a member that
  validation lets through. Each order is a permutation of the wires that can carry the zone,
  so every segment of the member has a rank, no look-up of \<open>class_rows_of\<close> panics, and the
  costs lie on the ladder 10, 100, 200, and so on.
\<close>

section \<open>The derived order\<close>

lemma map_snd_filter_enumerate:
  "map snd (filter (\<lambda>(i, w). P w) (List.enumerate n xs)) = filter P xs"
  by (induction xs arbitrary: n) auto

lemma find_filter_single:
  assumes "distinct (map g xs)"
  shows "(case find (\<lambda>x. g x = k) xs of Some x \<Rightarrow> [x] | None \<Rightarrow> []) = filter (\<lambda>x. g x = k) xs"
  using assms
proof (induction xs)
  case (Cons x xs)
  have "filter (\<lambda>y. g y = g x) xs = []"
    using Cons.prems by (metis (mono_tags, lifting) distinct.simps(2) filter_False image_eqI list.set_map list.simps(9))
  then show ?case
    using Cons by auto
qed simp

definition candidate_rest :: "Fabric \<Rightarrow> Member \<Rightarrow> Zone \<Rightarrow> (nat \<times> Wire) list" where
  "candidate_rest f m z =
     sort_key (\<lambda>(i, w). (- int (unat (wire_speed_mbps w)), i))
       (filter (\<lambda>(i, w). wire_domain w \<noteq> zone_primary z) (List.enumerate 0 (candidate_wires f m (zone_name z))))"

lemma distinct_candidates:
  "distinct (map wire_domain (mem_wires m)) \<Longrightarrow> distinct (map wire_domain (candidate_wires f m zone))"
  by (simp add: candidate_wires_def distinct_map_filter)

lemma derived_order_split:
  assumes "distinct (map wire_domain (mem_wires m))"
  shows "derived_order f m z =
    map wire_name (filter (\<lambda>w. wire_domain w = zone_primary z) (candidate_wires f m (zone_name z)) @
      map snd (candidate_rest f m z))"
proof -
  let ?cands = "candidate_wires f m (zone_name z)"
  have "(case find (\<lambda>w. wire_domain w = zone_primary z) ?cands of Some w \<Rightarrow> [wire_name w] | None \<Rightarrow> []) =
      map wire_name (case find (\<lambda>w. wire_domain w = zone_primary z) ?cands of Some w \<Rightarrow> [w] | None \<Rightarrow> [])"
    by (simp split: option.split)
  then show ?thesis
    using find_filter_single [OF distinct_candidates [OF assms, of f "zone_name z"], of "zone_primary z"]
    by (simp add: derived_order_def candidate_rest_def Let_def case_prod_unfold)
qed

lemma mset_candidate_rest:
  "mset (map snd (candidate_rest f m z)) =
     mset (filter (\<lambda>w. wire_domain w \<noteq> zone_primary z) (candidate_wires f m (zone_name z)))"
proof -
  let ?P = "\<lambda>w. wire_domain w \<noteq> zone_primary z" and ?cands = "candidate_wires f m (zone_name z)"
  have "mset (candidate_rest f m z) = mset (filter (\<lambda>(i, w). ?P w) (List.enumerate 0 ?cands))"
    unfolding candidate_rest_def by (rule mset_sort)
  then have "mset (map snd (candidate_rest f m z)) = mset (map snd (filter (\<lambda>(i, w). ?P w) (List.enumerate 0 ?cands)))"
    by (simp only: mset_map)
  then show ?thesis
    by (simp only: map_snd_filter_enumerate)
qed

lemma mset_derived_order:
  assumes "distinct (map wire_domain (mem_wires m))"
  shows "mset (derived_order f m z) = mset (map wire_name (candidate_wires f m (zone_name z)))"
proof -
  have "mset (filter (\<lambda>w. wire_domain w = zone_primary z) (candidate_wires f m (zone_name z)) @
      map snd (candidate_rest f m z)) = mset (candidate_wires f m (zone_name z))"
    unfolding mset_append mset_candidate_rest by (simp flip: multiset_partition)
  then show ?thesis
    unfolding derived_order_split [OF assms] mset_map by simp
qed

section \<open>Members validation lets through\<close>

definition ranked :: "Fabric \<Rightarrow> Member \<Rightarrow> bool" where
  "ranked f m \<longleftrightarrow>
     distinct (map wire_domain (mem_wires m)) \<and>
     (\<forall>p\<in>set (fab_wire_prefs f). pref_member p = mem_name m \<longrightarrow>
        distinct (pref_order p) \<and>
        set (pref_order p) = wire_name ` set (candidate_wires f m (pref_zone p))) \<and>
     (\<forall>s\<in>set (fab_segments f). \<exists>z\<in>set (fab_zones f). zone_name z = seg_zone s)"

lemma set_order:
  assumes "ranked f m"
  shows "set (hp_order (zone_pref f m z)) = wire_name ` set (candidate_wires f m (zone_name z))"
proof (cases "wire_pref f (mem_name m) (zone_name z)")
  case None
  then show ?thesis
    using assms mset_eq_setD [OF mset_derived_order] by (simp add: zone_pref_def ranked_def)
next
  case (Some p)
  then have "p \<in> set (fab_wire_prefs f)" "pref_member p = mem_name m" "pref_zone p = zone_name z"
    using find_in [OF Some [unfolded wire_pref_def]] by auto
  then show ?thesis
    using assms Some by (auto simp: zone_pref_def ranked_def)
qed

lemma length_order:
  assumes "ranked f m"
  shows "length (hp_order (zone_pref f m z)) \<le> length (mem_wires m)"
proof -
  have le: "length (candidate_wires f m (zone_name z)) \<le> length (mem_wires m)"
    by (simp add: candidate_wires_def)
  show ?thesis
  proof (cases "wire_pref f (mem_name m) (zone_name z)")
    case None
    then show ?thesis
      using assms mset_eq_length [OF mset_derived_order] le by (simp add: zone_pref_def ranked_def)
  next
    case (Some p)
    then have p: "p \<in> set (fab_wire_prefs f)" "pref_member p = mem_name m" "pref_zone p = zone_name z"
      using find_in [OF Some [unfolded wire_pref_def]] by auto
    then have "length (pref_order p) = card (wire_name ` set (candidate_wires f m (zone_name z)))"
      using assms distinct_card [of "pref_order p"] by (auto simp: ranked_def)
    also have "\<dots> \<le> length (candidate_wires f m (zone_name z))"
      using card_image_le [of "set (candidate_wires f m (zone_name z))" wire_name] card_length le_trans by blast
    finally show ?thesis
      using Some le by (simp add: zone_pref_def)
  qed
qed

text \<open>The rank of a member's wire in a zone, and the row of a segment.\<close>

definition rank_of :: "Fabric \<Rightarrow> Member \<Rightarrow> string \<Rightarrow> string \<Rightarrow> nat" where
  "rank_of f m zone n = the (position (\<lambda>x. x = n) (hp_order (the (find (\<lambda>p. hp_zone p = zone) (prefs_of f m)))))"

definition segment_row :: "Fabric \<Rightarrow> Member \<Rightarrow> Segment \<Rightarrow> ClassRow option" where
  "segment_row f m r =
     Option.bind (scope_domain (seg_scope r)) (\<lambda>d. map_option (\<lambda>w.
       \<lparr>cr_ifname = seg_ifname r, cr_wire = wire_name w, cr_zone = seg_zone r, cr_seg = seg_seg r,
        cr_vid = seg_vid r, cr_ospf_cost = ladder_cost (rank_of f m (seg_zone r) (wire_name w))\<rparr>) (wire_on m d))"

definition the_rows :: "Fabric \<Rightarrow> Member \<Rightarrow> ClassRow list" where
  "the_rows f m = List.map_filter (segment_row f m) (fab_segments f)"

lemma find_zone_pref:
  assumes "\<exists>z\<in>set (fab_zones f). zone_name z = zone"
  obtains z where "z \<in> set (fab_zones f)" "zone_name z = zone"
    "find (\<lambda>p. hp_zone p = zone) (prefs_of f m) = Some (zone_pref f m z)"
proof -
  have name: "hp_zone (zone_pref f m z) = zone_name z" for z
    by (simp add: zone_pref_def split: option.split)
  have "find (\<lambda>p. hp_zone p = zone) (prefs_of f m) \<noteq> None"
    using assms by (auto simp: prefs_of_def find_None_iff name)
  then obtain p where p: "find (\<lambda>p. hp_zone p = zone) (prefs_of f m) = Some p"
    by blast
  then have "p \<in> zone_pref f m ` set (fab_zones f)" "hp_zone p = zone"
    using find_in [OF p] by (simp_all add: prefs_of_def)
  then obtain z where z: "z \<in> set (fab_zones f)" "p = zone_pref f m z"
    by blast
  then have "zone_name z = zone"
    using \<open>hp_zone p = zone\<close> name [of z] by simp
  then show ?thesis
    using that [OF z(1)] p z(2) by simp
qed

lemma wire_on_candidate:
  assumes "s \<in> set (fab_segments f)" "scope_domain (seg_scope s) = Some d" "wire_on m d = Some w"
  shows "w \<in> set (candidate_wires f m (seg_zone s))" "wire_domain w = d" "w \<in> set (mem_wires m)"
proof -
  show w: "wire_domain w = d" "w \<in> set (mem_wires m)"
    using find_in [OF assms(3) [unfolded wire_on_def]] by auto
  have "seg_scope s = InDomain d"
    using assms(2) by (cases "seg_scope s") auto
  then show "w \<in> set (candidate_wires f m (seg_zone s))"
    using w assms(1) by (auto simp: candidate_wires_def)
qed

lemma rank_found:
  assumes "ranked f m" "s \<in> set (fab_segments f)" "scope_domain (seg_scope s) = Some d" "wire_on m d = Some w"
  obtains z i where "find (\<lambda>p. hp_zone p = seg_zone s) (prefs_of f m) = Some (zone_pref f m z)"
    "position (\<lambda>x. x = wire_name w) (hp_order (zone_pref f m z)) = Some i" "i < length (mem_wires m)"
    "rank_of f m (seg_zone s) (wire_name w) = i"
proof -
  have "\<exists>z\<in>set (fab_zones f). zone_name z = seg_zone s"
    using assms(1,2) by (simp add: ranked_def)
  then obtain z where z: "zone_name z = seg_zone s"
    "find (\<lambda>p. hp_zone p = seg_zone s) (prefs_of f m) = Some (zone_pref f m z)"
    by (rule find_zone_pref)
  have "wire_name w \<in> set (hp_order (zone_pref f m z))"
    using wire_on_candidate(1) [OF assms(2-4)] z(1) by (simp add: set_order [OF assms(1)])
  then have "position (\<lambda>x. x = wire_name w) (hp_order (zone_pref f m z)) \<noteq> None"
    by auto
  then obtain i where i: "position (\<lambda>x. x = wire_name w) (hp_order (zone_pref f m z)) = Some i"
    by blast
  then have "i < length (mem_wires m)"
    using position_Some [OF i] length_order [OF assms(1), of z] by simp
  then show ?thesis
    using that z(2) i by (simp add: rank_of_def)
qed

lemma class_row_eq:
  assumes "ranked f m" "s \<in> set (fab_segments f)"
  shows "class_row m (prefs_of f m) s = Ok (segment_row f m s)"
proof (cases "scope_domain (seg_scope s)")
  case None
  then show ?thesis
    by (simp add: class_row_def segment_row_def)
next
  case d: (Some d)
  show ?thesis
  proof (cases "wire_on m d")
    case None
    then show ?thesis
      using d by (simp add: class_row_def segment_row_def)
  next
    case w: (Some w)
    from rank_found [OF assms d w] obtain z i where
      "find (\<lambda>p. hp_zone p = seg_zone s) (prefs_of f m) = Some (zone_pref f m z)"
      "position (\<lambda>x. x = wire_name w) (hp_order (zone_pref f m z)) = Some i"
      "rank_of f m (seg_zone s) (wire_name w) = i"
      by metis
    then show ?thesis
      using d w by (simp add: class_row_def segment_row_def expect_def)
  qed
qed

lemma class_rows_total: "ranked f m \<Longrightarrow> class_rows_of f m = Ok (the_rows f m)"
  unfolding class_rows_of_def the_rows_def using class_row_eq by (intro filter_map_out_eq) blast

text \<open>What a row of a member is.\<close>

lemma the_rows_iff:
  "r \<in> set (the_rows f m) \<longleftrightarrow> (\<exists>s\<in>set (fab_segments f). segment_row f m s = Some r)"
  by (force simp: the_rows_def List.map_filter_def)

lemma segment_row_Some:
  "segment_row f m s = Some r \<longleftrightarrow>
     (\<exists>d w. scope_domain (seg_scope s) = Some d \<and> wire_on m d = Some w \<and>
        r = \<lparr>cr_ifname = seg_ifname s, cr_wire = wire_name w, cr_zone = seg_zone s, cr_seg = seg_seg s,
             cr_vid = seg_vid s, cr_ospf_cost = ladder_cost (rank_of f m (seg_zone s) (wire_name w))\<rparr>)"
  by (auto simp: segment_row_def bind_eq_Some_conv)

section \<open>The ladder\<close>

lemma unat_ladder_cost:
  assumes "rank \<le> 1000"
  shows "unat (ladder_cost rank) = (if rank = 0 then 10 else 100 * rank)"
proof -
  have "unat (word_of_nat rank :: u32) = rank"
    using assms by (intro of_nat_inverse [OF refl]) simp
  then show ?thesis
    using assms by (simp add: ladder_cost_def unat_word_ariths)
qed

lemma ladder_cost_bounds:
  assumes "rank < n" "n \<le> 1000"
  shows "0 < ladder_cost rank" "10 \<le> unat (ladder_cost rank)" "unat (ladder_cost rank) \<le> 100 * n"
proof -
  have c: "unat (ladder_cost rank) = (if rank = 0 then 10 else 100 * rank)"
    using assms by (intro unat_ladder_cost) simp
  show "10 \<le> unat (ladder_cost rank)" "unat (ladder_cost rank) \<le> 100 * n"
    using assms(1) unfolding c by (cases rank; simp)+
  then have "unat (ladder_cost rank) \<noteq> 0"
    by simp
  then show "0 < ladder_cost rank"
    by (simp only: word_gt_0 unat_eq_zero not_False_eq_True)
qed

lemma ladder_cost_inj:
  assumes "i \<le> 1000" "j \<le> 1000" "ladder_cost i = ladder_cost j"
  shows "i = j"
proof -
  have "(if i = 0 then 10 else 100 * i) = (if j = 0 then 10 else 100 * j)"
    using arg_cong [OF assms(3), of unat] unfolding unat_ladder_cost [OF assms(1)] unat_ladder_cost [OF assms(2)] .
  then show ?thesis
    by (cases "i = 0"; cases "j = 0") simp_all
qed

end
