(* ===== verification/Fabric_Routes.thy ===== *)
theory Fabric_Routes
  imports Fabric_Paths Fabric_Ranks
begin

text \<open>
  The derived costs of a whole fabric. On a fabric all of whose members are ranked, no call
  of the derivation panics, and each equals a plain function: the universal cost, the bonds
  and the graph of a zone. With these, the cost of the universal segment is shown to lie above
  every path over domain segments, and the equal-cost check is shown to decide whether two
  members have two shortest paths.
\<close>

definition all_ranked :: "Fabric \<Rightarrow> bool" where
  "all_ranked f \<longleftrightarrow> (\<forall>m\<in>set (fab_members f). ranked f m)"

section \<open>The derivation without panics\<close>

definition member_costs :: "Fabric \<Rightarrow> Segment \<Rightarrow> u32 list" where
  "member_costs f s =
     List.map_filter (\<lambda>m. map_option cr_ospf_cost (find (\<lambda>r. cr_ifname r = seg_ifname s) (the_rows f m))) (fab_members f)"

definition the_segment_max :: "Fabric \<Rightarrow> Segment \<Rightarrow> u32" where
  "the_segment_max f s = fold max (member_costs f s) 0"

definition domain_segments :: "Fabric \<Rightarrow> string \<Rightarrow> Segment list" where
  "domain_segments f zone = filter (\<lambda>s. seg_zone s = zone \<and> \<not> is_universal (seg_scope s)) (fab_segments f)"

definition the_universal_cost :: "Fabric \<Rightarrow> string \<Rightarrow> u32" where
  "the_universal_cost f zone = sum_list (map (the_segment_max f) (domain_segments f zone)) + LADDER_STEP"

lemma segment_max_eq:
  assumes "all_ranked f"
  shows "segment_max f s = Ok (the_segment_max f s)"
proof -
  have "filter_map_out (\<lambda>m. and_then (class_rows_of f m) (\<lambda>rows.
      Ok (map_option cr_ospf_cost (find (\<lambda>r. cr_ifname r = seg_ifname s) rows)))) (fab_members f) = Ok (member_costs f s)"
    unfolding member_costs_def using assms
    by (intro filter_map_out_eq) (simp add: all_ranked_def class_rows_total)
  then show ?thesis
    by (simp add: segment_max_def the_segment_max_def)
qed

lemma universal_cost_eq:
  assumes "all_ranked f"
  shows "universal_cost f zone = Ok (the_universal_cost f zone)"
proof -
  have "map_out (segment_max f) (domain_segments f zone) = Ok (map (the_segment_max f) (domain_segments f zone))"
    using segment_max_eq [OF assms] by (intro map_out_eq) blast
  then show ?thesis
    by (simp add: universal_cost_def the_universal_cost_def domain_segments_def)
qed

definition the_home :: "Fabric \<Rightarrow> Member \<Rightarrow> string \<Rightarrow> Port list \<Rightarrow> string option" where
  "the_home f m zone ports =
     (case home_loop zone None (the_rows f m) of
        Some (_, x) \<Rightarrow> Some x
      | None \<Rightarrow> (case ports of [] \<Rightarrow> None | p # _ \<Rightarrow> Some (port_wire p)))"

lemma bond_home_eq: "ranked f m \<Longrightarrow> bond_home f m zone ports = Ok (the_home f m zone ports)"
  by (simp add: bond_home_def home_wire_def class_rows_total the_home_def split: option.split)

definition the_fallback :: "Fabric \<Rightarrow> Member \<Rightarrow> Segment \<Rightarrow> FallbackRow option" where
  "the_fallback f m r =
     map_option (\<lambda>home. \<lparr>fr_ifname = seg_ifname r, fr_zone = seg_zone r, fr_seg = seg_seg r, fr_vid = seg_vid r,
         fr_ospf_cost = the_universal_cost f (seg_zone r), fr_home = home, fr_ports = ports_of m (seg_ifname r)\<rparr>)
       (the_home f m (seg_zone r) (ports_of m (seg_ifname r)))"

definition the_fallbacks :: "Fabric \<Rightarrow> Member \<Rightarrow> FallbackRow list" where
  "the_fallbacks f m =
     List.map_filter (the_fallback f m) (filter (\<lambda>r. is_universal (seg_scope r)) (fab_segments f))"

lemma fallback_rows_total:
  assumes "all_ranked f" "m \<in> set (fab_members f)"
  shows "fallback_rows_of f m = Ok (the_fallbacks f m)"
proof -
  have "fallback_row f m r = Ok (the_fallback f m r)" for r
    using assms
    by (simp add: fallback_row_def the_fallback_def Let_def bond_home_eq all_ranked_def universal_cost_eq
        split: option.split)
  then show ?thesis
    unfolding fallback_rows_of_def the_fallbacks_def by (intro filter_map_out_eq) blast
qed

lemma gw_rows_total:
  assumes "all_ranked f" "m \<in> set (fab_members f)"
  shows "\<exists>rows. gw_rows_of f m = Ok rows"
proof -
  have "\<exists>row. gw_row f m z = Ok row" for z
    using assms
    by (auto simp: gw_row_def Let_def bond_home_eq all_ranked_def split: option.split SegScope.split)
  then obtain h where "\<And>z. gw_row f m z = Ok (h z)"
    by metis
  then show ?thesis
    using filter_map_out_eq [of "fab_zones f" "gw_row f m" h] by (simp add: gw_rows_of_def)
qed

section \<open>The graph of a zone\<close>

definition zone_segs :: "Fabric \<Rightarrow> string \<Rightarrow> Member \<Rightarrow> u8 set" where
  "zone_segs f zone m = cr_seg ` {r \<in> set (the_rows f m). cr_zone r = zone}"

definition the_pair_edges :: "Fabric \<Rightarrow> string \<Rightarrow> Member \<Rightarrow> Member \<Rightarrow> edge list" where
  "the_pair_edges f zone m other =
     (if mem_name other = mem_name m then []
      else map (\<lambda>r. \<lparr>e_from = mem_name m, e_to = mem_name other,
                     e_cost = cr_ospf_cost r + leaf_offset_of f m, e_ifname = cr_ifname r\<rparr>)
             (filter (\<lambda>r. cr_seg r \<in> zone_segs f zone other) (filter (\<lambda>r. cr_zone r = zone) (the_rows f m))) @
           map (\<lambda>r. \<lparr>e_from = mem_name m, e_to = mem_name other,
                     e_cost = fr_ospf_cost r + leaf_offset_of f m, e_ifname = fr_ifname r\<rparr>)
             (filter (\<lambda>r. fr_zone r = zone) (the_fallbacks f m)))"

definition the_edges :: "Fabric \<Rightarrow> string \<Rightarrow> edge list" where
  "the_edges f zone =
     concat (map (\<lambda>m. concat (map (the_pair_edges f zone m) (fab_members f))) (fab_members f))"

lemma zone_edges_eq:
  assumes "all_ranked f"
  shows "zone_edges f zone = Ok (the_edges f zone)"
proof -
  have ranked: "class_rows_of f m = Ok (the_rows f m)" if "m \<in> set (fab_members f)" for m
    using assms that by (simp add: all_ranked_def class_rows_total)
  have pair: "pair_edges f zone m (filter (\<lambda>r. cr_zone r = zone) (the_rows f m))
      (filter (\<lambda>r. fr_zone r = zone) (the_fallbacks f m)) other = Ok (the_pair_edges f zone m other)"
    if "other \<in> set (fab_members f)" for m other
  proof -
    have "set (map cr_seg (filter (\<lambda>r. cr_zone r = zone) (the_rows f other))) = zone_segs f zone other"
      by (simp add: zone_segs_def)
    then show ?thesis
      by (simp add: pair_edges_def the_pair_edges_def ranked [OF that] del: set_map)
  qed
  have "member_edges f zone m = Ok (concat (map (the_pair_edges f zone m) (fab_members f)))"
    if m: "m \<in> set (fab_members f)" for m
  proof -
    have "map_out (pair_edges f zone m (filter (\<lambda>r. cr_zone r = zone) (the_rows f m))
        (filter (\<lambda>r. fr_zone r = zone) (the_fallbacks f m))) (fab_members f) =
        Ok (map (the_pair_edges f zone m) (fab_members f))"
      using pair by (rule map_out_eq)
    then show ?thesis
      by (simp add: member_edges_def ranked [OF m] fallback_rows_total [OF assms m])
  qed
  then have "map_out (member_edges f zone) (fab_members f) =
      Ok (map (\<lambda>m. concat (map (the_pair_edges f zone m) (fab_members f))) (fab_members f))"
    by (rule map_out_eq)
  then show ?thesis
    by (simp add: zone_edges_def the_edges_def)
qed

section \<open>Bounds\<close>

text \<open>The sizes validation bounds: at most 52 one-letter domains, hence 52 wires of a member and
  53 segments of a zone, and at most 256 members, whose node ids are bytes.\<close>

definition sized :: "Fabric \<Rightarrow> bool" where
  "sized f \<longleftrightarrow>
     all_ranked f \<and> (\<forall>m\<in>set (fab_members f). length (mem_wires m) \<le> 52) \<and>
     distinct (map mem_name (fab_members f)) \<and> length (fab_members f) \<le> 256 \<and>
     distinct (map seg_ifname (fab_segments f)) \<and>
     (\<forall>zone. length (filter (\<lambda>s. seg_zone s = zone) (fab_segments f)) \<le> 53)"

lemma sized_ranked: "sized f \<Longrightarrow> m \<in> set (fab_members f) \<Longrightarrow> ranked f m"
  by (simp add: sized_def all_ranked_def)

lemma row_cost_bounds:
  assumes "sized f" "m \<in> set (fab_members f)" "r \<in> set (the_rows f m)"
  shows "0 < cr_ospf_cost r" "unat (cr_ospf_cost r) \<le> 5200"
proof -
  obtain s d w where s: "s \<in> set (fab_segments f)" "scope_domain (seg_scope s) = Some d" "wire_on m d = Some w"
    and r: "cr_ospf_cost r = ladder_cost (rank_of f m (seg_zone s) (wire_name w))"
    using assms(3) by (auto simp: the_rows_iff segment_row_Some)
  have "rank_of f m (seg_zone s) (wire_name w) < length (mem_wires m)" "length (mem_wires m) \<le> 52"
    using rank_found [OF sized_ranked [OF assms(1,2)] s] assms(1,2) by (auto simp: sized_def)
  then show "0 < cr_ospf_cost r" "unat (cr_ospf_cost r) \<le> 5200"
    using ladder_cost_bounds [of "rank_of f m (seg_zone s) (wire_name w)" 52] unfolding r by simp_all
qed

lemma fold_max_le:
  fixes a :: "'a::linorder"
  assumes "\<And>c. c \<in> set cs \<Longrightarrow> c \<le> b" "a \<le> b"
  shows "fold max cs a \<le> b"
  using assms by (induction cs arbitrary: a) auto

lemma fold_max_ge:
  fixes a :: "'a::linorder"
  shows "c \<in> set cs \<or> c \<le> a \<Longrightarrow> c \<le> fold max cs a"
proof (induction cs arbitrary: a)
  case (Cons x cs)
  then show ?case
    using Cons.IH [of "max x a"] by (auto simp: le_max_iff_disj)
qed simp

lemma segment_max_bound: "sized f \<Longrightarrow> unat (the_segment_max f s) \<le> 5200"
proof -
  assume f: "sized f"
  have "c \<le> 5200" if c: "c \<in> set (member_costs f s)" for c
  proof -
    obtain m r where "m \<in> set (fab_members f)" "find (\<lambda>r. cr_ifname r = seg_ifname s) (the_rows f m) = Some r"
      "c = cr_ospf_cost r"
      using c by (auto simp: member_costs_def List.map_filter_def)
    then have "unat c \<le> unat (5200 :: u32)"
      using row_cost_bounds(2) [OF f, of m r] find_in by fastforce
    then show ?thesis
      by (simp only: word_le_nat_alt)
  qed
  then have "the_segment_max f s \<le> 5200"
    unfolding the_segment_max_def by (rule fold_max_le) simp_all
  then show ?thesis
    by (simp add: word_le_nat_alt)
qed

lemma universal_cost_exact:
  assumes "sized f"
  shows "unat (the_universal_cost f zone) =
      (\<Sum>s\<leftarrow>domain_segments f zone. unat (the_segment_max f s)) + 100"
    and "unat (the_universal_cost f zone) \<le> 275700"
proof -
  let ?ms = "map (the_segment_max f) (domain_segments f zone)"
  have "length (domain_segments f zone) \<le> length (filter (\<lambda>s. seg_zone s = zone) (fab_segments f))"
    unfolding domain_segments_def filter_filter [symmetric]
    by (metis (no_types, lifting) filter_filter length_filter_le)
  also have "\<dots> \<le> 53"
    using assms by (simp add: sized_def)
  finally have len: "length ?ms \<le> 53"
    by simp
  have "sum_list (map unat ?ms) \<le> sum_list (map (\<lambda>_. 5200) ?ms)"
    using segment_max_bound [OF assms] by (intro sum_list_mono) auto
  also have "\<dots> = 5200 * length ?ms"
    by (simp add: comp_def sum_list_triv)
  finally have le: "sum_list (map unat ?ms) \<le> 275600"
    using len by linarith
  then have sum: "unat (sum_list ?ms) = sum_list (map unat ?ms)"
    by (intro unat_sum_list) simp
  have "unat (sum_list ?ms + LADDER_STEP) = unat (sum_list ?ms) + unat LADDER_STEP"
    using le sum by (intro unat_add_no_wrap) (simp add: LADDER_STEP_def)
  then have "unat (the_universal_cost f zone) = sum_list (map unat ?ms) + 100"
    unfolding sum by (simp add: the_universal_cost_def LADDER_STEP_def)
  then show "unat (the_universal_cost f zone) = (\<Sum>s\<leftarrow>domain_segments f zone. unat (the_segment_max f s)) + 100"
    "unat (the_universal_cost f zone) \<le> 275700"
    using le by (simp_all add: comp_def)
qed

section \<open>The graph is one the search is exact on\<close>

lemma the_fallbacks_iff:
  "r \<in> set (the_fallbacks f m) \<longleftrightarrow>
     (\<exists>s\<in>set (fab_segments f). is_universal (seg_scope s) \<and> the_fallback f m s = Some r)"
  by (force simp: the_fallbacks_def List.map_filter_def)

definition cost_cap :: "Fabric \<Rightarrow> nat" where
  "cost_cap f = 275700 + unat (fab_leaf_cost_offset f)"

lemma edge_cost_bounds:
  assumes "sized f" "unat (fab_leaf_cost_offset f) \<le> 16000000" "e \<in> set (the_edges f zone)"
  shows "0 < e_cost e \<and> unat (e_cost e) \<le> cost_cap f"
proof -
  obtain m other where m: "m \<in> set (fab_members f)" and "e \<in> set (the_pair_edges f zone m other)"
    using assms(3) by (auto simp: the_edges_def)
  then have e: "(\<exists>r\<in>set (the_rows f m). e_cost e = cr_ospf_cost r + leaf_offset_of f m) \<or>
      (\<exists>r\<in>set (the_fallbacks f m). e_cost e = fr_ospf_cost r + leaf_offset_of f m)"
    by (auto simp: the_pair_edges_def split: if_splits)
  have offset: "unat (leaf_offset_of f m) \<le> unat (fab_leaf_cost_offset f)"
    by (simp add: leaf_offset_of_def)
  have "\<exists>c. e_cost e = c + leaf_offset_of f m \<and> 0 < unat c \<and> unat c \<le> 275700"
    using e
  proof
    assume "\<exists>r\<in>set (the_rows f m). e_cost e = cr_ospf_cost r + leaf_offset_of f m"
    then obtain r where r: "r \<in> set (the_rows f m)" "e_cost e = cr_ospf_cost r + leaf_offset_of f m"
      by blast
    have "0 < unat (cr_ospf_cost r)" "unat (cr_ospf_cost r) \<le> 5200"
      using row_cost_bounds [OF assms(1) m r(1)] by (simp_all add: word_less_nat_alt)
    then show ?thesis
      using r(2) by (intro exI [of _ "cr_ospf_cost r"]) simp
  next
    assume "\<exists>r\<in>set (the_fallbacks f m). e_cost e = fr_ospf_cost r + leaf_offset_of f m"
    then obtain z where "e_cost e = the_universal_cost f z + leaf_offset_of f m"
      by (auto simp: the_fallbacks_iff the_fallback_def)
    then show ?thesis
      using universal_cost_exact [OF assms(1), of z] by (intro exI [of _ "the_universal_cost f z"]) simp
  qed
  then obtain c where c: "e_cost e = c + leaf_offset_of f m" "0 < unat c" "unat c \<le> 275700"
    by blast
  then have "unat (e_cost e) = unat c + unat (leaf_offset_of f m)"
    using offset assms(2) by (simp only: c(1)) (intro unat_add_no_wrap, simp)
  then show ?thesis
    using c offset by (simp add: word_less_nat_alt cost_cap_def)
qed

text \<open>Lists of keyed blocks have no repetition.\<close>

lemma distinct_concat_map:
  assumes "\<And>x. x \<in> set xs \<Longrightarrow> distinct (g x)" "\<And>x e. x \<in> set xs \<Longrightarrow> e \<in> set (g x) \<Longrightarrow> key e = k x"
    and "distinct (map k xs)"
  shows "distinct (concat (map g xs))"
  using assms
proof (induction xs)
  case (Cons x xs)
  have "set (g x) \<inter> set (concat (map g xs)) = {}"
  proof (rule ccontr)
    assume "set (g x) \<inter> set (concat (map g xs)) \<noteq> {}"
    then obtain e y where "e \<in> set (g x)" "y \<in> set xs" "e \<in> set (g y)"
      by auto
    then have "k x = k y"
      using Cons.prems(2) [of x e] Cons.prems(2) [of y e] by simp
    then show False
      using Cons.prems(3) \<open>y \<in> set xs\<close> by (auto simp: image_iff)
  qed
  then show ?case
    using Cons by simp
qed simp

lemma distinct_map_map_filter:
  assumes "distinct (map k xs)" "\<And>x y. g x = Some y \<Longrightarrow> h y = k x"
  shows "distinct (map h (List.map_filter g xs))"
  using assms(1)
proof (induction xs)
  case (Cons x xs)
  have "h y \<in> k ` set xs" if "y \<in> set (List.map_filter g xs)" for y
    using that assms(2) by (force simp: List.map_filter_def)
  then have sub: "h ` set (List.map_filter g xs) \<subseteq> k ` set xs"
    by blast
  show ?case
    using Cons sub assms(2) [of x] by (cases "g x") (auto simp: List.map_filter_simps)
qed (simp add: List.map_filter_simps)

lemma distinct_pair_edges:
  assumes "sized f"
  shows "distinct (the_pair_edges f zone m other)"
proof -
  have names: "distinct (map seg_ifname (fab_segments f))"
    using assms by (simp add: sized_def)
  have rows: "distinct (map cr_ifname (the_rows f m))"
    unfolding the_rows_def using names
    by (rule distinct_map_map_filter) (auto simp: segment_row_Some)
  have falls: "distinct (map fr_ifname (the_fallbacks f m))"
    unfolding the_fallbacks_def
    by (rule distinct_map_map_filter [where k = seg_ifname])
      (use names in \<open>auto simp: the_fallback_def distinct_map_filter\<close>)
  have apart: "cr_ifname r \<noteq> fr_ifname r'" if rr: "r \<in> set (the_rows f m)" "r' \<in> set (the_fallbacks f m)" for r r'
  proof
    assume eq: "cr_ifname r = fr_ifname r'"
    obtain s where s: "s \<in> set (fab_segments f)" "scope_domain (seg_scope s) \<noteq> None" "cr_ifname r = seg_ifname s"
      using rr(1) unfolding the_rows_iff segment_row_Some by fastforce
    obtain s' where s': "s' \<in> set (fab_segments f)" "is_universal (seg_scope s')" "fr_ifname r' = seg_ifname s'"
      using rr(2) by (auto simp: the_fallbacks_iff the_fallback_def)
    have "s = s'"
      using eq s s' names by (metis distinct_map inj_on_def)
    then show False
      using s(2) s'(2) by (cases "seg_scope s") auto
  qed
  let ?rows = "filter (\<lambda>r. cr_seg r \<in> zone_segs f zone other) (filter (\<lambda>r. cr_zone r = zone) (the_rows f m))"
  let ?falls = "filter (\<lambda>r. fr_zone r = zone) (the_fallbacks f m)"
  have "distinct (map cr_ifname ?rows @ map fr_ifname ?falls)"
    using rows falls apart by (auto simp: distinct_map_filter)
  then have "distinct (map e_ifname (the_pair_edges f zone m other))"
    by (simp add: the_pair_edges_def comp_def)
  then show ?thesis
    by (simp add: distinct_map)
qed

lemma distinct_the_edges:
  assumes "sized f"
  shows "distinct (the_edges f zone)"
  unfolding the_edges_def
proof (rule distinct_concat_map [where key = e_from and k = mem_name])
  have names: "distinct (map mem_name (fab_members f))"
    using assms by (simp add: sized_def)
  then show "distinct (map mem_name (fab_members f))" .
  show "distinct (concat (map (the_pair_edges f zone m) (fab_members f)))" for m
    by (rule distinct_concat_map [where key = e_to and k = mem_name])
      (use names distinct_pair_edges [OF assms] in \<open>auto simp: the_pair_edges_def split: if_splits\<close>)
qed (auto simp: the_pair_edges_def split: if_splits)

lemma length_filter_map_filter:
  assumes "\<And>x y. g x = Some y \<Longrightarrow> P y \<Longrightarrow> Q x"
  shows "length (filter P (List.map_filter g xs)) \<le> length (filter Q xs)"
  using assms
proof (induction xs)
  case (Cons x xs)
  then show ?case
    by (cases "g x") (fastforce simp: List.map_filter_simps)+
qed (simp add: List.map_filter_simps)

lemma length_concat_le: "(\<And>x. x \<in> set xs \<Longrightarrow> length (g x) \<le> b) \<Longrightarrow> length (concat (map g xs)) \<le> b * length xs"
  by (induction xs) fastforce+

lemma length_the_edges:
  assumes "sized f"
  shows "length (the_edges f zone) \<le> 106 * 256 * 256"
proof -
  have zone: "length (filter (\<lambda>s. seg_zone s = zone) (fab_segments f)) \<le> 53"
    using assms by (simp add: sized_def)
  have mem: "length (fab_members f) \<le> 256"
    using assms by (simp add: sized_def)
  have "length (the_pair_edges f zone m other) \<le> 106" for m other
  proof -
    have "length (filter (\<lambda>r. cr_zone r = zone) (the_rows f m)) \<le> 53"
      unfolding the_rows_def
      by (rule le_trans [OF length_filter_map_filter zone]) (auto simp: segment_row_Some)
    moreover have "length (filter (\<lambda>r. fr_zone r = zone) (the_fallbacks f m)) \<le>
        length (filter (\<lambda>s. seg_zone s = zone) (filter (\<lambda>r. is_universal (seg_scope r)) (fab_segments f)))"
      unfolding the_fallbacks_def by (rule length_filter_map_filter) (auto simp: the_fallback_def)
    moreover have "length (filter (\<lambda>s. seg_zone s = zone) (filter (\<lambda>r. is_universal (seg_scope r)) (fab_segments f))) \<le> 53"
      using zone length_filter_le [of "\<lambda>r. is_universal (seg_scope r)" "filter (\<lambda>s. seg_zone s = zone) (fab_segments f)"]
      by (simp add: conj_commute)
    ultimately show ?thesis
      using length_filter_le [of "\<lambda>r. cr_seg r \<in> zone_segs f zone other" "filter (\<lambda>r. cr_zone r = zone) (the_rows f m)"]
      by (simp add: the_pair_edges_def)
  qed
  then have "length (concat (map (the_pair_edges f zone m) (fab_members f))) \<le> 106 * length (fab_members f)" for m
    by (rule length_concat_le)
  then have inner: "length (concat (map (the_pair_edges f zone m) (fab_members f))) \<le> 106 * 256" for m
    using mem by (meson le_trans mult_le_mono2)
  have "length (the_edges f zone) \<le> 106 * 256 * length (fab_members f)"
    unfolding the_edges_def by (rule length_concat_le [OF inner])
  also have "\<dots> \<le> 106 * 256 * 256"
    using mem by simp
  finally show ?thesis .
qed

lemma graph_ok_the_edges:
  assumes "sized f" "unat (fab_leaf_cost_offset f) \<le> 16000000" "src \<in> set (fab_members f)"
  shows "graph_ok (cost_cap f) (the_edges f zone) (mem_name src)"
proof -
  have "nodes (the_edges f zone) (mem_name src) \<subseteq> mem_name ` set (fab_members f)"
    using assms(3) by (auto simp: nodes_def the_edges_def the_pair_edges_def split: if_splits)
  then have "card (nodes (the_edges f zone) (mem_name src)) \<le> card (mem_name ` set (fab_members f))"
    by (intro card_mono) simp_all
  also have "\<dots> \<le> card (set (fab_members f))"
    by (rule card_image_le) simp
  also have "\<dots> \<le> length (fab_members f)"
    by (rule card_length)
  also have "\<dots> \<le> 256"
    using assms(1) by (simp add: sized_def)
  finally have "cost_cap f * card (nodes (the_edges f zone) (mem_name src)) \<le> 16275700 * 256"
    using assms(2) by (intro mult_le_mono) (simp_all add: cost_cap_def)
  then show ?thesis
    using edge_cost_bounds [OF assms(1,2)] distinct_the_edges [OF assms(1)] length_the_edges [OF assms(1), of zone]
    by (simp add: graph_ok_def)
qed

section \<open>The equal-cost check\<close>

lemma find_counts_None:
  assumes "om_ok m" "dom (om_get m) = K"
  shows "find (\<lambda>(dst, n). dst \<noteq> src \<and> n > (1 :: u32)) m = None \<longleftrightarrow>
    (\<forall>v\<in>K. v \<noteq> src \<longrightarrow> (case om_get m v of None \<Rightarrow> 0 | Some c \<Rightarrow> c) \<le> 1)"
proof -
  have "find (\<lambda>(dst, n). dst \<noteq> src \<and> n > (1 :: u32)) m = None \<longleftrightarrow>
      (\<forall>v c. om_get m v = Some c \<longrightarrow> v \<noteq> src \<longrightarrow> c \<le> 1)"
    unfolding find_None_iff om_mem_iff [OF assms(1), symmetric] by (auto simp flip: not_less)
  also have "\<dots> \<longleftrightarrow> (\<forall>v\<in>K. v \<noteq> src \<longrightarrow> (case om_get m v of None \<Rightarrow> 0 | Some c \<Rightarrow> c) \<le> 1)"
    unfolding assms(2) [symmetric] by force
  finally show ?thesis .
qed

lemma check_source_Ok:
  assumes "sized f" "unat (fab_leaf_cost_offset f) \<le> 16000000" "src \<in> set (fab_members f)"
  shows "check_source f zone (the_edges f zone) src = Ok () \<longleftrightarrow>
    (\<forall>v. one_shortest (the_edges f zone) (is_leaf f) (mem_name src) v)"
proof -
  let ?s = "search (the_edges f zone) (is_leaf f) (mem_name src) (start_search (mem_name src))"
  have fin: "finished (the_edges f zone) (is_leaf f) (mem_name src) ?s"
    by (rule search_finished [OF graph_ok_the_edges [OF assms]])
  have "check_source f zone (the_edges f zone) src = Ok () \<longleftrightarrow>
      find (\<lambda>(dst, n). dst \<noteq> mem_name src \<and> n > 1) (counts ?s) = None"
    by (auto simp: check_source_def Let_def split: option.splits)
  also have "\<dots> \<longleftrightarrow> (\<forall>v\<in>known ?s. v \<noteq> mem_name src \<longrightarrow> count_at ?s v \<le> 1)"
    unfolding count_at_def using search_counts [of "the_edges f zone" "is_leaf f" "mem_name src"]
    by (intro find_counts_None) blast+
  also have "\<dots> \<longleftrightarrow> (\<forall>v. one_shortest (the_edges f zone) (is_leaf f) (mem_name src) v)"
    by (rule counts_decide [OF fin])
  finally show ?thesis .
qed

lemma check_no_equal_cost_Ok:
  assumes "sized f" "unat (fab_leaf_cost_offset f) \<le> 16000000"
  shows "check_no_equal_cost_paths f zone = Ok () \<longleftrightarrow>
    (\<forall>src\<in>set (fab_members f). \<forall>v. one_shortest (the_edges f zone) (is_leaf f) (mem_name src) v)"
  using assms check_source_Ok [OF assms]
  by (simp add: check_no_equal_cost_paths_def zone_edges_eq sized_def for_each_Ok)

end
