(* ===== verification/Fabric_Accept.thy ===== *)
theory Fabric_Accept
  imports Fabric_Validate Fabric_Routes
begin

text \<open>
  Accepted declarations. What each check of \<open>validate\<close> leaves behind, read off the checks
  themselves, and the first consequence: no declaration makes \<open>from_decl\<close> panic, although the
  code it calls has six places that would.
\<close>

section \<open>What resolving a declaration leaves behind\<close>

lemma domain_parse_Ok: "domain_parse s = Ok t \<longleftrightarrow> t = s \<and> length s = 1 \<and> list_all is_ascii_alphabetic s"
  by (auto simp: domain_parse_def MAX_DOMAIN_TOKEN_def)

text \<open>The text after the last dot of a string of dot-separated parts is its last part.\<close>

lemma split_once_None: "split_once c s = None \<longleftrightarrow> c \<notin> set s"
  by (induction s) auto

lemma split_once_append: "c \<notin> set a \<Longrightarrow> split_once c (a @ c # b) = Some (a, b)"
  by (induction a) auto

lemma rsplit_once_append: "c \<notin> set b \<Longrightarrow> rsplit_once c (a @ c # b) = Some (a, b)"
  using split_once_append [of c "rev b" "rev a"] by (simp add: rsplit_once_def)

lemma split_on_nonempty [simp]: "split_on c s \<noteq> []"
  by (induction s) (auto split: list.splits)

lemma length_split_on: "length (split_on c s) = Suc (length (filter (\<lambda>x. x = c) s))"
proof (induction s)
  case (Cons x s)
  then show ?case
    by (cases "split_on c s") auto
qed simp

lemma split_on_last:
  "c \<in> set s \<Longrightarrow> \<exists>a b. s = a @ c # b \<and> c \<notin> set b \<and> last (split_on c s) = b"
proof (induction s)
  case (Cons x s)
  show ?case
  proof (cases "c \<in> set s")
    case True
    with Cons.IH obtain a b where ab: "s = a @ c # b" "c \<notin> set b" "last (split_on c s) = b"
      by blast
    obtain w ws where w: "split_on c s = w # ws"
      by (cases "split_on c s") auto
    have "filter (\<lambda>x. x = c) s \<noteq> []"
      using ab(1) by simp
    then have "ws \<noteq> []"
      using length_split_on [of c s] w by auto
    then have "last (split_on c (x # s)) = b"
      using ab(3) w by auto
    then show ?thesis
      using ab by (metis append_Cons)
  next
    case False
    then have "x = c"
      using Cons.prems by simp
    then have "x # s = [] @ c # s \<and> c \<notin> set s \<and> last (split_on c (x # s)) = s"
      using False by (simp add: split_on_no_sep)
    then show ?thesis
      by blast
  qed
qed simp

lemma router_octet_resolved:
  assumes "resolve_gw zone g = Ok gw"
  shows "\<exists>oct. router_octet gw = Ok oct"
proof -
  let ?c = "CHR ''.''"
  have len: "length (split_on ?c (gw_router gw)) = 4"
    and parts: "\<And>oct. oct \<in> set (split_on ?c (gw_router gw)) \<Longrightarrow> parse_uint 255 oct \<noteq> None"
    using assms by (auto simp: resolve_gw_def Let_def outcome_simps)
  then have "filter (\<lambda>x. x = ?c) (gw_router gw) \<noteq> []"
    using length_split_on [of ?c "gw_router gw"] by auto
  then have "?c \<in> set (gw_router gw)"
    by (auto simp: filter_empty_conv)
  then obtain a b where ab: "gw_router gw = a @ ?c # b" "?c \<notin> set b" "last (split_on ?c (gw_router gw)) = b"
    using split_on_last by blast
  then have "b \<in> set (split_on ?c (gw_router gw))"
    using last_in_set [OF split_on_nonempty] by metis
  then obtain n where "parse_uint 255 b = Some n"
    using parts by blast
  then show ?thesis
    using rsplit_once_append [OF ab(2), of a] by (simp add: router_octet_def ab(1) expect_def)
qed

lemma block_parse:
  "prefix_parse (block z @ ''.0.0/16'') = Ok \<lparr>net = u32_from_be 10 (zone_id z) 0 0, len = 16\<rparr>"
proof -
  let ?a = "u32_from_be 10 (zone_id z) 0 0"
  have slash: "CHR ''/'' \<notin> set (dec n)" for n
  proof
    assume "CHR ''/'' \<in> set (dec n)"
    then obtain d where "d < 10" "digit d = CHR ''/''"
      using set_dec [of n] by auto
    then show False
      using digit_val_digit [of d] by (simp add: digit_val_def)
  qed
  have "dec 10 = ''10''" "dec 0 = ''0''"
    by code_simp+
  then have str: "block z @ ''.0.0'' = ipv4_str ?a"
    by (simp add: ipv4_str_bytes block_def)
  have "CHR ''/'' \<notin> set (block z @ ''.0.0'')"
    using slash by (simp add: block_def)
  then have split: "split_once (CHR ''/'') (block z @ ''.0.0/16'') = Some (ipv4_str ?a, ''16'')"
    using split_once_append [of "CHR ''/''" "block z @ ''.0.0''" "''16''"] unfolding str [symmetric] by simp
  have num: "parse_uint 255 ''16'' = Some 16"
    by (simp add: parse_uint_def digit_val_def)
  have bound: "unat (16 :: u8) \<le> 32"
    by simp
  have "unat ?a = (10 * 256 + unat (zone_id z)) * 2 ^ 16"
    by (simp add: unat_u32_from_be)
  then have "unat (take_bit 16 ?a) = 0"
    by (subst unsigned_take_bit_eq) (simp add: take_bit_eq_mod)
  then have "take_bit 16 ?a = 0"
    by (simp only: unat_eq_zero)
  then have "push_bit 16 (drop_bit 16 ?a) = ?a"
    using bits_ident [of 16 ?a] by simp
  then have "?a AND prefix_mask 16 = ?a"
    using and_mask [OF bound, of ?a] by simp
  then show ?thesis
    using split num by (simp add: prefix_parse_def parse_ipv4_str)
qed

text \<open>The facts of the resolved rows the later checks rely on.\<close>

lemma resolved_domains:
  assumes "resolve_fabric d = Ok f" "t \<in> set (fab_domains f)"
  shows "length t = 1 \<and> list_all is_ascii_alphabetic t"
proof -
  obtain ts where "map_out (\<lambda>(t, _). domain_parse t) (d_domains d) = Ok ts" "fab_domains f = ts"
    using assms(1) by (auto simp: resolve_fabric_def Let_def outcome_simps)
  then obtain x :: "string \<times> string" where "(\<lambda>(t, _). domain_parse t) x = Ok t"
    using map_out_all [of "\<lambda>(t, _). domain_parse t" "d_domains d" ts t] assms(2) by blast
  then show ?thesis
    by (auto simp: domain_parse_Ok split: prod.splits)
qed

lemma resolved_prefs:
  assumes "resolve_fabric d = Ok f" "p \<in> set (fab_wire_prefs f)"
  shows "\<exists>m\<in>set (fab_members f). mem_name m = pref_member p"
proof -
  have names: "map_out resolve_member (d_members d) = Ok (fab_members f)"
    and prefs: "fab_wire_prefs f = concat (map resolve_prefs (d_members d))"
    using assms(1) by (auto simp: resolve_fabric_def Let_def outcome_simps)
  have "map mem_name (fab_members f) = map md_name (d_members d)"
    by (rule map_out_map [OF names]) (auto simp: resolve_member_def outcome_simps)
  moreover obtain md where "md \<in> set (d_members d)" "pref_member p = md_name md"
    using assms(2) prefs by (auto simp: resolve_prefs_def)
  ultimately have "pref_member p \<in> set (map mem_name (fab_members f))"
    by simp
  then show ?thesis
    by auto
qed

lemma resolved_router:
  assumes "resolve_fabric d = Ok f" "z \<in> set (fab_zones f)" "zone_gw z = Some gw"
  shows "\<exists>oct. router_octet gw = Ok oct"
proof -
  obtain zs where "map_out resolve_zone (d_zones d) = Ok zs" "fab_zones f = map snd zs"
    using assms(1) by (auto simp: resolve_fabric_def Let_def outcome_simps)
  then obtain zd segs where "resolve_zone zd = Ok (segs, z)"
    using assms(2) map_out_all by fastforce
  then show ?thesis
    using assms(3) router_octet_resolved
    by (auto simp: resolve_zone_def Let_def outcome_simps split: option.splits)
qed

lemma prefix_parse_ok: "prefix_parse s = Ok p \<Longrightarrow> prefix_ok p"
proof -
  assume "prefix_parse s = Ok p"
  then obtain n raw where "n \<le> 32" "p = \<lparr>net = raw, len = word_of_nat n\<rparr>" "raw AND prefix_mask (word_of_nat n) = raw"
    by (auto simp: prefix_parse_def not_less split: option.splits prod.splits if_splits)
  moreover have "unat (word_of_nat n :: u8) = n"
    using calculation(1) by (intro of_nat_inverse [OF refl]) simp
  ultimately show ?thesis
    by (simp add: prefix_ok_def)
qed

lemma resolved_workload:
  assumes "resolve_fabric d = Ok f" "wl \<in> set (fab_workloads f)"
  shows "prefix_ok (wl_prefix wl) \<and> 2 \<le> wl_vid wl \<and> wl_vid wl \<le> 4094"
proof -
  obtain wls where "map_out (\<lambda>w. and_then (refuse_retired_workload_keys w) (\<lambda>_. resolve_workload w)) (d_workload d) = Ok wls"
    "fab_workloads f = wls"
    using assms(1) by (auto simp: resolve_fabric_def Let_def outcome_simps)
  then obtain w where "resolve_workload w = Ok wl"
    using assms(2) map_out_all by (fastforce simp: outcome_simps)
  then show ?thesis
    by (auto simp: resolve_workload_def outcome_simps prefix_parse_ok split: option.splits)
qed

section \<open>What validation leaves behind\<close>

lemma first_dup_None: "first_dup seen xs = None \<longleftrightarrow> distinct xs \<and> set xs \<inter> set seen = {}"
  by (induction xs arbitrary: seen) auto

lemma dup_None [outcome_simps]: "dup xs = None \<longleftrightarrow> distinct xs"
  by (simp add: dup_def first_dup_None)

lemma refuse_dup_Ok [outcome_simps]: "refuse_dup what xs = Ok u \<longleftrightarrow> distinct xs"
  by (auto simp: refuse_dup_def dup_None [symmetric] split: option.splits)

lemma refuse_dup_Panic [simp]: "refuse_dup what xs \<noteq> Panic"
  by (simp add: refuse_dup_def split: option.splits)

lemma zone_of_Ok: "(\<exists>z. zone_of f n = Ok z) \<longleftrightarrow> (\<exists>z\<in>set (fab_zones f). zone_name z = n)"
proof -
  have "(\<exists>z. zone_of f n = Ok z) \<longleftrightarrow> find (\<lambda>z. zone_name z = n) (fab_zones f) \<noteq> None"
    by (auto simp: zone_of_def outcome_simps)
  then show ?thesis
    by (auto simp: find_None_iff)
qed

text \<open>The checks that precede the derivation.\<close>

definition checked :: "Fabric \<Rightarrow> bool" where
  "checked f \<longleftrightarrow>
     check_domains f = Ok () \<and> check_segments f = Ok () \<and> check_zones f = Ok () \<and> check_members f = Ok () \<and>
     check_wire_prefs f = Ok ()"

lemma checked_members:
  assumes "checked f" "m \<in> set (fab_members f)"
  shows "distinct (map wire_domain (mem_wires m))" "mem_wires m \<noteq> []"
    "wire_domain ` set (mem_wires m) \<subseteq> set (fab_domains f)"
proof -
  have "check_member_wires f m = Ok ()"
    using assms by (simp add: checked_def check_domains_def outcome_simps)
  then show "distinct (map wire_domain (mem_wires m))" "mem_wires m \<noteq> []"
    "wire_domain ` set (mem_wires m) \<subseteq> set (fab_domains f)"
    by (auto simp: check_member_wires_def declared_def outcome_simps split: option.splits)
qed

lemma checked_segments:
  assumes "checked f"
  shows "distinct (map seg_ifname (fab_segments f))"
    and "distinct (map (\<lambda>r. seg_zone r @ '':'' @ scope_str (seg_scope r)) (fab_segments f))"
    and "s \<in> set (fab_segments f) \<Longrightarrow> \<exists>z\<in>set (fab_zones f). zone_name z = seg_zone s"
    and "s \<in> set (fab_segments f) \<Longrightarrow> scope_domain (seg_scope s) = Some t \<Longrightarrow> t \<in> set (fab_domains f)"
proof -
  have "check_segments f = Ok ()" "check_domains f = Ok ()"
    using assms by (simp_all add: checked_def)
  then show "distinct (map seg_ifname (fab_segments f))"
    "distinct (map (\<lambda>r. seg_zone r @ '':'' @ scope_str (seg_scope r)) (fab_segments f))"
    "s \<in> set (fab_segments f) \<Longrightarrow> \<exists>z\<in>set (fab_zones f). zone_name z = seg_zone s"
    "s \<in> set (fab_segments f) \<Longrightarrow> scope_domain (seg_scope s) = Some t \<Longrightarrow> t \<in> set (fab_domains f)"
    by (auto simp: check_segments_def check_domains_def Let_def declared_def outcome_simps zone_of_Ok [symmetric]
        dest!: bspec [where x = s])
qed

lemma checked_names:
  assumes "checked f"
  shows "distinct (map mem_name (fab_members f))" "distinct (map mem_node (fab_members f))"
proof -
  have "distinct (map mem_name (fab_members f))" "distinct (map (dec \<circ> unat \<circ> mem_node) (fab_members f))"
    using assms by (auto simp: checked_def check_members_def outcome_simps comp_def)
  then show "distinct (map mem_name (fab_members f))" "distinct (map mem_node (fab_members f))"
    by (auto simp: distinct_map inj_on_def)
qed

lemma find_distinct:
  assumes "distinct (map g xs)" "x \<in> set xs"
  shows "find (\<lambda>y. g y = g x) xs = Some x"
  using assms by (induction xs) (auto simp: image_iff)

lemma member_of_Ok: "checked f \<Longrightarrow> m \<in> set (fab_members f) \<Longrightarrow> member_of f (mem_name m) = Ok m"
  using find_distinct [OF checked_names(1)] by (simp add: member_of_def ok_or_def)

lemma checked_ranked:
  assumes "checked f" "m \<in> set (fab_members f)"
  shows "ranked f m"
  unfolding ranked_def
proof (intro conjI ballI impI)
  fix p
  assume p: "p \<in> set (fab_wire_prefs f)" "pref_member p = mem_name m"
  then have "check_wire_pref f p = Ok ()"
    using assms(1) by (simp add: checked_def check_wire_prefs_def outcome_simps)
  then show "distinct (pref_order p)"
    "set (pref_order p) = wire_name ` set (candidate_wires f m (pref_zone p))"
    using member_of_Ok [OF assms] p(2) by (auto simp: check_wire_pref_def Let_def outcome_simps)
qed (use checked_members [OF assms] checked_segments [OF assms(1)] in auto)

section \<open>Sizes\<close>

definition tokens :: "string set" where
  "tokens = {t. length t = 1 \<and> list_all is_ascii_alphabetic t}"

lemma card_tokens: "finite tokens" "card tokens \<le> 52"
proof -
  let ?N = "{65..90} \<union> {97..122} :: nat set"
  have "tokens \<subseteq> (\<lambda>n. [char_of n]) ` ?N"
  proof
    fix t
    assume "t \<in> tokens"
    then obtain c where c: "t = [c]" "is_ascii_alphabetic c"
      by (auto simp: tokens_def length_Suc_conv)
    then have "of_char c \<in> ?N"
      by (auto simp: is_ascii_alphabetic_def Let_def)
    then show "t \<in> (\<lambda>n. [char_of n]) ` ?N"
      using c(1) by (intro image_eqI [of _ _ "of_char c"]) simp_all
  qed
  moreover have "card ((\<lambda>n. [char_of n :: char]) ` ?N) \<le> 52"
    using card_image_le [of ?N "\<lambda>n. [char_of n :: char]"] by (simp add: card_Un_disjoint)
  ultimately show "finite tokens" "card tokens \<le> 52"
    using card_mono [of "(\<lambda>n. [char_of n :: char]) ` ?N" tokens] finite_subset by fastforce+
qed

lemma distinct_length_le:
  assumes "distinct (map g xs)" "g ` set xs \<subseteq> A" "finite A"
  shows "length xs \<le> card A"
proof -
  have "length xs = card (set (map g xs))"
    using distinct_card [OF assms(1)] by simp
  then show ?thesis
    using card_mono [OF assms(3,2)] by simp
qed

lemma card_u8: "card (UNIV :: u8 set) = 256"
  by (simp add: card_word)

lemma checked_sized:
  assumes res: "resolve_fabric d = Ok f" and ok: "checked f"
  shows "sized f"
proof -
  have dom: "set (fab_domains f) \<subseteq> tokens"
    using resolved_domains [OF res] by (auto simp: tokens_def)
  have "length (mem_wires m) \<le> 52" if "m \<in> set (fab_members f)" for m
    using distinct_length_le [OF checked_members(1) [OF ok that] order_trans [OF checked_members(3) [OF ok that] dom]]
      card_tokens by simp
  moreover have "length (fab_members f) \<le> 256"
    using distinct_length_le [OF checked_names(2) [OF ok], of UNIV] card_u8 by simp
  moreover have "length (filter (\<lambda>s. seg_zone s = zone) (fab_segments f)) \<le> 53" for zone
  proof -
    let ?xs = "filter (\<lambda>s. seg_zone s = zone) (fab_segments f)"
    have "distinct (map (\<lambda>r. seg_zone r @ '':'' @ scope_str (seg_scope r)) ?xs)"
      using checked_segments(2) [OF ok] by (simp add: distinct_map_filter)
    then have "distinct (map (scope_str \<circ> seg_scope) ?xs)"
      by (auto simp: distinct_map inj_on_def)
    moreover have "(scope_str \<circ> seg_scope) ` set ?xs \<subseteq> insert ''any'' tokens"
    proof
      fix x
      assume "x \<in> (scope_str \<circ> seg_scope) ` set ?xs"
      then obtain s where "s \<in> set (fab_segments f)" "x = scope_str (seg_scope s)"
        by auto
      then show "x \<in> insert ''any'' tokens"
        using checked_segments(4) [OF ok, of s] dom by (cases "seg_scope s") auto
    qed
    ultimately have "length ?xs \<le> card (insert ''any'' tokens)"
      by (rule distinct_length_le) (simp add: card_tokens(1))
    also have "\<dots> \<le> 53"
      using card_tokens by (simp add: card_insert_if)
    finally show ?thesis .
  qed
  ultimately show ?thesis
    using checked_ranked [OF ok] checked_names [OF ok] checked_segments(1) [OF ok]
    by (simp add: sized_def all_ranked_def)
qed

section \<open>No declaration makes the checks panic\<close>

named_theorems no_panic \<open>calls that cannot panic\<close>

lemmas [no_panic] = and_then_Panic_iff for_each_Panic map_out_Panic

lemma parse_no_panic [no_panic]: "domain_parse s \<noteq> Panic" "scope_parse s \<noteq> Panic" "prefix_parse s \<noteq> Panic"
proof -
  show *: "domain_parse s \<noteq> Panic" for s
    by (simp add: domain_parse_def)
  show "scope_parse s \<noteq> Panic"
    using * [of s] by (cases "domain_parse s") (simp_all add: scope_parse_def)
  show "prefix_parse s \<noteq> Panic"
    by (simp add: prefix_parse_def split: option.split prod.split)
qed

lemma resolve_member_no_panic [no_panic]: "resolve_member m \<noteq> Panic"
  by (simp add: resolve_member_def resolve_wire_def resolve_member_workload_def Let_def no_panic split: prod.split)

lemma resolve_gw_no_panic [no_panic]: "resolve_gw zone g \<noteq> Panic"
  by (simp add: resolve_gw_def Let_def no_panic split: prod.split)

lemma resolve_zone_no_panic [no_panic]: "resolve_zone z \<noteq> Panic"
  by (simp add: resolve_zone_def resolve_segment_def Let_def no_panic split: option.split)

lemma resolve_workload_no_panic [no_panic]: "resolve_workload w \<noteq> Panic"
  by (simp add: resolve_workload_def no_panic split: option.split)

lemma resolve_fabric_no_panic: "resolve_fabric d \<noteq> Panic"
  by (simp add: resolve_fabric_def Let_def refuse_retired_workload_keys_def no_panic split: prod.split)

lemma find_shared_no_panic:
  assumes "\<And>n. n \<in> set ns \<Longrightarrow> wire_named m n \<noteq> None"
  shows "find_shared f m ns \<noteq> Panic"
  using assms
proof (induction ns)
  case (Cons n ns)
  then show ?case
    by (auto simp: and_then_Panic_iff expect_Ok)
qed simp

lemma order_named:
  assumes "ranked f m" "find (\<lambda>p. hp_zone p = zone) (prefs_of f m) = Some p" "n \<in> set (hp_order p)"
  shows "wire_named m n \<noteq> None"
proof -
  have "p \<in> zone_pref f m ` set (fab_zones f)"
    using find_in [OF assms(2)] by (simp add: prefs_of_def)
  then obtain z where "p = zone_pref f m z"
    by blast
  then have "n \<in> wire_name ` set (candidate_wires f m (zone_name z))"
    using assms(3) set_order [OF assms(1)] by simp
  then show ?thesis
    by (auto simp: candidate_wires_def wire_named_def find_None_iff)
qed

lemma check_rank0_no_panic: "ranked f m \<Longrightarrow> check_rank0_member f zone m \<noteq> Panic"
proof (cases "find (\<lambda>p. hp_zone p = zone) (prefs_of f m)")
  case None
  then show ?thesis
    by (simp add: check_rank0_member_def)
next
  case (Some p)
  assume ranked: "ranked f m"
  have named: "wire_named m n \<noteq> None" if "n \<in> set (hp_order p)" for n
    by (rule order_named [OF ranked Some that])
  show ?thesis
  proof (cases "hp_order p")
    case Nil
    then show ?thesis
      using Some by (simp add: check_rank0_member_def)
  next
    case (Cons first rest)
    then have "wire_named m first \<noteq> None" "find_shared f m rest \<noteq> Panic"
      using named find_shared_no_panic [of rest m f] by simp_all
    then show ?thesis
      using Some Cons by (simp add: check_rank0_member_def and_then_Panic_iff split: option.split)
  qed
qed

lemma validate_derived_no_panic:
  assumes "all_ranked f"
  shows "validate_derived f \<noteq> Panic"
proof -
  have "check_universal f z \<noteq> Panic" for z
    by (simp add: check_universal_def universal_cost_eq [OF assms])
  moreover have "check_rank0_is_shared f zone \<noteq> Panic" for zone
    unfolding check_rank0_is_shared_def using assms check_rank0_no_panic
    by (intro for_each_Panic) (simp add: all_ranked_def)
  moreover have "check_no_equal_cost_paths f zone \<noteq> Panic" for zone
  proof -
    have "check_source f zone es src \<noteq> Panic" for es src
      by (simp add: check_source_def Let_def split: option.split prod.split)
    then show ?thesis
      by (simp add: check_no_equal_cost_paths_def zone_edges_eq [OF assms] for_each_Panic)
  qed
  ultimately show ?thesis
    by (simp add: validate_derived_def no_panic)
qed

lemma declared_no_panic [no_panic]: "declared f what t \<noteq> Panic"
  by (simp add: declared_def)

lemma zone_of_no_panic [no_panic]: "zone_of f n \<noteq> Panic"
  by (simp add: zone_of_def)

lemma name_checks_no_panic [no_panic]:
  "check_domains f \<noteq> Panic" "check_segments f \<noteq> Panic" "check_zones f \<noteq> Panic" "check_members f \<noteq> Panic"
  "check_forward f \<noteq> Panic"
  by (simp_all add: check_domains_def check_member_wires_def check_segments_def check_zones_def check_members_def
      check_forward_def Let_def no_panic split: option.split prod.split)

lemma check_wire_prefs_no_panic: "resolve_fabric d = Ok f \<Longrightarrow> check_wire_prefs f \<noteq> Panic"
  unfolding check_wire_prefs_def
proof (rule for_each_Panic)
  fix p
  assume "resolve_fabric d = Ok f" "p \<in> set (fab_wire_prefs f)"
  then have "find (\<lambda>m. mem_name m = pref_member p) (fab_members f) \<noteq> None"
    using resolved_prefs [of d f p] by (auto simp: find_None_iff)
  then show "check_wire_pref f p \<noteq> Panic"
    by (auto simp: check_wire_pref_def member_of_def ok_or_def Let_def no_panic)
qed

lemma check_workloads_no_panic: "check_workloads f seen wls \<noteq> Panic"
proof (induction wls arbitrary: seen)
  case (Cons wl wls)
  have "check_server f wl \<noteq> Panic" "check_blocks f wl \<noteq> Panic"
    by (simp_all add: check_server_def check_blocks_def block_parse no_panic split: option.split)
  then have "check_workload f seen wl \<noteq> Panic" for seen
    by (simp add: check_workload_def Let_def no_panic split: option.split)
  then show ?case
    using Cons by (simp add: and_then_Panic_iff)
qed simp

lemma check_member_workloads_no_panic: "check_member_workloads f m seen mws \<noteq> Panic"
  by (induction mws arbitrary: seen) (simp_all add: check_member_workload_def Let_def no_panic)

lemma check_addresses_no_panic: "check_addresses wl seen ms \<noteq> Panic"
  by (induction ms arbitrary: seen) (simp_all split: option.split)

lemma check_ingress_no_panic:
  assumes "resolve_fabric d = Ok f" "z \<in> set (fab_zones f)"
  shows "check_ingress f z \<noteq> Panic"
proof (cases "zone_gw z")
  case (Some gw)
  then obtain oct where "router_octet gw = Ok oct"
    using resolved_router [OF assms] by blast
  then show ?thesis
    using Some by (simp add: check_ingress_def no_panic)
qed (simp add: check_ingress_def)

lemma validate_no_panic:
  assumes res: "resolve_fabric d = Ok f"
  shows "validate f \<noteq> Panic"
proof -
  have "validate_derived f \<noteq> Panic" if "check_domains f = Ok ()" "check_segments f = Ok ()" "check_zones f = Ok ()"
    "check_members f = Ok ()" "check_wire_prefs f = Ok ()"
    using that checked_ranked by (intro validate_derived_no_panic) (simp add: all_ranked_def checked_def)
  moreover have "for_each (\<lambda>m. check_member_workloads f m [] (mem_workloads m)) (fab_members f) \<noteq> Panic"
    "for_each (\<lambda>wl. check_addresses wl [] (fab_members f)) (fab_workloads f) \<noteq> Panic"
    "for_each (check_ingress f) (fab_zones f) \<noteq> Panic"
    using check_member_workloads_no_panic check_addresses_no_panic check_ingress_no_panic [OF res]
    by (simp_all add: for_each_Panic)
  ultimately show ?thesis
    using check_wire_prefs_no_panic [OF res] check_workloads_no_panic [of f "[]" "fab_workloads f"]
    unfolding validate_def by (simp add: no_panic)
qed

text \<open>C4: no declaration makes \<open>cfab check\<close> panic. Resolving and validating a declaration returns a
  fabric or an error for every input: none of the look-ups the code expects to succeed, the
  wire orders and the member look-ups of the derivation included, can fail, and the shortest
  path search ends.\<close>

theorem from_decl_never_panics: "from_decl d \<noteq> Panic"
  using resolve_fabric_no_panic [of d] validate_no_panic [of d] by (simp add: from_decl_def and_then_Panic_iff)

end
