(* ===== verification/Fabric_Sample.thy ===== *)
theory Fabric_Sample
  imports Fabric_Accept
begin

text \<open>
  A declaration of two hosts and a leaf on two switches, with one zone, its universal segment,
  a migrating ingress leg and a workload network, evaluated to the fabric it resolves to.
\<close>

definition sample_wire :: "string \<Rightarrow> string \<Rightarrow> u32 \<Rightarrow> WireDecl" where
  "sample_wire nic d speed = \<lparr>wd_nic = nic, wd_domain = d, wd_speed_mbps = speed, wd_driver_features = None, wd_usb = None\<rparr>"

definition sample_decl :: Declaration where
  "sample_decl = \<lparr>
     d_dns_domain = ''lab'',
     d_domains = [(''a'', ''10G switch''), (''b'', ''1G switch'')],
     d_members = [
       \<lparr>md_name = ''h1'', md_node = 1, md_kind = Host, md_wires = [sample_wire ''eth1'' ''b'' 1000, sample_wire ''eth0'' ''a'' 10000],
        md_prefs = [], md_workloads = [\<lparr>mwd_name = ''vms'', mwd_address = ''192.168.20.2/24''\<rparr>]\<rparr>,
       \<lparr>md_name = ''h2'', md_node = 2, md_kind = Host, md_wires = [sample_wire ''eth0'' ''a'' 10000, sample_wire ''eth1'' ''b'' 1000],
        md_prefs = [(''storage'', [''eth0'', ''eth1''])], md_workloads = [\<lparr>mwd_name = ''vms'', mwd_address = ''192.168.20.3/24''\<rparr>]\<rparr>,
       \<lparr>md_name = ''nas'', md_node = 9, md_kind = Leaf, md_wires = [sample_wire ''eno1'' ''a'' 10000],
        md_prefs = [], md_workloads = []\<rparr>],
     d_zones = [
       \<lparr>zd_name = ''storage'', zd_id = 5, zd_pcp = 3, zd_dscp = Cs0, zd_floor_mbps = 4000, zd_band = 2, zd_weight = 1, zd_primary = ''a'',
        zd_segments = [\<lparr>sd_ifname = ''stor-a'', sd_domain = ''a'', sd_seg = 1, sd_vid = 51\<rparr>,
                       \<lparr>sd_ifname = ''stor-b'', sd_domain = ''b'', sd_seg = 2, sd_vid = 52\<rparr>],
        zd_universal = Some \<lparr>ud_ifname = ''stor-any'', ud_seg = 9, ud_vid = 59\<rparr>,
        zd_gw = Some \<lparr>gd_domain = ''any'', gd_vid = 249, gd_router = ''192.168.249.254/24''\<rparr>\<rparr>],
     d_workload = [
       \<lparr>wld_name = ''vms'', wld_uplink = ''vmbr0'', wld_vid = 20, wld_prefix = ''192.168.20.0/24'', wld_gw = ''192.168.20.254'',
        wld_dhcp_server = Some ''10.9.0.1'', wld_allow = [''storage''], wld_router = None, wld_span = None\<rparr>],
     d_forward = \<lparr>fd_enabled = True, fd_allow = [''storage>storage'']\<rparr>,
     d_admin = None, d_marking = None, d_cost = None, d_bfd = None, d_ospf = None, d_bgp = None, d_runtime = None\<rparr>"

definition sample_h1 :: Member where
  "sample_h1 = \<lparr>mem_name = ''h1'', mem_node = 1, mem_kind = Host,
     mem_wires = [\<lparr>wire_name = ''eth1'', wire_domain = ''b'', wire_speed_mbps = 1000\<rparr>,
                  \<lparr>wire_name = ''eth0'', wire_domain = ''a'', wire_speed_mbps = 10000\<rparr>],
     mem_workloads = [\<lparr>mw_name = ''vms'', mw_address = 0xc0a81402, mw_len = 24\<rparr>]\<rparr>"

definition sample_h2 :: Member where
  "sample_h2 = \<lparr>mem_name = ''h2'', mem_node = 2, mem_kind = Host,
     mem_wires = [\<lparr>wire_name = ''eth0'', wire_domain = ''a'', wire_speed_mbps = 10000\<rparr>,
                  \<lparr>wire_name = ''eth1'', wire_domain = ''b'', wire_speed_mbps = 1000\<rparr>],
     mem_workloads = [\<lparr>mw_name = ''vms'', mw_address = 0xc0a81403, mw_len = 24\<rparr>]\<rparr>"

definition sample_nas :: Member where
  "sample_nas = \<lparr>mem_name = ''nas'', mem_node = 9, mem_kind = Leaf,
     mem_wires = [\<lparr>wire_name = ''eno1'', wire_domain = ''a'', wire_speed_mbps = 10000\<rparr>], mem_workloads = []\<rparr>"

lemmas sample_members = sample_h1_def sample_h2_def sample_nas_def

definition sample_fabric :: Fabric where
  "sample_fabric = \<lparr>
     fab_domains = [''a'', ''b''],
     fab_members = [sample_h1, sample_h2, sample_nas],
     fab_zones = [
       \<lparr>zone_name = ''storage'', zone_id = 5, zone_pcp = 3, zone_dscp = Cs0, zone_floor_mbps = 4000, zone_band = 2,
        zone_weight = 1, zone_primary = ''a'',
        zone_gw = Some \<lparr>gw_scope = Universal, gw_vid = 249, gw_router = ''192.168.249.254''\<rparr>\<rparr>],
     fab_segments = [
       \<lparr>seg_ifname = ''stor-a'', seg_scope = InDomain ''a'', seg_zone = ''storage'', seg_seg = 1, seg_vid = 51\<rparr>,
       \<lparr>seg_ifname = ''stor-b'', seg_scope = InDomain ''b'', seg_zone = ''storage'', seg_seg = 2, seg_vid = 52\<rparr>,
       \<lparr>seg_ifname = ''stor-any'', seg_scope = Universal, seg_zone = ''storage'', seg_seg = 9, seg_vid = 59\<rparr>],
     fab_wire_prefs = [\<lparr>pref_member = ''h2'', pref_zone = ''storage'', pref_order = [''eth0'', ''eth1'']\<rparr>],
     fab_leaf_cost_offset = 30000, fab_host_forward = True, fab_forward_allow = [(''storage'', ''storage'')],
     fab_admin_floor_mbps = 100, fab_admin_band = 1, fab_pcp_ctrl = 6, fab_dscp_mark = True,
     fab_bfd_rx_ms = 250, fab_bfd_tx_ms = 250, fab_bfd_mult = 3, fab_bfd_port = 3784, fab_ospf_hello = 1,
     fab_ospf_dead = 3, fab_bgp_as = 65000, fab_bgp_keepalive_s = 1, fab_bgp_hold_s = 3, fab_bgp_connect_s = 3,
     fab_run_dir = ''/run/cfab'', fab_dns_domain = ''lab'',
     fab_workloads = [
       \<lparr>wl_name = ''vms'', wl_uplink = ''vmbr0'', wl_vid = 20, wl_prefix = \<lparr>net = 0xc0a81400, len = 24\<rparr>,
        wl_gw = 0xc0a814fe, wl_dhcp_server = Some 0x0a090001, wl_allow = [''storage'']\<rparr>]\<rparr>"

lemma sample_addresses:
  "parse_ipv4_with_len ''192.168.20.2/24'' = Some (0xc0a81402, 24)"
  "parse_ipv4_with_len ''192.168.20.3/24'' = Some (0xc0a81403, 24)"
  "parse_ipv4 ''192.168.20.254'' = Some 0xc0a814fe" "parse_ipv4 ''10.9.0.1'' = Some 0x0a090001"
  by (simp_all add: parse_ipv4_with_len_def parse_ipv4_def parse_octet_def parse_uint_def digit_val_def u32_from_be_def)

lemma sample_mask: "prefix_mask 24 = 0xffffff00"
  by (simp add: prefix_mask_def push_bit_eq_mult)

lemma sample_prefix: "prefix_parse ''192.168.20.0/24'' = Ok \<lparr>net = 0xc0a81400, len = 24\<rparr>"
  by (simp add: prefix_parse_def parse_ipv4_def parse_octet_def parse_uint_def digit_val_def u32_from_be_def sample_mask)

lemma sample_gw:
  "resolve_gw ''storage'' \<lparr>gd_domain = ''any'', gd_vid = 249, gd_router = ''192.168.249.254/24''\<rparr> =
     Ok \<lparr>gw_scope = Universal, gw_vid = 249, gw_router = ''192.168.249.254''\<rparr>"
  by (simp add: resolve_gw_def Let_def ok_or_def refuse_def parse_uint_def digit_val_def scope_parse_def)

lemma sample_domain: "domain_parse ''a'' = Ok ''a''" "domain_parse ''b'' = Ok ''b''"
  by (simp_all add: domain_parse_def MAX_DOMAIN_TOKEN_def is_ascii_alphabetic_def)

lemma sample_resolves: "resolve_fabric sample_decl = Ok sample_fabric"
  by (simp add: resolve_fabric_def sample_decl_def sample_wire_def sample_fabric_def sample_members resolve_member_def resolve_wire_def
      resolve_member_workload_def resolve_zone_def resolve_segment_def resolve_workload_def resolve_prefs_def
      refuse_retired_workload_keys_def sample_addresses sample_prefix sample_gw sample_domain refuse_def ok_or_def
      or_default_def default_admin_def default_marking_def default_cost_def default_bfd_def default_ospf_def
      default_bgp_def default_runtime_def ADMIN_FLOOR_MBPS_def ADMIN_BAND_def PCP_CTRL_def SET_DSCP_def
      LEAF_OFFSET_def BFD_RX_MS_def BFD_TX_MS_def BFD_MULT_def BFD_PORT_def OSPF_HELLO_S_def OSPF_DEAD_S_def
      BGP_ASN_def BGP_KEEPALIVE_S_def BGP_HOLD_S_def BGP_CONNECT_S_def RUN_DIR_def MIN_BFD_PORT_def)

section \<open>The sample is accepted\<close>

lemma dec_eq_iff: "dec a = dec b \<longleftrightarrow> a = b"
  by (metis digits_val_dec option.inject)

lemma sample_names:
  "check_domains sample_fabric = Ok ()" "check_segments sample_fabric = Ok ()" "check_zones sample_fabric = Ok ()"
  "check_members sample_fabric = Ok ()" "check_forward sample_fabric = Ok ()"
  by (simp_all add: check_domains_def check_member_wires_def check_segments_def check_zones_def check_members_def check_forward_def
      declared_def Let_def outcome_simps sample_fabric_def sample_members wire_on_def zone_of_def refuse_dup_def dup_def refuse_def ok_or_def
      bond_ifname_too_long_def MAX_BOND_IFNAME_def MAX_DOMAIN_TOKEN_def dec_eq_iff)

lemma sample_prefs: "check_wire_prefs sample_fabric = Ok ()"
  by (simp add: check_wire_prefs_def check_wire_pref_def sample_fabric_def sample_members member_of_def zone_of_def ok_or_def wire_named_def
      refuse_def candidate_wires_def Let_def del: set_filter set_map)

lemma sample_leg: "wl_name wl = ''vms'' \<Longrightarrow> leg_ifname wl = ''cfab-work-vms''"
proof -
  assume "wl_name wl = ''vms''"
  moreover have "char_ends ''vms'' = [1, 2, 3]"
    by code_simp
  ultimately show ?thesis
    by (simp add: leg_ifname_def LEG_PREFIX_def IFNAME_MAX_def)
qed

lemma sample_collides: "\<not> leg_collides sample_fabric ''cfab-work-vms''"
  by (simp add: leg_collides_def sample_fabric_def sample_members bond_ifnames_def List.map_filter_simps gw_ifname_def identity_ifnames_def)

lemma sample_blocks:
  "wl_prefix wl = \<lparr>net = 0xc0a81400, len = 24\<rparr> \<Longrightarrow> check_blocks sample_fabric wl = Ok ()"
  by (simp add: check_blocks_def sample_fabric_def sample_members block_parse refuse_def overlaps_def u32_from_be_def prefix_mask_def push_bit_eq_mult)

lemma sample_bits:
  "contains \<lparr>net = 0xc0a81400, len = 24\<rparr> 0xc0a814fe" "\<not> contains \<lparr>net = 0xc0a81400, len = 24\<rparr> 0x0a090001"
  "contains \<lparr>net = 0xc0a81400, len = 24\<rparr> 0xc0a81402" "contains \<lparr>net = 0xc0a81400, len = 24\<rparr> 0xc0a81403"
  "broadcast \<lparr>net = 0xc0a81400, len = 24\<rparr> = 0xc0a814ff"
  by (simp_all add: contains_def broadcast_def sample_mask)

lemma sample_workloads:
  "check_workloads sample_fabric [] (fab_workloads sample_fabric) = Ok ()"
  "for_each (\<lambda>m. check_member_workloads sample_fabric m [] (mem_workloads m)) (fab_members sample_fabric) = Ok ()"
  "for_each (\<lambda>wl. check_addresses wl [] (fab_members sample_fabric)) (fab_workloads sample_fabric) = Ok ()"
proof -
  let ?wl = "hd (fab_workloads sample_fabric)"
  have wl: "fab_workloads sample_fabric = [?wl]" "wl_name ?wl = ''vms''" "wl_prefix ?wl = \<lparr>net = 0xc0a81400, len = 24\<rparr>"
    by (simp_all add: sample_fabric_def sample_members)
  have server: "check_server sample_fabric ?wl = Ok ()"
    by (simp add: check_server_def sample_fabric_def sample_members refuse_def sample_bits)
  have "check_workload sample_fabric [] ?wl = Ok ()"
    using sample_collides sample_leg [OF wl(2)] sample_blocks [OF wl(3)] server
    by (simp add: check_workload_def Let_def refuse_def wl(2,3) MIN_WORKLOAD_PREFIX_LEN_def)
      (simp add: sample_fabric_def sample_members sample_bits)
  then show "check_workloads sample_fabric [] (fab_workloads sample_fabric) = Ok ()"
    by (subst wl(1)) simp
  show "for_each (\<lambda>m. check_member_workloads sample_fabric m [] (mem_workloads m)) (fab_members sample_fabric) = Ok ()"
    "for_each (\<lambda>wl. check_addresses wl [] (fab_members sample_fabric)) (fab_workloads sample_fabric) = Ok ()"
    by (simp_all add: sample_fabric_def sample_members check_member_workload_def Let_def workload_of_def ok_or_def refuse_def sample_bits)
qed

lemma sample_ingress: "for_each (check_ingress sample_fabric) (fab_zones sample_fabric) = Ok ()"
  by (simp add: check_ingress_def sample_fabric_def sample_members refuse_def bond_ifname_too_long_def MAX_BOND_IFNAME_def
      MAX_DOMAIN_TOKEN_def gw_ifname_def dec.simps router_octet_def rsplit_once_def expect_def parse_uint_def digit_val_def)

definition sample_row_a :: "string \<Rightarrow> ClassRow" where
  "sample_row_a wire = \<lparr>cr_ifname = ''stor-a'', cr_wire = wire, cr_zone = ''storage'', cr_seg = 1, cr_vid = 51, cr_ospf_cost = 10\<rparr>"

definition sample_row_b :: "string \<Rightarrow> ClassRow" where
  "sample_row_b wire = \<lparr>cr_ifname = ''stor-b'', cr_wire = wire, cr_zone = ''storage'', cr_seg = 2, cr_vid = 52, cr_ospf_cost = 100\<rparr>"

lemma sample_rows:
  "class_rows_of sample_fabric sample_h1 = Ok [sample_row_a ''eth0'', sample_row_b ''eth1'']"
  "class_rows_of sample_fabric sample_h2 = Ok [sample_row_a ''eth0'', sample_row_b ''eth1'']"
  "class_rows_of sample_fabric sample_nas = Ok [sample_row_a ''eno1'']"
  by (simp_all add: class_rows_of_def filter_map_out_def class_row_def prefs_of_def zone_pref_def wire_pref_def derived_order_def
      candidate_wires_def sample_fabric_def sample_members wire_on_def expect_def ladder_cost_def List.map_filter_simps Let_def
      sample_row_a_def sample_row_b_def)

lemma sample_fabric_members: "fab_members sample_fabric = [sample_h1, sample_h2, sample_nas]"
  by (simp add: sample_fabric_def)

lemma sample_universal: "universal_cost sample_fabric ''storage'' = Ok 210"
proof -
  have "filter (\<lambda>s. seg_zone s = ''storage'' \<and> \<not> is_universal (seg_scope s)) (fab_segments sample_fabric) =
      [\<lparr>seg_ifname = ''stor-a'', seg_scope = InDomain ''a'', seg_zone = ''storage'', seg_seg = 1, seg_vid = 51\<rparr>,
       \<lparr>seg_ifname = ''stor-b'', seg_scope = InDomain ''b'', seg_zone = ''storage'', seg_seg = 2, seg_vid = 52\<rparr>]"
    by (simp add: sample_fabric_def)
  then show ?thesis
    by (simp add: universal_cost_def segment_max_def sample_fabric_members sample_rows filter_map_out_def
        List.map_filter_simps sample_row_a_def sample_row_b_def LADDER_STEP_def)
qed

definition sample_edge :: "string \<Rightarrow> string \<Rightarrow> u32 \<Rightarrow> string \<Rightarrow> edge" where
  "sample_edge a b c i = \<lparr>e_from = a, e_to = b, e_cost = c, e_ifname = i\<rparr>"

definition sample_graph :: "edge list" where
  "sample_graph = [
     sample_edge ''h1'' ''h2'' 10 ''stor-a'', sample_edge ''h1'' ''h2'' 100 ''stor-b'', sample_edge ''h1'' ''h2'' 210 ''stor-any'',
     sample_edge ''h1'' ''nas'' 10 ''stor-a'', sample_edge ''h1'' ''nas'' 210 ''stor-any'',
     sample_edge ''h2'' ''h1'' 10 ''stor-a'', sample_edge ''h2'' ''h1'' 100 ''stor-b'', sample_edge ''h2'' ''h1'' 210 ''stor-any'',
     sample_edge ''h2'' ''nas'' 10 ''stor-a'', sample_edge ''h2'' ''nas'' 210 ''stor-any'',
     sample_edge ''nas'' ''h1'' 30010 ''stor-a'', sample_edge ''nas'' ''h1'' 30210 ''stor-any'',
     sample_edge ''nas'' ''h2'' 30010 ''stor-a'', sample_edge ''nas'' ''h2'' 30210 ''stor-any'']"

lemma sample_member_names: "mem_name sample_h1 = ''h1''" "mem_name sample_h2 = ''h2''" "mem_name sample_nas = ''nas''"
  by (simp_all add: sample_members)

lemma sample_edges: "zone_edges sample_fabric ''storage'' = Ok sample_graph"
proof -
  have universal: "filter (\<lambda>r. is_universal (seg_scope r)) (fab_segments sample_fabric) =
      [\<lparr>seg_ifname = ''stor-any'', seg_scope = Universal, seg_zone = ''storage'', seg_seg = 9, seg_vid = 59\<rparr>]"
    by (simp add: sample_fabric_def)
  have offset: "leaf_offset_of sample_fabric sample_h1 = 0" "leaf_offset_of sample_fabric sample_h2 = 0"
    "leaf_offset_of sample_fabric sample_nas = 30000"
    by (simp_all add: leaf_offset_of_def sample_fabric_def sample_members)
  show ?thesis
    by (simp add: zone_edges_def member_edges_def pair_edges_def sample_fabric_members sample_rows fallback_rows_of_def universal
        filter_map_out_def List.map_filter_simps fallback_row_def bond_home_def home_wire_def sample_universal Let_def offset
        sample_member_names sample_row_a_def sample_row_b_def sample_edge_def sample_graph_def del: set_filter set_map)
qed

lemma sample_out:
  "filter (\<lambda>e. e_from e = ''h1'') sample_graph =
     [sample_edge ''h1'' ''h2'' 10 ''stor-a'', sample_edge ''h1'' ''h2'' 100 ''stor-b'', sample_edge ''h1'' ''h2'' 210 ''stor-any'',
      sample_edge ''h1'' ''nas'' 10 ''stor-a'', sample_edge ''h1'' ''nas'' 210 ''stor-any'']"
  "filter (\<lambda>e. e_from e = ''h2'') sample_graph =
     [sample_edge ''h2'' ''h1'' 10 ''stor-a'', sample_edge ''h2'' ''h1'' 100 ''stor-b'', sample_edge ''h2'' ''h1'' 210 ''stor-any'',
      sample_edge ''h2'' ''nas'' 10 ''stor-a'', sample_edge ''h2'' ''nas'' 210 ''stor-any'']"
  "filter (\<lambda>e. e_from e = ''nas'') sample_graph =
     [sample_edge ''nas'' ''h1'' 30010 ''stor-a'', sample_edge ''nas'' ''h1'' 30210 ''stor-any'',
      sample_edge ''nas'' ''h2'' 30010 ''stor-a'', sample_edge ''nas'' ''h2'' 30210 ''stor-any'']"
  by (simp_all add: sample_graph_def sample_edge_def)

lemmas sample_settle = start_search_def next_node_def expand_def
lemmas sample_relax = sample_out sample_edge_def relax_def count_at_def via_at_def Let_def

lemma sample_searches:
  "counts (search sample_graph (\<lambda>n. n = ''nas'') ''h1'' (start_search ''h1'')) = [(''h1'', 1), (''h2'', 1), (''nas'', 1)]"
  "counts (search sample_graph (\<lambda>n. n = ''nas'') ''h2'' (start_search ''h2'')) = [(''h1'', 1), (''h2'', 1), (''nas'', 1)]"
  "counts (search sample_graph (\<lambda>n. n = ''nas'') ''nas'' (start_search ''nas'')) = [(''h1'', 1), (''h2'', 1), (''nas'', 1)]"
  by ((subst search.simps, simp add: sample_settle, (simp add: sample_relax)?)+)

lemma sample_sources:
  assumes "src \<in> set (fab_members sample_fabric)"
  shows "check_source sample_fabric ''storage'' sample_graph src = Ok ()"
proof -
  have leaf: "is_leaf sample_fabric = (\<lambda>n. n = ''nas'')"
    by (rule ext) (auto simp: is_leaf_def member_of_def ok_or_def sample_fabric_members sample_members)
  show ?thesis
    using assms by (auto simp: sample_fabric_members check_source_def sample_member_names leaf sample_searches)
qed

lemma sample_rank0: "check_rank0_is_shared sample_fabric ''storage'' = Ok ()"
  by (simp add: check_rank0_is_shared_def check_rank0_member_def prefs_of_def zone_pref_def wire_pref_def derived_order_def
      candidate_wires_def shared_domain_def wire_named_def wire_on_def expect_def sample_fabric_def sample_members Let_def)

lemma sample_zones: "map zone_name (fab_zones sample_fabric) = [''storage'']"
  by (simp add: sample_fabric_def)

lemma sample_derived: "validate_derived sample_fabric = Ok ()"
proof -
  obtain z where z: "fab_zones sample_fabric = [z]" "zone_name z = ''storage''"
    using sample_zones by auto
  have "check_universal sample_fabric z = Ok ()"
    by (simp add: check_universal_def z(2) sample_universal refuse_def) (simp add: sample_fabric_def)
  then show ?thesis
    using sample_sources
    by (simp add: validate_derived_def z sample_rank0 check_no_equal_cost_paths_def sample_edges outcome_simps)
qed

lemma sample_checked: "checked sample_fabric"
  by (simp add: checked_def sample_names sample_prefs)

lemma sample_accepted: "from_decl sample_decl = Ok sample_fabric"
  by (simp add: from_decl_def sample_resolves validate_def sample_names sample_prefs sample_workloads sample_ingress sample_derived)

end
