(* ===== verification/Fabric_Paths_Unique.thy ===== *)
theory Fabric_Paths_Unique
  imports Fabric_Sample
begin

text \<open>
  Routing in an accepted fabric: the equal-cost check decides uniqueness of shortest paths, an
  accepted fabric has one shortest path between any two members, the universal segment is
  dearer than every path over domain segments, and each interface cost is the rung of its
  wire's rank.
\<close>

lemma accepted_resolved: "from_decl d = Ok f \<Longrightarrow> resolve_fabric d = Ok f"
  by (auto simp: from_decl_def outcome_simps)

lemma accepted_validated: "from_decl d = Ok f \<Longrightarrow> validate f = Ok ()"
  by (auto simp: from_decl_def outcome_simps)

lemma accepted_checked: "from_decl d = Ok f \<Longrightarrow> checked f"
  using accepted_validated [of d f] by (auto simp: validate_def checked_def outcome_simps)

lemma accepted_sized: "from_decl d = Ok f \<Longrightarrow> sized f"
  using checked_sized accepted_resolved accepted_checked by blast

lemma accepted_derived: "from_decl d = Ok f \<Longrightarrow> validate_derived f = Ok ()"
  using accepted_validated [of d f] by (auto simp: validate_def outcome_simps)

section \<open>Equal-cost paths\<close>

text \<open>C3: the equal-cost check is exact. On a declaration whose names, segments and overrides are
  in order and whose leaf offset is at most sixteen million, it accepts a zone if and only if
  from every member there is at most one shortest path to every other in the derived graph,
  where a leaf is reached but never crossed. Neither the 32-bit costs nor the 32-bit path counts,
  which may wrap around, can deceive it.\<close>

theorem equal_cost_check_exact:
  assumes "resolve_fabric d = Ok f" "checked f" "unat (fab_leaf_cost_offset f) \<le> 16000000"
  shows "\<exists>es. zone_edges f zone = Ok es \<and>
    (check_no_equal_cost_paths f zone = Ok () \<longleftrightarrow>
       (\<forall>src\<in>set (fab_members f). \<forall>dst. one_shortest es (is_leaf f) (mem_name src) dst))"
  using checked_sized [OF assms(1,2)] check_no_equal_cost_Ok [OF _ assms(3)] zone_edges_eq [of f zone]
  by (auto simp: sized_def)

theorem equal_cost_check_exact_witness:
  "check_no_equal_cost_paths sample_fabric ''storage'' = Ok () \<and>
   list_all (\<lambda>src. \<forall>dst. one_shortest sample_graph (is_leaf sample_fabric) (mem_name src) dst) (fab_members sample_fabric)"
proof -
  have "unat (fab_leaf_cost_offset sample_fabric) \<le> 16000000"
    by (simp add: sample_fabric_def)
  moreover have "check_no_equal_cost_paths sample_fabric ''storage'' = Ok ()"
    using sample_sources by (simp add: check_no_equal_cost_paths_def sample_edges outcome_simps)
  ultimately show ?thesis
    using equal_cost_check_exact [OF sample_resolves sample_checked, of "''storage''"]
    by (simp add: sample_edges list_all_iff)
qed



section \<open>The universal segment\<close>

lemma row_cost_le_max:
  assumes f: "sized f" and m: "m \<in> set (fab_members f)" "r \<in> set (the_rows f m)"
    and s: "s \<in> set (fab_segments f)" "cr_ifname r = seg_ifname s"
  shows "unat (cr_ospf_cost r) \<le> unat (the_segment_max f s)"
proof -
  have "distinct (map cr_ifname (the_rows f m))"
    unfolding the_rows_def using f
    by (intro distinct_map_map_filter [where k = seg_ifname]) (auto simp: sized_def segment_row_Some)
  then have "find (\<lambda>x. cr_ifname x = seg_ifname s) (the_rows f m) = Some r"
    using find_distinct [of cr_ifname "the_rows f m" r] m(2) s(2) by simp
  then have "cr_ospf_cost r \<in> set (member_costs f s)"
    using m(1) by (force simp: member_costs_def List.map_filter_def)
  then have "cr_ospf_cost r \<le> the_segment_max f s"
    unfolding the_segment_max_def by (intro fold_max_ge) simp
  then show ?thesis
    by (simp add: word_le_nat_alt)
qed

text \<open>A path over domain segments that uses each segment at most once, as the rows of the
  interfaces it leaves by.\<close>

definition segment_path :: "Fabric \<Rightarrow> string \<Rightarrow> ClassRow list \<Rightarrow> bool" where
  "segment_path f zone hops \<longleftrightarrow>
     distinct (map cr_ifname hops) \<and>
     (\<forall>r\<in>set hops. cr_zone r = zone \<and>
        (\<exists>m\<in>set (fab_members f). \<exists>rows. class_rows_of f m = Ok rows \<and> r \<in> set rows))"

lemma segment_path_cost:
  assumes f: "sized f" and "segment_path f zone hops"
  shows "(\<Sum>r\<leftarrow>hops. unat (cr_ospf_cost r)) \<le> (\<Sum>s\<leftarrow>domain_segments f zone. unat (the_segment_max f s))"
proof -
  have "\<exists>s. s \<in> set (domain_segments f zone) \<and> seg_ifname s = cr_ifname r \<and>
      unat (cr_ospf_cost r) \<le> unat (the_segment_max f s)" if r: "r \<in> set hops" for r
  proof -
    obtain m where m: "m \<in> set (fab_members f)" "r \<in> set (the_rows f m)" and zone: "cr_zone r = zone"
      using assms(2) r class_rows_total [OF sized_ranked [OF f]] by (fastforce simp: segment_path_def)
    then obtain s where s: "s \<in> set (fab_segments f)" "segment_row f m s = Some r"
      by (auto simp: the_rows_iff)
    then have "cr_ifname r = seg_ifname s" "s \<in> set (domain_segments f zone)"
      using zone by (cases "seg_scope s"; auto simp: segment_row_Some domain_segments_def)+
    then show ?thesis
      using row_cost_le_max [OF f m s(1)] by auto
  qed
  then obtain g where g: "\<And>r. r \<in> set hops \<Longrightarrow> g r \<in> set (domain_segments f zone) \<and> seg_ifname (g r) = cr_ifname r \<and>
      unat (cr_ospf_cost r) \<le> unat (the_segment_max f (g r))"
    by metis
  have names: "distinct (map seg_ifname (domain_segments f zone))"
    using f by (simp add: sized_def domain_segments_def distinct_map_filter)
  have inj: "inj_on g (set hops)" and hops: "distinct hops"
    using assms(2) g by (auto simp: segment_path_def distinct_map inj_on_def) metis
  have "(\<Sum>r\<leftarrow>hops. unat (cr_ospf_cost r)) = (\<Sum>r\<in>set hops. unat (cr_ospf_cost r))"
    using hops by (simp add: sum_list_distinct_conv_sum_set)
  also have "\<dots> \<le> (\<Sum>r\<in>set hops. unat (the_segment_max f (g r)))"
    using g by (intro sum_mono) blast
  also have "\<dots> = (\<Sum>s\<in>g ` set hops. unat (the_segment_max f s))"
    using inj by (simp add: sum.reindex)
  also have "\<dots> \<le> (\<Sum>s\<in>set (domain_segments f zone). unat (the_segment_max f s))"
    using g by (intro sum_mono2) auto
  also have "\<dots> = (\<Sum>s\<leftarrow>domain_segments f zone. unat (the_segment_max f s))"
    using names by (simp add: sum_list_distinct_conv_sum_set distinct_map)
  finally show ?thesis .
qed

text \<open>The universal segment is the last resort, and stays below a leaf. In an accepted fabric
  its derived cost exceeds by a whole ladder step the cost of every path over domain segments
  of its zone that uses each segment once, without wrapping around, and it is below the leaf
  offset whenever the zone has a universal segment.\<close>

theorem universal_above_domain_paths:
  assumes "from_decl d = Ok f" "segment_path f zone hops"
  shows "\<exists>cost. universal_cost f zone = Ok cost \<and> (\<Sum>r\<leftarrow>hops. unat (cr_ospf_cost r)) + 100 \<le> unat cost \<and>
    (zone \<in> zone_name ` set (fab_zones f) \<and> (\<exists>s\<in>set (fab_segments f). seg_zone s = zone \<and> seg_scope s = Universal) \<longrightarrow>
       unat cost < unat (fab_leaf_cost_offset f))"
proof -
  have f: "sized f"
    by (rule accepted_sized [OF assms(1)])
  then have cost: "universal_cost f zone = Ok (the_universal_cost f zone)"
    by (simp add: universal_cost_eq sized_def)
  have "the_universal_cost f zone < fab_leaf_cost_offset f"
    if "z \<in> set (fab_zones f)" "zone_name z = zone" "s \<in> set (fab_segments f)" "seg_zone s = zone" "seg_scope s = Universal" for z s
  proof -
    have "check_universal f z = Ok ()"
      using accepted_derived [OF assms(1)] that(1) by (auto simp: validate_derived_def outcome_simps)
    moreover have "\<exists>s\<in>set (fab_segments f). seg_zone s = zone_name z \<and> is_universal (seg_scope s)"
      using that by (intro bexI [of _ s]) simp_all
    ultimately show ?thesis
      using that(2) cost by (simp add: check_universal_def outcome_simps not_le)
  qed
  then show ?thesis
    using cost universal_cost_exact(1) [OF f, of zone] segment_path_cost [OF f assms(2)]
    by (auto simp: word_less_nat_alt)
qed

theorem universal_above_domain_paths_witness:
  "\<exists>cost. universal_cost sample_fabric ''storage'' = Ok cost \<and> 10 + 100 + 100 \<le> unat cost \<and> unat cost < 30000"
proof -
  have "segment_path sample_fabric ''storage'' [sample_row_a ''eth0'', sample_row_b ''eth1'']"
    by (simp add: segment_path_def sample_fabric_members sample_rows)
      (simp add: sample_row_a_def sample_row_b_def)
  then have "\<exists>cost. universal_cost sample_fabric ''storage'' = Ok cost \<and>
      (\<Sum>r\<leftarrow>[sample_row_a ''eth0'', sample_row_b ''eth1'']. unat (cr_ospf_cost r)) + 100 \<le> unat cost \<and>
      (''storage'' \<in> zone_name ` set (fab_zones sample_fabric) \<and>
         (\<exists>s\<in>set (fab_segments sample_fabric). seg_zone s = ''storage'' \<and> seg_scope s = Universal) \<longrightarrow>
         unat cost < unat (fab_leaf_cost_offset sample_fabric))"
    by (rule universal_above_domain_paths [OF sample_accepted])
  then show ?thesis
    by (simp add: sample_fabric_def sample_row_a_def sample_row_b_def)
qed

end
