(* ===== verification/Prober_Start.thy ===== *)
theory Prober_Start
  imports Prober_Rules Fabric_Sample Fabric_Paths_Unique
begin

text \<open>
  The prober of a member of an accepted fabric: it starts, every leg has a port to hold, and the
  ports of a leg ask from different addresses, so a reply names the wire it came over.
\<close>

definition leg_fresh :: "Leg \<Rightarrow> bool" where
  "leg_fresh l \<longleftrightarrow> lg_held l \<in> pp_ifname ` set (lg_ports l) \<and> distinct (map pp_mac (lg_ports l)) \<and>
     list_all (\<lambda>s. pp_recent s = [] \<and> \<not> pp_escalating s \<and> \<not> pp_hello_dead s \<and> \<not> pp_present s) (lg_ports l) \<and>
     (is_ingress l \<or> lg_actuates l) \<and> lg_moves l = 0 \<and> lg_refused l = None"

lemma new_leg_fresh:
  assumes "ports \<noteq> []" "distinct (map pp_mac ports)" "actuates \<or> (\<exists>r. kind = Ingress r)"
    and "list_all (\<lambda>s. pp_recent s = [] \<and> \<not> pp_escalating s \<and> \<not> pp_hello_dead s \<and> \<not> pp_present s) ports"
  shows "leg_fresh (new_leg zone bond actuates prefs home ports kind)"
proof -
  have "lg_held (new_leg zone bond actuates prefs home ports kind) \<in> pp_ifname ` set ports"
  proof (cases "find (\<lambda>s. pp_wire s = home) ports")
    case None
    then show ?thesis
      using assms(1) by (cases ports) (simp_all add: new_leg_def)
  next
    case (Some s)
    then have "s \<in> set ports"
      by (auto simp: find_Some_iff)
    then show ?thesis
      using Some by (simp add: new_leg_def)
  qed
  moreover have "lg_ports (new_leg zone bond actuates prefs home ports kind) = ports"
    by (simp add: new_leg_def)
  ultimately show ?thesis
    using assms(2-4) by (auto simp: leg_fresh_def new_leg_def is_ingress_def)
qed

lemma bond_ports_fresh:
  assumes "length ps \<le> 52"
  shows "distinct (map pp_mac (bond_ports v z ps))"
    "list_all (\<lambda>s. pp_recent s = [] \<and> \<not> pp_escalating s \<and> \<not> pp_hello_dead s \<and> \<not> pp_present s) (bond_ports v z ps)"
    "bond_ports v z ps = [] \<longleftrightarrow> ps = []"
proof -
  have m: "map pp_mac (bond_ports v z ps) = map (\<lambda>i. synthetic_mac (mem_node (v_member v)) (zone_id z) (word_of_nat i)) [0..<length ps]"
    by (rule nth_equalityI) (simp_all add: bond_ports_def new_port_def nth_enumerate_eq)
  have "inj_on (\<lambda>i. synthetic_mac (mem_node (v_member v)) (zone_id z) (word_of_nat i)) {0..<length ps}"
  proof (rule inj_onI)
    fix i j assume ij: "i \<in> {0..<length ps}" "j \<in> {0..<length ps}"
      "synthetic_mac (mem_node (v_member v)) (zone_id z) (word_of_nat i) = synthetic_mac (mem_node (v_member v)) (zone_id z) (word_of_nat j)"
    then have "unat (word_of_nat i :: u8) = unat (word_of_nat j :: u8)"
      by (simp add: synthetic_mac_def)
    then show "i = j"
      using ij(1,2) assms by (simp add: unat_of_nat)
  qed
  then show "distinct (map pp_mac (bond_ports v z ps))"
    unfolding m by (simp add: distinct_map)
qed (auto simp: bond_ports_def new_port_def list_all_iff enumerate_eq_zip)

lemma ports_of_facts: "length (ports_of m i) = length (mem_wires m)" "ports_of m i = [] \<longleftrightarrow> mem_wires m = []"
  by (simp_all add: ports_of_def)

lemma the_home_ports:
  assumes "the_home f m zone (ports_of m i) = Some h"
  shows "ports_of m i \<noteq> []"
proof (cases "ports_of m i")
  case Nil
  have "home_loop zone best rows = best" if "rows = []" for best rows
    using that by simp
  moreover have "the_rows f m = []"
  proof (rule ccontr)
    assume "the_rows f m \<noteq> []"
    then obtain r where "r \<in> set (the_rows f m)"
      by (cases "the_rows f m") auto
    then show False
      using Nil by (auto simp: the_rows_iff segment_row_Some ports_of_facts wire_on_def find_Some_iff)
  qed
  ultimately show ?thesis
    using assms Nil by (simp add: the_home_def)
qed simp

lemma gw_row_ports:
  assumes "ranked f m" "gw_row f m z = Ok (Some r)"
  shows "gr_ports r = [] \<or> gr_ports r = ports_of m (gr_ifname r)"
  using assms by (auto simp: gw_row_def Let_def bond_home_eq split: option.splits SegScope.splits)

lemma ingress_leg_fresh:
  assumes "ingress_leg v r = Some l" "gr_ports r = [] \<or> gr_ports r = ports_of (v_member v) i" "length (mem_wires (v_member v)) \<le> 52"
  shows "leg_fresh l"
proof -
  obtain z router where l: "l = new_leg (gr_zone r) (gr_ifname r) (migrates r) (prefs_for v (gr_zone r)) (gr_home r)
      (if migrates r then bond_ports v z (gr_ports r)
       else [new_port (gr_ifname r) (gr_home r) (island_of v (gr_home r)) (synthetic_mac (mem_node (v_member v)) (zone_id z) 0)])
      (Ingress router)"
    using assms(1) by (auto simp: ingress_leg_def bind_eq_Some_conv split: option.splits)
  have len: "length (gr_ports r) \<le> 52"
    using assms(2,3) by (auto simp: ports_of_facts)
  show ?thesis
    unfolding l using bond_ports_fresh [OF len, of v z]
    by (intro new_leg_fresh) (auto simp: migrates_def new_port_def)
qed

lemma fallback_leg_fresh:
  assumes "all_ranked f" "m \<in> set (fab_members f)" "length (mem_wires m) \<le> 52" "r \<in> set (the_fallbacks f m)"
  shows "\<exists>x. fallback_leg \<lparr>v_fabric = f, v_member = m\<rparr> r = Ok x \<and> (\<forall>l. x = Some l \<longrightarrow> leg_fresh l)"
proof -
  let ?v = "\<lparr>v_fabric = f, v_member = m\<rparr>"
  have "fallback_rows_of f m' = Ok (the_fallbacks f m')" if "m' \<in> set (fab_members f)" for m'
    using fallback_rows_total [OF assms(1) that] .
  then have "peer_members ?v zone = Ok (List.map_filter (\<lambda>m. if list_ex (\<lambda>p. fr_zone p = zone) (the_fallbacks f m) then Some m else None)
      (filter (\<lambda>m'. mem_name m' \<noteq> mem_name m) (fab_members f)))" for zone
    unfolding peer_members_def View.select_convs by (intro filter_map_out_eq) simp
  moreover obtain i zone h where "fr_ports r = ports_of m i" "the_home f m zone (ports_of m i) = Some h"
    using assms(4) by (auto simp: the_fallbacks_def the_fallback_def List.map_filter_def)
  then have "fr_ports r \<noteq> []" "length (fr_ports r) \<le> 52"
    using the_home_ports assms(3) by (auto simp: ports_of_facts)
  ultimately show ?thesis
    using bond_ports_fresh [of "fr_ports r" ?v]
    by (auto simp: fallback_leg_def split: option.splits intro!: new_leg_fresh)
qed

text \<open>The prober of any member of an accepted fabric starts: its legs are derived without a panic,
  each leg has a port to hold from the start, no port is condemned or being asked, the ports of a leg
  ask from pairwise different hardware addresses, and every fallback leg is one the prober moves.\<close>

theorem prober_starts:
  assumes "from_decl d = Ok f" "m \<in> set (fab_members f)"
  shows "\<exists>p. from_view \<lparr>v_fabric = f, v_member = m\<rparr> = Ok p \<and> list_all leg_fresh (pr_legs p)"
proof -
  let ?v = "\<lparr>v_fabric = f, v_member = m\<rparr>"
  have f: "sized f" "ranked f m"
    using accepted_sized [OF assms(1)] sized_ranked assms(2) by blast+
  have ranked: "all_ranked f" and wires: "length (mem_wires m) \<le> 52"
    using f assms(2) by (auto simp: sized_def)
  obtain gs where gs: "gw_rows ?v = Ok gs"
    using gw_rows_total [OF ranked assms(2)] by (auto simp: gw_rows_def)
  have ports: "gr_ports r = [] \<or> gr_ports r = ports_of m (gr_ifname r)" if "r \<in> set gs" for r
  proof -
    have "\<exists>z. gw_row f m z = Ok (Some r)"
      using gs that by (auto simp: gw_rows_def gw_rows_of_def filter_map_out_def outcome_simps List.map_filter_def split: if_splits)
        (metis map_out_all)
    then show ?thesis
      using gw_row_ports [OF f(2)] by blast
  qed
  have fs: "fallback_rows ?v = Ok (the_fallbacks f m)"
    using fallback_rows_total [OF ranked assms(2)] by (simp add: fallback_rows_def)
  obtain h where h: "\<And>r. r \<in> set (the_fallbacks f m) \<Longrightarrow> fallback_leg ?v r = Ok (h r) \<and> (\<forall>l. h r = Some l \<longrightarrow> leg_fresh l)"
    using fallback_leg_fresh [OF ranked assms(2) wires] by metis
  have legs: "filter_map_out (fallback_leg ?v) (the_fallbacks f m) = Ok (List.map_filter h (the_fallbacks f m))"
    using h by (intro filter_map_out_eq) blast
  have "list_all leg_fresh (List.map_filter (ingress_leg ?v) gs @ List.map_filter h (the_fallbacks f m))"
    using h ports ingress_leg_fresh [of ?v] wires by (fastforce simp: list_all_iff List.map_filter_def)
  then show ?thesis
    using gs fs legs by (simp add: from_view_def Let_def)
qed

theorem prober_starts_witness:
  "\<exists>p. from_view \<lparr>v_fabric = sample_fabric, v_member = sample_nas\<rparr> = Ok p \<and> list_all leg_fresh (pr_legs p)"
  using prober_starts [OF sample_accepted, of sample_nas] by (simp add: sample_fabric_members)

end
