(* ===== verification/Prober_Grace.thy ===== *)
theory Prober_Grace
  imports Prober_Start
begin

text \<open>
  The grace period of a fallback leg: a port that has just appeared or has just been promoted is
  neither suspected nor condemned while it lasts, so the bond does not bounce between two wires.
  The theory ends with the instances the properties of the prober are applied to.
\<close>

section \<open>A port in its grace period\<close>

definition settled :: "ProbePort \<Rightarrow> bool" where
  "settled s \<longleftrightarrow> reachable (pp_state s) \<and> \<not> pp_hello_dead s \<and> \<not> pp_escalating s"

definition stays :: "ProbePort \<Rightarrow> ProbePort \<Rightarrow> bool" where
  "stays s s' \<longleftrightarrow> (settled s \<and> pp_present s \<longrightarrow> settled s' \<and> pp_grace_until s' = pp_grace_until s)"

lemma fold_frames_keeps:
  assumes "foldl (fold_frame f active now) (t, r, h) frames = (s', r', h')"
  shows "pp_state s' = pp_state t \<and> pp_escalating s' = pp_escalating t \<and> pp_hello_dead s' = pp_hello_dead t \<and>
    pp_grace_until s' = pp_grace_until t"
  using assms
  by (induction frames arbitrary: t r h) (auto simp: fold_frame_def saw_def split: option.splits if_splits)

lemma hear_port_stays:
  assumes "settled s"
  shows "settled (hear_port (FallbackKind f) active now frames s) \<and>
    pp_grace_until (hear_port (FallbackKind f) active now frames s) = pp_grace_until s"
proof -
  obtain s1 replied heard_now where r: "foldl (fold_frame f active now) (s, False, False) frames = (s1, replied, heard_now)"
    by (metis prod_cases3)
  show ?thesis
    using assms r fold_frames_keeps [OF r] by (simp add: hear_port_def Let_def settled_def heard_def)
qed

lemma read_state_stays:
  assumes "read_state zone kind answer s g = (present, s', g')"
  shows "pp_state s' = pp_state s \<and> pp_escalating s' = pp_escalating s \<and> pp_hello_dead s' = pp_hello_dead s \<and>
    pp_grace_until s' = pp_grace_until s \<and> pp_present s' = pp_present s"
  using assms by (auto simp: read_state_def Let_def split: sum.splits option.splits BondLink.splits if_splits)

lemma observe_port_stays:
  assumes "observe_port zone (FallbackKind f) active now s (w, g) = (s', w', g')"
  shows "stays s s'"
  unfolding stays_def
proof
  assume a: "settled s \<and> pp_present s"
  obtain answer u where u: "p_port_state (pp_ifname s) w = (answer, u)"
    by (cases "p_port_state (pp_ifname s) w")
  obtain present s1 g1 where b: "read_state zone (FallbackKind f) answer s g = (present, s1, g1)"
    by (metis prod_cases3)
  define s2 where "s2 = appear (FallbackKind f) now present s1"
  have s2: "settled s2" "pp_grace_until s2 = pp_grace_until s"
    using a read_state_stays [OF b] by (simp_all add: s2_def appear_def settled_def)
  have l: "listen_port (FallbackKind f) active now s2 (u, g1) = (s', w', g')"
    using assms u b by (simp add: observe_port_def s2_def)
  obtain failed v where v: "p_listen (pp_ifname s2) u = (failed, v)"
    by (cases "p_listen (pp_ifname s2) u")
  show "settled s' \<and> pp_grace_until s' = pp_grace_until s"
  proof (cases failed)
    case (Some e)
    then show ?thesis
      using l v s2 by (auto simp: listen_port_def Let_def settled_def split: if_splits)
  next
    case None
    have "settled (s2\<lparr>pp_deaf := None\<rparr>)"
      using s2(1) by (simp add: settled_def)
    note hear_port_stays [OF this]
    then show ?thesis
      using l v None s2(2) by (auto simp: listen_port_def recv_port_def split: prod.splits)
  qed
qed

lemma observe_ports_stay:
  assumes "each_port (observe_port zone (FallbackKind f) active now) ss c = (ss', c')"
  shows "list_all2 stays ss ss'"
proof -
  have "list_all2 stays ss ss' \<and> True \<and> True"
  proof (rule each_port_rel [OF assms])
    fix s and c :: "World \<times> Gathered" and s' c' assume "observe_port zone (FallbackKind f) active now s c = (s', c')"
    then show "stays s s' \<and> True \<and> True"
      using observe_port_stays [of zone f active now s "fst c" "snd c" s' "fst c'" "snd c'"] by simp
  qed simp_all
  then show ?thesis
    by simp
qed

lemma condemn_spares:
  assumes "condemn parse zone bond cs (ports, f, w, log) = (ports', f', w', log')" "length cs = length ports" "k < length ports" "\<not> cs ! k"
  shows "ports' ! k = ports ! k \<and> length ports' = length ports"
  using assms by (auto simp: condemn_def Let_def split: if_splits option.splits prod.splits)

lemma judge_fallback_stays:
  assumes "judge_fallback parse zone bond active now f ports w log = (ports', f', w', log')"
    and "k < length ports" "settled (ports ! k)" "pp_grace_until (ports ! k) = Some t" "now < t"
  shows "settled (ports' ! k) \<and> length ports' = length ports"
proof -
  define vs where "vs = verdicts now (map (port_evidence active) ports) (fb_windows f) (fb_peers f \<noteq> {})"
  define cs where "cs = map (\<lambda>(s, v). condemned f active now s v) (zip ports vs)"
  have len: "length vs = length ports" "length cs = length ports"
    by (simp_all add: vs_def cs_def verdicts_def Let_def)
  have v: "vs ! k = Good \<or> vs ! k = Watch"
    using assms(2,4,5) by (simp add: vs_def verdicts_map verdict_of_heard_within) (simp add: port_evidence_def)
  then have c: "\<not> cs ! k"
    using assms(2) len by (auto simp: cs_def condemned_def)
  obtain ports1 f1 w1 log1 where 1: "condemn parse zone bond cs (ports, f, w, log) = (ports1, f1, w1, log1)"
    by (metis prod_cases4)
  have "ports' = map (\<lambda>(s, v). settle v s) (zip ports1 vs)"
    using assms(1) 1 unfolding judge_fallback_def Let_def vs_def [symmetric] cs_def [symmetric] by simp
  then show ?thesis
    using condemn_spares [OF 1 len(2) assms(2) c] v assms(2,3) len by (auto simp: settled_def)
qed

lemma settled_note [simp]: "settled (note_usability s) = settled s"
  by (simp add: settled_def note_usability_def Let_def)

lemma seen_settled:
  assumes "leg_seen parse now l w log = (active, seen)" "lg_kind l = FallbackKind f" "k < length (lg_ports l)"
    and "settled (lg_ports l ! k)" "pp_present (lg_ports l ! k)" "pp_grace_until (lg_ports l ! k) = Some t" "now < t"
  shows "settled (lg_ports seen ! k)"
proof -
  obtain l0 w0 where 0: "(if lg_actuates l then read_active l w else (None, l, w)) = (active, l0, w0)"
    using assms(1) by (auto simp: leg_seen_def split: prod.splits)
  have k0: "lg_kind l0 = FallbackKind f" "lg_ports l0 = lg_ports l"
    using 0 assms(2) by (auto simp: read_active_def Let_def split: if_splits option.splits prod.splits)
  obtain w1 log1 where 1: "observe_leg parse active now l0 (w0, log) = (seen, w1, log1)"
    using assms(1) 0 by (auto simp: leg_seen_def split: prod.splits)
  obtain ports u g where p: "each_port (observe_port (lg_zone l0) (FallbackKind f) active now) (lg_ports l)
      (w0, \<lparr>ga_deaf = 0, ga_newly_deaf = [], ga_nl_err = None, ga_log = log\<rparr>) = (ports, u, g)"
    by (metis prod_cases3)
  have "stays (lg_ports l ! k) (ports ! k)" "length ports = length (lg_ports l)"
    using observe_ports_stay [OF p] assms(3) by (auto simp: list_all2_conv_all_nth)
  then have s: "settled (ports ! k)" "pp_grace_until (ports ! k) = Some t" "k < length ports"
    using assms(3-6) by (simp_all add: stays_def)
  obtain l1 lg1 where n: "note_nl_err (ga_nl_err g) (l0\<lparr>lg_ports := ports\<rparr>) (ga_log g) = (l1, lg1)"
    by (cases "note_nl_err (ga_nl_err g) (l0\<lparr>lg_ports := ports\<rparr>) (ga_log g)")
  note l1 = note_nl_err_fields [OF n]
  define all_deaf where "all_deaf \<longleftrightarrow> ga_deaf g > 0 \<and> ga_deaf g = length ports"
  obtain ports2 f2 w2 log2 where j: "judge_fallback parse (lg_zone l0) (lg_bond l0) active now (f\<lparr>fb_noted_deaf := False\<rparr>) ports u
      (lg1 @ map (deaf_line (lg_zone l0) False) (ga_newly_deaf g)) = (ports2, f2, w2, log2)"
    by (metis prod_cases4)
  have "lg_ports seen = map note_usability (if all_deaf then ports else ports2)"
    using 1 p n l1 k0 j by (auto simp: observe_leg_def Let_def all_deaf_def [symmetric])
  then show ?thesis
    using s judge_fallback_stays [OF j s(3,1,2) assms(7)] by simp
qed

lemma port_at_nth:
  assumes "distinct (map pp_ifname ss)" "k < length ss"
  shows "port_at (pp_ifname (ss ! k)) ss = Some (ss ! k)"
  unfolding port_at_def find_Some_iff
  using assms by (intro exI [of _ k]) (auto simp: distinct_conv_nth)


section \<open>Instances\<close>

text \<open>Two wires, of which the first is preferred. On the ingress leg the active wire has lost its
  carrier; on the fallback leg the first wire is condemned while frames that are no hello keep arriving, or it
  is in its grace period.\<close>

definition sample_port :: "string \<Rightarrow> string \<Rightarrow> u8 \<Rightarrow> ProbePort" where
  "sample_port i w n = new_port i w ''a'' (synthetic_mac 1 2 n)"

definition port_answer :: "bool \<Rightarrow> PortState" where
  "port_answer c = \<lparr>ps_link = Some Up, ps_carrier = c\<rparr>"

definition sample_world :: "bool \<Rightarrow> World" where
  "sample_world c = \<lparr>pw_ops = [], pw_read = (\<lambda>_ _. Some ''p0''), pw_port = (\<lambda>_ i. Inr (port_answer (c \<or> i \<noteq> ''p0''))),
     pw_write = (\<lambda>_ _ _. None), pw_active = (\<lambda>_ _ _. None), pw_request = (\<lambda>_ _ _. None), pw_listen = (\<lambda>_ _. None),
     pw_send = (\<lambda>_ _ _. True), pw_recv = (\<lambda>_ _. Some [replicate 60 0])\<rparr>"

definition sample_fallback :: Fallback where
  "sample_fallback = \<lparr>fb_targets = [0x0A020103], fb_peers = {0x0A020003}, fb_self_rid = 0x0A020001, fb_windows = from_ospf 1 4,
     fb_quiet_now = False, fb_noted_quiet = False, fb_noted_deaf = False, fb_engine_sock = ''/run/cfab/engine.sock'',
     fb_noted_engine_unreadable = False\<rparr>"

definition sample_leg :: "(ProbePort \<Rightarrow> ProbePort) \<Rightarrow> Kind \<Rightarrow> Leg" where
  "sample_leg f = new_leg ''stor'' ''bond0'' True [''w0'', ''w1''] ''w0'' [f (sample_port ''p0'' ''w0'' 0), sample_port ''p1'' ''w1'' 1]"


lemma sample_frame: "hello_router_id (replicate 60 0) = None"
  by (simp add: hello_router_id_def get_range_def be16_def u16_from_be_def ETHERTYPE_VLAN_def ETHERTYPE_QINQ_def ETHERTYPE_IPV4_def)

theorem condemned_until_hello_witness:
  "\<exists>l' w' log'. foldl (leg_step (\<lambda>_. None)) (sample_leg (pp_hello_dead_update (\<lambda>_. True)) (FallbackKind sample_fallback), sample_world True, [])
       [1, 2, 3] = (l', w', log') \<and> out_of_running ''p0'' l' \<and> never_onto ''p0'' (pw_ops w')"
proof -
  let ?l = "sample_leg (pp_hello_dead_update (\<lambda>_. True)) (FallbackKind sample_fallback)"
  obtain l' w' log' where t: "foldl (leg_step (\<lambda>_. None)) (?l, sample_world True, []) [1, 2, 3] = (l', w', log')"
    by (metis prod_cases3)
  have "lg_kind ?l = FallbackKind sample_fallback" "out_of_running ''p0'' ?l"
    by (simp_all add: sample_leg_def new_leg_def out_of_running_def sample_port_def new_port_def)
  moreover have "\<forall>n fs fr. pw_recv (sample_world True) n ''p0'' = Some fs \<and> fr \<in> set fs \<longrightarrow> no_hello sample_fallback fr"
    by (simp add: sample_world_def no_hello_def sample_frame)
  ultimately have "out_of_running ''p0'' l' \<and> (\<exists>ps. pw_ops w' = pw_ops (sample_world True) @ ps \<and> never_onto ''p0'' ps)"
    using t by (rule condemned_until_hello)
  then show ?thesis
    using t by (auto simp: sample_world_def)
qed

theorem fallback_asks_little_witness:
  "\<exists>l w log l' w' log' active seen g.
     foldl (leg_step (\<lambda>_. None)) (sample_leg id (FallbackKind sample_fallback), sample_world True, []) [] = (l, w, log) \<and>
     leg_tick (\<lambda>_. None) 1 l (w, log) = (l', w', log') \<and> leg_seen (\<lambda>_. None) 1 l w log = (active, seen) \<and>
     filter is_send (drop (length (pw_ops w)) (pw_ops w')) = concat (map (\<lambda>s. probes s (asked g 1 s)) (lg_ports seen))"
proof -
  let ?l = "sample_leg id (FallbackKind sample_fallback)"
  obtain l' w' log' where t: "leg_tick (\<lambda>_. None) 1 ?l (sample_world True, []) = (l', w', log')"
    by (metis prod_cases3)
  have "list_all (\<lambda>s. pp_recent s = []) (lg_ports ?l)" "lg_kind ?l = FallbackKind sample_fallback"
    by (simp_all add: sample_leg_def new_leg_def sample_port_def new_port_def)
  from fallback_asks_little [OF this(1) _ this(2) t, where nows = "[]"] show ?thesis
    using t by fastforce
qed


end
