(* ===== verification/Workload_Table.thy ===== *)
theory Workload_Table
  imports Ordered_Map Ipv4_Prefix Machines
begin

text \<open>
  The neighbor write table (\<open>src/src/workload/table.rs\<close>): the lease clamp, the admission cap
  and the table of claims with its dirty queue. The table is the state behind the source's one
  mutex; every method takes the state and returns the new one, so a run of the host is a
  sequence of calls, whichever tasks make them. \<open>dirty\<close> (a \<open>tokio::sync::Notify\<close>) is the
  permit bit \<open>notified\<close>.

  Main facts: every dirty entry is queued, so no claim is lost; a row never grows past the cap
  it is admitted under; the drain hands out the oldest live claim and never an expired one; a
  queued claim is reached within as many takes as there are keys before it, whatever other
  calls come in between.
\<close>

section \<open>Leases and caps\<close>

definition MIN_LEASE :: duration where "MIN_LEASE = from_secs 60"
definition MAX_LEASE :: duration where "MAX_LEASE = from_secs (24 * 60 * 60)"
definition NO_LEASE_DEFAULT :: duration where "NO_LEASE_DEFAULT = from_secs (60 * 60)"
definition GC_THRESH3_DEFAULT :: nat where "GC_THRESH3_DEFAULT = 1024"
definition GC_THRESH3_PATH :: string where
  "GC_THRESH3_PATH = ''/proc/sys/net/ipv4/neigh/default/gc_thresh3''"

definition clamp_lease :: "u32 option \<Rightarrow> duration" where
  "clamp_lease option_51 =
     (case option_51 of
        None \<Rightarrow> NO_LEASE_DEFAULT
      | Some secs \<Rightarrow> min (max (from_secs (unat secs)) MIN_LEASE) MAX_LEASE)"

datatype CapBound = Prefix | GcThresh3

text \<open>The counts below are \<open>u32\<close> in the source; they are only ever compared, halved, divided
  and saturated, so natural numbers with the saturation written out are the same values.\<close>

record RowCap =
  cap_value :: nat
  bound_by :: CapBound
  cap_gc_thresh3 :: nat
  cap_rows :: nat

definition prefix_str :: "Ipv4Prefix \<Rightarrow> string" where
  "prefix_str p = ipv4_str (net p) @ ''/'' @ dec (unat (len p))"

definition refusal_line :: "RowCap \<Rightarrow> string \<Rightarrow> ipv4 \<Rightarrow> Ipv4Prefix \<Rightarrow> string" where
  "refusal_line c row addr prefix =
     (let head = ''cfab: workload '' @ row @ '': dhcp ack for '' @ ipv4_str addr @
                 '' refused: this row already holds C = '' @ dec (cap_value c) @
                 '' neighbor claims'' in
      case bound_by c of
        Prefix \<Rightarrow> head @ '', which is every host address in prefix '' @ prefix_str prefix @
          ''; gc_thresh3 = '' @ dec (cap_gc_thresh3 c) @ '' allows more, so raising it does not raise C''
      | GcThresh3 \<Rightarrow>
          if cap_gc_thresh3 c < GC_THRESH3_DEFAULT then
            head @ '', bound by gc_thresh3 = '' @ dec (cap_gc_thresh3 c) @ '' halved across '' @
              dec (cap_rows c) @ '' workload row(s); raise gc_thresh3 toward its '' @
              dec GC_THRESH3_DEFAULT @ '' default to raise C''
          else
            head @ '', bound by gc_thresh3 = '' @ dec (cap_gc_thresh3 c) @ '' halved across '' @
              dec (cap_rows c) @ '' workload row(s); C never exceeds half the kernel default of '' @
              dec GC_THRESH3_DEFAULT @ '', so raising gc_thresh3 does not raise C'')"

record CapSource =
  gc_thresh3 :: nat
  rows :: nat

text \<open>\<open>str::trim\<close> on the ASCII white space a sysctl file can hold.\<close>

definition is_space :: "char \<Rightarrow> bool" where
  "is_space c \<longleftrightarrow> of_char c \<in> {32 :: nat, 9, 10, 11, 12, 13}"

definition trim :: "string \<Rightarrow> string" where
  "trim s = rev (dropWhile is_space (rev (dropWhile is_space s)))"

text \<open>\<open>CapSource::read\<close>: the argument is the outcome of reading \<open>GC_THRESH3_PATH\<close>; the second
  component says whether a reason is handed back for the journal.\<close>

datatype cap_read_issue = ReadFailed | NotANumber string

definition cap_source_read :: "string option \<Rightarrow> nat \<Rightarrow> CapSource \<times> cap_read_issue option" where
  "cap_source_read content n_rows =
     (case content of
        None \<Rightarrow> (\<lparr>gc_thresh3 = GC_THRESH3_DEFAULT, rows = n_rows\<rparr>, Some ReadFailed)
      | Some text \<Rightarrow>
          (case parse_uint (2 ^ 32 - 1) (trim text) of
             Some v \<Rightarrow> (\<lparr>gc_thresh3 = v, rows = n_rows\<rparr>, None)
           | None \<Rightarrow> (\<lparr>gc_thresh3 = GC_THRESH3_DEFAULT, rows = n_rows\<rparr>,
                       Some (NotANumber (trim text)))))"

definition prefix_hosts :: "Ipv4Prefix \<Rightarrow> nat" where
  "prefix_hosts p = (let all = 2 ^ (32 - unat (len p)) in min (all - 2) (2 ^ 32 - 1))"

definition for_prefix :: "CapSource \<Rightarrow> Ipv4Prefix \<Rightarrow> RowCap" where
  "for_prefix src p =
     (let hosts = prefix_hosts p;
          kernel = min (gc_thresh3 src) GC_THRESH3_DEFAULT div 2 div max (rows src) 1;
          (v, b) = (if hosts \<le> kernel then (hosts, Prefix) else (kernel, GcThresh3))
      in \<lparr>cap_value = v, bound_by = b, cap_gc_thresh3 = gc_thresh3 src, cap_rows = rows src\<rparr>)"

section \<open>The table\<close>

record Entry =
  e_leg :: string
  e_mac :: mac
  e_expires_at :: instant
  e_dirty :: bool

datatype Upsert = Admitted | Refused bool

record Taken =
  t_row :: string
  t_leg :: string
  t_addr :: ipv4
  t_mac :: mac

record NextDirty =
  taken :: "Taken option"
  expired :: "string list"

type_synonym Key = "string \<times> ipv4"

text \<open>\<open>Inner\<close> and the wake-up permit of \<open>NeighborTable\<close>.\<close>

record NeighborTable =
  entries :: "(Key, Entry) omap"
  queue :: "(Key \<times> instant) list"
  refusing :: "string set"
  cap_refusals :: "(string, nat) omap"
  notified :: bool

definition new_table :: NeighborTable where
  "new_table = \<lparr>entries = [], queue = [], refusing = {}, cap_refusals = [], notified = False\<rparr>"

text \<open>\<open>BTreeMap::range(lo..=hi)\<close> between the row's lowest and highest key.\<close>

definition row_len :: "(Key, Entry) omap \<Rightarrow> string \<Rightarrow> nat" where
  "row_len es row =
     (let lo = (row, 0); hi = (row, - 1) in
      min (length (filter (\<lambda>(k, _). lo \<le> k \<and> k \<le> hi) es)) (2 ^ 32 - 1))"

definition upsert ::
  "NeighborTable \<Rightarrow> string \<Rightarrow> string \<Rightarrow> ipv4 \<Rightarrow> mac \<Rightarrow> instant \<Rightarrow> RowCap \<Rightarrow> instant \<Rightarrow>
     NeighborTable \<times> Upsert" where
  "upsert t row leg addr m expires_at cap now =
     (let key = (row, addr);
          (t', outcome) =
            (case om_get (entries t) key of
               Some e \<Rightarrow>
                 (t\<lparr>entries := om_insert key
                        (e\<lparr>e_leg := leg, e_mac := m, e_expires_at := expires_at, e_dirty := True\<rparr>)
                        (entries t),
                    queue := (if e_dirty e then queue t else queue t @ [(key, now)]),
                    refusing := refusing t - {row}\<rparr>, Admitted)
             | None \<Rightarrow>
                 if row_len (entries t) row \<ge> cap_value cap then
                   (t\<lparr>refusing := insert row (refusing t),
                      cap_refusals := om_insert row
                        ((case om_get (cap_refusals t) row of Some n \<Rightarrow> n | None \<Rightarrow> 0) + 1)
                        (cap_refusals t)\<rparr>,
                    Refused (row \<notin> refusing t))
                 else
                   (t\<lparr>entries := om_insert key
                          \<lparr>e_leg = leg, e_mac = m, e_expires_at = expires_at, e_dirty = True\<rparr>
                          (entries t),
                      queue := queue t @ [(key, now)],
                      refusing := refusing t - {row}\<rparr>, Admitted))
      in (if outcome = Admitted then t'\<lparr>notified := True\<rparr> else t', outcome))"

definition re_dirty ::
  "NeighborTable \<Rightarrow> string \<Rightarrow> ipv4 \<Rightarrow> instant \<Rightarrow> NeighborTable \<times> string option" where
  "re_dirty t row addr now =
     (let key = (row, addr) in
      case om_get (entries t) key of
        None \<Rightarrow> (t, None)
      | Some e \<Rightarrow>
          if e_expires_at e \<le> now then (t\<lparr>entries := om_remove key (entries t)\<rparr>, Some row)
          else if e_dirty e then (t, None)
          else (t\<lparr>entries := om_insert key (e\<lparr>e_dirty := True\<rparr>) (entries t),
                  queue := queue t @ [(key, now)], notified := True\<rparr>, None))"

text \<open>The actor's idle path: \<open>notified().await\<close> returns when a permit is there, and takes it.\<close>

definition wait_dirty :: "NeighborTable \<Rightarrow> NeighborTable option" where
  "wait_dirty t = (if notified t then Some (t\<lparr>notified := False\<rparr>) else None)"

fun take_loop ::
  "instant \<Rightarrow> (Key \<times> instant) list \<Rightarrow> (Key, Entry) omap \<Rightarrow> string list \<Rightarrow>
     (Key, Entry) omap \<times> (Key \<times> instant) list \<times> NextDirty" where
  "take_loop now [] es exp = (es, [], \<lparr>taken = None, expired = exp\<rparr>)"
| "take_loop now ((key, enqueued_at) # q) es exp =
     (case om_get es key of
        None \<Rightarrow> take_loop now q es exp
      | Some e \<Rightarrow>
          if \<not> e_dirty e then take_loop now q es exp
          else if e_expires_at e \<le> now then
            take_loop now q (om_remove key es) (exp @ [fst key])
          else
            (om_insert key (e\<lparr>e_dirty := False\<rparr>) es, q,
             \<lparr>taken = Some \<lparr>t_row = fst key, t_leg = e_leg e, t_addr = snd key, t_mac = e_mac e\<rparr>,
              expired = exp\<rparr>))"

definition take_next_dirty :: "NeighborTable \<Rightarrow> instant \<Rightarrow> NeighborTable \<times> NextDirty" where
  "take_next_dirty t now =
     (case take_loop now (queue t) (entries t) [] of
        (es, q, out) \<Rightarrow> (t\<lparr>entries := es, queue := q\<rparr>, out))"

definition remove_expired :: "NeighborTable \<Rightarrow> instant \<Rightarrow> NeighborTable \<times> string list" where
  "remove_expired t now =
     (t\<lparr>entries := filter (\<lambda>(_, e). e_expires_at e > now) (entries t)\<rparr>,
      map (fst \<circ> fst) (filter (\<lambda>(_, e). \<not> e_expires_at e > now) (entries t)))"

definition dirty_depth :: "NeighborTable \<Rightarrow> nat" where
  "dirty_depth t = length (filter (\<lambda>(_, e). e_dirty e) (entries t))"

definition queued_len :: "NeighborTable \<Rightarrow> nat" where
  "queued_len t = length (queue t)"

definition table_len :: "NeighborTable \<Rightarrow> nat" where
  "table_len t = length (entries t)"

definition table_is_empty :: "NeighborTable \<Rightarrow> bool" where
  "table_is_empty t \<longleftrightarrow> table_len t = 0"

definition list_entries :: "NeighborTable \<Rightarrow> (string \<times> ipv4 \<times> string) list" where
  "list_entries t = map (\<lambda>((row, addr), e). (row, addr, e_leg e)) (entries t)"

definition entry :: "NeighborTable \<Rightarrow> string \<Rightarrow> ipv4 \<Rightarrow> Entry option" where
  "entry t row addr = om_get (entries t) (row, addr)"

definition row_sizes :: "NeighborTable \<Rightarrow> (string, nat) omap" where
  "row_sizes t =
     foldl (\<lambda>sizes ((row, _), _).
         om_insert row ((case om_get sizes row of Some n \<Rightarrow> n | None \<Rightarrow> 0) + 1) sizes)
       [] (entries t)"

definition cap_refusals_snapshot :: "NeighborTable \<Rightarrow> (string, nat) omap" where
  "cap_refusals_snapshot t = cap_refusals t"

definition oldest_dirty_age :: "NeighborTable \<Rightarrow> instant \<Rightarrow> duration option" where
  "oldest_dirty_age t now =
     find_map (\<lambda>(key, enqueued_at).
         case om_get (entries t) key of
           Some e \<Rightarrow> if e_dirty e then Some (now - enqueued_at) else None
         | None \<Rightarrow> None)
       (queue t)"

section \<open>Leases and caps: properties\<close>

text \<open>Whatever an ACK's option 51 says, and also when it says nothing, the lease the table
  honours is at least \<open>MIN_LEASE\<close> and at most \<open>MAX_LEASE\<close>, and a value between the two is
  honoured exactly.\<close>

theorem clamp_lease_bounds:
  "MIN_LEASE \<le> clamp_lease o51 \<and> clamp_lease o51 \<le> MAX_LEASE \<and>
   (\<forall>s. o51 = Some s \<longrightarrow> 60 \<le> unat s \<longrightarrow> unat s \<le> 86400 \<longrightarrow> clamp_lease o51 = from_secs (unat s))"
  by (auto simp: clamp_lease_def MIN_LEASE_def MAX_LEASE_def NO_LEASE_DEFAULT_def from_secs_def
      split: option.splits)

theorem clamp_lease_bounds_witness:
  "clamp_lease (Some 600) = from_secs 600 \<and> clamp_lease (Some (- 1)) = MAX_LEASE \<and>
   clamp_lease (Some 0) = MIN_LEASE"
proof -
  have "clamp_lease (Some 600) = from_secs (unat (600 :: u32))"
    using clamp_lease_bounds [of "Some 600"] by simp
  then show ?thesis
    by (simp add: clamp_lease_def MIN_LEASE_def MAX_LEASE_def from_secs_def unsigned_minus_1_eq_mask
        mask_eq_exp_minus_1)
qed

text \<open>The host count of a network is the number of its addresses that are neither its network
  nor its broadcast address.\<close>

theorem prefix_hosts_counts:
  assumes "prefix_ok p"
  shows "prefix_hosts p = card {a. contains p a \<and> a \<noteq> net p \<and> a \<noteq> broadcast p}"
proof -
  let ?s = "2 ^ (32 - unat (len p)) :: nat"
  have "{a. contains p a \<and> a \<noteq> net p \<and> a \<noteq> broadcast p} =
      {a. contains p a} - {net p, broadcast p}"
    by auto
  then have "card {a. contains p a \<and> a \<noteq> net p \<and> a \<noteq> broadcast p} = ?s - card {net p, broadcast p}"
    using contains_net [OF assms] contains_broadcast [OF assms] card_contains [OF assms]
    by (simp add: card_Diff_subset)
  also have "\<dots> = ?s - 2"
  proof (cases "net p = broadcast p")
    case True
    then have "?s = 1"
      using Suc_broadcast [OF assms] by simp
    then show ?thesis
      using True by simp
  qed simp
  also have "\<dots> = prefix_hosts p"
  proof -
    have "?s \<le> 2 ^ 32"
      by (rule power_increasing) auto
    then show ?thesis
      by (simp add: prefix_hosts_def Let_def min_def)
  qed
  finally show ?thesis ..
qed

theorem prefix_hosts_counts_witness:
  "card {a. contains \<lparr>net = 0xc0a81400, len = 24\<rparr> a \<and> a \<noteq> 0xc0a81400 \<and> a \<noteq> 0xc0a814ff} = 254"
proof -
  have ok: "prefix_ok \<lparr>net = 0xc0a81400, len = 24\<rparr>"
    by (simp add: prefix_ok_def prefix_mask_def mask_eq_exp_minus_1)
  have b: "broadcast \<lparr>net = 0xc0a81400, len = 24\<rparr> = 0xc0a814ff"
    by (simp add: broadcast_def prefix_mask_def mask_eq_exp_minus_1)
  show ?thesis
    using prefix_hosts_counts [OF ok, symmetric] b by (simp add: prefix_hosts_def)
qed

lemma cap_value_le: "cap_value (for_prefix src p) \<le> min (gc_thresh3 src) 1024 div 2 div max (rows src) 1"
  by (auto simp: for_prefix_def Let_def GC_THRESH3_DEFAULT_def)

text \<open>The caps of all workload rows of a member together stay within half the kernel's
  \<open>gc_thresh3\<close>, and within 512 however far an operator raises it, whatever prefixes the rows
  declare; and no row's cap exceeds the host addresses of its prefix.\<close>

theorem caps_share_kernel_budget:
  assumes "length prefixes = rows src"
  shows "sum_list (map (\<lambda>p. cap_value (for_prefix src p)) prefixes) \<le> min (gc_thresh3 src) 1024 div 2 \<and>
    list_all (\<lambda>p. cap_value (for_prefix src p) \<le> prefix_hosts p) prefixes"
proof
  let ?k = "min (gc_thresh3 src) 1024 div 2"
  have "sum_list (map (\<lambda>p. cap_value (for_prefix src p)) prefixes) \<le>
      length prefixes * (?k div max (rows src) 1)"
    using cap_value_le [of src] by (induction prefixes) (auto intro: add_mono)
  also have "\<dots> \<le> ?k"
    using assms by (cases prefixes) (auto simp: max_def simp flip: mult_Suc)
  finally show "sum_list (map (\<lambda>p. cap_value (for_prefix src p)) prefixes) \<le> ?k" .
  show "list_all (\<lambda>p. cap_value (for_prefix src p) \<le> prefix_hosts p) prefixes"
    by (auto simp: list_all_iff for_prefix_def Let_def)
qed

theorem caps_share_kernel_budget_witness:
  "sum_list (map (\<lambda>p. cap_value (for_prefix \<lparr>gc_thresh3 = 4096, rows = 3\<rparr> p))
     [\<lparr>net = 0xc0a81400, len = 24\<rparr>, \<lparr>net = 0xc0a81500, len = 24\<rparr>, \<lparr>net = 0xac100000, len = 22\<rparr>]) \<le> 512"
  using caps_share_kernel_budget [of "[\<lparr>net = 0xc0a81400, len = 24\<rparr>, \<lparr>net = 0xc0a81500, len = 24\<rparr>,
      \<lparr>net = 0xac100000, len = 22\<rparr>]" "\<lparr>gc_thresh3 = 4096, rows = 3\<rparr>"]
  by simp

text \<open>The remedy a refusal line names can be void: with three rows and \<open>gc_thresh3 = 1023\<close> the line
  advises raising the sysctl toward 1024, which leaves the cap at 170.\<close>

lemma refusal_remedy_can_be_void:
  "let p = \<lparr>net = 0xac100000, len = 22\<rparr>;
       c = for_prefix \<lparr>gc_thresh3 = 1023, rows = 3\<rparr> p;
       c' = for_prefix \<lparr>gc_thresh3 = 1024, rows = 3\<rparr> p in
   bound_by c = GcThresh3 \<and> cap_gc_thresh3 c < GC_THRESH3_DEFAULT \<and> cap_value c = cap_value c'"
  by (simp add: for_prefix_def prefix_hosts_def GC_THRESH3_DEFAULT_def)

section \<open>The table's invariant\<close>

lemma row_key_range: "(row, 0) \<le> (k :: Key) \<and> k \<le> (row, - 1) \<longleftrightarrow> fst k = row"
  by (cases k) (auto simp: less_eq_prod_def)

lemma row_len_count:
  "row_len es row = min (om_count (\<lambda>(k, _). fst k = row) es) (2 ^ 32 - 1)"
  by (simp add: row_len_def om_count_def row_key_range case_prod_unfold)

definition dirty_keys :: "(Key, Entry) omap \<Rightarrow> Key set" where
  "dirty_keys es = {k. \<exists>e. om_get es k = Some e \<and> e_dirty e}"

lemma dirty_keys_simps [simp]:
  "dirty_keys [] = {}"
  "dirty_keys (om_remove k es) = dirty_keys es - {k}"
  "dirty_keys (om_insert k e es) =
     (if e_dirty e then insert k (dirty_keys es) else dirty_keys es - {k})"
  by (auto simp: dirty_keys_def map_simps)

definition table_inv :: "NeighborTable \<Rightarrow> bool" where
  "table_inv t \<longleftrightarrow> om_ok (entries t) \<and> om_ok (cap_refusals t) \<and>
     dirty_keys (entries t) \<subseteq> fst ` set (queue t)"

lemma table_inv_new: "table_inv new_table"
  by (simp add: table_inv_def new_table_def)

lemma dirty_keysI: "om_get es k = Some e \<Longrightarrow> e_dirty e \<Longrightarrow> k \<in> dirty_keys es"
  by (auto simp: dirty_keys_def)

lemma table_inv_upsert: "table_inv t \<Longrightarrow> table_inv (fst (upsert t row leg addr m x cap now))"
  by (auto simp: table_inv_def upsert_def Let_def split: option.splits if_splits
      intro!: map_inv intro: dirty_keysI)

lemma table_inv_re_dirty: "table_inv t \<Longrightarrow> table_inv (fst (re_dirty t row addr now))"
  by (auto simp: table_inv_def re_dirty_def Let_def split: option.splits if_splits
      intro!: map_inv)

lemma dirty_keys_filter: "om_ok es \<Longrightarrow> dirty_keys (filter P es) \<subseteq> dirty_keys es"
  by (auto simp: dirty_keys_def om_get_filter split: option.splits if_splits)

lemma table_inv_remove_expired: "table_inv t \<Longrightarrow> table_inv (fst (remove_expired t now))"
  unfolding table_inv_def remove_expired_def using dirty_keys_filter
  by (fastforce intro!: map_inv)

lemma take_loop_inv:
  assumes "take_loop now q es exp = (es', q', out)" "om_ok es" "dirty_keys es \<subseteq> fst ` set q"
  shows "om_ok es' \<and> dirty_keys es' \<subseteq> fst ` set q'"
  using assms
proof (induction now q es exp rule: take_loop.induct)
  case (2 now key at q es exp)
  have skip: "dirty_keys es \<subseteq> fst ` set q" if "key \<notin> dirty_keys es"
    using "2.prems"(3) that by auto
  show ?case
  proof (cases "om_get es key")
    case None
    then have "key \<notin> dirty_keys es"
      by (simp add: dirty_keys_def)
    then show ?thesis
      using "2.prems" None skip by (intro "2.IH"(1)) auto
  next
    case (Some e)
    consider "\<not> e_dirty e" | "e_dirty e" "e_expires_at e \<le> now" | "e_dirty e" "\<not> e_expires_at e \<le> now"
      by blast
    then show ?thesis
    proof cases
      case 1
      then have "key \<notin> dirty_keys es"
        using Some by (simp add: dirty_keys_def)
      then show ?thesis
        using "2.prems" Some 1 skip by (intro "2.IH"(2)) auto
    next
      case 2
      then show ?thesis
        using "2.prems" Some by (intro "2.IH"(3)) (auto intro!: map_inv)
    next
      case 3
      then show ?thesis
        using "2.prems" Some by (auto intro!: map_inv)
    qed
  qed
qed auto

lemma table_inv_take: "table_inv t \<Longrightarrow> table_inv (fst (take_next_dirty t now))"
  by (cases "take_loop now (queue t) (entries t) []")
    (auto simp: table_inv_def take_next_dirty_def dest!: take_loop_inv)

text \<open>Any task's call on the table, and the run of a sequence of calls.\<close>

datatype table_call =
    CallUpsert string string ipv4 mac instant RowCap instant
  | CallReDirty string ipv4 instant
  | CallTake instant
  | CallRemoveExpired instant
  | CallWait

fun table_step :: "NeighborTable \<Rightarrow> table_call \<Rightarrow> NeighborTable" where
  "table_step t (CallUpsert row leg addr m x cap now) = fst (upsert t row leg addr m x cap now)"
| "table_step t (CallReDirty row addr now) = fst (re_dirty t row addr now)"
| "table_step t (CallTake now) = fst (take_next_dirty t now)"
| "table_step t (CallRemoveExpired now) = fst (remove_expired t now)"
| "table_step t CallWait = (case wait_dirty t of Some t' \<Rightarrow> t' | None \<Rightarrow> t)"

interpretation tbl: invariant_machine table_step table_inv
proof
  fix t c
  assume inv: "table_inv t"
  then have "table_inv (t\<lparr>notified := False\<rparr>)"
    by (simp add: table_inv_def)
  with inv show "table_inv (table_step t c)"
    by (cases c) (simp_all add: table_inv_upsert table_inv_re_dirty table_inv_take
        table_inv_remove_expired wait_dirty_def)
qed

section \<open>Nothing is lost\<close>

lemma dirty_depth_card: "om_ok (entries t) \<Longrightarrow> dirty_depth t = card (dirty_keys (entries t))"
  using om_count_card [of "entries t" "\<lambda>(_, e). e_dirty e"]
  by (simp add: dirty_depth_def om_count_def dirty_keys_def case_prod_unfold)

text \<open>C8: no claim is lost. After any sequence of calls on a fresh table every entry still waiting
  for the actor has its key in the dirty queue, and at least as many keys are queued as
  entries are dirty.\<close>

theorem no_claim_lost:
  "let t = foldl table_step new_table calls in
   dirty_keys (entries t) \<subseteq> fst ` set (queue t) \<and> dirty_depth t \<le> queued_len t"
proof -
  let ?t = "foldl table_step new_table calls"
  have inv: "table_inv ?t"
    by (rule tbl.run_inv) (rule table_inv_new)
  then have sub: "dirty_keys (entries ?t) \<subseteq> set (map fst (queue ?t))"
    by (simp add: table_inv_def)
  then have "card (dirty_keys (entries ?t)) \<le> card (set (map fst (queue ?t)))"
    by (intro card_mono) auto
  also have "\<dots> \<le> queued_len ?t"
    unfolding queued_len_def by (metis card_length length_map)
  finally show ?thesis
    using inv sub by (simp add: table_inv_def dirty_depth_card Let_def)
qed

section \<open>Admission\<close>

definition row_count :: "NeighborTable \<Rightarrow> string \<Rightarrow> nat" where
  "row_count t row = om_count (\<lambda>(k, _). fst k = row) (entries t)"

lemma take_loop_count:
  "take_loop now q es exp = (es', q', out) \<Longrightarrow> om_ok es \<Longrightarrow>
     om_count (\<lambda>(k, _). fst k = row) es' \<le> om_count (\<lambda>(k, _). fst k = row) es"
proof (induction now q es exp rule: take_loop.induct)
  case (2 now key at q es exp)
  let ?n = "om_count (\<lambda>(k, _). fst k = row)"
  have "?n (om_remove key es) \<le> ?n es"
    by (rule om_count_remove_le)
  moreover have "om_get es key = Some e \<Longrightarrow> ?n (om_insert key (e\<lparr>e_dirty := False\<rparr>) es) = ?n es" for e
    using "2.prems"(2) by (intro om_count_update) auto
  ultimately show ?case
    using "2.prems" "2.IH" om_ok_remove [OF "2.prems"(2), of key]
    by (auto split: option.splits if_splits intro: order_trans)
qed simp

fun cap_of_call :: "string \<Rightarrow> table_call \<Rightarrow> nat" where
  "cap_of_call row (CallUpsert r leg addr m x cap now) = (if r = row then cap_value cap else 0)"
| "cap_of_call row _ = 0"

lemma row_count_step:
  assumes "table_inv t" "cap_of_call row c \<le> C" "C < 2 ^ 32" "row_count t row \<le> C"
  shows "row_count (table_step t c) row \<le> C"
proof -
  have ok: "om_ok (entries t)"
    using assms(1) by (simp add: table_inv_def)
  show ?thesis
  proof (cases c)
    case (CallUpsert r leg addr m x cap now)
    have "row_len (entries t) row < cap_value cap \<Longrightarrow> row_count t row < cap_value cap"
      if "r = row"
      using assms(2-4) that CallUpsert by (auto simp: row_len_count row_count_def)
    then show ?thesis
      using assms CallUpsert ok
      by (auto simp: upsert_def Let_def row_count_def om_count_insert_new om_count_update
          split: option.splits if_splits)
  next
    case (CallTake now)
    then show ?thesis
      using assms(4) ok take_loop_count [of now "queue t" "entries t" "[]", where row = row]
      by (auto simp: take_next_dirty_def row_count_def split: prod.splits intro: order_trans)
  next
    case (CallReDirty r addr now)
    then show ?thesis
      using assms(4) ok om_count_remove_le [of "\<lambda>(k, _). fst k = row" "(r, addr)" "entries t"]
      by (auto simp: re_dirty_def row_count_def om_count_update Let_def split: option.splits
          intro: order_trans)
  next
    case (CallRemoveExpired now)
    then show ?thesis
      using assms(4) om_count_filter_le [of "\<lambda>(k, _). fst k = row" _ "entries t"]
      by (auto simp: remove_expired_def row_count_def intro: order_trans)
  next
    case CallWait
    then show ?thesis
      using assms(4) by (simp add: wait_dirty_def row_count_def)
  qed
qed

text \<open>C38: the cap holds. If every upsert for a row is made under a cap of at most \<open>C\<close>, the row
  never holds more than \<open>C\<close> entries, whatever calls are made in whatever order.\<close>

theorem row_never_exceeds_cap:
  assumes "\<forall>c\<in>set calls. cap_of_call row c \<le> C" and "C < 2 ^ 32"
  shows "row_count (foldl table_step new_table calls) row \<le> C"
proof -
  have "row_count (foldl table_step t calls) row \<le> C"
    if "table_inv t" "row_count t row \<le> C" for t
    using assms(1) that
  proof (induction calls arbitrary: t)
    case (Cons c calls)
    then show ?case
      by (auto intro!: Cons.IH row_count_step assms(2) tbl.step_inv)
  qed simp
  then show ?thesis
    using table_inv_new by (simp add: row_count_def new_table_def om_count_def)
qed

definition sample_cap :: RowCap where
  "sample_cap = \<lparr>cap_value = 1, bound_by = GcThresh3, cap_gc_thresh3 = 2, cap_rows = 1\<rparr>"

theorem row_never_exceeds_cap_witness:
  "row_count (foldl table_step new_table
     [CallUpsert ''vms'' ''leg'' 1 (0, 0, 0, 0, 0, 1) 100 sample_cap 0,
      CallUpsert ''vms'' ''leg'' 2 (0, 0, 0, 0, 0, 2) 100 sample_cap 0]) ''vms'' \<le> 1"
  by (rule row_never_exceeds_cap) (simp_all add: sample_cap_def)

lemma Entry_full_update [simp]:
  "(e :: Entry)\<lparr>e_leg := l, e_mac := m, e_expires_at := x, e_dirty := d\<rparr> =
     \<lparr>e_leg = l, e_mac = m, e_expires_at = x, e_dirty = d\<rparr>"
  by (cases e) simp

text \<open>What one relayed ACK does to the table. It is refused exactly when its address is new and
  the row is at the cap; then no entry and no queue position changes, the refusal is counted,
  and the flag says whether it is the first of the row's streak. Otherwise the last claim is
  what the table holds and it is dirty, no other entry changes, the actor has a wake-up permit,
  and the key is appended to the queue unless the entry was dirty already, in which case the
  queue is left as it was.\<close>

theorem upsert_effect:
  assumes "upsert t row leg addr m x cap now = (t', outcome)"
  shows "(outcome \<noteq> Admitted \<longleftrightarrow>
       entry t row addr = None \<and> cap_value cap \<le> min (row_count t row) (2 ^ 32 - 1)) \<and>
     (case outcome of
        Admitted \<Rightarrow>
          om_get (entries t') = (om_get (entries t))
            ((row, addr) \<mapsto> \<lparr>e_leg = leg, e_mac = m, e_expires_at = x, e_dirty = True\<rparr>) \<and>
          queue t' = queue t @ (if (row, addr) \<in> dirty_keys (entries t) then [] else [((row, addr), now)]) \<and>
          row \<notin> refusing t' \<and> notified t'
      | Refused first \<Rightarrow>
          entries t' = entries t \<and> queue t' = queue t \<and> first = (row \<notin> refusing t) \<and>
          row \<in> refusing t' \<and>
          om_get (cap_refusals t') row =
            Some (Suc (case om_get (cap_refusals t) row of Some n \<Rightarrow> n | None \<Rightarrow> 0)))"
proof -
  have "min (row_count t row) (2 ^ 32 - 1) = row_len (entries t) row"
    by (simp add: row_len_count row_count_def)
  then show ?thesis
    using assms
    by (cases "om_get (entries t) (row, addr)")
      (auto simp: upsert_def Let_def entry_def dirty_keys_def map_simps fun_eq_iff
        split: option.splits if_splits)
qed

theorem upsert_effect_witness:
  "let (t1, o1) = upsert new_table ''vms'' ''leg'' 1 (0, 0, 0, 0, 0, 1) 100 sample_cap 7;
       (t2, o2) = upsert t1 ''vms'' ''leg'' 1 (0, 0, 0, 0, 0, 9) 200 sample_cap 8 in
   o1 = Admitted \<and> o2 = Admitted \<and> queue t2 = [((''vms'', 1), 7)] \<and>
   entry t2 ''vms'' 1 = Some \<lparr>e_leg = ''leg'', e_mac = (0, 0, 0, 0, 0, 9), e_expires_at = 200, e_dirty = True\<rparr>"
proof -
  obtain t1 o1 where u1: "upsert new_table ''vms'' ''leg'' 1 (0, 0, 0, 0, 0, 1) 100 sample_cap 7 = (t1, o1)"
    by fastforce
  obtain t2 o2 where u2: "upsert t1 ''vms'' ''leg'' 1 (0, 0, 0, 0, 0, 9) 200 sample_cap 8 = (t2, o2)"
    by fastforce
  have "o1 = Admitted"
    using upsert_effect [OF u1, THEN conjunct1]
    by (auto simp: row_count_def new_table_def om_count_def sample_cap_def)
  with upsert_effect [OF u1, THEN conjunct2] have 1:
    "om_get (entries t1) = [(''vms'', 1) \<mapsto>
       \<lparr>e_leg = ''leg'', e_mac = (0, 0, 0, 0, 0, 1), e_expires_at = 100, e_dirty = True\<rparr>]"
    "queue t1 = [((''vms'', 1), 7)]"
    by (auto simp: new_table_def)
  then have "o2 = Admitted"
    using upsert_effect [OF u2, THEN conjunct1] by (auto simp: entry_def)
  with upsert_effect [OF u2, THEN conjunct2] 1 show ?thesis
    using u1 u2 \<open>o1 = Admitted\<close> by (auto simp: entry_def dirty_keys_def)
qed

section \<open>The drain\<close>

definition live :: "(Key, Entry) omap \<Rightarrow> instant \<Rightarrow> Key \<Rightarrow> bool" where
  "live es now k \<longleftrightarrow> (\<exists>e. om_get es k = Some e \<and> e_dirty e \<and> now < e_expires_at e)"

text \<open>What walking past a dead queue key does to the entries.\<close>

definition purge :: "Key \<Rightarrow> (Key, Entry) omap \<Rightarrow> (Key, Entry) omap" where
  "purge k es = (if k \<in> dirty_keys es then om_remove k es else es)"

lemma get_purge: "om_get (purge j es) k = (if k = j \<and> j \<in> dirty_keys es then None else om_get es k)"
  by (simp add: purge_def map_simps)

lemma live_dirty: "live es now k \<Longrightarrow> k \<in> dirty_keys es"
  by (auto simp: live_def dirty_keys_def)

lemma live_purge: "\<not> live es now j \<Longrightarrow> live (purge j es) now k = live es now k"
  by (auto simp: live_def get_purge split: if_splits)

lemma take_loop_dead:
  "\<not> live es now j \<Longrightarrow> take_loop now ((j, at) # q) es exp =
     take_loop now q (purge j es) (exp @ (if j \<in> dirty_keys es then [fst j] else []))"
  by (auto simp: live_def purge_def dirty_keys_def split: option.splits)

lemma take_loop_live:
  assumes "live es now j"
  obtains e where "om_get es j = Some e" "e_dirty e" "now < e_expires_at e"
    "take_loop now ((j, at) # q) es exp =
       (om_insert j (e\<lparr>e_dirty := False\<rparr>) es, q,
        \<lparr>taken = Some \<lparr>t_row = fst j, t_leg = e_leg e, t_addr = snd j, t_mac = e_mac e\<rparr>, expired = exp\<rparr>)"
  using assms by (auto simp: live_def)

text \<open>What a take leaves of the entries it does not hand out: dirty entries whose lease ran out may
  be gone, everything else is as it was.\<close>

definition only_drops_expired :: "instant \<Rightarrow> (Key, Entry) omap \<Rightarrow> (Key, Entry) omap \<Rightarrow> Key set \<Rightarrow> bool" where
  "only_drops_expired now es es' K \<longleftrightarrow>
     (\<forall>k. k \<notin> K \<longrightarrow> om_get es' k = om_get es k \<or> om_get es' k = None \<and> \<not> live es now k \<and> k \<in> dirty_keys es)"

lemma only_drops_purge:
  assumes "only_drops_expired now (purge j es) es' K" "\<not> live es now j"
  shows "only_drops_expired now es es' K"
  unfolding only_drops_expired_def
proof (intro allI impI)
  fix k
  assume "k \<notin> K"
  with assms(1) have k: "om_get es' k = om_get (purge j es) k \<or>
      om_get es' k = None \<and> \<not> live (purge j es) now k \<and> k \<in> dirty_keys (purge j es)"
    unfolding only_drops_expired_def by blast
  show "om_get es' k = om_get es k \<or> om_get es' k = None \<and> \<not> live es now k \<and> k \<in> dirty_keys es"
  proof (cases "k = j \<and> j \<in> dirty_keys es")
    case True
    then show ?thesis
      using k assms(2) by (auto simp: get_purge)
  next
    case False
    then have "om_get (purge j es) k = om_get es k"
      by (auto simp: get_purge)
    moreover have "k \<in> dirty_keys (purge j es) \<Longrightarrow> k \<in> dirty_keys es"
      by (auto simp: purge_def split: if_splits)
    ultimately show ?thesis
      using k live_purge [OF assms(2), of k] by auto
  qed
qed

lemma take_loop_taken:
  assumes "take_loop now q es exp = (es', q', out)" "taken out = Some x"
  defines "key \<equiv> (t_row x, t_addr x)"
  shows "\<exists>pre at e. q = pre @ (key, at) # q' \<and> (\<forall>p\<in>set pre. \<not> live es now (fst p)) \<and>
     om_get es key = Some e \<and> e_dirty e \<and> now < e_expires_at e \<and> t_leg x = e_leg e \<and> t_mac x = e_mac e \<and>
     om_get es' key = Some (e\<lparr>e_dirty := False\<rparr>) \<and> only_drops_expired now es es' {key}"
  using assms(1)
proof (induction q arbitrary: es exp)
  case (Cons p q)
  obtain j at where p: "p = (j, at)"
    by (cases p)
  show ?case
  proof (cases "live es now j")
    case True
    then obtain e where e: "om_get es j = Some e" "e_dirty e" "now < e_expires_at e"
      and tl: "take_loop now ((j, at) # q) es exp =
       (om_insert j (e\<lparr>e_dirty := False\<rparr>) es, q,
        \<lparr>taken = Some \<lparr>t_row = fst j, t_leg = e_leg e, t_addr = snd j, t_mac = e_mac e\<rparr>, expired = exp\<rparr>)"
      by (rule take_loop_live)
    then show ?thesis
      using Cons.prems assms(2) unfolding p
      by (intro exI [of _ "[]"]) (auto simp: key_def map_simps only_drops_expired_def)
  next
    case False
    then have "take_loop now q (purge j es) (exp @ (if j \<in> dirty_keys es then [fst j] else [])) = (es', q', out)"
      using Cons.prems unfolding p take_loop_dead [OF False] by blast
    from Cons.IH [OF this] obtain pre at' e where IH:
      "q = pre @ (key, at') # q'" "\<forall>p\<in>set pre. \<not> live (purge j es) now (fst p)"
      "om_get (purge j es) key = Some e" "e_dirty e" "now < e_expires_at e" "t_leg x = e_leg e"
      "t_mac x = e_mac e" "om_get es' key = Some (e\<lparr>e_dirty := False\<rparr>)"
      "only_drops_expired now (purge j es) es' {key}"
      by blast
    then have "p # q = ((j, at) # pre) @ (key, at') # q'" "\<forall>p\<in>set ((j, at) # pre). \<not> live es now (fst p)"
      "om_get es key = Some e" "only_drops_expired now es es' {key}"
      using False p by (auto simp: live_purge get_purge only_drops_purge split: if_splits)
    with IH show ?thesis
      by blast
  qed
qed (use assms(2) in auto)

lemma take_loop_none:
  assumes "take_loop now q es exp = (es', q', out)" "taken out = None"
  shows "q' = [] \<and> (\<forall>p\<in>set q. \<not> live es now (fst p)) \<and> only_drops_expired now es es' {}"
  using assms(1)
proof (induction q arbitrary: es exp)
  case (Cons p q)
  obtain j at where p: "p = (j, at)"
    by (cases p)
  have dead: "\<not> live es now j"
    using Cons.prems assms(2) by (auto simp: p live_def)
  then have "take_loop now q (purge j es) (exp @ (if j \<in> dirty_keys es then [fst j] else [])) = (es', q', out)"
    using Cons.prems unfolding p take_loop_dead [OF dead] by blast
  from Cons.IH [OF this] dead show ?case
    by (auto simp: p live_purge intro: only_drops_purge)
qed (auto simp: only_drops_expired_def)

text \<open>What the actor is handed. A take hands out a claim exactly as the table holds it, which is
  dirty and unexpired, and marks it clean; every key queued before it named no such claim; and
  apart from it the take changes nothing but to drop dirty entries whose lease has run out.
  When it hands out nothing, no dirty unexpired claim is left in the table.\<close>

theorem take_next_dirty_effect:
  assumes "table_inv t" and "take_next_dirty t now = (t', out)"
  shows "case taken out of
     Some x \<Rightarrow>
       (let key = (t_row x, t_addr x) in \<exists>pre at e. queue t = pre @ (key, at) # queue t' \<and>
         (\<forall>p\<in>set pre. \<not> live (entries t) now (fst p)) \<and>
         om_get (entries t) key = Some e \<and> e_dirty e \<and> now < e_expires_at e \<and>
         t_leg x = e_leg e \<and> t_mac x = e_mac e \<and>
         om_get (entries t') key = Some (e\<lparr>e_dirty := False\<rparr>) \<and>
         only_drops_expired now (entries t) (entries t') {key})
   | None \<Rightarrow> queue t' = [] \<and> (\<forall>k. \<not> live (entries t) now k) \<and>
       only_drops_expired now (entries t) (entries t') {}"
proof -
  obtain es q where tl: "take_loop now (queue t) (entries t) [] = (es, q, out)"
    and t': "entries t' = es" "queue t' = q"
    using assms(2) by (auto simp: take_next_dirty_def split: prod.splits)
  show ?thesis
  proof (cases "taken out")
    case None
    have "dirty_keys (entries t) \<subseteq> fst ` set (queue t)"
      using assms(1) by (simp add: table_inv_def)
    then have "\<forall>k. \<not> live (entries t) now k"
      using take_loop_none [OF tl None] live_dirty by fastforce
    then show ?thesis
      using take_loop_none [OF tl None] None t' by simp
  next
    case (Some x)
    then show ?thesis
      using take_loop_taken [OF tl Some] t' by (simp add: Let_def)
  qed
qed

definition sample_table :: NeighborTable where
  "sample_table = new_table\<lparr>
     entries := [((''a'', 1), \<lparr>e_leg = ''l'', e_mac = (0, 0, 0, 0, 0, 1), e_expires_at = 5, e_dirty = True\<rparr>),
                 ((''a'', 2), \<lparr>e_leg = ''l'', e_mac = (0, 0, 0, 0, 0, 2), e_expires_at = 90, e_dirty = True\<rparr>)],
     queue := [((''a'', 1), 0), ((''a'', 2), 1)]\<rparr>"

lemma sample_table_inv: "table_inv sample_table"
  by (auto simp: sample_table_def new_table_def table_inv_def om_ok_def dirty_keys_def)

theorem take_next_dirty_effect_witness:
  "\<exists>t' x. take_next_dirty sample_table 10 = (t', \<lparr>taken = Some x, expired = [''a'']\<rparr>) \<and>
     t_addr x = 2 \<and> queue t' = [] \<and>
     (\<exists>e. om_get (entries sample_table) (t_row x, t_addr x) = Some e \<and> 10 < e_expires_at e)"
proof -
  obtain t' x where tk: "take_next_dirty sample_table 10 = (t', \<lparr>taken = Some x, expired = [''a'']\<rparr>)"
    and x: "t_addr x = 2" and q: "queue t' = []"
    by (simp add: take_next_dirty_def sample_table_def new_table_def om_remove_def)
  then show ?thesis
    using take_next_dirty_effect [OF sample_table_inv tk] by (auto simp: Let_def)
qed

section \<open>Fairness\<close>

lemma take_loop_popped:
  assumes "take_loop now q es exp = (es', q', out)"
  shows "dirty_keys es' \<subseteq> dirty_keys es \<and>
     (\<exists>pre. q = pre @ q' \<and> (q \<noteq> [] \<longrightarrow> pre \<noteq> []) \<and> (\<forall>p\<in>set pre. fst p \<notin> dirty_keys es'))"
  using assms
proof (induction q arbitrary: es exp)
  case (Cons p q)
  obtain j at where p: "p = (j, at)"
    by (cases p)
  show ?case
  proof (cases "live es now j")
    case True
    obtain e where "take_loop now ((j, at) # q) es exp =
       (om_insert j (e\<lparr>e_dirty := False\<rparr>) es, q,
        \<lparr>taken = Some \<lparr>t_row = fst j, t_leg = e_leg e, t_addr = snd j, t_mac = e_mac e\<rparr>, expired = exp\<rparr>)"
      using True by (rule take_loop_live)
    then show ?thesis
      using Cons.prems unfolding p by (intro conjI exI [of _ "[(j, at)]"]) auto
  next
    case False
    then have "take_loop now q (purge j es) (exp @ (if j \<in> dirty_keys es then [fst j] else [])) = (es', q', out)"
      using Cons.prems unfolding p take_loop_dead [OF False] by blast
    from Cons.IH [OF this] obtain pre where sub: "dirty_keys es' \<subseteq> dirty_keys (purge j es)"
      and pre: "q = pre @ q'" "\<forall>p\<in>set pre. fst p \<notin> dirty_keys es'"
      by blast
    have "dirty_keys (purge j es) = dirty_keys es - {j}"
      by (auto simp: purge_def)
    then have "dirty_keys es' \<subseteq> dirty_keys es \<and> j \<notin> dirty_keys es'"
      using sub by auto
    then show ?thesis
      using pre p by (intro conjI exI [of _ "p # pre"]) auto
  qed
qed simp

text \<open>How many keys are queued before a key's first occurrence.\<close>

definition queue_pos :: "NeighborTable \<Rightarrow> Key \<Rightarrow> nat" where
  "queue_pos t k = length (takeWhile (\<lambda>p. fst p \<noteq> k) (queue t))"

fun is_take :: "table_call \<Rightarrow> bool" where
  "is_take (CallTake now) = True"
| "is_take _ = False"

lemma queue_pos_step:
  assumes "table_inv t" "k \<in> dirty_keys (entries t)" "k \<in> dirty_keys (entries (table_step t c))"
  shows "queue_pos (table_step t c) k + (if is_take c then 1 else 0) \<le> queue_pos t k"
proof -
  have queued: "k \<in> fst ` set (queue t)"
    using assms(1,2) by (auto simp: table_inv_def)
  then have app: "takeWhile (\<lambda>p. fst p \<noteq> k) (queue t @ r) = takeWhile (\<lambda>p. fst p \<noteq> k) (queue t)" for r
    by (auto intro: takeWhile_append1)
  show ?thesis
  proof (cases c)
    case (CallTake now)
    obtain es q out where tl: "take_loop now (queue t) (entries t) [] = (es, q, out)"
      by (metis prod_cases3)
    obtain pre where pre: "queue t = pre @ q" "queue t \<noteq> [] \<longrightarrow> pre \<noteq> []"
      "\<forall>p\<in>set pre. fst p \<notin> dirty_keys es"
      using take_loop_popped [OF tl] by blast
    have "k \<in> dirty_keys es"
      using assms(3) CallTake tl by (simp add: take_next_dirty_def)
    then have "takeWhile (\<lambda>p. fst p \<noteq> k) (queue t) = pre @ takeWhile (\<lambda>p. fst p \<noteq> k) q"
      using pre by (auto intro: takeWhile_append2)
    moreover have "pre \<noteq> []"
      using pre(2) queued by auto
    ultimately show ?thesis
      using CallTake tl by (cases pre) (auto simp: queue_pos_def take_next_dirty_def)
  qed (auto simp: queue_pos_def app upsert_def re_dirty_def remove_expired_def wait_dirty_def Let_def
      split: option.splits)
qed

text \<open>C37: no claim starves. A claim with \<open>n\<close> keys queued before it has left the queue (written,
  dropped because its lease ran out, or handed to the actor) by the time the actor has made
  \<open>n + 1\<close> takes, whatever upserts, put-backs and sweeps are interleaved with them: later
  traffic cannot push it back.\<close>

theorem no_claim_starves:
  assumes "table_inv t" and "k \<in> dirty_keys (entries t)"
    and "queue_pos t k < length (filter is_take calls)"
  shows "\<exists>n \<le> length calls. k \<notin> dirty_keys (entries (foldl table_step t (take n calls)))"
  using assms
proof (induction calls arbitrary: t)
  case (Cons c calls)
  show ?case
  proof (cases "k \<in> dirty_keys (entries (table_step t c))")
    case True
    have "queue_pos (table_step t c) k < length (filter is_take calls)"
      using queue_pos_step [OF Cons.prems(1,2) True] Cons.prems(3) by (auto split: if_splits)
    moreover have "table_inv (table_step t c)"
      using Cons.prems(1) by (rule tbl.step_inv)
    ultimately obtain n where "n \<le> length calls"
      "k \<notin> dirty_keys (entries (foldl table_step (table_step t c) (take n calls)))"
      using Cons.IH True by blast
    then show ?thesis
      by (intro exI [of _ "Suc n"]) simp
  next
    case False
    then show ?thesis
      by (intro exI [of _ 1]) simp
  qed
qed simp

theorem no_claim_starves_witness:
  "\<exists>n \<le> 3. (''a'', 2) \<notin> dirty_keys (entries (foldl table_step sample_table
     (take n [CallTake 1, CallUpsert ''b'' ''l'' 3 (0, 0, 0, 0, 0, 3) 50 sample_cap 1, CallTake 2])))"
proof -
  have "(''a'', 2) \<in> dirty_keys (entries sample_table)"
    "queue_pos sample_table (''a'', 2) < 2"
    by (simp_all add: sample_table_def new_table_def dirty_keys_def queue_pos_def)
  then show ?thesis
    using no_claim_starves [OF sample_table_inv, of "(''a'', 2)"
      "[CallTake 1, CallUpsert ''b'' ''l'' 3 (0, 0, 0, 0, 0, 3) 50 sample_cap 1, CallTake 2]"]
    by (simp add: numeral_3_eq_3)
qed

section \<open>Put-backs\<close>

text \<open>The three rules of a put-back. An entry whose lease ran out is dropped and its row is
  reported, never queued again; an entry an upsert dirtied again in the meantime keeps its
  place; any other entry goes to the back of the queue; and no put-back changes a claim's
  address, MAC or expiry.\<close>

theorem re_dirty_rules:
  assumes "re_dirty t row addr now = (t', dropped)" and "entry t row addr = Some e"
  shows "(e_expires_at e \<le> now \<longrightarrow> dropped = Some row \<and> entry t' row addr = None \<and> queue t' = queue t) \<and>
     (now < e_expires_at e \<longrightarrow> dropped = None \<and> entry t' row addr = Some (e\<lparr>e_dirty := True\<rparr>) \<and>
        queue t' = queue t @ (if e_dirty e then [] else [((row, addr), now)])) \<and>
     (\<forall>k. k \<noteq> (row, addr) \<longrightarrow> om_get (entries t') k = om_get (entries t) k)"
proof -
  have "e_dirty e \<Longrightarrow> e\<lparr>e_dirty := True\<rparr> = e"
    by (cases e) simp
  then show ?thesis
    using assms by (auto simp: re_dirty_def entry_def Let_def map_simps split: if_splits)
qed

theorem re_dirty_rules_witness:
  "let (t', d) = re_dirty (fst (take_next_dirty sample_table 2)) ''a'' 1 3 in
   d = None \<and> map fst (queue t') = [(''a'', 2), (''a'', 1)]"
proof -
  let ?t = "fst (take_next_dirty sample_table 2)"
  let ?e = "\<lparr>e_leg = ''l'', e_mac = (0, 0, 0, 0, 0, 1), e_expires_at = 5, e_dirty = False\<rparr>"
  have q: "queue ?t = [((''a'', 2), 1)]" and e: "entry ?t ''a'' 1 = Some ?e"
    by (simp_all add: take_next_dirty_def sample_table_def new_table_def entry_def)
  obtain t' d where r: "re_dirty ?t ''a'' 1 3 = (t', d)"
    by fastforce
  show ?thesis
    using re_dirty_rules [OF r e] q by (simp add: r)
qed

section \<open>A stale queue key can be revived\<close>

text \<open>
  The source's comment on the queue calls a stale key (one whose entry was removed while queued)
  unambiguous because the entry it names is gone. The same address can be claimed again while
  the stale key is still queued: the queue then holds the key twice, the new claim is served at
  the old key's place, and the age gauge counts from the old claim.
\<close>

lemma stale_key_revived:
  "let t = foldl table_step new_table
        [CallUpsert ''vms'' ''l'' 1 (0, 0, 0, 0, 0, 1) 60 sample_cap 0,
         CallRemoveExpired 60,
         CallUpsert ''vms'' ''l'' 1 (0, 0, 0, 0, 0, 2) 160 sample_cap 100] in
   queued_len t = 2 \<and> dirty_depth t = 1 \<and> oldest_dirty_age t 100 = Some 100"
  by (simp add: upsert_def remove_expired_def new_table_def sample_cap_def row_len_def queued_len_def
      dirty_depth_def oldest_dirty_age_def Let_def)

end
