(* ===== verification/Token_Bucket.thy ===== *)
theory Token_Bucket
  imports Prelude Machines
begin

text \<open>
  The host-wide token bucket of the flush actor (\<open>src/src/workload/actor.rs\<close>, \<open>Bucket\<close>). Time is
  the nanosecond count of the instants; the refill loop is the source's loop, one token per
  iteration. The interface its client relies on is the locale \<open>fork_budget\<close>: a potential that no
  call raises and that every granted spend lowers by one token's worth of time, from which the
  number of spends granted in any window of time is bounded.
\<close>

definition REFILL_PER_SEC :: nat where "REFILL_PER_SEC = 10"
definition BURST :: nat where "BURST = 32"
definition TOKEN_INTERVAL :: duration where
  "TOKEN_INTERVAL = from_millis (1000 div REFILL_PER_SEC)"

record Bucket =
  tokens :: nat
  next_token_at :: instant

definition new_bucket :: "instant \<Rightarrow> Bucket" where
  "new_bucket now = \<lparr>tokens = BURST, next_token_at = now + TOKEN_INTERVAL\<rparr>"

function refill_loop :: "instant \<Rightarrow> Bucket \<Rightarrow> Bucket" where
  "refill_loop now b =
     (if tokens b < BURST \<and> next_token_at b \<le> now then
        refill_loop now (b\<lparr>tokens := tokens b + 1, next_token_at := next_token_at b + TOKEN_INTERVAL\<rparr>)
      else b)"
  by pat_completeness auto
termination
  by (relation "measure (\<lambda>(now, b). BURST - tokens b)") auto

declare refill_loop.simps [simp del]

definition refill :: "Bucket \<Rightarrow> instant \<Rightarrow> Bucket" where
  "refill b now =
     (let b' = refill_loop now b in
      if BURST \<le> tokens b' \<and> next_token_at b' \<le> now
      then b'\<lparr>next_token_at := now + TOKEN_INTERVAL\<rparr> else b')"

definition level :: "Bucket \<Rightarrow> instant \<Rightarrow> Bucket \<times> nat" where
  "level b now = (let b' = refill b now in (b', tokens b'))"

definition spend :: "Bucket \<Rightarrow> instant \<Rightarrow> Bucket \<times> bool" where
  "spend b now =
     (let b' = refill b now in
      if tokens b' = 0 then (b', False) else (b'\<lparr>tokens := tokens b' - 1\<rparr>, True))"

definition wait_for :: "Bucket \<Rightarrow> instant \<Rightarrow> nat \<Rightarrow> Bucket \<times> duration" where
  "wait_for b now want =
     (let b' = refill b now in
      if want \<le> tokens b' then (b', 0)
      else let need = want - tokens b' in
           (b', (next_token_at b' - now) + TOKEN_INTERVAL * (need - 1)))"

section \<open>The refill in closed form\<close>

lemma TOKEN_INTERVAL_pos [simp]: "0 < TOKEN_INTERVAL"
  by (simp add: TOKEN_INTERVAL_def REFILL_PER_SEC_def from_millis_def)

text \<open>Tokens that have landed by \<open>now\<close>, before the cap.\<close>

definition landed :: "Bucket \<Rightarrow> instant \<Rightarrow> nat" where
  "landed b now =
     (if next_token_at b \<le> now then Suc ((now - next_token_at b) div TOKEN_INTERVAL) else 0)"

lemma landed_step:
  assumes "next_token_at b \<le> now"
  shows "landed b now =
    Suc (landed (b\<lparr>tokens := n, next_token_at := next_token_at b + TOKEN_INTERVAL\<rparr>) now)"
proof (cases "next_token_at b + TOKEN_INTERVAL \<le> now")
  case True
  then have "(now - next_token_at b) div TOKEN_INTERVAL =
      Suc ((now - next_token_at b - TOKEN_INTERVAL) div TOKEN_INTERVAL)"
    by (simp add: le_div_geq)
  with True assms show ?thesis
    by (simp add: landed_def)
next
  case False
  with assms show ?thesis
    by (simp add: landed_def)
qed

lemma refill_loop_eq:
  "tokens b \<le> BURST \<Longrightarrow> refill_loop now b =
     (let k = min (BURST - tokens b) (landed b now) in
      b\<lparr>tokens := tokens b + k, next_token_at := next_token_at b + k * TOKEN_INTERVAL\<rparr>)"
proof (induction now b rule: refill_loop.induct)
  case (1 now b)
  show ?case
  proof (cases "tokens b < BURST \<and> next_token_at b \<le> now")
    case True
    let ?b = "b\<lparr>tokens := tokens b + 1, next_token_at := next_token_at b + TOKEN_INTERVAL\<rparr>"
    have "refill_loop now b = refill_loop now ?b"
      using True by (subst refill_loop.simps) simp
    moreover have "min (BURST - tokens b) (landed b now) =
        Suc (min (BURST - Suc (tokens b)) (landed ?b now))"
      using True landed_step [of b now "tokens b + 1"] by auto
    ultimately show ?thesis
      using 1 True by (simp add: Let_def)
  next
    case False
    then have "min (BURST - tokens b) (landed b now) = 0"
      using 1 by (auto simp: landed_def)
    with False show ?thesis
      by (subst refill_loop.simps) (simp only: if_False, simp)
  qed
qed

definition bucket_ok :: "Bucket \<Rightarrow> instant \<Rightarrow> bool" where
  "bucket_ok b now \<longleftrightarrow> tokens b \<le> BURST \<and> next_token_at b \<le> now + TOKEN_INTERVAL"

lemma bucket_ok_mono: "bucket_ok b s \<Longrightarrow> s \<le> t \<Longrightarrow> bucket_ok b t"
  by (auto simp: bucket_ok_def)

lemma bucket_ok_new: "bucket_ok (new_bucket now) now"
  by (simp add: bucket_ok_def new_bucket_def)

lemma tokens_refill:
  assumes "tokens b \<le> BURST"
  shows "tokens (refill b now) = min BURST (tokens b + landed b now)"
  using assms by (auto simp: refill_def refill_loop_eq Let_def min_def)

lemma landed_mult: "next_token_at b \<le> now \<Longrightarrow>
    next_token_at b + (landed b now - 1) * TOKEN_INTERVAL \<le> now \<and>
    now < next_token_at b + landed b now * TOKEN_INTERVAL"
proof
  assume le: "next_token_at b \<le> now"
  let ?d = "now - next_token_at b"
  have "next_token_at b + ?d div TOKEN_INTERVAL * TOKEN_INTERVAL \<le> next_token_at b + ?d"
    by (intro add_left_mono div_times_less_eq_dividend)
  also have "\<dots> = now"
    using le by simp
  finally show "next_token_at b + (landed b now - 1) * TOKEN_INTERVAL \<le> now"
    using le by (simp add: landed_def)
  have "?d < Suc (?d div TOKEN_INTERVAL) * TOKEN_INTERVAL"
    using dividend_less_div_times [OF TOKEN_INTERVAL_pos, of ?d] by simp
  then show "now < next_token_at b + landed b now * TOKEN_INTERVAL"
    using le by (simp add: landed_def)
qed

text \<open>After a refill the next token lands strictly later, and within one interval.\<close>

lemma refill_next:
  assumes "bucket_ok b now"
  shows "now < next_token_at (refill b now) \<and> bucket_ok (refill b now) now"
proof (cases "next_token_at b \<le> now")
  case False
  then have "refill b now = b"
    using assms by (simp add: refill_def refill_loop_eq bucket_ok_def landed_def)
  with False assms show ?thesis
    by simp
next
  case True
  have ok: "tokens b \<le> BURST"
    using assms by (simp add: bucket_ok_def)
  show ?thesis
  proof (cases "landed b now \<le> BURST - tokens b")
    case landed: True
    then have k: "refill_loop now b = b\<lparr>tokens := tokens b + landed b now,
        next_token_at := next_token_at b + landed b now * TOKEN_INTERVAL\<rparr>"
      using ok by (simp add: refill_loop_eq Let_def min_absorb2)
    have "Suc (landed b now - 1) = landed b now"
      using True by (simp add: landed_def)
    then have "landed b now * TOKEN_INTERVAL = (landed b now - 1) * TOKEN_INTERVAL + TOKEN_INTERVAL"
      by (metis add.commute mult_Suc)
    then show ?thesis
      using landed_mult [OF True] landed ok
      by (simp add: refill_def Let_def k bucket_ok_def)
  next
    case False
    then have k: "refill_loop now b = b\<lparr>tokens := BURST,
        next_token_at := next_token_at b + (BURST - tokens b) * TOKEN_INTERVAL\<rparr>"
      using ok by (simp add: refill_loop_eq Let_def min_absorb1)
    have "next_token_at b + (BURST - tokens b) * TOKEN_INTERVAL \<le>
        next_token_at b + (landed b now - 1) * TOKEN_INTERVAL"
      using False by (intro add_left_mono mult_right_mono) auto
    also have "\<dots> \<le> now"
      using landed_mult [OF True] by simp
    finally show ?thesis
      by (simp add: refill_def Let_def k bucket_ok_def)
  qed
qed

lemma refill_idem:
  assumes "now < next_token_at b"
  shows "refill b now = b"
  using assms by (simp add: refill_def refill_loop.simps [of now b])

section \<open>The potential\<close>

text \<open>What a client of the bucket relies on to bound its own forks over a window of time that starts
  at \<open>t0\<close>. \<open>pot t0\<close> is what is left to spend, measured in time; a bucket that banks nothing beyond
  its burst starts the window with at most the burst.\<close>

locale fork_budget =
  fixes spend_op :: "'b \<Rightarrow> nat \<Rightarrow> 'b \<times> bool"
    and sync :: "'b \<Rightarrow> nat \<Rightarrow> 'b"
    and ok :: "'b \<Rightarrow> nat \<Rightarrow> bool"
    and pot :: "nat \<Rightarrow> 'b \<Rightarrow> int"
    and unit_cost :: nat
    and burst :: nat
  assumes ok_later: "ok b s \<Longrightarrow> s \<le> t \<Longrightarrow> ok b t"
    and ok_sync: "ok b t \<Longrightarrow> ok (sync b t) t"
    and ok_spend: "ok b t \<Longrightarrow> ok (fst (spend_op b t)) t"
    and pot_sync: "ok b t \<Longrightarrow> t0 \<le> t \<Longrightarrow> pot t0 (sync b t) \<le> pot t0 b"
    and pot_spend: "ok b t \<Longrightarrow> t0 \<le> t \<Longrightarrow>
      pot t0 (fst (spend_op b t)) + (if snd (spend_op b t) then int unit_cost else 0) \<le> pot t0 b"
    and pot_start: "pot t0 b < int (unit_cost * burst) - int t0"
    and pot_lower: "ok b t \<Longrightarrow> t0 \<le> t \<Longrightarrow> - int t - int unit_cost \<le> pot t0 b"
    and unit_pos: "0 < unit_cost"
begin

text \<open>A window that ends with \<open>n\<close> grants paid for out of the potential has at most the burst and one
  grant per unit of time, a started unit counting whole.\<close>

lemma grants_bound:
  assumes "ok b' t" and "t0 \<le> t" and "int (unit_cost * n) + pot t0 b' \<le> pot t0 b"
  shows "n \<le> burst + (t - t0 + unit_cost - 1) div unit_cost"
proof -
  have "int (unit_cost * n) < int (unit_cost * burst) - int t0 + int t + int unit_cost"
    using pot_start [of t0 b] pot_lower [OF assms(1,2)] assms(3) by linarith
  then have "unit_cost * n < unit_cost * burst + (t - t0 + unit_cost)"
    using assms(2) by linarith
  then have "unit_cost * (n - burst) \<le> t - t0 + unit_cost - 1"
    by (simp add: diff_mult_distrib2)
  then have "n - burst \<le> (t - t0 + unit_cost - 1) div unit_cost"
    using unit_pos by (simp add: less_eq_div_iff_mult_less_eq mult.commute)
  then show ?thesis
    by simp
qed

end

definition bucket_pot :: "Bucket \<Rightarrow> int" where
  "bucket_pot b = int (TOKEN_INTERVAL * tokens b) - int (next_token_at b)"

lemma bucket_pot_refill_loop:
  "tokens b \<le> BURST \<Longrightarrow> bucket_pot (refill_loop now b) = bucket_pot b"
  by (simp add: refill_loop_eq Let_def bucket_pot_def algebra_simps)

lemma bucket_pot_refill: "tokens b \<le> BURST \<Longrightarrow> bucket_pot (refill b now) \<le> bucket_pot b"
  using bucket_pot_refill_loop [of b now] by (simp add: refill_def Let_def bucket_pot_def)

lemma bucket_pot_spend:
  assumes "tokens b \<le> BURST"
  shows "bucket_pot (fst (spend b now)) + (if snd (spend b now) then int TOKEN_INTERVAL else 0) \<le> bucket_pot b"
proof (cases "tokens (refill b now)")
  case 0
  then show ?thesis
    using bucket_pot_refill [OF assms, of now] by (simp add: spend_def Let_def)
next
  case (Suc n)
  then show ?thesis
    using bucket_pot_refill [OF assms, of now]
    by (simp add: spend_def Let_def bucket_pot_def algebra_simps)
qed

lemma bucket_ok_spend: "bucket_ok b now \<Longrightarrow> bucket_ok (fst (spend b now)) now"
  using refill_next [of b now] by (auto simp: spend_def Let_def bucket_ok_def)

lemma bucket_pot_lower: "bucket_ok b now \<Longrightarrow> - int now - int TOKEN_INTERVAL \<le> bucket_pot b"
proof -
  assume "bucket_ok b now"
  then have "int (next_token_at b) \<le> int (now + TOKEN_INTERVAL)"
    unfolding bucket_ok_def by (simp only: of_nat_le_iff)
  then show ?thesis
    using of_nat_0_le_iff [of "TOKEN_INTERVAL * tokens b", where ?'a = int]
    unfolding bucket_pot_def of_nat_add by linarith
qed

lemma bucket_ok_tokens: "bucket_ok b now \<Longrightarrow> tokens b \<le> BURST"
  by (simp add: bucket_ok_def)

text \<open>What a window that starts at \<open>t0\<close> can spend: a refill after \<open>t0\<close> leaves no more than the burst.\<close>

definition window_pot :: "instant \<Rightarrow> Bucket \<Rightarrow> int" where
  "window_pot t0 b = min (bucket_pot b) (int (TOKEN_INTERVAL * BURST) - int t0 - 1)"

lemma bucket_pot_full:
  assumes "bucket_ok b t"
  shows "bucket_pot (refill b t) < int (TOKEN_INTERVAL * BURST) - int t"
proof -
  have "int (TOKEN_INTERVAL * tokens (refill b t)) \<le> int (TOKEN_INTERVAL * BURST)"
    using refill_next [OF assms] bucket_ok_tokens by (intro zle_int [THEN iffD2] mult_left_mono) auto
  moreover have "int t < int (next_token_at (refill b t))"
    using refill_next [OF assms] by simp
  ultimately show ?thesis
    unfolding bucket_pot_def by linarith
qed

lemma window_pot_refill: "bucket_ok b t \<Longrightarrow> t0 \<le> t \<Longrightarrow> window_pot t0 (refill b t) \<le> window_pot t0 b"
  using bucket_pot_full [of b t] bucket_pot_refill [of b t] bucket_ok_tokens [of b t]
  by (simp add: window_pot_def)

lemma window_pot_spend:
  assumes "bucket_ok b t" and "t0 \<le> t"
  shows "window_pot t0 (fst (spend b t)) + (if snd (spend b t) then int TOKEN_INTERVAL else 0) \<le> window_pot t0 b"
proof -
  have "spend b t = spend (refill b t) t"
    using refill_next [OF assms(1)] by (simp add: spend_def refill_idem)
  moreover have "bucket_pot (fst (spend (refill b t) t)) +
      (if snd (spend (refill b t) t) then int TOKEN_INTERVAL else 0) \<le> bucket_pot (refill b t)"
    using refill_next [OF assms(1)] bucket_ok_tokens by (intro bucket_pot_spend) blast
  ultimately show ?thesis
    using bucket_pot_full [OF assms(1)] bucket_pot_refill [of b t] bucket_ok_tokens [OF assms(1)] assms(2)
    by (simp add: window_pot_def split: if_splits)
qed

lemma window_pot_lower: "bucket_ok b t \<Longrightarrow> t0 \<le> t \<Longrightarrow> - int t - int TOKEN_INTERVAL \<le> window_pot t0 b"
  using bucket_pot_lower [of b t] TOKEN_INTERVAL_pos by (simp add: window_pot_def BURST_def del: TOKEN_INTERVAL_pos)

interpretation bkt: fork_budget spend refill bucket_ok window_pot TOKEN_INTERVAL BURST
proof
  show "window_pot t0 b < int (TOKEN_INTERVAL * BURST) - int t0" for t0 b
    by (simp add: window_pot_def)
qed (simp_all add: window_pot_refill window_pot_spend window_pot_lower bucket_ok_mono bucket_ok_spend
    refill_next)

section \<open>Waiting\<close>

lemma landed_ge: "0 < k \<Longrightarrow> k \<le> landed b t \<longleftrightarrow> next_token_at b + (k - 1) * TOKEN_INTERVAL \<le> t"
proof -
  assume k: "0 < k"
  show ?thesis
  proof (cases "next_token_at b \<le> t")
    case True
    have "k \<le> landed b t \<longleftrightarrow> k - 1 \<le> (t - next_token_at b) div TOKEN_INTERVAL"
      using True k by (auto simp: landed_def)
    also have "\<dots> \<longleftrightarrow> (k - 1) * TOKEN_INTERVAL \<le> t - next_token_at b"
      by (rule less_eq_div_iff_mult_less_eq) simp
    finally show ?thesis
      using True by (simp add: le_diff_conv2 add.commute)
  qed (use k in \<open>auto simp: landed_def\<close>)
qed

lemma fst_wait_for [simp]: "fst (wait_for b now want) = refill b now"
  by (simp add: wait_for_def Let_def)

text \<open>The wait the actor sleeps is exact. The tokens it asked for are there when the wait has
  passed and at no earlier instant, however many it asked for within the burst.\<close>

theorem wait_for_exact:
  assumes "bucket_ok b now" and "want \<le> BURST" and "now \<le> t"
  shows "want \<le> snd (level (fst (wait_for b now want)) t) \<longleftrightarrow> now + snd (wait_for b now want) \<le> t"
proof -
  let ?b = "refill b now"
  have ok: "bucket_ok ?b now" and nxt: "now < next_token_at ?b"
    using refill_next [OF assms(1)] by simp_all
  have lev: "snd (level ?b t) = min BURST (tokens ?b + landed ?b t)"
    using ok by (simp add: level_def Let_def tokens_refill bucket_ok_def)
  show ?thesis
  proof (cases "want \<le> tokens ?b")
    case True
    then show ?thesis
      using assms lev by (simp add: wait_for_def Let_def)
  next
    case False
    then have "want \<le> snd (level ?b t) \<longleftrightarrow> want - tokens ?b \<le> landed ?b t"
      using assms(2) lev by auto
    also have "\<dots> \<longleftrightarrow> next_token_at ?b + (want - tokens ?b - 1) * TOKEN_INTERVAL \<le> t"
      using False by (intro landed_ge) simp
    finally show ?thesis
      using False nxt by (simp add: wait_for_def Let_def mult.commute)
  qed
qed

theorem wait_for_exact_witness:
  "let b = \<lparr>tokens = 0, next_token_at = 100000000\<rparr> in
   snd (wait_for b 40000000 3) = 260000000 \<and> 3 \<le> snd (level (fst (wait_for b 40000000 3)) 300000000)"
proof -
  let ?b = "\<lparr>tokens = 0, next_token_at = 100000000\<rparr>"
  have w: "snd (wait_for ?b 40000000 3) = 260000000"
    by (simp add: wait_for_def refill_idem TOKEN_INTERVAL_def from_millis_def REFILL_PER_SEC_def)
  have "bucket_ok ?b 40000000"
    by (simp add: bucket_ok_def TOKEN_INTERVAL_def from_millis_def REFILL_PER_SEC_def)
  then have "3 \<le> snd (level (fst (wait_for ?b 40000000 3)) 300000000)"
    using wait_for_exact [of ?b 40000000 3 300000000] w by (simp add: BURST_def)
  with w show ?thesis
    by simp
qed

end
