(* ===== verification/Workload_Actor.thy ===== *)
theory Workload_Actor
  imports Workload_Table Token_Bucket Host_Io
begin

text \<open>
  The flush actor (\<open>src/src/workload/actor.rs\<close>) and the argv of its writes (\<open>writer.rs\<close>). The
  actor is one state record; every method takes the state and returns the new one. What the
  source leaves to its surroundings is the argument \<open>World\<close>: how much time passes before each of
  the actor's own actions, which claims other tasks upsert in the meantime (the table is shared,
  and its lock is a leaf that is never held across an action), what each forked command returns,
  and how \<open>serde_json\<close> reads a document. Every theorem holds for every world.

  Main facts: no fork without a token, so forks are bounded by elapsed time; a batch forks one read
  and at most 31 writes, never writes over an \<open>lladdr\<close> the kernel holds, and settles every claim it
  takes off the queue: the claim is written, held by the kernel, queued again or expired.
\<close>

section \<open>The writer's argv\<close>

datatype WriteVerb = AddVerb | ReplaceVerb

fun ip_verb :: "WriteVerb \<Rightarrow> string" where
  "ip_verb AddVerb = ''add''"
| "ip_verb ReplaceVerb = ''replace''"

definition write_argv :: "WriteVerb \<Rightarrow> ipv4 \<Rightarrow> mac \<Rightarrow> string \<Rightarrow> string list" where
  "write_argv verb addr m leg =
     [''ip'', ''neigh'', ip_verb verb, ipv4_str addr, ''lladdr'', mac_str m, ''dev'', leg,
      ''nud'', ''stale'']"

section \<open>The classifier\<close>

definition SWEEP :: duration where "SWEEP = from_secs 15"
definition EXPIRY_LOG_WINDOW :: duration where "EXPIRY_LOG_WINDOW = from_secs 60"
definition READ_ARGV :: "string list" where
  "READ_ARGV = [''ip'', ''-j'', ''neigh'', ''show'', ''nud'', ''all'']"

datatype Class = Add | Replace | Skip

type_synonym KernelNeighbors = "string \<times> ipv4 \<Rightarrow> bool option"

text \<open>One iteration of the parse loop; the state is the map and the count of understood entries.\<close>

definition parse_entry :: "KernelNeighbors \<times> nat \<Rightarrow> json \<Rightarrow> KernelNeighbors \<times> nat" where
  "parse_entry acc e =
     (case acc of (by_key, understood) \<Rightarrow>
        case as_str (json_at e ''dst'') of
          None \<Rightarrow> (by_key, understood)
        | Some dst \<Rightarrow>
            (case parse_ipv4 dst of
               None \<Rightarrow> (by_key, understood + 1)
             | Some a \<Rightarrow>
                 (case as_str (json_at e ''dev'') of
                    None \<Rightarrow> (by_key, understood + 1)
                  | Some dev \<Rightarrow>
                      (by_key((dev, a) \<mapsto> as_str (json_at e ''lladdr'') \<noteq> None), understood + 1))))"

text \<open>\<open>KernelNeighbors::parse\<close>, on what \<open>serde_json::from_str\<close> returned.\<close>

definition parse_neighbors :: "json option \<Rightarrow> KernelNeighbors option" where
  "parse_neighbors doc =
     (case doc of
        None \<Rightarrow> None
      | Some d \<Rightarrow>
          (case as_array d of
             None \<Rightarrow> None
           | Some arr \<Rightarrow>
               (case foldl parse_entry (Map.empty, 0) arr of
                  (by_key, understood) \<Rightarrow>
                    if understood = 0 \<and> arr \<noteq> [] then None else Some by_key)))"

definition classify :: "KernelNeighbors \<Rightarrow> string \<Rightarrow> ipv4 \<Rightarrow> Class" where
  "classify by_key leg addr =
     (case by_key (leg, addr) of None \<Rightarrow> Add | Some True \<Rightarrow> Skip | Some False \<Rightarrow> Replace)"

section \<open>The actor and its surroundings\<close>

datatype Batch = Idle | ReadFailedBatch | Drained
datatype Sweep = ReadFailedSweep | Diffed nat nat
datatype Step = Swept Sweep | StepBatch Batch

record Counts =
  read_failures :: nat
  writes :: nat
  write_failures :: nat
  skips :: nat
  expiries :: nat

record RowCounts =
  r_writes :: nat
  r_write_failures :: nat
  r_skips :: nat
  r_expiries :: nat

definition no_counts :: Counts where
  "no_counts = \<lparr>read_failures = 0, writes = 0, write_failures = 0, skips = 0, expiries = 0\<rparr>"

definition no_row_counts :: RowCounts where
  "no_row_counts = \<lparr>r_writes = 0, r_write_failures = 0, r_skips = 0, r_expiries = 0\<rparr>"

record NeighborRowInfo =
  i_name :: string
  i_table_size :: nat
  i_writes :: nat
  i_write_failures :: nat
  i_read_failures :: nat
  i_cap_refusals :: nat
  i_expiries :: nat
  i_skips :: nat

text \<open>The age is kept as a duration; the source prints it as seconds.\<close>

record NeighborActorInfo =
  i_dirty_depth :: nat
  i_oldest_dirty_age :: "duration option"
  i_token_level :: nat

text \<open>A claim another task upserts: the arguments of its \<open>upsert\<close>.\<close>

record Claim =
  cl_row :: string
  cl_leg :: string
  cl_addr :: ipv4
  cl_mac :: mac
  cl_expires_at :: instant
  cl_cap :: RowCap
  cl_now :: instant

record World =
  w_delay :: "nat \<Rightarrow> duration"
  w_claims :: "nat \<Rightarrow> Claim list"
  w_run :: "nat \<Rightarrow> string list \<Rightarrow> io_result"
  w_json :: "string \<Rightarrow> json option"
  w_pick :: "nat \<Rightarrow> bool"

text \<open>\<open>FlushActor\<close>, with the clock (\<open>Instant::now\<close>), the index of the actor's next action in the
  world, the commands it forked with their outcomes, and its journal.\<close>

record Actor =
  a_table :: NeighborTable
  a_bucket :: Bucket
  a_read_failing :: bool
  a_write_failing :: "string set"
  a_expiring :: "(string, instant) omap"
  a_next_sweep :: instant
  a_counts :: Counts
  a_per_row :: "(string, RowCounts) omap"
  a_shared :: bool
  a_published :: "(NeighborRowInfo list \<times> NeighborActorInfo) option"
  a_now :: instant
  a_index :: nat
  a_forks :: "(string list \<times> io_result) list"
  a_journal :: "string list"

definition new_actor :: "NeighborTable \<Rightarrow> instant \<Rightarrow> bool \<Rightarrow> Actor" where
  "new_actor t now shared =
     \<lparr>a_table = t, a_bucket = new_bucket now, a_read_failing = False, a_write_failing = {},
      a_expiring = [], a_next_sweep = now + SWEEP, a_counts = no_counts, a_per_row = [],
      a_shared = shared, a_published = None, a_now = now, a_index = 0, a_forks = [], a_journal = []\<rparr>"

definition apply_claim :: "NeighborTable \<Rightarrow> Claim \<Rightarrow> NeighborTable" where
  "apply_claim t c =
     fst (upsert t (cl_row c) (cl_leg c) (cl_addr c) (cl_mac c) (cl_expires_at c) (cl_cap c) (cl_now c))"

text \<open>Time passes and other tasks' claims land, at least \<open>d\<close> later.\<close>

definition elapse :: "World \<Rightarrow> duration \<Rightarrow> Actor \<Rightarrow> Actor" where
  "elapse w d s =
     s\<lparr>a_now := a_now s + d + w_delay w (a_index s),
       a_table := foldl apply_claim (a_table s) (w_claims w (a_index s)),
       a_index := a_index s + 1\<rparr>"

abbreviation tick :: "World \<Rightarrow> Actor \<Rightarrow> Actor" where
  "tick w s \<equiv> elapse w 0 s"

text \<open>\<open>NeighborIo::run\<close>: the command takes its time, and leaves its outcome.\<close>

definition io_run :: "World \<Rightarrow> string list \<Rightarrow> Actor \<Rightarrow> Actor \<times> io_result" where
  "io_run w argv s =
     (let s = tick w s; r = w_run w (a_index s) argv in
      (s\<lparr>a_forks := a_forks s @ [(argv, r)]\<rparr>, r))"

definition log_line :: "string \<Rightarrow> Actor \<Rightarrow> Actor" where
  "log_line line s = s\<lparr>a_journal := a_journal s @ [line]\<rparr>"

section \<open>The operations\<close>

text \<open>\<open>per_row.entry(row).or_default()\<close>, then the field update.\<close>

definition bump :: "(RowCounts \<Rightarrow> RowCounts) \<Rightarrow> string \<Rightarrow> (string, RowCounts) omap \<Rightarrow> (string, RowCounts) omap" where
  "bump f row m = om_insert row (f (case om_get m row of Some c \<Rightarrow> c | None \<Rightarrow> no_row_counts)) m"

definition note_expiries :: "string list \<Rightarrow> instant \<Rightarrow> Actor \<Rightarrow> Actor" where
  "note_expiries dropped now s =
     (let per_row = foldl (\<lambda>m row. bump (\<lambda>c. c\<lparr>r_expiries := r_expiries c + 1\<rparr>) row m) (a_per_row s) dropped;
          seen = sort (remdups dropped);
          counts = (a_counts s)\<lparr>expiries := expiries (a_counts s) + length dropped\<rparr>;
          s = s\<lparr>a_per_row := per_row, a_counts := counts\<rparr>;
          fresh = filter (\<lambda>row. case om_get (a_expiring s) row of
                                   None \<Rightarrow> True
                                 | Some prev \<Rightarrow> EXPIRY_LOG_WINDOW \<le> now - prev) seen
      in if fresh = [] then s
         else
           let counted = length (filter (\<lambda>r. r \<in> set fresh) dropped);
               s = s\<lparr>a_expiring := foldl (\<lambda>m row. om_insert row now m) (a_expiring s) fresh\<rparr>
           in log_line (''cfab: dhcp neighbor actor: '' @ dec counted @
                '' table entry/entries expired before the write; the workload row(s): '' @
                join '', '' fresh) s)"

text \<open>\<open>wait_and_spend\<close>. The loop has no bound in the source; here it has fuel, and running out of it
  is \<open>None\<close>.\<close>

fun wait_and_spend_loop :: "nat \<Rightarrow> World \<Rightarrow> nat \<Rightarrow> Actor \<Rightarrow> Actor option" where
  "wait_and_spend_loop 0 w want s = None"
| "wait_and_spend_loop (Suc fuel) w want s =
     (let s = tick w s;
          (b, wait) = wait_for (a_bucket s) (a_now s) want;
          s = s\<lparr>a_bucket := b\<rparr>
      in if wait = 0 then
           let s = tick w s;
               (b, granted) = spend (a_bucket s) (a_now s);
               s = s\<lparr>a_bucket := b\<rparr>
           in if granted then Some s else wait_and_spend_loop fuel w want s
         else wait_and_spend_loop fuel w want (elapse w wait s))"

definition wait_and_spend :: "World \<Rightarrow> nat \<Rightarrow> Actor \<Rightarrow> Actor option" where
  "wait_and_spend = wait_and_spend_loop 2"

definition run_failure :: "io_result \<Rightarrow> string option" where
  "run_failure r =
     (case r of
        Inr out \<Rightarrow> if output_ok out then None
                  else Some (''ip exited '' @ int_str (status out) @ '': '' @ trim (stderr out))
      | Inl e \<Rightarrow> Some e)"

definition read_outcome :: "World \<Rightarrow> io_result \<Rightarrow> string + KernelNeighbors" where
  "read_outcome w r =
     (case r of
        Inr out \<Rightarrow>
          if output_ok out then
            (case parse_neighbors (w_json w (stdout out)) of
               Some doc \<Rightarrow> Inr doc
             | None \<Rightarrow> Inl ''cannot read the neighbor document'')
          else Inl (''ip exited '' @ int_str (status out) @ '': '' @ trim (stderr out))
      | Inl e \<Rightarrow> Inl e)"

definition read_kernel :: "World \<Rightarrow> Actor \<Rightarrow> Actor \<times> KernelNeighbors option" where
  "read_kernel w s =
     (case io_run w READ_ARGV s of (s, r) \<Rightarrow>
        case read_outcome w r of
          Inr doc \<Rightarrow> (s\<lparr>a_read_failing := False\<rparr>, Some doc)
        | Inl why \<Rightarrow>
            let s = s\<lparr>a_counts := (a_counts s)\<lparr>read_failures := read_failures (a_counts s) + 1\<rparr>\<rparr>;
                s = (if a_read_failing s then s
                     else log_line (''cfab: dhcp neighbor actor: kernel read failed: '' @ why @
                            ''; nothing written and nothing dirtied this pass'')
                            (s\<lparr>a_read_failing := True\<rparr>))
            in (s, None))"

text \<open>The locals of one batch.\<close>

record BatchVars =
  b_seen :: "Key set"
  b_put_back :: "Key list"
  b_dropped :: "string list"

text \<open>The body of the drain loop after an entry was taken; the flag is \<open>False\<close> on \<open>break\<close>.\<close>

definition count_skip :: "string \<Rightarrow> Actor \<Rightarrow> Actor" where
  "count_skip row s =
     s\<lparr>a_counts := (a_counts s)\<lparr>skips := skips (a_counts s) + 1\<rparr>,
       a_per_row := bump (\<lambda>c. c\<lparr>r_skips := r_skips c + 1\<rparr>) row (a_per_row s)\<rparr>"

definition count_write :: "string \<Rightarrow> Actor \<Rightarrow> Actor" where
  "count_write row s =
     s\<lparr>a_counts := (a_counts s)\<lparr>writes := writes (a_counts s) + 1\<rparr>,
       a_per_row := bump (\<lambda>c. c\<lparr>r_writes := r_writes c + 1\<rparr>) row (a_per_row s),
       a_write_failing := a_write_failing s - {row}\<rparr>"

definition count_write_failure :: "string \<Rightarrow> ipv4 \<Rightarrow> string \<Rightarrow> Actor \<Rightarrow> Actor" where
  "count_write_failure row addr why s =
     (let s = s\<lparr>a_counts := (a_counts s)\<lparr>write_failures := write_failures (a_counts s) + 1\<rparr>,
                a_per_row := bump (\<lambda>c. c\<lparr>r_write_failures := r_write_failures c + 1\<rparr>) row (a_per_row s)\<rparr>
      in if row \<in> a_write_failing s then s
         else log_line (''cfab: workload '' @ row @ '': neighbor write for '' @ ipv4_str addr @
                '' failed: '' @ why)
                (s\<lparr>a_write_failing := insert row (a_write_failing s)\<rparr>))"

definition write_taken ::
  "World \<Rightarrow> WriteVerb \<Rightarrow> Taken \<Rightarrow> Actor \<Rightarrow> BatchVars \<Rightarrow> Actor \<times> BatchVars \<times> bool" where
  "write_taken w verb t s b =
     (let key = (t_row t, t_addr t);
          s = tick w s;
          (bucket, granted) = spend (a_bucket s) (a_now s);
          s = s\<lparr>a_bucket := bucket\<rparr>
      in if \<not> granted then (s, b\<lparr>b_put_back := b_put_back b @ [key]\<rparr>, False)
         else
           (case io_run w (write_argv verb (t_addr t) (t_mac t) (t_leg t)) s of (s, r) \<Rightarrow>
              case run_failure r of
                None \<Rightarrow> (count_write (t_row t) s, b, True)
              | Some why \<Rightarrow> (count_write_failure (t_row t) (t_addr t) why s,
                             b\<lparr>b_put_back := b_put_back b @ [key]\<rparr>, True)))"

definition handle_taken ::
  "World \<Rightarrow> KernelNeighbors \<Rightarrow> Taken \<Rightarrow> Actor \<Rightarrow> BatchVars \<Rightarrow> Actor \<times> BatchVars \<times> bool" where
  "handle_taken w doc t s b =
     (let key = (t_row t, t_addr t) in
      if key \<in> b_seen b then (s, b\<lparr>b_put_back := b_put_back b @ [key]\<rparr>, True)
      else
        let b = b\<lparr>b_seen := insert key (b_seen b)\<rparr> in
        case classify doc (t_leg t) (t_addr t) of
          Skip \<Rightarrow> (count_skip (t_row t) s, b, True)
        | Add \<Rightarrow> write_taken w AddVerb t s b
        | Replace \<Rightarrow> write_taken w ReplaceVerb t s b)"

text \<open>The drain loop; the first argument is how many more entries the batch may handle.\<close>

fun drain :: "nat \<Rightarrow> World \<Rightarrow> KernelNeighbors \<Rightarrow> Actor \<Rightarrow> BatchVars \<Rightarrow> Actor \<times> BatchVars" where
  "drain 0 w doc s b = (s, b)"
| "drain (Suc n) w doc s b =
     (let s = tick w s;
          (t, nxt) = take_next_dirty (a_table s) (a_now s);
          s = s\<lparr>a_table := t\<rparr>;
          b = b\<lparr>b_dropped := b_dropped b @ expired nxt\<rparr>
      in case taken nxt of
           None \<Rightarrow> (s, b)
         | Some e \<Rightarrow>
             (case handle_taken w doc e s b of (s, b, go) \<Rightarrow>
                if go then drain n w doc s b else (s, b)))"

text \<open>The put-back loop of the batch, also the marking loop of the sweep: every key is re-dirtied
  at one instant, and the rows that dropped an expired entry are collected. Between two keys
  other tasks' claims may land.\<close>

fun re_dirty_all :: "World \<Rightarrow> instant \<Rightarrow> Key list \<Rightarrow> Actor \<Rightarrow> string list \<Rightarrow> Actor \<times> string list" where
  "re_dirty_all w now [] s dropped = (s, dropped)"
| "re_dirty_all w now (k # ks) s dropped =
     (let s = tick w s in
      case re_dirty (a_table s) (fst k) (snd k) now of (t, d) \<Rightarrow>
        re_dirty_all w now ks (s\<lparr>a_table := t\<rparr>) (dropped @ (case d of Some r \<Rightarrow> [r] | None \<Rightarrow> [])))"

text \<open>The batching rule: the tokens a batch waits for, and the locals it starts with.\<close>

definition batch_want :: "nat \<Rightarrow> nat" where
  "batch_want depth = 1 + min (min depth (2 ^ 32 - 1)) (BURST - 1)"

definition no_vars :: BatchVars where
  "no_vars = \<lparr>b_seen = {}, b_put_back = [], b_dropped = []\<rparr>"

definition run_batch :: "World \<Rightarrow> Actor \<Rightarrow> (Actor \<times> Batch) option" where
  "run_batch w s =
     (let s = tick w s; depth = dirty_depth (a_table s) in
      if depth = 0 then Some (s, Idle)
      else
        case wait_and_spend w (batch_want depth) s of
          None \<Rightarrow> None
        | Some s \<Rightarrow>
            (case read_kernel w s of
               (s, None) \<Rightarrow> Some (s, ReadFailedBatch)
             | (s, Some doc) \<Rightarrow>
                 (case drain (BURST - 1) w doc s no_vars of
                    (s, b) \<Rightarrow>
                      let s = tick w s; now = a_now s in
                      (case re_dirty_all w now (b_put_back b) s (b_dropped b) of
                         (s, dropped) \<Rightarrow> Some (note_expiries dropped now s, Drained)))))"

definition sweep :: "World \<Rightarrow> Actor \<Rightarrow> (Actor \<times> Sweep) option" where
  "sweep w s =
     (let s = tick w s;
          (t, dropped) = remove_expired (a_table s) (a_now s);
          s = s\<lparr>a_table := t\<rparr>;
          n_expired = length dropped
      in case wait_and_spend w 1 s of
           None \<Rightarrow> None
         | Some s \<Rightarrow>
             (case read_kernel w s of
                (s, None) \<Rightarrow>
                  let s = tick w s in Some (note_expiries dropped (a_now s) s, ReadFailedSweep)
              | (s, Some doc) \<Rightarrow>
                  let s = tick w s;
                      now = a_now s;
                      missing = filter (\<lambda>(row, addr, leg). classify doc leg addr \<noteq> Skip)
                                  (list_entries (a_table s));
                      keys = map (\<lambda>(row, addr, leg). (row, addr)) missing
                  in (case re_dirty_all w now keys s dropped of
                        (s, dropped) \<Rightarrow>
                          Some (note_expiries dropped now s, Diffed (length keys) n_expired))))"

definition step :: "World \<Rightarrow> Actor \<Rightarrow> (Actor \<times> Step) option" where
  "step w s =
     (let s = tick w s in
      if a_next_sweep s \<le> a_now s then
        (case sweep w s of
           None \<Rightarrow> None
         | Some (s, swept) \<Rightarrow>
             let s = tick w s in Some (s\<lparr>a_next_sweep := a_now s + SWEEP\<rparr>, Swept swept))
      else (case run_batch w s of None \<Rightarrow> None | Some (s, r) \<Rightarrow> Some (s, StepBatch r)))"

definition published_rows ::
  "(string, nat) omap \<Rightarrow> (string, nat) omap \<Rightarrow> Actor \<Rightarrow> NeighborRowInfo list" where
  "published_rows sizes refusals s =
     (let names = sort (remdups (map fst sizes @ map fst refusals @ map fst (a_per_row s)))
      in map (\<lambda>name.
           let c = (case om_get (a_per_row s) name of Some c \<Rightarrow> c | None \<Rightarrow> no_row_counts) in
           \<lparr>i_name = name,
            i_table_size = (case om_get sizes name of Some n \<Rightarrow> n | None \<Rightarrow> 0),
            i_writes = r_writes c, i_write_failures = r_write_failures c,
            i_read_failures = read_failures (a_counts s),
            i_cap_refusals = (case om_get refusals name of Some n \<Rightarrow> n | None \<Rightarrow> 0),
            i_expiries = r_expiries c, i_skips = r_skips c\<rparr>) names)"

definition publish :: "World \<Rightarrow> Actor \<Rightarrow> Actor" where
  "publish w s =
     (if \<not> a_shared s then s
      else
        let s = tick w s;
            sizes = row_sizes (a_table s);
            s = tick w s;
            refusals = cap_refusals_snapshot (a_table s);
            rows = published_rows sizes refusals s;
            s = tick w s;
            now = a_now s;
            depth = dirty_depth (a_table s);
            s = tick w s;
            (b, lvl) = level (a_bucket s) now;
            host = \<lparr>i_dirty_depth = depth,
                    i_oldest_dirty_age = oldest_dirty_age (a_table s) now, i_token_level = lvl\<rparr>
        in s\<lparr>a_bucket := b, a_published := Some (rows, host)\<rparr>)"

text \<open>The \<open>select!\<close> of the idle actor: the table's permit, or the sweep's due time; \<open>w_pick\<close> is the
  choice when both are ready.\<close>

definition idle_wait :: "World \<Rightarrow> Actor \<Rightarrow> Actor" where
  "idle_wait w s =
     (let s = tick w s in
      case wait_dirty (a_table s) of
        Some t \<Rightarrow> if a_now s < a_next_sweep s \<or> w_pick w (a_index s) then s\<lparr>a_table := t\<rparr>
                  else s\<lparr>a_now := max (a_now s) (a_next_sweep s)\<rparr>
      | None \<Rightarrow> s\<lparr>a_now := max (a_now s) (a_next_sweep s)\<rparr>)"

definition run_once :: "World \<Rightarrow> Actor \<Rightarrow> (Actor \<times> Step) option" where
  "run_once w s =
     (case step w s of
        None \<Rightarrow> None
      | Some (s, r) \<Rightarrow>
          let s = publish w s in
          Some (if r = StepBatch Idle then idle_wait w s else s, r))"

section \<open>The ledger\<close>

text \<open>Every operation keeps the invariant and pays for its forks. \<open>costs t0 c s s'\<close> says that going
  from \<open>s\<close> to \<open>s'\<close> lowers the balance (forks made and budget left) by at least \<open>c\<close>.\<close>

definition actor_inv :: "Actor \<Rightarrow> bool" where
  "actor_inv s \<longleftrightarrow> table_inv (a_table s) \<and> bucket_ok (a_bucket s) (a_now s)"

definition balance :: "instant \<Rightarrow> Actor \<Rightarrow> int" where
  "balance t0 s = int (TOKEN_INTERVAL * length (a_forks s)) + window_pot t0 (a_bucket s)"

definition costs :: "instant \<Rightarrow> int \<Rightarrow> Actor \<Rightarrow> Actor \<Rightarrow> bool" where
  "costs t0 c s s' \<longleftrightarrow>
     (actor_inv s \<longrightarrow> t0 \<le> a_now s \<longrightarrow>
        actor_inv s' \<and> a_now s \<le> a_now s' \<and> balance t0 s' + c \<le> balance t0 s)"

lemma costs_refl [simp]: "costs t0 0 s s"
  by (simp add: costs_def)

lemma costs_trans: "costs t0 c s s' \<Longrightarrow> costs t0 d s' s'' \<Longrightarrow> costs t0 (c + d) s s''"
  by (auto simp: costs_def)

lemma costs_free: "costs t0 c s s' \<Longrightarrow> costs t0 0 s' s'' \<Longrightarrow> costs t0 c s s''"
  using costs_trans [of t0 c s s' 0 s''] by simp

lemma costs_then: "costs t0 0 s s' \<Longrightarrow> costs t0 c s' s'' \<Longrightarrow> costs t0 c s s''"
  using costs_trans [of t0 0 s s' c s''] by simp

lemma costs_paid: "costs t0 (int TOKEN_INTERVAL) s s' \<Longrightarrow> costs t0 (- int TOKEN_INTERVAL) s' s'' \<Longrightarrow> costs t0 0 s s''"
  using costs_trans [of t0 "int TOKEN_INTERVAL" s s' "- int TOKEN_INTERVAL" s''] by simp

text \<open>An update of the fields neither the invariant nor the balance reads is free.\<close>

lemma costs_same:
  "a_table s' = a_table s \<Longrightarrow> a_bucket s' = a_bucket s \<Longrightarrow> a_now s' = a_now s \<Longrightarrow>
   a_forks s' = a_forks s \<Longrightarrow> costs t0 0 s s'"
  by (simp add: costs_def actor_inv_def balance_def)

lemma costs_table:
  "(table_inv (a_table s) \<Longrightarrow> table_inv t) \<Longrightarrow> costs t0 0 s (s\<lparr>a_table := t\<rparr>)"
  by (simp add: costs_def actor_inv_def balance_def)

lemma apply_claim_step:
  "apply_claim t c = table_step t (CallUpsert (cl_row c) (cl_leg c) (cl_addr c) (cl_mac c)
     (cl_expires_at c) (cl_cap c) (cl_now c))"
  by (simp add: apply_claim_def)

lemma table_inv_claims: "table_inv t \<Longrightarrow> table_inv (foldl apply_claim t cs)"
  by (induction cs arbitrary: t) (auto simp: apply_claim_step intro: tbl.step_inv simp del: table_step.simps)

lemma elapse_simps:
  "a_bucket (elapse w d s) = a_bucket s" "a_forks (elapse w d s) = a_forks s"
  "a_shared (elapse w d s) = a_shared s" "a_next_sweep (elapse w d s) = a_next_sweep s"
  "elapse w d (s\<lparr>a_bucket := b\<rparr>) = (elapse w d s)\<lparr>a_bucket := b\<rparr>"
  by (simp_all add: elapse_def)

lemma elapse_now: "a_now (elapse w d s) = a_now s + d + w_delay w (a_index s)"
  by (simp add: elapse_def)

lemma elapse_table: "a_table (elapse w d s) = foldl apply_claim (a_table s) (w_claims w (a_index s))"
  by (simp add: elapse_def)

lemma costs_elapse [simp]: "costs t0 0 s (elapse w d s)"
  by (auto simp: costs_def elapse_def actor_inv_def balance_def table_inv_claims elim: bucket_ok_mono)

lemma costs_io_run: "costs t0 (- int TOKEN_INTERVAL) s (fst (io_run w argv s))"
proof -
  have "costs t0 (- int TOKEN_INTERVAL) s (s\<lparr>a_forks := fs\<rparr>)" if "length fs = Suc (length (a_forks s))" for s fs
    using that by (simp add: costs_def actor_inv_def balance_def algebra_simps)
  then show ?thesis
    unfolding io_run_def Let_def fst_conv by (rule costs_then [OF costs_elapse]) simp
qed

lemma costs_refill: "costs t0 0 s (s\<lparr>a_bucket := refill (a_bucket s) (a_now s)\<rparr>)"
  using bkt.pot_sync bkt.ok_sync by (simp add: costs_def actor_inv_def balance_def)

lemma costs_spend:
  assumes "spend (a_bucket s) (a_now s) = (b, granted)"
  shows "costs t0 (if granted then int TOKEN_INTERVAL else 0) s (s\<lparr>a_bucket := b\<rparr>)"
  using bkt.pot_spend [of "a_bucket s" "a_now s" t0] bkt.ok_spend [of "a_bucket s" "a_now s"] assms
  by (simp add: costs_def actor_inv_def balance_def)

lemma a_log_line [simp]:
  "a_table (log_line l s) = a_table s" "a_bucket (log_line l s) = a_bucket s"
  "a_now (log_line l s) = a_now s" "a_forks (log_line l s) = a_forks s"
  by (simp_all add: log_line_def)

lemma a_note_expiries [simp]:
  "a_table (note_expiries d now s) = a_table s" "a_bucket (note_expiries d now s) = a_bucket s"
  "a_now (note_expiries d now s) = a_now s" "a_forks (note_expiries d now s) = a_forks s"
  by (simp_all add: note_expiries_def Let_def)

lemma a_count_skip [simp]:
  "a_table (count_skip r s) = a_table s" "a_bucket (count_skip r s) = a_bucket s"
  "a_now (count_skip r s) = a_now s" "a_forks (count_skip r s) = a_forks s"
  by (simp_all add: count_skip_def)

lemma a_count_write [simp]:
  "a_table (count_write r s) = a_table s" "a_bucket (count_write r s) = a_bucket s"
  "a_now (count_write r s) = a_now s" "a_forks (count_write r s) = a_forks s"
  by (simp_all add: count_write_def)

lemma a_count_write_failure [simp]:
  "a_table (count_write_failure r a y s) = a_table s" "a_bucket (count_write_failure r a y s) = a_bucket s"
  "a_now (count_write_failure r a y s) = a_now s" "a_forks (count_write_failure r a y s) = a_forks s"
  by (simp_all add: count_write_failure_def Let_def)

lemma costs_wait_and_spend_loop:
  "wait_and_spend_loop n w want s = Some s' \<Longrightarrow> costs t0 (int TOKEN_INTERVAL) s s'"
proof (induction n arbitrary: s)
  case (Suc fuel)
  let ?s1 = "tick w s"
  obtain b d where wf: "wait_for (a_bucket ?s1) (a_now ?s1) want = (b, d)"
    by (cases "wait_for (a_bucket ?s1) (a_now ?s1) want")
  let ?s2 = "?s1\<lparr>a_bucket := b\<rparr>"
  have b: "b = refill (a_bucket ?s1) (a_now ?s1)"
    using wf fst_wait_for [of "a_bucket ?s1" "a_now ?s1" want] by simp
  have s2: "costs t0 0 s ?s2"
    unfolding b by (rule costs_then [OF costs_elapse costs_refill])
  show ?case
  proof (cases "d = 0")
    case False
    then have "wait_and_spend_loop fuel w want (elapse w d ?s2) = Some s'"
      using Suc.prems wf by simp
    then have "costs t0 (int TOKEN_INTERVAL) (elapse w d ?s2) s'"
      by (rule Suc.IH)
    then show ?thesis
      by (rule costs_then [OF costs_then [OF s2 costs_elapse]])
  next
    case True
    let ?s3 = "tick w ?s2"
    obtain b' g where sp: "spend (a_bucket ?s3) (a_now ?s3) = (b', g)"
      by (cases "spend (a_bucket ?s3) (a_now ?s3)")
    have paid: "costs t0 (if g then int TOKEN_INTERVAL else 0) s (?s3\<lparr>a_bucket := b'\<rparr>)"
      using costs_then [OF costs_then [OF s2 costs_elapse] costs_spend [OF sp]] .
    show ?thesis
    proof (cases g)
      case True
      then show ?thesis
        using paid Suc.prems wf sp \<open>d = 0\<close> by simp
    next
      case False
      then have "costs t0 (int TOKEN_INTERVAL) (?s3\<lparr>a_bucket := b'\<rparr>) s'"
        using Suc.prems wf sp True by (intro Suc.IH) simp
      then show ?thesis
        using paid False by (auto intro: costs_then)
    qed
  qed
qed simp

lemma costs_wait_and_spend:
  "wait_and_spend w want s = Some s' \<Longrightarrow> costs t0 (int TOKEN_INTERVAL) s s'"
  unfolding wait_and_spend_def by (rule costs_wait_and_spend_loop)

lemma costs_read_kernel: "costs t0 (- int TOKEN_INTERVAL) s (fst (read_kernel w s))"
proof -
  obtain s1 r where io: "io_run w READ_ARGV s = (s1, r)"
    by (cases "io_run w READ_ARGV s")
  have "costs t0 0 s1 (fst (read_kernel w s))"
    by (rule costs_same) (auto simp: read_kernel_def io Let_def split: sum.splits)
  then show ?thesis
    using costs_io_run [of t0 s w READ_ARGV] io by (auto intro: costs_free)
qed

lemma costs_write_taken: "costs t0 0 s (fst (write_taken w verb t s b))"
proof -
  let ?s1 = "tick w s"
  obtain bk g where sp: "spend (a_bucket ?s1) (a_now ?s1) = (bk, g)"
    by (cases "spend (a_bucket ?s1) (a_now ?s1)")
  let ?s2 = "?s1\<lparr>a_bucket := bk\<rparr>"
  have paid: "costs t0 (if g then int TOKEN_INTERVAL else 0) s ?s2"
    by (rule costs_then [OF costs_elapse costs_spend [OF sp]])
  show ?thesis
  proof (cases g)
    case False
    then show ?thesis
      using paid sp by (simp add: write_taken_def Let_def)
  next
    case True
    obtain s3 r where io: "io_run w (write_argv verb (t_addr t) (t_mac t) (t_leg t)) ?s2 = (s3, r)"
      by (cases "io_run w (write_argv verb (t_addr t) (t_mac t) (t_leg t)) ?s2")
    have "costs t0 (- int TOKEN_INTERVAL) ?s2 s3"
      using costs_io_run [of t0 ?s2 w "write_argv verb (t_addr t) (t_mac t) (t_leg t)"] io by simp
    then have "costs t0 0 s s3"
      using paid True costs_paid by simp
    moreover have "costs t0 0 s3 (fst (write_taken w verb t s b))"
      by (rule costs_same) (simp_all add: write_taken_def Let_def sp True io split: option.splits)
    ultimately show ?thesis
      by (rule costs_free)
  qed
qed

lemma costs_handle_taken: "costs t0 0 s (fst (handle_taken w doc t s b))"
  unfolding handle_taken_def Let_def
  by (auto intro: costs_same simp: costs_write_taken split: Class.splits)

lemma costs_take:
  "take_next_dirty (a_table s) now = (t, nxt) \<Longrightarrow> costs t0 0 s (s\<lparr>a_table := t\<rparr>)"
  using table_inv_take [of "a_table s" now] by (intro costs_table) simp

lemma costs_drain: "costs t0 0 s (fst (drain n w doc s b))"
proof (induction n arbitrary: s b)
  case (Suc n)
  let ?s1 = "tick w s"
  obtain t nxt where tk: "take_next_dirty (a_table ?s1) (a_now ?s1) = (t, nxt)"
    by (cases "take_next_dirty (a_table ?s1) (a_now ?s1)")
  let ?s2 = "?s1\<lparr>a_table := t\<rparr>"
  have s2: "costs t0 0 s ?s2"
    by (rule costs_then [OF costs_elapse costs_take [OF tk]])
  show ?case
  proof (cases "taken nxt")
    case (Some e)
    let ?b = "b\<lparr>b_dropped := b_dropped b @ expired nxt\<rparr>"
    obtain s3 b3 go where h: "handle_taken w doc e ?s2 ?b = (s3, b3, go)"
      by (cases "handle_taken w doc e ?s2 ?b")
    have "costs t0 0 s s3"
      using costs_then [OF s2 costs_handle_taken [of t0 ?s2 w doc e ?b]] h by simp
    then show ?thesis
      using tk Some h Suc.IH [of s3 b3] by (auto intro: costs_then)
  qed (use s2 tk in simp)
qed simp

lemma costs_re_dirty_all: "costs t0 0 s (fst (re_dirty_all w now ks s d))"
proof (induction ks arbitrary: s d)
  case (Cons k ks)
  let ?s1 = "tick w s"
  obtain t r where rd: "re_dirty (a_table ?s1) (fst k) (snd k) now = (t, r)"
    by (cases "re_dirty (a_table ?s1) (fst k) (snd k) now")
  have "costs t0 0 ?s1 (?s1\<lparr>a_table := t\<rparr>)"
    using table_inv_re_dirty [of "a_table ?s1" "fst k" "snd k" now] rd by (intro costs_table) simp
  then show ?case
    using rd costs_then [OF costs_then [OF costs_elapse] Cons.IH] by simp
qed simp

text \<open>The paths through a batch and through a sweep.\<close>

lemma run_batch_cases:
  assumes "run_batch w s = Some (s', r)"
  obtains (Idle) "r = Idle" "s' = tick w s" "dirty_depth (a_table (tick w s)) = 0"
  | (ReadFailed) s2 where "r = ReadFailedBatch" "dirty_depth (a_table (tick w s)) \<noteq> 0"
      "wait_and_spend w (batch_want (dirty_depth (a_table (tick w s)))) (tick w s) = Some s2"
      "read_kernel w s2 = (s', None)"
  | (Drained) s2 s3 doc s4 b s5 dropped where "r = Drained" "dirty_depth (a_table (tick w s)) \<noteq> 0"
      "wait_and_spend w (batch_want (dirty_depth (a_table (tick w s)))) (tick w s) = Some s2"
      "read_kernel w s2 = (s3, Some doc)"
      "drain (BURST - 1) w doc s3 no_vars = (s4, b)"
      "re_dirty_all w (a_now (tick w s4)) (b_put_back b) (tick w s4) (b_dropped b) = (s5, dropped)"
      "s' = note_expiries dropped (a_now (tick w s4)) s5"
  using assms unfolding run_batch_def Let_def
  by (auto split: if_splits option.splits prod.splits)

lemma sweep_cases:
  assumes "sweep w s = Some (s', r)"
  obtains (ReadFailed) t dropped s2 s3 where "r = ReadFailedSweep"
      "remove_expired (a_table (tick w s)) (a_now (tick w s)) = (t, dropped)"
      "wait_and_spend w 1 ((tick w s)\<lparr>a_table := t\<rparr>) = Some s2"
      "read_kernel w s2 = (s3, None)"
      "s' = note_expiries dropped (a_now (tick w s3)) (tick w s3)"
  | (Diffed) t dropped s2 s3 doc keys s4 dropped' where "r = Diffed (length keys) (length dropped)"
      "remove_expired (a_table (tick w s)) (a_now (tick w s)) = (t, dropped)"
      "wait_and_spend w 1 ((tick w s)\<lparr>a_table := t\<rparr>) = Some s2"
      "read_kernel w s2 = (s3, Some doc)"
      "keys = map (\<lambda>(row, addr, leg). (row, addr))
         (filter (\<lambda>(row, addr, leg). classify doc leg addr \<noteq> Skip) (list_entries (a_table (tick w s3))))"
      "re_dirty_all w (a_now (tick w s3)) keys (tick w s3) dropped = (s4, dropped')"
      "s' = note_expiries dropped' (a_now (tick w s3)) s4"
  using assms unfolding sweep_def Let_def
  by (auto split: if_splits option.splits prod.splits)

lemma costs_read:
  assumes "wait_and_spend w want s = Some s2" and "read_kernel w s2 = (s3, doc)"
  shows "costs t0 0 s s3"
  using costs_paid [OF costs_wait_and_spend [OF assms(1)] costs_read_kernel] assms(2) by (metis fst_conv)

lemma costs_run_batch: "run_batch w s = Some (s', r) \<Longrightarrow> costs t0 0 s s'"
proof (erule run_batch_cases, goal_cases)
  case 1
  then show ?case
    by simp
next
  case (2 s2)
  then show ?case
    using costs_read costs_then [OF costs_elapse] by metis
next
  case (3 s2 s3 doc s4 b s5 dropped)
  have "costs t0 0 (tick w s) s3"
    using 3(3,4) by (rule costs_read)
  moreover have "costs t0 0 s3 s4"
    using costs_drain [of t0 s3 "BURST - 1" w doc no_vars] 3(5) by simp
  moreover have "costs t0 0 (tick w s4) s5"
    using costs_re_dirty_all [of t0 "tick w s4" w "a_now (tick w s4)" "b_put_back b" "b_dropped b"] 3(6)
    by simp
  moreover have "costs t0 0 s5 s'"
    using 3(7) by (simp add: costs_same)
  ultimately show ?case
    by (meson costs_elapse costs_then)
qed

lemma costs_sweep: "sweep w s = Some (s', r) \<Longrightarrow> costs t0 0 s s'"
proof (erule sweep_cases, goal_cases)
  case (1 t dropped s2 s3)
  have "costs t0 0 (tick w s) ((tick w s)\<lparr>a_table := t\<rparr>)"
    using table_inv_remove_expired [of "a_table (tick w s)" "a_now (tick w s)"] 1(2)
    by (intro costs_table) simp
  moreover have "costs t0 0 ((tick w s)\<lparr>a_table := t\<rparr>) s3"
    using 1(3,4) by (rule costs_read)
  moreover have "costs t0 0 (tick w s3) s'"
    using 1(5) by (simp add: costs_same)
  ultimately show ?case
    by (meson costs_elapse costs_then)
next
  case (2 t dropped s2 s3 doc keys s4 dropped')
  have "costs t0 0 (tick w s) ((tick w s)\<lparr>a_table := t\<rparr>)"
    using table_inv_remove_expired [of "a_table (tick w s)" "a_now (tick w s)"] 2(2)
    by (intro costs_table) simp
  moreover have "costs t0 0 ((tick w s)\<lparr>a_table := t\<rparr>) s3"
    using 2(3,4) by (rule costs_read)
  moreover have "costs t0 0 (tick w s3) s4"
    using costs_re_dirty_all [of t0 "tick w s3" w "a_now (tick w s3)" keys dropped] 2(6) by simp
  moreover have "costs t0 0 s4 s'"
    using 2(7) by (simp add: costs_same)
  ultimately show ?case
    by (meson costs_elapse costs_then)
qed

lemma costs_step: "step w s = Some (s', r) \<Longrightarrow> costs t0 0 s s'"
proof -
  assume st: "step w s = Some (s', r)"
  show ?thesis
  proof (cases "a_next_sweep (tick w s) \<le> a_now (tick w s)")
    case True
    then obtain s1 sw where s1: "sweep w (tick w s) = Some (s1, sw)"
      and s': "s' = (tick w s1)\<lparr>a_next_sweep := a_now (tick w s1) + SWEEP\<rparr>"
      using st by (auto simp: step_def Let_def split: option.splits)
    have "costs t0 0 (tick w s1) s'"
      unfolding s' by (rule costs_same) simp_all
    then show ?thesis
      using costs_sweep [OF s1] by (meson costs_elapse costs_then)
  next
    case False
    then obtain b where "run_batch w (tick w s) = Some (s', b)"
      using st by (auto simp: step_def Let_def split: option.splits)
    then show ?thesis
      using costs_run_batch by (meson costs_elapse costs_then)
  qed
qed

lemma costs_publish: "costs t0 0 s (publish w s)"
proof -
  let ?s = "tick w (tick w (tick w s))"
  let ?b = "refill (a_bucket ?s) (a_now ?s)"
  have "costs t0 0 s ?s"
    by (rule costs_then [OF costs_elapse costs_then [OF costs_elapse costs_elapse]])
  then have "costs t0 0 s (tick w (?s\<lparr>a_bucket := ?b\<rparr>))"
    by (rule costs_then [OF _ costs_then [OF costs_refill costs_elapse]])
  moreover have "costs t0 0 (tick w (?s\<lparr>a_bucket := ?b\<rparr>)) (publish w s)" if "a_shared s"
    using that by (intro costs_same) (simp_all add: publish_def Let_def level_def elapse_simps)
  ultimately show ?thesis
    by (cases "a_shared s") (auto simp: publish_def intro: costs_then)
qed

lemma costs_idle_wait: "costs t0 0 s (idle_wait w s)"
proof -
  have "costs t0 0 s (s\<lparr>a_now := max (a_now s) x\<rparr>)" for s x
    by (auto simp: costs_def actor_inv_def balance_def intro: bucket_ok_mono)
  moreover have "costs t0 0 s (s\<lparr>a_table := t\<rparr>)" if "wait_dirty (a_table s) = Some t" for s t
    using that by (intro costs_table) (auto simp: wait_dirty_def table_inv_def split: if_splits)
  ultimately have "costs t0 0 (tick w s) (idle_wait w s)"
    unfolding idle_wait_def Let_def by (auto split: option.splits)
  then show ?thesis
    by (rule costs_then [OF costs_elapse])
qed

lemma costs_run_once: "run_once w s = Some (s', r) \<Longrightarrow> costs t0 0 s s'"
proof -
  assume run: "run_once w s = Some (s', r)"
  then obtain s1 where s1: "step w s = Some (s1, r)"
    and s': "s' = (if r = StepBatch Idle then idle_wait w (publish w s1) else publish w s1)"
    by (auto simp: run_once_def Let_def split: option.splits)
  have "costs t0 0 s (publish w s1)"
    using costs_step [OF s1] costs_publish by (rule costs_then)
  then show ?thesis
    using costs_idle_wait [of t0 "publish w s1" w] by (auto simp: s' intro: costs_then)
qed

section \<open>The actor's life\<close>

text \<open>\<open>FlushActor::run\<close> for a number of iterations of its endless loop.\<close>

fun run_actor :: "nat \<Rightarrow> World \<Rightarrow> Actor \<Rightarrow> Actor option" where
  "run_actor 0 w s = Some s"
| "run_actor (Suc n) w s =
     (case run_once w s of None \<Rightarrow> None | Some (s', _) \<Rightarrow> run_actor n w s')"

lemma costs_run_actor: "run_actor n w s = Some s' \<Longrightarrow> costs t0 0 s s'"
proof (induction n arbitrary: s)
  case (Suc n)
  then obtain s1 r where "run_once w s = Some (s1, r)" "run_actor n w s1 = Some s'"
    by (auto split: option.splits prod.splits)
  then show ?case
    using costs_run_once Suc.IH by (metis costs_then)
qed simp

lemma actor_inv_new: "table_inv t \<Longrightarrow> actor_inv (new_actor t now shared)"
  by (simp add: actor_inv_def new_actor_def bucket_ok_new)

lemma run_actor_inv: "run_actor n w s = Some s' \<Longrightarrow> actor_inv s \<Longrightarrow> actor_inv s' \<and> a_now s \<le> a_now s'"
  using costs_run_actor [of n w s s' "a_now s"] by (simp add: costs_def)

subsection \<open>The actor never blocks for good\<close>

lemma tokens_refill_mono:
  assumes "bucket_ok b t"
  shows "tokens b \<le> tokens (refill b t)"
  using assms tokens_refill [of b t] by (auto simp: bucket_ok_def)

lemma wait_ready:
  assumes inv: "actor_inv s" and "1 \<le> want"
    and ready: "want \<le> tokens (refill (a_bucket (tick w s)) (a_now (tick w s)))"
  shows "\<exists>s'. wait_and_spend_loop (Suc n) w want s = Some s' \<and> want - 1 \<le> tokens (a_bucket s')"
proof -
  let ?s1 = "tick w s"
  let ?s2 = "?s1\<lparr>a_bucket := refill (a_bucket ?s1) (a_now ?s1)\<rparr>"
  let ?s3 = "tick w ?s2"
  let ?b = "refill (a_bucket ?s3) (a_now ?s3)"
  have "costs 0 0 s ?s3"
    by (rule costs_then [OF costs_elapse costs_then [OF costs_refill costs_elapse]])
  then have "bucket_ok (a_bucket ?s3) (a_now ?s3)"
    using inv by (simp add: costs_def actor_inv_def)
  moreover have "a_bucket ?s3 = refill (a_bucket ?s1) (a_now ?s1)"
    by (simp add: elapse_simps)
  ultimately have lev: "want \<le> tokens ?b"
    using tokens_refill_mono [of "a_bucket ?s3" "a_now ?s3"] ready by simp
  then have "spend (a_bucket ?s3) (a_now ?s3) = (?b\<lparr>tokens := tokens ?b - 1\<rparr>, True)"
    using assms(2) by (simp add: spend_def Let_def)
  moreover have "wait_for (a_bucket ?s1) (a_now ?s1) want = (refill (a_bucket ?s1) (a_now ?s1), 0)"
    using ready by (simp add: wait_for_def Let_def)
  ultimately have "wait_and_spend_loop (Suc n) w want s =
      Some (?s3\<lparr>a_bucket := ?b\<lparr>tokens := tokens ?b - 1\<rparr>\<rparr>)"
    by (simp only: wait_and_spend_loop.simps Let_def prod.case if_True simp_thms)
  then show ?thesis
    using lev by (auto simp: diff_le_mono)
qed

text \<open>Two iterations are enough: a sleep of the computed wait brings the tokens.\<close>

lemma wait_and_spend_total:
  assumes inv: "actor_inv s" and "1 \<le> want" "want \<le> BURST"
  shows "\<exists>s'. wait_and_spend w want s = Some s' \<and> want - 1 \<le> tokens (a_bucket s')"
proof -
  let ?s1 = "tick w s"
  let ?b = "refill (a_bucket ?s1) (a_now ?s1)"
  show ?thesis
  proof (cases "want \<le> tokens ?b")
    case True
    then show ?thesis
      using wait_ready [OF inv assms(2) True, of 1] by (simp add: wait_and_spend_def numeral_2_eq_2)
  next
    case False
    define d where "d = snd (wait_for (a_bucket ?s1) (a_now ?s1) want)"
    let ?s2 = "elapse w d (?s1\<lparr>a_bucket := ?b\<rparr>)"
    have c1: "costs 0 0 s ?s1" and c2: "costs 0 0 s ?s2"
      by (rule costs_elapse, rule costs_then [OF costs_elapse costs_then [OF costs_refill costs_elapse]])
    have ok: "bucket_ok (a_bucket ?s1) (a_now ?s1)" and inv2: "actor_inv ?s2"
      using c1 c2 inv by (simp_all add: costs_def actor_inv_def)
    have d: "d \<noteq> 0"
      using False refill_next [OF ok] by (auto simp: d_def wait_for_def Let_def)
    have "a_now ?s1 + d \<le> a_now (tick w ?s2)" "a_bucket (tick w ?s2) = ?b"
      by (simp_all add: elapse_now elapse_simps)
    then have "want \<le> tokens (refill (a_bucket (tick w ?s2)) (a_now (tick w ?s2)))"
      using wait_for_exact [OF ok assms(3), of "a_now (tick w ?s2)"]
      by (simp add: level_def Let_def d_def)
    then obtain s' where s': "wait_and_spend_loop (Suc 0) w want ?s2 = Some s'"
        "want - 1 \<le> tokens (a_bucket s')"
      using wait_ready [OF inv2 assms(2)] by blast
    have "wait_for (a_bucket ?s1) (a_now ?s1) want = (?b, d)"
      by (metis d_def fst_wait_for prod.collapse)
    then have "wait_and_spend w want s = wait_and_spend_loop (Suc 0) w want ?s2"
      unfolding wait_and_spend_def numeral_2_eq_2 wait_and_spend_loop.simps(2) [of "Suc 0"] Let_def
      using d by (simp only: prod.case if_False)
    with s' show ?thesis
      by simp
  qed
qed

lemma batch_want_bounds: "1 \<le> batch_want d" "batch_want d \<le> BURST"
  by (auto simp: batch_want_def BURST_def)

lemma actor_inv_tick: "actor_inv s \<Longrightarrow> actor_inv (tick w s)"
  using costs_elapse [of 0 s w 0] by (simp add: costs_def)

lemma run_batch_total:
  assumes "actor_inv s"
  shows "\<exists>s' r. run_batch w s = Some (s', r)"
proof -
  let ?d = "dirty_depth (a_table (tick w s))"
  obtain s2 where s2: "wait_and_spend w (batch_want ?d) (tick w s) = Some s2"
    using wait_and_spend_total [OF actor_inv_tick [OF assms] batch_want_bounds] by blast
  obtain s3 doc where s3: "read_kernel w s2 = (s3, doc)"
    by (cases "read_kernel w s2")
  show ?thesis
    by (cases doc) (auto simp: run_batch_def Let_def s2 s3 split: prod.splits)
qed

lemma sweep_total:
  assumes "actor_inv s"
  shows "\<exists>s' r. sweep w s = Some (s', r)"
proof -
  let ?s = "tick w s"
  obtain t dropped where re: "remove_expired (a_table ?s) (a_now ?s) = (t, dropped)"
    by (cases "remove_expired (a_table ?s) (a_now ?s)")
  then have "actor_inv (?s\<lparr>a_table := t\<rparr>)"
    using actor_inv_tick [OF assms, of w] table_inv_remove_expired [of "a_table ?s" "a_now ?s"]
    by (simp add: actor_inv_def)
  then obtain s2 where s2: "wait_and_spend w 1 (?s\<lparr>a_table := t\<rparr>) = Some s2"
    using wait_and_spend_total [of _ 1] by (auto simp: BURST_def)
  obtain s3 doc where s3: "read_kernel w s2 = (s3, doc)"
    by (cases "read_kernel w s2")
  show ?thesis
    using s2 by (cases doc) (auto simp: sweep_def Let_def re s3 split: prod.splits)
qed

lemma run_once_total:
  assumes "actor_inv s"
  shows "\<exists>s' r. run_once w s = Some (s', r)"
proof -
  have "\<exists>s' r. step w s = Some (s', r)"
    using run_batch_total [OF actor_inv_tick [OF assms], of w w] sweep_total [OF actor_inv_tick [OF assms], of w w]
    by (auto simp: step_def Let_def)
  then show ?thesis
    by (auto simp: run_once_def Let_def)
qed

lemma run_actor_total: "actor_inv s \<Longrightarrow> \<exists>s'. run_actor n w s = Some s'"
proof (induction n arbitrary: s)
  case (Suc n)
  obtain s1 r where s1: "run_once w s = Some (s1, r)"
    using run_once_total [OF Suc.prems] by blast
  have "actor_inv s1"
    using costs_run_once [OF s1, of 0] Suc.prems by (simp add: costs_def)
  then show ?case
    using Suc.IH s1 by simp
qed simp

text \<open>C40: the actor never blocks for good. Whatever the clock, the other tasks and the kernel do, every
  iteration of its loop comes back: each wait for tokens ends after at most one sleep.\<close>

theorem actor_never_stuck:
  "\<exists>s'. run_actor n w (new_actor new_table start shared) = Some s'"
  by (rule run_actor_total [OF actor_inv_new [OF table_inv_new]])

text \<open>C5: no fork without a token. In any stretch of the actor's life the commands it forked number at
  most the burst of 32 and one per started 100 ms of the time that passed, whatever claims
  arrive and whatever the commands return.\<close>

theorem forks_bounded_by_time:
  assumes "run_actor m w (new_actor new_table start shared) = Some s"
    and "run_actor n w s = Some s'"
  shows "length (a_forks s') \<le>
    length (a_forks s) + (BURST + (a_now s' - a_now s + TOKEN_INTERVAL - 1) div TOKEN_INTERVAL)"
proof -
  have inv: "actor_inv s"
    using run_actor_inv [OF assms(1)] actor_inv_new [OF table_inv_new] by blast
  then have c: "actor_inv s'" "a_now s \<le> a_now s'" "balance (a_now s) s' \<le> balance (a_now s) s"
    using costs_run_actor [OF assms(2), of "a_now s"] by (simp_all add: costs_def)
  show ?thesis
  proof (cases "length (a_forks s) \<le> length (a_forks s')")
    case True
    then obtain k where k: "length (a_forks s') = length (a_forks s) + k"
      using le_Suc_ex by blast
    have "int (TOKEN_INTERVAL * k) + window_pot (a_now s) (a_bucket s') \<le> window_pot (a_now s) (a_bucket s)"
      using c(3) by (simp add: balance_def k distrib_left)
    then show ?thesis
      using bkt.grants_bound [of "a_bucket s'" "a_now s'" "a_now s"] c k by (simp add: actor_inv_def)
  qed simp
qed

section \<open>A sample run\<close>

text \<open>A world with one claim, an empty kernel and commands that succeed, and the facts that evaluate the
  actor in it.\<close>

definition sample_claim :: Claim where
  "sample_claim = \<lparr>cl_row = ''vms'', cl_leg = ''cfab-work-vms'', cl_addr = 0xc0a81407,
     cl_mac = (2, 0, 0, 0, 0, 1), cl_expires_at = 3600000000000, cl_cap = sample_cap, cl_now = 0\<rparr>"

definition sample_world :: World where
  "sample_world = \<lparr>w_delay = (\<lambda>_. 7), w_claims = (\<lambda>i. if i = 0 then [sample_claim] else []),
     w_run = (\<lambda>_ _. Inr \<lparr>status = 0, stdout = [], stderr = []\<rparr>), w_json = (\<lambda>_. Some (JArr [])),
     w_pick = (\<lambda>_. True)\<rparr>"

lemmas sample_eval = sample_world_def sample_claim_def sample_cap_def new_actor_def new_table_def
  run_once_def step_def run_batch_def wait_and_spend_def elapse_def apply_claim_def upsert_def Let_def
  row_len_def dirty_depth_def batch_want_def wait_for_def refill_idem spend_def read_kernel_def io_run_def
  read_outcome_def parse_neighbors_def output_ok_def take_next_dirty_def no_vars_def handle_taken_def
  classify_def write_taken_def run_failure_def count_write_def bump_def note_expiries_def publish_def
  idle_wait_def new_bucket_def SWEEP_def from_secs_def TOKEN_INTERVAL_def from_millis_def
  REFILL_PER_SEC_def BURST_def no_counts_def
  drain.simps(2) [of "pred_numeral v" for v, folded numeral_eq_Suc]
  wait_and_spend_loop.simps(2) [of "pred_numeral v" for v, folded numeral_eq_Suc]
  run_actor.simps(2) [of 0, simplified One_nat_def [symmetric]]

lemma sample_run:
  "\<exists>s. run_actor 1 sample_world (new_actor new_table 0 False) = Some s \<and> length (a_forks s) = 2 \<and>
     entry (a_table s) ''vms'' 0xc0a81407 = Some
       \<lparr>e_leg = ''cfab-work-vms'', e_mac = (2, 0, 0, 0, 0, 1), e_expires_at = 3600000000000, e_dirty = False\<rparr>"
  by (simp add: sample_eval entry_def del: One_nat_def)

theorem forks_bounded_by_time_witness:
  "\<exists>s. run_actor 1 sample_world (new_actor new_table 0 False) = Some s \<and>
     length (a_forks s) = 2 \<and>
     length (a_forks s) \<le> 0 + (BURST + (a_now s - 0 + TOKEN_INTERVAL - 1) div TOKEN_INTERVAL)"
proof -
  obtain s where s: "run_actor 1 sample_world (new_actor new_table 0 False) = Some s" "length (a_forks s) = 2"
    using sample_run by blast
  have "run_actor 0 sample_world (new_actor new_table 0 False) = Some (new_actor new_table 0 False)"
    by simp
  from forks_bounded_by_time [OF this s(1)] s show ?thesis
    by (simp add: new_actor_def)
qed

end
