(* ===== verification/Workload_Flush.thy ===== *)
theory Workload_Flush
  imports Workload_Actor
begin

text \<open>
  What the flush actor does to the table and to the kernel: the facts about \<open>run_batch\<close>, \<open>sweep\<close> and
  whole runs that go beyond the fork budget of \<open>Workload_Actor\<close>. The central notion is
  \<open>clean_sat Q\<close>: every entry that is not waiting for the actor satisfies \<open>Q\<close>. Claims of other tasks
  keep it for every \<open>Q\<close>, because an upsert makes its entry dirty; so the interleaving with the
  relays never has to be considered again.
\<close>

section \<open>Entries that wait for nothing\<close>

definition clean_sat :: "(Key \<Rightarrow> Entry \<Rightarrow> bool) \<Rightarrow> NeighborTable \<Rightarrow> bool" where
  "clean_sat Q t \<longleftrightarrow> (\<forall>k e. om_get (entries t) k = Some e \<longrightarrow> \<not> e_dirty e \<longrightarrow> Q k e)"

lemma clean_sat_mono: "clean_sat Q t \<Longrightarrow> (\<And>k e. Q k e \<Longrightarrow> Q' k e) \<Longrightarrow> clean_sat Q' t"
  by (auto simp: clean_sat_def)

lemma clean_sat_claim: "clean_sat Q t \<Longrightarrow> clean_sat Q (apply_claim t c)"
  by (auto simp: clean_sat_def apply_claim_def upsert_def Let_def map_simps split: option.splits if_splits)

lemma clean_sat_elapse: "clean_sat Q (a_table s) \<Longrightarrow> clean_sat Q (a_table (elapse w d s))"
proof -
  have "clean_sat Q t \<Longrightarrow> clean_sat Q (foldl apply_claim t cs)" for t cs
    by (induction cs arbitrary: t) (auto intro: clean_sat_claim)
  then show "clean_sat Q (a_table s) \<Longrightarrow> clean_sat Q (a_table (elapse w d s))"
    by (simp add: elapse_table)
qed

lemma clean_sat_remove_expired:
  assumes "table_inv t" "clean_sat Q t"
  shows "clean_sat Q (fst (remove_expired t now))"
  using assms by (auto simp: clean_sat_def remove_expired_def table_inv_def om_get_filter
      split: option.splits if_splits)

lemma clean_sat_re_dirty:
  assumes "clean_sat (\<lambda>k e. Q k e \<or> k = j) t"
  shows "clean_sat Q (fst (re_dirty t (fst j) (snd j) now))"
  unfolding clean_sat_def
proof (intro allI impI)
  fix k e
  let ?t = "fst (re_dirty t (fst j) (snd j) now)"
  assume k: "om_get (entries ?t) k = Some e" "\<not> e_dirty e"
  have "k \<noteq> j"
    using k by (auto simp: re_dirty_def Let_def map_simps split: option.splits if_splits)
  moreover from this have "om_get (entries t) k = Some e"
    using k(1) by (cases j) (auto simp: re_dirty_def Let_def map_simps split: option.splits if_splits)
  ultimately show "Q k e"
    using assms k(2) unfolding clean_sat_def by blast
qed

lemma only_drops_expiredD:
  "only_drops_expired now es es' K \<Longrightarrow> om_get es' k = Some e \<Longrightarrow> k \<notin> K \<Longrightarrow> om_get es k = Some e"
  unfolding only_drops_expired_def by (metis option.distinct(1))

lemma take_next_dirty_taken:
  assumes "take_next_dirty t now = (t', out)" "taken out = Some x"
  shows "\<exists>e. om_get (entries t) (t_row x, t_addr x) = Some e \<and> e_dirty e \<and> now < e_expires_at e \<and>
     t_leg x = e_leg e \<and> t_mac x = e_mac e \<and>
     om_get (entries t') (t_row x, t_addr x) = Some (e\<lparr>e_dirty := False\<rparr>) \<and>
     only_drops_expired now (entries t) (entries t') {(t_row x, t_addr x)}"
proof -
  obtain es q where tl: "take_loop now (queue t) (entries t) [] = (es, q, out)" and t': "entries t' = es"
    using assms(1) by (auto simp: take_next_dirty_def split: prod.splits)
  show ?thesis
    using take_loop_taken [OF tl assms(2)] t' by auto
qed

lemma take_next_dirty_none:
  assumes "take_next_dirty t now = (t', out)" "taken out = None"
  shows "only_drops_expired now (entries t) (entries t') {}"
proof -
  obtain es q where tl: "take_loop now (queue t) (entries t) [] = (es, q, out)" and t': "entries t' = es"
    using assms(1) by (auto simp: take_next_dirty_def split: prod.splits)
  show ?thesis
    using take_loop_none [OF tl assms(2)] t' by auto
qed

lemma clean_sat_take_none:
  assumes "take_next_dirty t now = (t', out)" "taken out = None" "clean_sat Q t"
  shows "clean_sat Q t'"
  unfolding clean_sat_def
proof (intro allI impI)
  fix k e
  assume "om_get (entries t') k = Some e" "\<not> e_dirty e"
  moreover from this have "om_get (entries t) k = Some e"
    using only_drops_expiredD [OF take_next_dirty_none [OF assms(1,2)]] by blast
  ultimately show "Q k e"
    using assms(3) unfolding clean_sat_def by blast
qed

text \<open>What is known of the entry the actor holds while it works on it.\<close>

definition held :: "Taken \<Rightarrow> Key \<Rightarrow> Entry \<Rightarrow> bool" where
  "held x k e \<longleftrightarrow> k = (t_row x, t_addr x) \<and> e_mac e = t_mac x \<and> e_leg e = t_leg x"

lemma clean_sat_take_taken:
  assumes "take_next_dirty t now = (t', out)" "taken out = Some x" "clean_sat Q t"
  shows "clean_sat (\<lambda>k e. Q k e \<or> held x k e) t'"
  unfolding clean_sat_def
proof (intro allI impI)
  fix k e
  assume k: "om_get (entries t') k = Some e" "\<not> e_dirty e"
  show "Q k e \<or> held x k e"
  proof (cases "k = (t_row x, t_addr x)")
    case True
    then show ?thesis
      using take_next_dirty_taken [OF assms(1,2)] k by (auto simp: held_def)
  next
    case False
    then have "om_get (entries t) k = Some e"
      using take_next_dirty_taken [OF assms(1,2)] only_drops_expiredD k by blast
    then show ?thesis
      using assms(3) k unfolding clean_sat_def by blast
  qed
qed

section \<open>Settled claims\<close>

fun class_of :: "WriteVerb \<Rightarrow> Class" where
  "class_of AddVerb = Add"
| "class_of ReplaceVerb = Replace"

text \<open>The kernel document shows an \<open>lladdr\<close> for the claim, or a forked write of exactly this claim,
  with the verb the document asks for, succeeded.\<close>

definition settled :: "KernelNeighbors \<Rightarrow> (string list \<times> io_result) list \<Rightarrow> Key \<Rightarrow> Entry \<Rightarrow> bool" where
  "settled doc fs k e \<longleftrightarrow>
     classify doc (e_leg e) (snd k) = Skip \<or>
     (\<exists>verb r. (write_argv verb (snd k) (e_mac e) (e_leg e), r) \<in> set fs \<and> run_failure r = None \<and>
        classify doc (e_leg e) (snd k) = class_of verb)"

lemma settled_more: "settled doc fs k e \<Longrightarrow> set fs \<subseteq> set fs' \<Longrightarrow> settled doc fs' k e"
  by (auto simp: settled_def)

text \<open>The accounting of a running batch: an entry that waits for nothing was so before, is settled, or
  will be put back.\<close>

definition accounted ::
  "(Key \<Rightarrow> Entry \<Rightarrow> bool) \<Rightarrow> KernelNeighbors \<Rightarrow> nat \<Rightarrow> Actor \<Rightarrow> BatchVars \<Rightarrow> Key \<Rightarrow> Entry \<Rightarrow> bool" where
  "accounted Q doc n s b k e \<longleftrightarrow>
     Q k e \<or> settled doc (drop n (a_forks s)) k e \<or> k \<in> set (b_put_back b)"

lemma accounted_more:
  assumes "accounted Q doc n s b k e" "set (drop n (a_forks s)) \<subseteq> set (drop n (a_forks s'))"
    "set (b_put_back b) \<subseteq> set (b_put_back b')"
  shows "accounted Q doc n s' b' k e"
  using assms settled_more by (fastforce simp: accounted_def)

lemma accounted_cong:
  "a_forks s' = a_forks s \<Longrightarrow> b_put_back b' = b_put_back b \<Longrightarrow>
   accounted Q doc n s' b' = accounted Q doc n s b"
  by (simp add: accounted_def fun_eq_iff)

lemma write_taken_accounted:
  assumes "clean_sat (\<lambda>k e. accounted Q doc n s b k e \<or> held t k e) (a_table s)"
    and "classify doc (t_leg t) (t_addr t) = class_of verb" and "n \<le> length (a_forks s)"
    and "write_taken w verb t s b = (s', b', go)"
  shows "clean_sat (accounted Q doc n s' b') (a_table s') \<and> n \<le> length (a_forks s')"
proof -
  let ?s1 = "tick w s"
  obtain bk g where sp: "spend (a_bucket ?s1) (a_now ?s1) = (bk, g)"
    by (cases "spend (a_bucket ?s1) (a_now ?s1)")
  let ?s2 = "?s1\<lparr>a_bucket := bk\<rparr>"
  let ?key = "(t_row t, t_addr t)"
  have s2: "clean_sat (\<lambda>k e. accounted Q doc n s b k e \<or> held t k e) (a_table ?s2)"
    using clean_sat_elapse [OF assms(1)] by simp
  show ?thesis
  proof (cases g)
    case False
    then have "s' = ?s2" "b' = b\<lparr>b_put_back := b_put_back b @ [?key]\<rparr>"
      using assms(4) sp by (auto simp: write_taken_def Let_def)
    then show ?thesis
      using s2 assms(3)
      by (auto simp: elapse_simps accounted_def held_def elim!: clean_sat_mono)
  next
    case True
    let ?argv = "write_argv verb (t_addr t) (t_mac t) (t_leg t)"
    obtain s3 r where io: "io_run w ?argv ?s2 = (s3, r)"
      by (cases "io_run w ?argv ?s2")
    have forks: "a_forks s3 = a_forks s @ [(?argv, r)]" and tab: "a_table s3 = a_table (tick w ?s2)"
      using io by (auto simp: io_run_def Let_def elapse_simps)
    have s3: "clean_sat (\<lambda>k e. accounted Q doc n s b k e \<or> held t k e) (a_table s3)"
      unfolding tab using s2 by (rule clean_sat_elapse)
    have fs: "set (drop n (a_forks s)) \<subseteq> set (drop n (a_forks s3))" "(?argv, r) \<in> set (drop n (a_forks s3))"
      using assms(3) by (auto simp: forks)
    show ?thesis
    proof (cases "run_failure r")
      case None
      then have s': "s' = count_write (t_row t) s3" "b' = b"
        using assms(4) sp True io by (auto simp: write_taken_def Let_def)
      have "accounted Q doc n s' b' k e" if "accounted Q doc n s b k e \<or> held t k e" for k e
        using that
      proof
        assume "held t k e"
        then have "settled doc (drop n (a_forks s3)) k e"
          using fs(2) None assms(2) by (auto simp: held_def settled_def)
        then show ?thesis
          by (simp add: accounted_def s')
      qed (use fs in \<open>simp add: accounted_more s'\<close>)
      then show ?thesis
        using s3 assms(3) by (auto simp: s' forks elim!: clean_sat_mono)
    next
      case (Some why)
      then have s': "s' = count_write_failure (t_row t) (t_addr t) why s3"
        "b' = b\<lparr>b_put_back := b_put_back b @ [?key]\<rparr>"
        using assms(4) sp True io by (auto simp: write_taken_def Let_def)
      have "accounted Q doc n s' b' k e" if "accounted Q doc n s b k e \<or> held t k e" for k e
        using that
      proof
        assume "held t k e"
        then show ?thesis
          by (simp add: accounted_def s' held_def)
      next
        assume "accounted Q doc n s b k e"
        then show ?thesis
          unfolding s' by (rule accounted_more) (use fs in auto)
      qed
      then show ?thesis
        using s3 assms(3) by (auto simp: s' forks elim!: clean_sat_mono)
    qed
  qed
qed

lemma handle_taken_accounted:
  assumes "clean_sat (\<lambda>k e. accounted Q doc n s b k e \<or> held t k e) (a_table s)"
    and "n \<le> length (a_forks s)" and "handle_taken w doc t s b = (s', b', go)"
  shows "clean_sat (accounted Q doc n s' b') (a_table s') \<and> n \<le> length (a_forks s')"
proof (cases "(t_row t, t_addr t) \<in> b_seen b")
  case True
  then show ?thesis
    using assms by (auto simp: handle_taken_def Let_def accounted_def held_def elim!: clean_sat_mono)
next
  case False
  let ?b = "b\<lparr>b_seen := insert (t_row t, t_addr t) (b_seen b)\<rparr>"
  have acc: "accounted Q doc n s ?b = accounted Q doc n s b"
    by (simp add: accounted_def fun_eq_iff)
  have wr: "clean_sat (accounted Q doc n s' b') (a_table s') \<and> n \<le> length (a_forks s')"
    if "classify doc (t_leg t) (t_addr t) = class_of verb" "write_taken w verb t s ?b = (s', b', go)" for verb
  proof -
    have "clean_sat (\<lambda>k e. accounted Q doc n s ?b k e \<or> held t k e) (a_table s)"
      using assms(1) unfolding acc .
    then show ?thesis
      using write_taken_accounted that assms(2) by blast
  qed
  show ?thesis
  proof (cases "classify doc (t_leg t) (t_addr t)")
    case Add
    then show ?thesis
      using wr [of AddVerb] assms(3) False by (simp add: handle_taken_def Let_def)
  next
    case Replace
    then show ?thesis
      using wr [of ReplaceVerb] assms(3) False by (simp add: handle_taken_def Let_def)
  next
    case Skip
    then have s': "s' = count_skip (t_row t) s" "b' = ?b"
      using assms(3) False by (simp_all add: handle_taken_def Let_def)
    have "accounted Q doc n s' b' k e" if "accounted Q doc n s b k e \<or> held t k e" for k e
      using that Skip accounted_cong [of s' s b' b] by (auto simp: s' accounted_def held_def settled_def)
    then show ?thesis
      using assms(1,2) by (auto simp: s' elim!: clean_sat_mono)
  qed
qed

lemma drain_accounted:
  assumes "clean_sat (accounted Q doc n s b) (a_table s)" and "n \<le> length (a_forks s)"
    and "drain m w doc s b = (s', b')"
  shows "clean_sat (accounted Q doc n s' b') (a_table s') \<and> n \<le> length (a_forks s')"
  using assms
proof (induction m arbitrary: s b)
  case (Suc m)
  let ?s1 = "tick w s"
  obtain t nxt where tk: "take_next_dirty (a_table ?s1) (a_now ?s1) = (t, nxt)"
    by (cases "take_next_dirty (a_table ?s1) (a_now ?s1)")
  let ?s2 = "?s1\<lparr>a_table := t\<rparr>" and ?b = "b\<lparr>b_dropped := b_dropped b @ expired nxt\<rparr>"
  have s1: "clean_sat (accounted Q doc n ?s2 ?b) (a_table ?s1)"
    using clean_sat_elapse [OF Suc.prems(1), of w 0] accounted_cong [of ?s2 s ?b b]
    by (simp add: elapse_simps)
  have n: "n \<le> length (a_forks ?s2)"
    using Suc.prems(2) by (simp add: elapse_simps)
  show ?case
  proof (cases "taken nxt")
    case None
    then show ?thesis
      using Suc.prems tk n clean_sat_take_none [OF tk None s1] by auto
  next
    case (Some x)
    obtain s3 b3 go where h: "handle_taken w doc x ?s2 ?b = (s3, b3, go)"
      by (cases "handle_taken w doc x ?s2 ?b")
    have "clean_sat (accounted Q doc n s3 b3) (a_table s3) \<and> n \<le> length (a_forks s3)"
      using clean_sat_take_taken [OF tk Some s1] n h by (intro handle_taken_accounted) simp_all
    then show ?thesis
      using Suc.prems(3) tk Some h Suc.IH [of s3 b3] by (auto split: if_splits)
  qed
qed auto

lemma re_dirty_all_clean:
  assumes "clean_sat (\<lambda>k e. Q k e \<or> k \<in> set ks) (a_table s)"
  shows "clean_sat Q (a_table (fst (re_dirty_all w now ks s d)))"
  using assms
proof (induction ks arbitrary: s d)
  case (Cons j ks)
  let ?s1 = "tick w s"
  obtain t r where rd: "re_dirty (a_table ?s1) (fst j) (snd j) now = (t, r)"
    by (cases "re_dirty (a_table ?s1) (fst j) (snd j) now")
  have "clean_sat (\<lambda>k e. (Q k e \<or> k \<in> set ks) \<or> k = j) (a_table s)"
    using Cons.prems by (rule clean_sat_mono) auto
  then have "clean_sat (\<lambda>k e. Q k e \<or> k \<in> set ks) t"
    using clean_sat_re_dirty [OF clean_sat_elapse, of _ j s w 0 now] rd by auto
  then show ?case
    using Cons.IH rd by simp
qed simp

section \<open>What a batch forks\<close>

text \<open>A write the document allows, for the claim with this key.\<close>

definition allowed_write :: "KernelNeighbors \<Rightarrow> Key \<Rightarrow> string list \<times> io_result \<Rightarrow> bool" where
  "allowed_write doc k f \<longleftrightarrow>
     (\<exists>verb m leg. fst f = write_argv verb (snd k) m leg \<and> classify doc leg (snd k) = class_of verb)"

definition writes_for :: "KernelNeighbors \<Rightarrow> Key set \<Rightarrow> Key list \<Rightarrow> (string list \<times> io_result) list \<Rightarrow> bool" where
  "writes_for doc old ks ws \<longleftrightarrow>
     distinct ks \<and> set ks \<inter> old = {} \<and> list_all2 (allowed_write doc) ks ws"

lemma writes_for_append:
  "writes_for doc old ks ws \<Longrightarrow> writes_for doc (old \<union> set ks) ks' ws' \<Longrightarrow>
   writes_for doc old (ks @ ks') (ws @ ws')"
  by (auto simp: writes_for_def list_all2_appendI)

lemma write_taken_forks:
  assumes "write_taken w verb t s b = (s', b', go)"
    and "classify doc (t_leg t) (t_addr t) = class_of verb"
  shows "b_seen b' = b_seen b \<and> (\<exists>ws. a_forks s' = a_forks s @ ws \<and> length ws \<le> 1 \<and>
     list_all (allowed_write doc (t_row t, t_addr t)) ws)"
proof -
  have "allowed_write doc (t_row t, t_addr t) (write_argv verb (t_addr t) (t_mac t) (t_leg t), r)" for r
    using assms(2) unfolding allowed_write_def fst_conv snd_conv by blast
  then show ?thesis
    using assms(1)
    by (auto simp: write_taken_def Let_def io_run_def elapse_simps
        split: prod.splits if_splits option.splits)
qed

lemma handle_taken_forks:
  assumes "handle_taken w doc t s b = (s', b', go)"
  shows "\<exists>ws ks. a_forks s' = a_forks s @ ws \<and> length ws \<le> 1 \<and> writes_for doc (b_seen b) ks ws \<and>
    b_seen b \<union> set ks \<subseteq> b_seen b'"
proof (cases "(t_row t, t_addr t) \<in> b_seen b")
  case True
  then show ?thesis
    using assms by (auto simp: handle_taken_def Let_def writes_for_def)
next
  case False
  let ?k = "(t_row t, t_addr t)"
  let ?b = "b\<lparr>b_seen := insert ?k (b_seen b)\<rparr>"
  have wr: ?thesis if cl: "classify doc (t_leg t) (t_addr t) = class_of verb"
    and wt: "write_taken w verb t s ?b = (s', b', go)" for verb
  proof -
    obtain ws where ws: "a_forks s' = a_forks s @ ws" "length ws \<le> 1" "list_all (allowed_write doc ?k) ws"
      "b_seen b' = insert ?k (b_seen b)"
      using write_taken_forks [OF wt cl] by auto
    have "writes_for doc (b_seen b) (replicate (length ws) ?k) ws"
      using ws(2,3) False by (cases ws) (auto simp: writes_for_def)
    then show ?thesis
      using ws by (intro exI [of _ ws] exI [of _ "replicate (length ws) ?k"]) auto
  qed
  show ?thesis
  proof (cases "classify doc (t_leg t) (t_addr t)")
    case Add
    then show ?thesis
      using wr [of AddVerb] assms False by (simp add: handle_taken_def Let_def)
  next
    case Replace
    then show ?thesis
      using wr [of ReplaceVerb] assms False by (simp add: handle_taken_def Let_def)
  next
    case Skip
    then have "s' = count_skip (t_row t) s" "b' = ?b"
      using assms False by (simp_all add: handle_taken_def Let_def)
    then show ?thesis
      by (intro exI [of _ "[]"]) (auto simp: writes_for_def)
  qed
qed

lemma drain_forks:
  assumes "drain m w doc s b = (s', b')"
  shows "\<exists>ws ks. a_forks s' = a_forks s @ ws \<and> length ws \<le> m \<and> writes_for doc (b_seen b) ks ws"
  using assms
proof (induction m arbitrary: s b)
  case 0
  then show ?case
    by (intro exI [of _ "[]"]) (auto simp: writes_for_def)
next
  case (Suc m)
  let ?s1 = "tick w s"
  obtain t nxt where tk: "take_next_dirty (a_table ?s1) (a_now ?s1) = (t, nxt)"
    by (cases "take_next_dirty (a_table ?s1) (a_now ?s1)")
  let ?s2 = "?s1\<lparr>a_table := t\<rparr>" and ?b = "b\<lparr>b_dropped := b_dropped b @ expired nxt\<rparr>"
  show ?case
  proof (cases "taken nxt")
    case None
    then show ?thesis
      using Suc.prems tk by (intro exI [of _ "[]"]) (auto simp: writes_for_def elapse_simps)
  next
    case (Some x)
    obtain s3 b3 go where h: "handle_taken w doc x ?s2 ?b = (s3, b3, go)"
      by (cases "handle_taken w doc x ?s2 ?b")
    obtain ws ks where 1: "a_forks s3 = a_forks s @ ws" "length ws \<le> 1" "writes_for doc (b_seen b) ks ws"
      "b_seen b \<union> set ks \<subseteq> b_seen b3"
      using handle_taken_forks [OF h] by (auto simp: elapse_simps)
    show ?thesis
    proof (cases go)
      case True
      then have "drain m w doc s3 b3 = (s', b')"
        using Suc.prems tk Some h by simp
      from Suc.IH [OF this] obtain ws' ks' where 2: "a_forks s' = a_forks s3 @ ws'" "length ws' \<le> m"
        "writes_for doc (b_seen b3) ks' ws'"
        by blast
      have "writes_for doc (b_seen b \<union> set ks) ks' ws'"
        using 2(3) 1(4) by (auto simp: writes_for_def)
      then have "writes_for doc (b_seen b) (ks @ ks') (ws @ ws')"
        by (rule writes_for_append [OF 1(3)])
      then show ?thesis
        using 1 2 by (intro exI [of _ "ws @ ws'"] exI [of _ "ks @ ks'"]) auto
    next
      case False
      then have "s' = s3"
        using Suc.prems tk Some h by simp
      then show ?thesis
        using 1 by (intro exI [of _ ws] exI [of _ ks]) auto
    qed
  qed
qed

lemma a_forks_wait_and_spend_loop:
  "wait_and_spend_loop n w want s = Some s' \<Longrightarrow> a_forks s' = a_forks s"
  by (induction n arbitrary: s) (auto simp: Let_def elapse_simps split: prod.splits if_splits)

lemma a_forks_wait_and_spend: "wait_and_spend w want s = Some s' \<Longrightarrow> a_forks s' = a_forks s"
  unfolding wait_and_spend_def by (rule a_forks_wait_and_spend_loop)

lemma read_kernel_forks:
  assumes "read_kernel w s = (s', doc)"
  shows "\<exists>r. a_forks s' = a_forks s @ [(READ_ARGV, r)] \<and>
    ((\<exists>why. read_outcome w r = Inl why \<and> doc = None) \<or> (\<exists>d. read_outcome w r = Inr d \<and> doc = Some d))"
  using assms by (auto simp: read_kernel_def io_run_def Let_def elapse_simps split: sum.splits if_splits)

lemma a_forks_re_dirty_all: "a_forks (fst (re_dirty_all w now ks s d)) = a_forks s"
  by (induction ks arbitrary: s d) (auto simp: Let_def elapse_simps split: prod.splits)


section \<open>No claim is dropped\<close>

text \<open>The table between two of the actor's own calls: it changes by other tasks' claims only.\<close>

definition claims_only :: "NeighborTable \<Rightarrow> NeighborTable \<Rightarrow> bool" where
  "claims_only t t' \<longleftrightarrow> (\<exists>cs. t' = foldl apply_claim t cs)"

lemma claims_only_refl [simp]: "claims_only t t"
  unfolding claims_only_def by (rule exI [of _ "[]"]) simp

lemma claims_only_trans: "claims_only t t' \<Longrightarrow> claims_only t' t'' \<Longrightarrow> claims_only t t''"
  unfolding claims_only_def by (metis foldl_append)

lemma claims_only_elapse [simp]: "claims_only (a_table s) (a_table (elapse w d s))"
  by (auto simp: claims_only_def elapse_table)

lemma claims_only_then: "claims_only t (a_table s) \<Longrightarrow> claims_only t (a_table (elapse w d s))"
  using claims_only_trans claims_only_elapse by blast

lemma claims_only_wait_and_spend_loop:
  "wait_and_spend_loop n w want s = Some s' \<Longrightarrow> claims_only (a_table s) (a_table s')"
proof (induction n arbitrary: s)
  case (Suc n)
  let ?s1 = "tick w s"
  obtain b d where wf: "wait_for (a_bucket ?s1) (a_now ?s1) want = (b, d)"
    by (cases "wait_for (a_bucket ?s1) (a_now ?s1) want")
  let ?s2 = "?s1\<lparr>a_bucket := b\<rparr>"
  have s2: "claims_only (a_table s) (a_table ?s2)"
    by simp
  obtain b' g where sp: "spend (a_bucket (tick w ?s2)) (a_now (tick w ?s2)) = (b', g)"
    by (cases "spend (a_bucket (tick w ?s2)) (a_now (tick w ?s2))")
  let ?s3 = "if d = 0 then (tick w ?s2)\<lparr>a_bucket := b'\<rparr> else elapse w d ?s2"
  have s3: "claims_only (a_table s) (a_table ?s3)"
    using claims_only_then [OF s2] by simp
  show ?case
  proof (cases "d = 0 \<and> g")
    case True
    then show ?thesis
      using Suc.prems wf sp s3 by auto
  next
    case False
    then have "wait_and_spend_loop n w want ?s3 = Some s'"
      using Suc.prems wf sp by auto
    then show ?thesis
      using Suc.IH s3 claims_only_trans by blast
  qed
qed simp

lemma claims_only_wait_and_spend:
  "wait_and_spend w want s = Some s' \<Longrightarrow> claims_only (a_table s) (a_table s')"
  unfolding wait_and_spend_def by (rule claims_only_wait_and_spend_loop)

lemma claims_only_read_kernel: "read_kernel w s = (s', doc) \<Longrightarrow> claims_only (a_table s) (a_table s')"
proof -
  assume "read_kernel w s = (s', doc)"
  then have "a_table s' = a_table (tick w s)"
    by (auto simp: read_kernel_def io_run_def Let_def split: sum.splits if_splits)
  then show ?thesis
    by simp
qed

lemma claims_only_read:
  assumes "wait_and_spend w want s = Some s2" "read_kernel w s2 = (s3, doc)"
  shows "claims_only (a_table s) (a_table s3)"
  using claims_only_wait_and_spend [OF assms(1)] claims_only_read_kernel [OF assms(2)]
  by (rule claims_only_trans)

lemma clean_sat_claims_only: "claims_only t t' \<Longrightarrow> clean_sat Q t \<Longrightarrow> clean_sat Q t'"
proof -
  have "clean_sat Q t \<Longrightarrow> clean_sat Q (foldl apply_claim t cs)" for cs
    by (induction cs arbitrary: t) (auto intro: clean_sat_claim)
  then show "claims_only t t' \<Longrightarrow> clean_sat Q t \<Longrightarrow> clean_sat Q t'"
    by (auto simp: claims_only_def)
qed

text \<open>A failed read of the kernel is not taken for an empty kernel. A batch whose read fails has
  forked nothing else, and the table is what it was, save for the claims other tasks made in the
  meantime: nothing was taken, written, dropped or marked.\<close>

theorem failed_read_changes_nothing:
  assumes "run_batch w s = Some (s', ReadFailedBatch)"
  shows "\<exists>r why cs. a_forks s' = a_forks s @ [(READ_ARGV, r)] \<and> read_outcome w r = Inl why \<and>
    a_table s' = foldl apply_claim (a_table s) cs"
  using assms
proof (cases rule: run_batch_cases)
  case (ReadFailed s2)
  have "claims_only (a_table s) (a_table s')"
    using claims_only_trans [OF claims_only_elapse claims_only_read [OF ReadFailed(3,4)]] .
  then show ?thesis
    using read_kernel_forks [OF ReadFailed(4)] a_forks_wait_and_spend [OF ReadFailed(3)]
    by (auto simp: claims_only_def elapse_simps)
qed simp_all

text \<open>An entry that waits for nothing, seen over the whole life of the actor.\<close>

definition settled_in :: "World \<Rightarrow> Actor \<Rightarrow> Key \<Rightarrow> Entry \<Rightarrow> bool" where
  "settled_in w s k e \<longleftrightarrow>
     (\<exists>r doc. (READ_ARGV, r) \<in> set (a_forks s) \<and> read_outcome w r = Inr doc \<and> settled doc (a_forks s) k e)"

lemma settled_in_more: "settled_in w s k e \<Longrightarrow> set (a_forks s) \<subseteq> set (a_forks s') \<Longrightarrow> settled_in w s' k e"
  using settled_more unfolding settled_in_def by blast

lemma clean_sat_settled:
  "clean_sat (settled_in w s) t \<Longrightarrow> set (a_forks s) \<subseteq> set (a_forks s') \<Longrightarrow> clean_sat (settled_in w s') t"
  using clean_sat_mono settled_in_more by blast

text \<open>What one batch does to the claims.\<close>

lemma batch_settles:
  assumes "run_batch w s = Some (s', r)" "clean_sat (settled_in w s) (a_table s)"
  shows "clean_sat (settled_in w s') (a_table s')"
  using assms(1)
proof (cases rule: run_batch_cases)
  case Idle
  then show ?thesis
    using clean_sat_elapse [OF clean_sat_settled [OF assms(2), of s']] by (simp add: elapse_simps)
next
  case (ReadFailed s2)
  have "claims_only (a_table s) (a_table s')"
    using claims_only_trans [OF claims_only_elapse claims_only_read [OF ReadFailed(3,4)]] .
  moreover have "set (a_forks s) \<subseteq> set (a_forks s')"
    using read_kernel_forks [OF ReadFailed(4)] a_forks_wait_and_spend [OF ReadFailed(3)]
    by (auto simp: elapse_simps)
  ultimately show ?thesis
    using clean_sat_claims_only clean_sat_settled assms(2) by blast
next
  case (Drained s2 s3 doc s4 b s5 dropped)
  let ?n = "length (a_forks s)"
  obtain r where r: "a_forks s3 = a_forks s @ [(READ_ARGV, r)]" "read_outcome w r = Inr doc"
    using read_kernel_forks [OF Drained(4)] a_forks_wait_and_spend [OF Drained(3)]
    by (auto simp: elapse_simps)
  have "claims_only (a_table s) (a_table s3)"
    using claims_only_trans [OF claims_only_elapse claims_only_read [OF Drained(3,4)]] .
  then have "clean_sat (settled_in w s3) (a_table s3)"
    using clean_sat_claims_only clean_sat_settled [OF assms(2), of s3] r by auto
  then have "clean_sat (accounted (settled_in w s3) doc ?n s3 no_vars) (a_table s3)"
    by (rule clean_sat_mono) (simp add: accounted_def)
  then have "clean_sat (accounted (settled_in w s3) doc ?n s4 b) (a_table s4)"
    using drain_accounted [OF _ _ Drained(5)] r by auto
  then have "clean_sat (\<lambda>k e. (settled_in w s3 k e \<or> settled doc (drop ?n (a_forks s4)) k e) \<or>
      k \<in> set (b_put_back b)) (a_table (tick w s4))"
    by (intro clean_sat_elapse) (auto simp: accounted_def elim!: clean_sat_mono)
  then have "clean_sat (\<lambda>k e. settled_in w s3 k e \<or> settled doc (drop ?n (a_forks s4)) k e) (a_table s')"
    using re_dirty_all_clean [of _ _ "tick w s4" w "a_now (tick w s4)" "b_dropped b"] Drained(6,7) by fastforce
  moreover have s': "a_forks s' = a_forks s4"
    using a_forks_re_dirty_all [of w "a_now (tick w s4)" "b_put_back b" "tick w s4" "b_dropped b"] Drained(6,7)
    by (simp add: elapse_simps)
  moreover have s4: "set (a_forks s3) \<subseteq> set (a_forks s4)"
    using drain_forks [OF Drained(5)] by auto
  moreover have "settled_in w s' k e" if "settled doc (drop ?n (a_forks s4)) k e" for k e
    unfolding settled_in_def s' using settled_more [OF that set_drop_subset] r s4 by auto
  moreover have "settled_in w s' k e" if "settled_in w s3 k e" for k e
    using settled_in_more [OF that] s' s4 by simp
  ultimately show ?thesis
    using clean_sat_mono by blast
qed

lemma sweep_settles:
  assumes "sweep w s = Some (s', r)" "actor_inv s" "clean_sat Q (a_table s)"
  shows "clean_sat Q (a_table s') \<and> set (a_forks s) \<subseteq> set (a_forks s')"
proof -
  have s1: "clean_sat Q t" if "remove_expired (a_table (tick w s)) (a_now (tick w s)) = (t, dropped)" for t dropped
    using clean_sat_remove_expired [OF _ clean_sat_elapse [OF assms(3)], of w 0 "a_now (tick w s)"]
      actor_inv_tick [OF assms(2), of w] that by (simp add: actor_inv_def)
  have s3: "clean_sat Q (a_table s3) \<and> set (a_forks s) \<subseteq> set (a_forks s3)"
    if "remove_expired (a_table (tick w s)) (a_now (tick w s)) = (t, dropped)"
      "wait_and_spend w 1 ((tick w s)\<lparr>a_table := t\<rparr>) = Some s2" "read_kernel w s2 = (s3, doc)"
    for t dropped s2 s3 doc
    using clean_sat_claims_only [OF claims_only_read [OF that(2,3)]] s1 [OF that(1)]
      read_kernel_forks [OF that(3)] a_forks_wait_and_spend [OF that(2)] by (auto simp: elapse_simps)
  from assms(1) show ?thesis
  proof (cases rule: sweep_cases)
    case (ReadFailed t dropped s2 s3)
    then show ?thesis
      using s3 clean_sat_elapse by (auto simp: elapse_simps)
  next
    case (Diffed t dropped s2 s3 doc keys s4 dropped')
    have "clean_sat Q (a_table s4)"
      using re_dirty_all_clean [of Q keys "tick w s3" w "a_now (tick w s3)" dropped] Diffed(6)
        clean_sat_mono [OF clean_sat_elapse, of Q s3 "\<lambda>k e. Q k e \<or> k \<in> set keys" w 0]
        s3 [OF Diffed(2,3,4)] by auto
    then show ?thesis
      using s3 [OF Diffed(2,3,4)] Diffed(6,7)
        a_forks_re_dirty_all [of w "a_now (tick w s3)" keys "tick w s3" dropped]
      by (simp add: elapse_simps)
  qed
qed

lemma publish_table: "claims_only (a_table s) (a_table (publish w s))" "a_forks (publish w s) = a_forks s"
proof -
  have "a_table (publish w s) = (if a_shared s then a_table (tick w (tick w (tick w (tick w s)))) else a_table s)"
    by (simp add: publish_def Let_def level_def)
  moreover have "claims_only (a_table s) (a_table (tick w (tick w (tick w (tick w s)))))"
    by (intro claims_only_then claims_only_refl)
  ultimately show "claims_only (a_table s) (a_table (publish w s))"
    by simp
qed (simp add: publish_def Let_def elapse_simps level_def)

lemma idle_wait_clean:
  "clean_sat Q (a_table s) \<Longrightarrow> clean_sat Q (a_table (idle_wait w s))" "a_forks (idle_wait w s) = a_forks s"
  using clean_sat_elapse [of Q s w 0]
  by (auto simp: idle_wait_def Let_def elapse_simps wait_dirty_def clean_sat_def split: option.splits)

lemma run_once_settles:
  assumes "run_once w s = Some (s', r)" "actor_inv s" "clean_sat (settled_in w s) (a_table s)"
  shows "clean_sat (settled_in w s') (a_table s')"
proof -
  obtain s1 where s1: "step w s = Some (s1, r)"
    and s': "s' = (if r = StepBatch Idle then idle_wait w (publish w s1) else publish w s1)"
    using assms(1) by (auto simp: run_once_def Let_def split: option.splits)
  have tick: "clean_sat (settled_in w (tick w s)) (a_table (tick w s))"
    using clean_sat_elapse [OF clean_sat_settled [OF assms(3), of "tick w s"]] by (simp add: elapse_simps)
  have "clean_sat (settled_in w s1) (a_table s1)"
  proof (cases "a_next_sweep (tick w s) \<le> a_now (tick w s)")
    case True
    then obtain s2 sw where s2: "sweep w (tick w s) = Some (s2, sw)"
      and s1': "s1 = (tick w s2)\<lparr>a_next_sweep := a_now (tick w s2) + SWEEP\<rparr>"
      using s1 by (auto simp: step_def Let_def split: option.splits)
    have "clean_sat (settled_in w (tick w s)) (a_table s2)" "set (a_forks (tick w s)) \<subseteq> set (a_forks s2)"
      using sweep_settles [OF s2 actor_inv_tick [OF assms(2)] tick] by auto
    moreover have "a_forks s1 = a_forks s2"
      by (simp add: s1' elapse_simps)
    ultimately have "clean_sat (settled_in w s1) (a_table s2)"
      using clean_sat_settled by simp
    then show ?thesis
      using clean_sat_elapse [of "settled_in w s1" s2 w 0] by (simp add: s1')
  next
    case False
    then obtain b where "run_batch w (tick w s) = Some (s1, b)"
      using s1 by (auto simp: step_def Let_def split: option.splits)
    then show ?thesis
      using batch_settles tick by blast
  qed
  then have "clean_sat (settled_in w (publish w s1)) (a_table (publish w s1))"
    using clean_sat_claims_only [OF publish_table(1)] clean_sat_settled [of w s1 _ "publish w s1"]
    by (simp add: publish_table(2))
  then show ?thesis
    using idle_wait_clean(1) [of _ "publish w s1" w] idle_wait_clean(2) [of w "publish w s1"] clean_sat_settled [of w "publish w s1" _ "idle_wait w (publish w s1)"]
    by (auto simp: s')
qed

lemma run_actor_settles:
  "run_actor n w s = Some s' \<Longrightarrow> actor_inv s \<Longrightarrow> clean_sat (settled_in w s) (a_table s) \<Longrightarrow>
   clean_sat (settled_in w s') (a_table s')"
proof (induction n arbitrary: s)
  case (Suc n)
  obtain s1 r where s1: "run_once w s = Some (s1, r)" "run_actor n w s1 = Some s'"
    using Suc.prems(1) by (auto split: option.splits prod.splits)
  moreover have "actor_inv s1"
    using costs_run_once [OF s1(1), of 0] Suc.prems(2) by (simp add: costs_def)
  ultimately show ?case
    using Suc.IH run_once_settles Suc.prems by blast
qed simp


section \<open>The sweep\<close>

text \<open>The sweep is a diff. After a sweep that could read the kernel every entry of the table is either
  queued for the next batch or has an \<open>lladdr\<close> in the document the sweep read, so a claim the
  kernel has lost cannot stay unnoticed; and the sweep forked nothing but that one read.\<close>

theorem sweep_finds_missing:
  assumes "actor_inv s" and "sweep w s = Some (s', Diffed dirtied n)"
  shows "\<exists>r doc. a_forks s' = a_forks s @ [(READ_ARGV, r)] \<and> read_outcome w r = Inr doc \<and>
    (\<forall>row addr e. entry (a_table s') row addr = Some e \<longrightarrow> e_dirty e \<or> classify doc (e_leg e) addr = Skip)"
  using assms(2)
proof (cases rule: sweep_cases)
  case (Diffed t dropped s2 s3 doc keys s4 dropped')
  obtain r where r: "a_forks s3 = a_forks s @ [(READ_ARGV, r)]" "read_outcome w r = Inr doc"
    using read_kernel_forks [OF Diffed(4)] a_forks_wait_and_spend [OF Diffed(3)]
    by (auto simp: elapse_simps)
  let ?Q = "\<lambda>k e. classify doc (e_leg e) (snd k) = Skip"
  have "clean_sat (\<lambda>k e. ?Q k e \<or> k \<in> set keys) (a_table (tick w s3))"
    unfolding clean_sat_def Diffed(5)
    by (force simp: list_entries_def dest!: map_of_SomeD)
  then have "clean_sat ?Q (a_table s')"
    using re_dirty_all_clean [of ?Q keys "tick w s3" w "a_now (tick w s3)" dropped] Diffed(6,7) by simp
  then have "\<forall>row addr e. entry (a_table s') row addr = Some e \<longrightarrow> e_dirty e \<or> classify doc (e_leg e) addr = Skip"
    unfolding clean_sat_def entry_def by (metis snd_conv)
  moreover have "a_forks s' = a_forks s3"
    using a_forks_re_dirty_all [of w "a_now (tick w s3)" keys "tick w s3" dropped] Diffed(6,7)
    by (simp add: elapse_simps)
  ultimately show ?thesis
    using r by auto
qed simp

section \<open>The batching rule\<close>

text \<open>No other task makes a claim while the actor works.\<close>

definition quiet :: "World \<Rightarrow> bool" where
  "quiet w \<longleftrightarrow> w_claims w = (\<lambda>_. [])"

lemma quiet_elapse: "quiet w \<Longrightarrow> a_table (elapse w d s) = a_table s"
  by (simp add: quiet_def elapse_table)

lemma quiet_wait_and_spend_loop:
  "quiet w \<Longrightarrow> wait_and_spend_loop n w want s = Some s' \<Longrightarrow> a_table s' = a_table s"
  by (induction n arbitrary: s) (auto simp: Let_def quiet_elapse split: prod.splits if_splits)

lemma quiet_read_kernel:
  "quiet w \<Longrightarrow> read_kernel w s = (s', doc) \<Longrightarrow> a_table s' = a_table s \<and> a_bucket s' = a_bucket s"
  by (auto simp: read_kernel_def io_run_def Let_def quiet_elapse elapse_simps split: sum.splits if_splits)

abbreviation waiting :: "Actor \<Rightarrow> Key set" where
  "waiting s \<equiv> dirty_keys (entries (a_table s))"

lemma finite_dirty_keys [simp]: "finite (dirty_keys es)"
  by (rule finite_subset [OF _ finite_dom_map_of [of es]]) (auto simp: dirty_keys_def)

lemma take_next_dirty_waiting:
  assumes "take_next_dirty t now = (t', out)" "taken out = Some x"
  shows "(t_row x, t_addr x) \<in> dirty_keys (entries t) \<and>
    dirty_keys (entries t') \<subseteq> dirty_keys (entries t) - {(t_row x, t_addr x)}"
proof -
  obtain es q where tl: "take_loop now (queue t) (entries t) [] = (es, q, out)" and t': "entries t' = es"
    using assms(1) by (auto simp: take_next_dirty_def split: prod.splits)
  obtain e where "om_get (entries t) (t_row x, t_addr x) = Some e" "e_dirty e"
    "om_get (entries t') (t_row x, t_addr x) = Some (e\<lparr>e_dirty := False\<rparr>)"
    using take_next_dirty_taken [OF assms] by blast
  then show ?thesis
    using take_loop_popped [OF tl] t' by (auto simp: dirty_keys_def)
qed

lemma take_next_dirty_empties:
  assumes "table_inv t" "take_next_dirty t now = (t', out)" "taken out = None"
  shows "dirty_keys (entries t') = {}"
proof -
  obtain es q where tl: "take_loop now (queue t) (entries t) [] = (es, q, out)"
    and t': "entries t' = es" "queue t' = q"
    using assms(2) by (auto simp: take_next_dirty_def split: prod.splits)
  have "table_inv t'"
    using table_inv_take [OF assms(1), of now] assms(2) by simp
  then show ?thesis
    using take_loop_none [OF tl assms(3)] t' by (auto simp: table_inv_def)
qed

text \<open>A handled entry costs at most one token, and with tokens in reserve and working commands
  nothing is put back.\<close>

lemma write_taken_quiet:
  assumes "quiet w" "\<forall>i argv. run_failure (w_run w i argv) = None" "actor_inv s" "0 < tokens (a_bucket s)"
  shows "\<exists>s'. write_taken w verb t s b = (s', b, True) \<and> a_table s' = a_table s \<and>
    tokens (a_bucket s) - 1 \<le> tokens (a_bucket s')"
proof -
  let ?s1 = "tick w s"
  let ?b = "refill (a_bucket ?s1) (a_now ?s1)"
  have "bucket_ok (a_bucket ?s1) (a_now ?s1)"
    using actor_inv_tick [OF assms(3), of w] by (simp add: actor_inv_def)
  then have "tokens (a_bucket s) \<le> tokens ?b"
    using tokens_refill_mono [of "a_bucket ?s1" "a_now ?s1"] by (simp add: elapse_simps)
  moreover from this have "spend (a_bucket ?s1) (a_now ?s1) = (?b\<lparr>tokens := tokens ?b - 1\<rparr>, True)"
    using assms(4) by (simp add: spend_def Let_def)
  ultimately show ?thesis
    using assms(1,2) by (simp add: write_taken_def Let_def io_run_def quiet_elapse elapse_simps diff_le_mono)
qed

lemma handle_taken_quiet:
  assumes "quiet w" "\<forall>i argv. run_failure (w_run w i argv) = None" "actor_inv s" "0 < tokens (a_bucket s)"
    and "(t_row t, t_addr t) \<notin> b_seen b"
  shows "\<exists>s'. handle_taken w doc t s b = (s', b\<lparr>b_seen := insert (t_row t, t_addr t) (b_seen b)\<rparr>, True) \<and>
    a_table s' = a_table s \<and> tokens (a_bucket s) - 1 \<le> tokens (a_bucket s')"
  using write_taken_quiet [OF assms(1-4)] assms(5)
  by (cases "classify doc (t_leg t) (t_addr t)") (auto simp: handle_taken_def Let_def)

lemma drain_quiet:
  assumes "quiet w" "\<forall>i argv. run_failure (w_run w i argv) = None"
    and "actor_inv s" "b_seen b \<inter> waiting s = {}" "min m (card (waiting s)) \<le> tokens (a_bucket s)"
    and "drain m w doc s b = (s', b')"
  shows "b_put_back b' = b_put_back b \<and> card (waiting s') \<le> card (waiting s) - m"
  using assms(3-)
proof (induction m arbitrary: s b)
  case (Suc m)
  let ?s1 = "tick w s"
  obtain t nxt where tk: "take_next_dirty (a_table ?s1) (a_now ?s1) = (t, nxt)"
    by (cases "take_next_dirty (a_table ?s1) (a_now ?s1)")
  let ?s2 = "?s1\<lparr>a_table := t\<rparr>" and ?b = "b\<lparr>b_dropped := b_dropped b @ expired nxt\<rparr>"
  have inv1: "actor_inv ?s1" and tab1: "a_table ?s1 = a_table s"
    using actor_inv_tick [OF Suc.prems(1)] assms(1) by (simp_all add: quiet_elapse)
  have inv2: "actor_inv ?s2"
    using costs_take [OF tk, of 0] inv1 by (simp add: costs_def)
  show ?case
  proof (cases "taken nxt")
    case None
    have "dirty_keys (entries t) = {}"
      using take_next_dirty_empties [OF _ tk None] inv1 by (simp add: actor_inv_def)
    then show ?thesis
      using Suc.prems tk None by auto
  next
    case (Some x)
    let ?k = "(t_row x, t_addr x)"
    have k: "?k \<in> waiting s" "dirty_keys (entries t) \<subseteq> waiting s - {?k}"
      using take_next_dirty_waiting [OF tk Some] tab1 by auto
    have c: "card (dirty_keys (entries t)) \<le> card (waiting s) - 1" "0 < card (waiting s)"
      using card_mono [OF _ k(2)] k(1) by (auto simp: card_gt_0_iff)
    have tok: "0 < tokens (a_bucket ?s2)" and new: "?k \<notin> b_seen ?b"
      using Suc.prems(2,3) k(1) c(2) by (auto simp: elapse_simps)
    obtain s3 where h: "handle_taken w doc x ?s2 ?b = (s3, ?b\<lparr>b_seen := insert ?k (b_seen b)\<rparr>, True)"
      and s3: "a_table s3 = t" "tokens (a_bucket s) - 1 \<le> tokens (a_bucket s3)"
      using handle_taken_quiet [OF assms(1,2) inv2 tok new, of doc] by (auto simp: elapse_simps)
    have "actor_inv s3"
      using costs_handle_taken [of 0 ?s2 w doc x ?b] inv2 h by (simp add: costs_def)
    moreover have "insert ?k (b_seen b) \<inter> waiting s3 = {}"
      using Suc.prems(2) k(2) s3(1) by auto
    moreover have "min m (card (waiting s3)) \<le> tokens (a_bucket s3)"
      using Suc.prems(3) s3 c by auto
    moreover have "drain m w doc s3 (?b\<lparr>b_seen := insert ?k (b_seen b)\<rparr>) = (s', b')"
      using Suc.prems(4) tk Some h by simp
    ultimately show ?thesis
      using Suc.IH [of s3 "?b\<lparr>b_seen := insert ?k (b_seen b)\<rparr>"] s3(1) c by simp linarith
  qed
qed simp

text \<open>The batching rule pays off. When no new claim arrives and every command succeeds, a batch
  settles 31 waiting claims for its one read, or all of them if there are fewer: the tokens it
  waited for are enough for every write, and nothing is put back. So \<open>n\<close> waiting claims need
  only one read fork per 31.\<close>

theorem batch_drains:
  assumes "actor_inv s" and "quiet w" and "\<forall>i argv. run_failure (w_run w i argv) = None"
    and "run_batch w s = Some (s', Drained)"
  shows "dirty_depth (a_table s') \<le> dirty_depth (a_table s) - 31"
  using assms(4)
proof (cases rule: run_batch_cases)
  case (Drained s2 s3 doc s4 b s5 dropped)
  let ?d = "dirty_depth (a_table (tick w s))"
  have d: "?d = dirty_depth (a_table s)" "a_table s3 = a_table s"
    using quiet_wait_and_spend_loop [OF assms(2)] Drained(3) quiet_read_kernel [OF assms(2) Drained(4)]
    by (auto simp: wait_and_spend_def quiet_elapse [OF assms(2)])
  have inv3: "actor_inv s3"
    using costs_then [OF costs_elapse costs_read [OF Drained(3,4)], of 0] assms(1) by (simp add: costs_def)
  have card: "dirty_depth (a_table x) = card (waiting x)" if "actor_inv x" for x
    using that by (intro dirty_depth_card) (simp add: actor_inv_def table_inv_def)
  have "batch_want ?d - 1 \<le> tokens (a_bucket s2)"
    using wait_and_spend_total [OF actor_inv_tick [OF assms(1)] batch_want_bounds, of w ?d w] Drained(3) by auto
  then have "min 31 (card (waiting s3)) \<le> tokens (a_bucket s3)"
    using quiet_read_kernel [OF assms(2) Drained(4)] card [OF assms(1)] d
    by (simp add: batch_want_def BURST_def)
  then have "b_put_back b = []" "card (waiting s4) \<le> card (waiting s) - 31"
    using drain_quiet [OF assms(2,3) inv3 _ _ Drained(5)] d by (auto simp: no_vars_def BURST_def)
  moreover from this have "a_table s' = a_table s4"
    using Drained(6,7) by (auto simp: quiet_elapse [OF assms(2)])
  moreover have inv': "actor_inv s'"
    using costs_run_batch [OF assms(4), of 0] assms(1) by (simp add: costs_def)
  ultimately show ?thesis
    unfolding card [OF inv'] card [OF assms(1)] by simp
qed simp_all

section \<open>Witnesses\<close>

text \<open>The sample world without claims, and the same world with commands that cannot run.\<close>

definition quiet_world :: World where
  "quiet_world = sample_world\<lparr>w_claims := (\<lambda>_. [])\<rparr>"

definition broken_world :: World where
  "broken_world = quiet_world\<lparr>w_run := (\<lambda>_ _. Inl ''cannot exec ip'')\<rparr>"

lemma quiet_batch:
  "\<exists>s. run_batch quiet_world (new_actor sample_table 10 False) = Some (s, Drained)"
  by (simp add: sample_eval quiet_world_def sample_table_def om_remove_def join.simps dec.simps log_line_def)

lemma broken_batch:
  "\<exists>s. run_batch broken_world (new_actor sample_table 10 False) = Some (s, ReadFailedBatch)"
  by (simp add: sample_eval quiet_world_def broken_world_def sample_table_def log_line_def)

lemma quiet_sweep:
  "\<exists>s. sweep quiet_world (new_actor sample_table 10 False) = Some (s, Diffed 1 1)"
  by (simp add: sample_eval quiet_world_def sample_table_def sweep_def remove_expired_def list_entries_def
      re_dirty_def log_line_def)


theorem failed_read_changes_nothing_witness:
  "\<exists>s cs. run_batch broken_world (new_actor sample_table 10 False) = Some (s, ReadFailedBatch) \<and>
     length (a_forks s) = 1 \<and> a_table s = foldl apply_claim sample_table cs"
proof -
  obtain s where s: "run_batch broken_world (new_actor sample_table 10 False) = Some (s, ReadFailedBatch)"
    using broken_batch by blast
  show ?thesis
    using failed_read_changes_nothing [OF s] s by (auto simp: new_actor_def)
qed


theorem sweep_finds_missing_witness:
  "\<exists>s r. sweep quiet_world (new_actor sample_table 10 False) = Some (s, Diffed 1 1) \<and>
     a_forks s = [(READ_ARGV, r)]"
proof -
  obtain s where s: "sweep quiet_world (new_actor sample_table 10 False) = Some (s, Diffed 1 1)"
    using quiet_sweep by blast
  have "actor_inv (new_actor sample_table 10 False)"
    by (rule actor_inv_new [OF sample_table_inv])
  then show ?thesis
    using sweep_finds_missing [OF _ s] s by (auto simp: new_actor_def)
qed

theorem batch_drains_witness:
  "\<exists>s. run_batch quiet_world (new_actor sample_table 10 False) = Some (s, Drained) \<and>
     dirty_depth sample_table = 2 \<and> dirty_depth (a_table s) = 0"
proof -
  obtain s where s: "run_batch quiet_world (new_actor sample_table 10 False) = Some (s, Drained)"
    using quiet_batch by blast
  have d: "dirty_depth sample_table = 2"
    by (simp add: dirty_depth_def sample_table_def)
  have "dirty_depth (a_table s) \<le> dirty_depth (a_table (new_actor sample_table 10 False)) - 31"
  proof (rule batch_drains [OF _ _ _ s])
    show "actor_inv (new_actor sample_table 10 False)"
      by (rule actor_inv_new [OF sample_table_inv])
    show "quiet quiet_world" "\<forall>i argv. run_failure (w_run quiet_world i argv) = None"
      by (simp_all add: quiet_def quiet_world_def sample_world_def run_failure_def output_ok_def)
  qed
  then show ?thesis
    using s d by (simp add: new_actor_def)
qed

end
