(* ===== verification/Actor_Invariant.thy ===== *)
theory Actor_Invariant
  imports Workload_Flush
begin

text \<open>
  The interface for what holds over the whole life of the flush actor: a property \<open>I\<close> of the table and
  of the commands forked so far, and a property \<open>held_ok\<close> of the entry the actor holds between
  taking and writing it. The locale asks what each primitive move does to them; the lemmas carry
  the two through every operation and every run.
\<close>

locale actor_invariant =
  fixes w :: World
    and I :: "NeighborTable \<Rightarrow> (string list \<times> io_result) list \<Rightarrow> bool"
    and held_ok :: "Taken \<Rightarrow> bool"
  assumes I_claim: "I t fs \<Longrightarrow> c \<in> set (w_claims w i) \<Longrightarrow> I (apply_claim t c) fs"
    and I_take: "I t fs \<Longrightarrow> I (fst (take_next_dirty t now)) fs"
    and held_take: "I t fs \<Longrightarrow> taken (snd (take_next_dirty t now)) = Some x \<Longrightarrow> held_ok x"
    and I_re_dirty: "I t fs \<Longrightarrow> I (fst (re_dirty t row addr now)) fs"
    and I_remove_expired: "table_inv t \<Longrightarrow> I t fs \<Longrightarrow> I (fst (remove_expired t now)) fs"
    and I_wait: "I t fs \<Longrightarrow> wait_dirty t = Some t' \<Longrightarrow> I t' fs"
    and I_read: "I t fs \<Longrightarrow> I t (fs @ [(READ_ARGV, r)])"
    and I_write: "I t fs \<Longrightarrow> held_ok x \<Longrightarrow> I t (fs @ [(write_argv verb (t_addr x) (t_mac x) (t_leg x), r)])"
begin

abbreviation holds :: "Actor \<Rightarrow> bool" where
  "holds s \<equiv> I (a_table s) (a_forks s)"

lemma holds_elapse: "holds s \<Longrightarrow> holds (elapse w d s)"
proof -
  have "I t fs \<Longrightarrow> list_all (\<lambda>c. \<exists>i. c \<in> set (w_claims w i)) cs \<Longrightarrow> I (foldl apply_claim t cs) fs" for t fs cs
    by (induction cs arbitrary: t) (auto intro: I_claim)
  then show "holds s \<Longrightarrow> holds (elapse w d s)"
    by (auto simp: elapse_table elapse_simps list_all_iff)
qed

lemma holds_wait_and_spend_loop: "wait_and_spend_loop n w want s = Some s' \<Longrightarrow> holds s \<Longrightarrow> holds s'"
proof (induction n arbitrary: s)
  case (Suc n)
  let ?s1 = "tick w s"
  obtain b d where wf: "wait_for (a_bucket ?s1) (a_now ?s1) want = (b, d)"
    by (cases "wait_for (a_bucket ?s1) (a_now ?s1) want")
  let ?s2 = "?s1\<lparr>a_bucket := b\<rparr>"
  have s2: "holds ?s2"
    using holds_elapse [OF Suc.prems(2), of 0] by simp
  obtain b' g where sp: "spend (a_bucket (tick w ?s2)) (a_now (tick w ?s2)) = (b', g)"
    by (cases "spend (a_bucket (tick w ?s2)) (a_now (tick w ?s2))")
  let ?s3 = "if d = 0 then (tick w ?s2)\<lparr>a_bucket := b'\<rparr> else elapse w d ?s2"
  have s3: "holds ?s3"
    using holds_elapse [OF s2, of 0] holds_elapse [OF s2, of d] by simp
  show ?case
  proof (cases "d = 0 \<and> g")
    case True
    then show ?thesis
      using Suc.prems wf sp s3 by auto
  next
    case False
    then have "wait_and_spend_loop n w want ?s3 = Some s'"
      using Suc.prems wf sp by auto
    then show ?thesis
      using Suc.IH s3 by blast
  qed
qed simp

lemma holds_read:
  assumes "wait_and_spend w want s = Some s2" "read_kernel w s2 = (s3, doc)" "holds s"
  shows "holds s3"
proof -
  have "holds s2"
    using assms(1,3) unfolding wait_and_spend_def by (rule holds_wait_and_spend_loop)
  then have t: "holds (tick w s2)"
    by (rule holds_elapse)
  have "a_table s3 = a_table (tick w s2)"
    using assms(2) by (auto simp: read_kernel_def io_run_def Let_def split: sum.splits if_splits)
  then show ?thesis
    using read_kernel_forks [OF assms(2)] I_read t by (auto simp: elapse_simps)
qed

lemma holds_write_taken:
  assumes "write_taken w verb x s b = (s', b', go)" "holds s" "held_ok x"
  shows "holds s'"
proof -
  let ?s1 = "tick w s"
  obtain bk g where sp: "spend (a_bucket ?s1) (a_now ?s1) = (bk, g)"
    by (cases "spend (a_bucket ?s1) (a_now ?s1)")
  let ?s2 = "?s1\<lparr>a_bucket := bk\<rparr>"
  let ?argv = "write_argv verb (t_addr x) (t_mac x) (t_leg x)"
  have s2: "holds ?s2" "holds (tick w ?s2)"
    using holds_elapse [OF assms(2), of 0] holds_elapse [of ?s2 0] by simp_all
  obtain s3 r where io: "io_run w ?argv ?s2 = (s3, r)"
    by (cases "io_run w ?argv ?s2")
  then have "a_table s3 = a_table (tick w ?s2)" "a_forks s3 = a_forks (tick w ?s2) @ [(?argv, r)]"
    by (auto simp: io_run_def Let_def)
  then have "holds s3"
    using I_write [OF s2(2) assms(3)] by simp
  then show ?thesis
    using assms(1) sp io s2(1) by (auto simp: write_taken_def Let_def split: option.splits if_splits)
qed

lemma holds_handle_taken:
  assumes "handle_taken w doc x s b = (s', b', go)" "holds s" "held_ok x"
  shows "holds s'"
  using assms holds_write_taken
  by (auto simp: handle_taken_def Let_def split: if_splits Class.splits)

lemma holds_drain: "drain n w doc s b = (s', b') \<Longrightarrow> holds s \<Longrightarrow> holds s'"
proof (induction n arbitrary: s b)
  case (Suc n)
  let ?s1 = "tick w s"
  obtain t nxt where tk: "take_next_dirty (a_table ?s1) (a_now ?s1) = (t, nxt)"
    by (cases "take_next_dirty (a_table ?s1) (a_now ?s1)")
  let ?s2 = "?s1\<lparr>a_table := t\<rparr>" and ?b = "b\<lparr>b_dropped := b_dropped b @ expired nxt\<rparr>"
  have s1: "holds ?s1"
    using Suc.prems(2) by (rule holds_elapse)
  then have s2: "holds ?s2"
    using I_take [OF s1, of "a_now ?s1"] tk by simp
  show ?case
  proof (cases "taken nxt")
    case None
    then show ?thesis
      using Suc.prems tk s2 by simp
  next
    case (Some x)
    obtain s3 b3 go where h: "handle_taken w doc x ?s2 ?b = (s3, b3, go)"
      by (cases "handle_taken w doc x ?s2 ?b")
    have "held_ok x"
      using held_take [OF s1, of "a_now ?s1"] tk Some by simp
    then have "holds s3"
      using holds_handle_taken [OF h s2] by blast
    then show ?thesis
      using Suc.prems(1) Suc.IH tk Some h by (auto split: if_splits)
  qed
qed simp

lemma holds_re_dirty_all: "holds s \<Longrightarrow> holds (fst (re_dirty_all w now ks s d))"
proof (induction ks arbitrary: s d)
  case (Cons k ks)
  let ?s1 = "tick w s"
  obtain t r where rd: "re_dirty (a_table ?s1) (fst k) (snd k) now = (t, r)"
    by (cases "re_dirty (a_table ?s1) (fst k) (snd k) now")
  have "holds (?s1\<lparr>a_table := t\<rparr>)"
    using I_re_dirty [OF holds_elapse [OF Cons.prems, of 0], of "fst k" "snd k" now] rd by simp
  then show ?case
    using Cons.IH rd by simp
qed simp

lemma holds_run_batch: "run_batch w s = Some (s', r) \<Longrightarrow> holds s \<Longrightarrow> holds s'"
proof (erule run_batch_cases, goal_cases)
  case 1
  then show ?case
    using holds_elapse by simp
next
  case (2 s2)
  then show ?case
    using holds_read [OF 2(4,5)] holds_elapse by blast
next
  case (3 s2 s3 doc s4 b s5 dropped)
  have "holds s3"
    using holds_read [OF 3(4,5)] holds_elapse 3(1) by blast
  then have "holds (tick w s4)"
    using holds_drain [OF 3(6)] holds_elapse by blast
  then have "holds s5"
    using holds_re_dirty_all [of "tick w s4" "a_now (tick w s4)" "b_put_back b" "b_dropped b"] 3(7) by simp
  then show ?case
    using 3(8) by simp
qed

lemma holds_sweep:
  assumes "sweep w s = Some (s', r)" "actor_inv s" "holds s"
  shows "holds s'"
proof -
  have s1: "holds ((tick w s)\<lparr>a_table := t\<rparr>)"
    if "remove_expired (a_table (tick w s)) (a_now (tick w s)) = (t, dropped)" for t dropped
    using I_remove_expired [OF _ holds_elapse [OF assms(3), of 0], of "a_now (tick w s)"]
      actor_inv_tick [OF assms(2), of w] that by (simp add: actor_inv_def)
  from assms(1) show ?thesis
  proof (cases rule: sweep_cases)
    case (ReadFailed t dropped s2 s3)
    then show ?thesis
      using holds_elapse [OF holds_read [OF ReadFailed(3,4) s1 [OF ReadFailed(2)]], of 0] by simp
  next
    case (Diffed t dropped s2 s3 doc keys s4 dropped')
    have "holds (tick w s3)"
      using holds_elapse [OF holds_read [OF Diffed(3,4) s1 [OF Diffed(2)]], of 0] .
    then show ?thesis
      using holds_re_dirty_all [of "tick w s3" "a_now (tick w s3)" keys dropped] Diffed(6,7) by simp
  qed
qed

lemma holds_run_once:
  assumes "run_once w s = Some (s', r)" "actor_inv s" "holds s"
  shows "holds s'"
proof -
  obtain s1 where s1: "step w s = Some (s1, r)"
    and s': "s' = (if r = StepBatch Idle then idle_wait w (publish w s1) else publish w s1)"
    using assms(1) by (auto simp: run_once_def Let_def split: option.splits)
  have tick: "holds (tick w s)"
    using assms(3) by (rule holds_elapse)
  have "holds s1"
  proof (cases "a_next_sweep (tick w s) \<le> a_now (tick w s)")
    case True
    then obtain s2 sw where s2: "sweep w (tick w s) = Some (s2, sw)"
      and "s1 = (tick w s2)\<lparr>a_next_sweep := a_now (tick w s2) + SWEEP\<rparr>"
      using s1 by (auto simp: step_def Let_def split: option.splits)
    then show ?thesis
      using holds_elapse [OF holds_sweep [OF s2 actor_inv_tick [OF assms(2)] tick], of 0] by simp
  next
    case False
    then show ?thesis
      using s1 holds_run_batch tick by (auto simp: step_def Let_def split: option.splits)
  qed
  then have pub: "holds (publish w s1)"
    using holds_elapse [OF holds_elapse [OF holds_elapse [OF holds_elapse]], of s1 0 0 0 0]
    by (simp add: publish_def Let_def level_def)
  have "holds (idle_wait w (publish w s1))"
    using holds_elapse [OF pub, of 0] I_wait
    by (auto simp: idle_wait_def Let_def split: option.splits)
  then show ?thesis
    using pub by (simp add: s')
qed

lemma holds_run_actor: "run_actor n w s = Some s' \<Longrightarrow> actor_inv s \<Longrightarrow> holds s \<Longrightarrow> holds s'"
proof (induction n arbitrary: s)
  case (Suc n)
  obtain s1 r where s1: "run_once w s = Some (s1, r)" "run_actor n w s1 = Some s'"
    using Suc.prems(1) by (auto split: option.splits prod.splits)
  moreover have "actor_inv s1"
    using costs_run_once [OF s1(1), of 0] Suc.prems(2) by (simp add: costs_def)
  ultimately show ?case
    using Suc.IH holds_run_once Suc.prems by blast
qed simp

end

end
