(* ===== verification/Workload_Relay.thy ===== *)
theory Workload_Relay
  imports Workload_Table Host_Io
begin

text \<open>
  The DHCP relay (\<open>src/src/workload/relay.rs\<close>): the BOOTP view and its option scan, the two
  forwarding decisions, what a relayed ACK teaches, the serve loop as a state machine over the
  events of its \<open>select!\<close>, and the bind and retry loop around it. The relay's counters live in
  \<open>Shared\<close> (\<open>supervisor/mod.rs\<close>, \<open>relay_event\<close>); sockets, the ifindex reader and the clock are the
  arguments of the events.
\<close>

section \<open>BOOTP packets\<close>

definition BOOTREQUEST :: u8 where "BOOTREQUEST = 1"
definition BOOTREPLY :: u8 where "BOOTREPLY = 2"
definition DHCPACK :: u8 where "DHCPACK = 5"
definition HEADER_LEN :: nat where "HEADER_LEN = 236"
definition MAGIC_COOKIE :: "u8 list" where "MAGIC_COOKIE = [99, 130, 83, 99]"
definition MIN_LEN :: nat where "MIN_LEN = HEADER_LEN + length MAGIC_COOKIE"
definition CIADDR_OFF :: nat where "CIADDR_OFF = 12"
definition YIADDR_OFF :: nat where "YIADDR_OFF = 16"
definition GIADDR_OFF :: nat where "GIADDR_OFF = 24"
definition CHADDR_OFF :: nat where "CHADDR_OFF = 28"
definition PORT :: u16 where "PORT = 67"
definition CLIENT_PORT :: u16 where "CLIENT_PORT = 68"

type_synonym Bootp = "u8 list"

definition bootp_parse :: "u8 list \<Rightarrow> string + Bootp" where
  "bootp_parse buf =
     (if length buf < MIN_LEN then
        Inl (''short BOOTP packet: '' @ dec (length buf) @ '' bytes (want at least '' @ dec MIN_LEN @
             '', the fixed header plus the DHCP magic cookie)'')
      else if take (length MAGIC_COOKIE) (drop HEADER_LEN buf) \<noteq> MAGIC_COOKIE then
        Inl ''not a DHCP packet: bad magic cookie''
      else Inr buf)"

definition addr_at :: "u8 list \<Rightarrow> nat \<Rightarrow> ipv4" where
  "addr_at bytes off = u32_from_be (bytes ! off) (bytes ! (off + 1)) (bytes ! (off + 2)) (bytes ! (off + 3))"

definition op :: "Bootp \<Rightarrow> u8" where "op p = p ! 0"
definition htype :: "Bootp \<Rightarrow> u8" where "htype p = p ! 1"
definition hlen :: "Bootp \<Rightarrow> u8" where "hlen p = p ! 2"
definition hops :: "Bootp \<Rightarrow> u8" where "hops p = p ! 3"
definition set_hops :: "Bootp \<Rightarrow> u8 \<Rightarrow> Bootp" where "set_hops p h = p[3 := h]"
definition ciaddr :: "Bootp \<Rightarrow> ipv4" where "ciaddr p = addr_at p CIADDR_OFF"
definition yiaddr :: "Bootp \<Rightarrow> ipv4" where "yiaddr p = addr_at p YIADDR_OFF"
definition giaddr :: "Bootp \<Rightarrow> ipv4" where "giaddr p = addr_at p GIADDR_OFF"
definition set_giaddr :: "Bootp \<Rightarrow> ipv4 \<Rightarrow> Bootp" where
  "set_giaddr p a = copy_at GIADDR_OFF (octets a) p"

definition chaddr6 :: "Bootp \<Rightarrow> mac option" where
  "chaddr6 p =
     (if htype p = 1 \<and> hlen p = 6 then mac_of_bytes (take 6 (drop CHADDR_OFF p)) else None)"

function option_loop :: "u8 \<Rightarrow> nat \<Rightarrow> u8 list \<Rightarrow> nat \<Rightarrow> u8 list option" where
  "option_loop code n opts i =
     (if i < length opts then
        if opts ! i = 0 then option_loop code n opts (i + 1)
        else if opts ! i = 255 then None
        else
          (case get_at opts (i + 1) of
             None \<Rightarrow> None
           | Some l \<Rightarrow>
               (case get_range opts (i + 2) (i + 2 + unat l) of
                  None \<Rightarrow> None
                | Some val \<Rightarrow>
                    if opts ! i = code \<and> unat l = n then Some val
                    else option_loop code n opts (i + 2 + unat l)))
      else None)"
  by pat_completeness auto
termination
  by (relation "measure (\<lambda>(code, n, opts, i). length opts - i)") auto

declare option_loop.simps [simp del]

definition option_of :: "Bootp \<Rightarrow> u8 \<Rightarrow> nat \<Rightarrow> u8 list option" where
  "option_of p code n = option_loop code n (drop (HEADER_LEN + length MAGIC_COOKIE) p) 0"

definition message_type :: "Bootp \<Rightarrow> u8 option" where
  "message_type p = map_option (\<lambda>v. v ! 0) (option_of p 53 1)"

definition lease_time :: "Bootp \<Rightarrow> u32 option" where
  "lease_time p =
     map_option (\<lambda>v. u32_from_be (v ! 0) (v ! 1) (v ! 2) (v ! 3)) (option_of p 51 4)"

section \<open>The forwarding decisions\<close>

type_synonym SocketAddrV4 = "ipv4 \<times> u16"

datatype DropReason =
    Malformed
  | NotABootrequest
  | NotABootreply
  | HopsExceeded
  | ForeignGiaddr ipv4
  | UntrustedServer ipv4
  | ForeignReplyGiaddr ipv4
  | OutOfPrefix ipv4

datatype Action = Forward SocketAddrV4 "u8 list" | Drop DropReason

definition forward_client :: "u8 list \<Rightarrow> ipv4 \<Rightarrow> ipv4 \<Rightarrow> Action" where
  "forward_client pkt leg dhcp_server =
     (case bootp_parse pkt of
        Inl _ \<Rightarrow> Drop Malformed
      | Inr p \<Rightarrow>
          if op p \<noteq> BOOTREQUEST then Drop NotABootrequest
          else
            let g = giaddr p in
            if g \<noteq> 0 \<and> g \<noteq> leg then Drop (ForeignGiaddr g)
            else if hops p \<ge> 16 then Drop HopsExceeded
            else
              let p = set_hops p (hops p + 1);
                  p = (if g = 0 then set_giaddr p leg else p)
              in Forward (dhcp_server, PORT) p)"

definition forward_server :: "u8 list \<Rightarrow> ipv4 \<Rightarrow> ipv4 \<Rightarrow> ipv4 \<Rightarrow> Ipv4Prefix \<Rightarrow> Action" where
  "forward_server pkt src leg dhcp_server prefix =
     (case bootp_parse pkt of
        Inl _ \<Rightarrow> Drop Malformed
      | Inr p \<Rightarrow>
          if op p \<noteq> BOOTREPLY then Drop NotABootreply
          else if src \<noteq> dhcp_server then Drop (UntrustedServer src)
          else if giaddr p \<noteq> leg then Drop (ForeignReplyGiaddr (giaddr p))
          else if ciaddr p \<noteq> 0 \<and> \<not> contains prefix (ciaddr p) then Drop (OutOfPrefix (ciaddr p))
          else if yiaddr p \<noteq> 0 \<and> \<not> contains prefix (yiaddr p) then Drop (OutOfPrefix (yiaddr p))
          else
            let dest = (if ciaddr p = 0 then - 1 else ciaddr p)
            in Forward (dest, CLIENT_PORT) p)"

datatype AckOutcome = Discovered ipv4 mac "u32 option" | RefusedAck ipv4 | Ignore

definition ack_discovery :: "u8 list \<Rightarrow> Ipv4Prefix \<Rightarrow> ipv4 set \<Rightarrow> AckOutcome" where
  "ack_discovery pkt prefix fabric_addresses =
     (case bootp_parse pkt of
        Inl _ \<Rightarrow> Ignore
      | Inr p \<Rightarrow>
          if message_type p \<noteq> Some DHCPACK then Ignore
          else
            let y = yiaddr p in
            if y = 0 \<or> \<not> contains prefix y then Ignore
            else if y \<in> fabric_addresses \<or> y = net prefix \<or> y = broadcast prefix then RefusedAck y
            else
              (case chaddr6 p of
                 None \<Rightarrow> Ignore
               | Some m \<Rightarrow> Discovered y m (lease_time p)))"

section \<open>The relay's report\<close>

record RelayReport =
  rr_server :: ipv4
  rr_requests :: nat
  rr_replies :: nat
  rr_discovered :: nat
  rr_drops :: nat
  rr_last_error :: "string option"

definition new_report :: "ipv4 \<Rightarrow> RelayReport" where
  "new_report server = \<lparr>rr_server = server, rr_requests = 0, rr_replies = 0, rr_discovered = 0,
     rr_drops = 0, rr_last_error = None\<rparr>"

datatype RelayEvent =
    Bound
  | BindError string
  | SocketError string
  | EvRequest
  | EvReply
  | EvDiscovered
  | EvDropped

fun report_event :: "RelayEvent \<Rightarrow> RelayReport \<Rightarrow> RelayReport" where
  "report_event Bound r = r\<lparr>rr_last_error := None\<rparr>"
| "report_event (BindError e) r = r\<lparr>rr_last_error := Some e\<rparr>"
| "report_event (SocketError e) r = r\<lparr>rr_last_error := Some e\<rparr>"
| "report_event EvRequest r = r\<lparr>rr_requests := rr_requests r + 1\<rparr>"
| "report_event EvReply r = r\<lparr>rr_replies := rr_replies r + 1\<rparr>"
| "report_event EvDiscovered r = r\<lparr>rr_discovered := rr_discovered r + 1\<rparr>"
| "report_event EvDropped r = r\<lparr>rr_drops := rr_drops r + 1\<rparr>"

definition relay_event ::
  "(string, RelayReport) omap \<Rightarrow> string \<Rightarrow> ipv4 \<Rightarrow> RelayEvent \<Rightarrow> (string, RelayReport) omap" where
  "relay_event relays name server ev =
     om_insert name
       (report_event ev (case om_get relays name of Some r \<Rightarrow> r | None \<Rightarrow> new_report server)) relays"

definition relay_last_error :: "(string, RelayReport) omap \<Rightarrow> string \<Rightarrow> string option" where
  "relay_last_error relays name = Option.bind (om_get relays name) rr_last_error"

section \<open>Serving\<close>

record RelayRow =
  row_name :: string
  row_leg :: string
  row_leg_addr :: ipv4
  row_dhcp_server :: ipv4
  row_prefix :: Ipv4Prefix
  row_fabric_addresses :: "ipv4 set"

text \<open>What the tasks share: the table, the reports and the cap source of \<open>Shared\<close>, the journal.\<close>

record Host =
  h_table :: NeighborTable
  h_relays :: "(string, RelayReport) omap"
  h_neighbor_cap :: CapSource
  h_journal :: "string list"

text \<open>The locals of one \<open>serve\<close> call.\<close>

record Serving =
  s_baseline :: "u32 option"
  s_unknown_polls :: nat
  s_last_send_drop :: "string option"
  s_last_client_send_drop :: "string option"
  s_prefix_drop_logged :: bool
  s_ack_refused_logged :: bool

definition serving :: "u32 option \<Rightarrow> Serving" where
  "serving baseline = \<lparr>s_baseline = baseline, s_unknown_polls = 0, s_last_send_drop = None,
     s_last_client_send_drop = None, s_prefix_drop_logged = False, s_ack_refused_logged = False\<rparr>"

definition BUF_LEN :: nat where "BUF_LEN = 1500"
definition UNKNOWN_BASELINE_LIMIT :: nat where "UNKNOWN_BASELINE_LIMIT = 5"

text \<open>The branches of the \<open>select!\<close>, each with what the sockets, the reader and the clock return:
  a poll with the ifindex read, a datagram on the client socket with the outcome of forwarding
  it, a datagram on the server socket with its source (\<open>None\<close> for an IPv6 one), the time and the
  outcome of forwarding it, and an error on either socket.\<close>

datatype serve_input =
    Poll "u32 option"
  | ClientPacket "u8 list" "string option"
  | ServerPacket "u8 list" "ipv4 option" instant "string option"
  | ClientError string
  | ServerError string

definition should_log_once :: "string option \<Rightarrow> string \<Rightarrow> bool" where
  "should_log_once previous msg \<longleftrightarrow> previous \<noteq> Some msg"

text \<open>The answer, and the flag for next time.\<close>

definition should_log_fixed_reason_drop :: "bool \<Rightarrow> bool \<times> bool" where
  "should_log_fixed_reason_drop logged = (if logged then (False, logged) else (True, True))"

definition note_event :: "RelayRow \<Rightarrow> RelayEvent \<Rightarrow> Host \<Rightarrow> Host" where
  "note_event row ev h = h\<lparr>h_relays := relay_event (h_relays h) (row_name row) (row_dhcp_server row) ev\<rparr>"

definition journal :: "string \<Rightarrow> Host \<Rightarrow> Host" where
  "journal line h = h\<lparr>h_journal := h_journal h @ [line]\<rparr>"

definition journal_if :: "bool \<Rightarrow> string \<Rightarrow> Host \<Rightarrow> Host" where
  "journal_if c line h = (if c then journal line h else h)"

definition opt_dbg :: "u32 option \<Rightarrow> string" where
  "opt_dbg i = (case i of Some n \<Rightarrow> ''Some('' @ dec (unat n) @ '')'' | None \<Rightarrow> ''None'')"

definition serve_poll :: "RelayRow \<Rightarrow> u32 option \<Rightarrow> Host \<Rightarrow> Serving \<Rightarrow> Host \<times> Serving \<times> string option" where
  "serve_poll row now h s =
     (case (s_baseline s, now) of
        (None, Some n) \<Rightarrow> (h, s\<lparr>s_baseline := Some n, s_unknown_polls := 0\<rparr>, None)
      | (None, None) \<Rightarrow>
          let s = s\<lparr>s_unknown_polls := s_unknown_polls s + 1\<rparr> in
          if s_unknown_polls s \<ge> UNKNOWN_BASELINE_LIMIT then
            let msg = ''leg '' @ row_leg row @ '' ifindex unreadable after '' @ dec (s_unknown_polls s) @
                      '' polls with no baseline ever established; treating as a rebuild''
            in (note_event row (SocketError msg) h, s, Some msg)
          else (h, s, None)
      | (Some b, _) \<Rightarrow>
          if now = Some b then (h, s, None)
          else
            let msg = ''leg '' @ row_leg row @ '' rebuilt (ifindex '' @ opt_dbg (s_baseline s) @ '' -> '' @
                      opt_dbg now @ '')''
            in (note_event row (SocketError msg) h, s, Some msg))"

definition serve_client :: "RelayRow \<Rightarrow> u8 list \<Rightarrow> string option \<Rightarrow> Host \<Rightarrow> Serving \<Rightarrow> Host \<times> Serving" where
  "serve_client row pkt send_error h s =
     (case forward_client (take BUF_LEN pkt) (row_leg_addr row) (row_dhcp_server row) of
        Drop _ \<Rightarrow> (h, s)
      | Forward to bytes \<Rightarrow>
          (case send_error of
             None \<Rightarrow> (note_event row EvRequest h, s)
           | Some e \<Rightarrow>
               let msg = ''server-facing send: '' @ e;
                   h = journal_if (should_log_once (s_last_send_drop s) msg)
                         (''cfab: workload '' @ row_name row @ '': dhcp request dropped ('' @ msg @ '')'') h
               in (note_event row EvDropped h, s\<lparr>s_last_send_drop := Some msg\<rparr>)))"

text \<open>What one trusted reply teaches: the branch of the serve loop that writes the table.\<close>

definition register_ack :: "RelayRow \<Rightarrow> AckOutcome \<Rightarrow> instant \<Rightarrow> Host \<Rightarrow> Serving \<Rightarrow> Host \<times> Serving" where
  "register_ack row ack now h s =
     (case ack of
        Discovered y m lease \<Rightarrow>
          let cap = for_prefix (h_neighbor_cap h) (row_prefix row);
              expires_at = now + clamp_lease lease
          in (case upsert (h_table h) (row_name row) (row_leg row) y m expires_at cap now of
                (t, Admitted) \<Rightarrow> (note_event row EvDiscovered (h\<lparr>h_table := t\<rparr>), s)
              | (t, Refused first_of_streak) \<Rightarrow>
                  (note_event row EvDropped
                     (journal_if first_of_streak (refusal_line cap (row_name row) y (row_prefix row))
                       (h\<lparr>h_table := t\<rparr>)), s))
      | RefusedAck addr \<Rightarrow>
          let msg = ''dhcp reply from '' @ ipv4_str (row_dhcp_server row) @ '' claims '' @ ipv4_str addr @
                    '', which the fabric owns or is a network/broadcast address; refused'';
              (log, flag) = should_log_fixed_reason_drop (s_ack_refused_logged s)
          in (note_event row EvDropped
                (journal_if log (''cfab: workload '' @ row_name row @ '': '' @ msg) h),
              s\<lparr>s_ack_refused_logged := flag\<rparr>)
      | Ignore \<Rightarrow> (h, s))"

definition reply_to_client :: "RelayRow \<Rightarrow> string option \<Rightarrow> Host \<Rightarrow> Serving \<Rightarrow> Host \<times> Serving" where
  "reply_to_client row send_error h s =
     (case send_error of
        None \<Rightarrow> (note_event row EvReply h, s)
      | Some e \<Rightarrow>
          let msg = ''client-facing send: '' @ e;
              h = journal_if (should_log_once (s_last_client_send_drop s) msg)
                    (''cfab: workload '' @ row_name row @ '': dhcp reply dropped ('' @ msg @ '')'') h
          in (note_event row EvDropped h, s\<lparr>s_last_client_send_drop := Some msg\<rparr>))"

definition serve_server ::
  "RelayRow \<Rightarrow> u8 list \<Rightarrow> ipv4 option \<Rightarrow> instant \<Rightarrow> string option \<Rightarrow> Host \<Rightarrow> Serving \<Rightarrow> Host \<times> Serving" where
  "serve_server row pkt from now send_error h s =
     (case from of
        None \<Rightarrow> (h, s)
      | Some src \<Rightarrow>
          (case forward_server (take BUF_LEN pkt) src (row_leg_addr row) (row_dhcp_server row)
                  (row_prefix row) of
             Forward to bytes \<Rightarrow>
               (case register_ack row
                       (ack_discovery (take BUF_LEN pkt) (row_prefix row) (row_fabric_addresses row))
                       now h s of
                  (h, s) \<Rightarrow> reply_to_client row send_error h s)
           | Drop (OutOfPrefix addr) \<Rightarrow>
               let msg = ''dhcp reply from '' @ ipv4_str (row_dhcp_server row) @ '' claims '' @
                         ipv4_str addr @ '', outside '' @ row_name row @ CHR 0x27 # ''s prefix; refused'';
                   (log, flag) = should_log_fixed_reason_drop (s_prefix_drop_logged s)
               in (note_event row EvDropped
                     (journal_if log (''cfab: workload '' @ row_name row @ '': '' @ msg) h),
                   s\<lparr>s_prefix_drop_logged := flag\<rparr>)
           | Drop _ \<Rightarrow> (h, s)))"

definition serve_step :: "RelayRow \<Rightarrow> serve_input \<Rightarrow> Host \<Rightarrow> Serving \<Rightarrow> Host \<times> Serving \<times> string option" where
  "serve_step row i h s =
     (case i of
        Poll now \<Rightarrow> serve_poll row now h s
      | ClientPacket pkt e \<Rightarrow> (case serve_client row pkt e h s of (h, s) \<Rightarrow> (h, s, None))
      | ServerPacket pkt from now e \<Rightarrow> (case serve_server row pkt from now e h s of (h, s) \<Rightarrow> (h, s, None))
      | ClientError e \<Rightarrow> (h, s, Some (''client socket: '' @ e))
      | ServerError e \<Rightarrow> (h, s, Some (''server socket: '' @ e)))"

text \<open>\<open>serve\<close> over the events that arrive: the reason it ended, or \<open>None\<close> while it still serves.\<close>

fun serve :: "RelayRow \<Rightarrow> serve_input list \<Rightarrow> Host \<Rightarrow> Serving \<Rightarrow> Host \<times> Serving \<times> string option" where
  "serve row [] h s = (h, s, None)"
| "serve row (i # is) h s =
     (case serve_step row i h s of
        (h, s, Some why) \<Rightarrow> (h, s, Some why)
      | (h, s, None) \<Rightarrow> serve row is h s)"

section \<open>Binding and retrying\<close>

definition BASELINE_BIND_ATTEMPTS :: nat where "BASELINE_BIND_ATTEMPTS = 3"
definition IFINDEX_POLL :: duration where "IFINDEX_POLL = from_secs 3"
definition BACKOFF :: duration where "BACKOFF = from_secs 2"
definition BIND_RETRY :: duration where "BIND_RETRY = from_secs 60"
definition LEG_POLL :: duration where "LEG_POLL = BACKOFF"

text \<open>\<open>bind_pair_with_baseline_via\<close>: \<open>binds\<close> is the outcome of each bind, \<open>reads\<close> of each read of the
  leg's ifindex.\<close>

fun bind_attempts ::
  "string \<Rightarrow> (nat \<Rightarrow> string option) \<Rightarrow> (nat \<Rightarrow> u32 option) \<Rightarrow> nat \<Rightarrow> nat \<Rightarrow> string + u32 option" where
  "bind_attempts leg binds reads i 0 =
     Inl (''leg '' @ leg @ '' kept changing identity across '' @ dec BASELINE_BIND_ATTEMPTS @ '' bind attempts'')"
| "bind_attempts leg binds reads i (Suc n) =
     (case binds i of
        Some e \<Rightarrow> Inl e
      | None \<Rightarrow> if reads i = reads (i + 1) then Inr (reads (i + 1))
               else bind_attempts leg binds reads (i + 1) n)"

definition bind_pair_with_baseline ::
  "string \<Rightarrow> (nat \<Rightarrow> string option) \<Rightarrow> (nat \<Rightarrow> u32 option) \<Rightarrow> string + u32 option" where
  "bind_pair_with_baseline leg binds reads = bind_attempts leg binds reads 0 BASELINE_BIND_ATTEMPTS"

text \<open>\<open>wait_for_leg\<close>: how long it slept; \<open>reads\<close> is the ifindex at each look. The source's loop ends at
  the deadline; the fuel is one look per poll and two more.\<close>

fun wait_for_leg_loop :: "nat \<Rightarrow> (nat \<Rightarrow> u32 option) \<Rightarrow> nat \<Rightarrow> duration \<Rightarrow> duration \<Rightarrow> duration \<Rightarrow> duration option" where
  "wait_for_leg_loop 0 reads i slept poll retry = None"
| "wait_for_leg_loop (Suc n) reads i slept poll retry =
     (if retry \<le> slept \<or> reads i \<noteq> None then Some slept
      else wait_for_leg_loop n reads (i + 1) (slept + min poll (retry - slept)) poll retry)"

definition wait_for_leg :: "(nat \<Rightarrow> u32 option) \<Rightarrow> duration \<Rightarrow> duration \<Rightarrow> duration option" where
  "wait_for_leg reads poll retry = wait_for_leg_loop (retry div poll + 2) reads 0 0 poll retry"

text \<open>One pass of \<open>run_with_reader_via\<close>: the bind's outcome, the events served while bound, the looks at
  the leg while unbound. The result is the host, and how long the pass slept at its end (\<open>None\<close>
  while it still serves).\<close>

definition relay_pass ::
  "RelayRow \<Rightarrow> string + u32 option \<Rightarrow> serve_input list \<Rightarrow> (nat \<Rightarrow> u32 option) \<Rightarrow> Host \<Rightarrow> Host \<times> duration option" where
  "relay_pass row bound events looks h =
     (case bound of
        Inr baseline \<Rightarrow>
          let h = note_event row Bound h;
              h = journal (''cfab: workload '' @ row_name row @ '': dhcp relay bound on '' @ row_leg row @
                    '', forwarding to '' @ ipv4_str (row_dhcp_server row)) h
          in (case serve row events h (serving baseline) of
                (h, s, None) \<Rightarrow> (h, None)
              | (h, s, Some why) \<Rightarrow>
                  (note_event row (SocketError why)
                     (journal (''cfab: workload '' @ row_name row @ '': dhcp relay socket lost ('' @ why @
                        ''); retrying in '' @ dec 2 @ ''s'') h), Some BACKOFF))
      | Inl e \<Rightarrow>
          let msg = ''cannot bind: '' @ e;
              is_new = should_log_once (relay_last_error (h_relays h) (row_name row)) msg;
              h = note_event row (BindError msg) h;
              h = journal_if is_new (''cfab: workload '' @ row_name row @ '': dhcp relay '' @ msg @
                    ''; retrying every '' @ dec 60 @ ''s while it stands'') h
          in (h, wait_for_leg looks LEG_POLL BIND_RETRY))"

section \<open>What the relay changes in a packet\<close>

text \<open>What the parse accepts: the fixed header and the DHCP magic cookie.\<close>

definition dhcp_ok :: "u8 list \<Rightarrow> bool" where
  "dhcp_ok buf \<longleftrightarrow> 240 \<le> length buf \<and> take 4 (drop 236 buf) = MAGIC_COOKIE"

lemma length_MAGIC_COOKIE: "length MAGIC_COOKIE = 4"
  by (simp add: MAGIC_COOKIE_def)

lemma bootp_parse_ok: "dhcp_ok buf \<Longrightarrow> bootp_parse buf = Inr buf"
  by (simp add: bootp_parse_def MIN_LEN_def HEADER_LEN_def length_MAGIC_COOKIE dhcp_ok_def)

lemma bootp_parse_bad: "\<not> dhcp_ok buf \<Longrightarrow> \<exists>e. bootp_parse buf = Inl e"
  by (auto simp: bootp_parse_def MIN_LEN_def HEADER_LEN_def length_MAGIC_COOKIE dhcp_ok_def)

lemma addr_at_copy_at: "off + 4 \<le> length p \<Longrightarrow> addr_at (copy_at off (octets a) p) off = a"
proof -
  assume len: "off + 4 \<le> length p"
  obtain w x y z where a: "a = u32_from_be w x y z"
    using u32_exhaust [of a] by blast
  have nth: "copy_at off (octets a) p ! (off + i) = octets a ! i" if "i < 4" for i
    using that len by (simp add: nth_copy_at)
  have n: "copy_at off (octets a) p ! off = w" "copy_at off (octets a) p ! (off + 1) = x"
    "copy_at off (octets a) p ! (off + 2) = y" "copy_at off (octets a) p ! (off + 3) = z"
    using nth [of 0] nth [of 1] nth [of 2] nth [of 3] by (simp_all add: a)
  show ?thesis
    unfolding addr_at_def n by (simp only: a)
qed

text \<open>Forwarding a request. A packet from a client is forwarded exactly when it is a DHCP request
  with fewer than 16 hops whose \<open>giaddr\<close> is unset or this relay's own. It goes to the declared
  server's port 67 with \<open>hops\<close> one higher, at most 16, and \<open>giaddr\<close> set to the leg's address; the
  length and every other byte, so all of \<open>sname\<close>, \<open>file\<close> and the options, are untouched.\<close>

theorem forward_client_touches_only_hops_and_giaddr:
  "((\<exists>to bytes. forward_client pkt leg server = Forward to bytes) \<longleftrightarrow>
      dhcp_ok pkt \<and> op pkt = BOOTREQUEST \<and> giaddr pkt \<in> {0, leg} \<and> hops pkt < 16) \<and>
   (\<forall>to bytes. forward_client pkt leg server = Forward to bytes \<longrightarrow>
      to = (server, 67) \<and> length bytes = length pkt \<and> giaddr bytes = leg \<and>
      unat (hops bytes) = unat (hops pkt) + 1 \<and> unat (hops bytes) \<le> 16 \<and>
      (\<forall>i<length pkt. i \<noteq> 3 \<longrightarrow> i \<notin> {24..<28} \<longrightarrow> bytes ! i = pkt ! i))"
  (is "?A \<and> ?B")
proof
  show ?A
  proof (cases "dhcp_ok pkt")
    case True
    then show ?thesis
      by (auto simp: forward_client_def Let_def bootp_parse_ok)
  next
    case False
    then show ?thesis
      using bootp_parse_bad by (fastforce simp: forward_client_def)
  qed
next
  show ?B
  proof (intro allI impI)
    fix to bytes
    assume f: "forward_client pkt leg server = Forward to bytes"
    then have ok: "dhcp_ok pkt"
      using bootp_parse_bad by (fastforce simp: forward_client_def)
    then have p: "bootp_parse pkt = Inr pkt"
      by (rule bootp_parse_ok)
    let ?q = "set_hops pkt (hops pkt + 1)"
    have len: "240 \<le> length pkt"
      using ok by (simp add: dhcp_ok_def)
    have g: "giaddr pkt = 0 \<or> giaddr pkt = leg" and h: "hops pkt < 16" and to: "to = (server, 67)"
      and b: "bytes = (if giaddr pkt = 0 then set_giaddr ?q leg else ?q)"
      using f by (auto simp: forward_client_def p Let_def PORT_def split: if_splits)
    have gq: "giaddr ?q = giaddr pkt"
      by (simp add: giaddr_def set_hops_def addr_at_def GIADDR_OFF_def)
    have "giaddr bytes = leg"
      using g gq len addr_at_copy_at [of 24 ?q leg]
      by (auto simp: b giaddr_def set_giaddr_def GIADDR_OFF_def set_hops_def)
    moreover have "hops bytes = hops pkt + 1"
      using len by (auto simp: b hops_def set_giaddr_def set_hops_def GIADDR_OFF_def nth_copy_at)
    moreover have "unat (hops pkt + 1) = unat (hops pkt) + 1"
      using h by (simp add: word_less_nat_alt unat_word_ariths)
    moreover have "bytes ! i = pkt ! i" if "i < length pkt" "i \<noteq> 3" "i \<notin> {24..<28}" for i
      using that len by (auto simp: b set_giaddr_def set_hops_def GIADDR_OFF_def nth_copy_at)
    moreover have "length bytes = length pkt"
      using len by (auto simp: b set_giaddr_def set_hops_def GIADDR_OFF_def)
    ultimately show "to = (server, 67) \<and> length bytes = length pkt \<and> giaddr bytes = leg \<and>
      unat (hops bytes) = unat (hops pkt) + 1 \<and> unat (hops bytes) \<le> 16 \<and>
      (\<forall>i<length pkt. i \<noteq> 3 \<longrightarrow> i \<notin> {24..<28} \<longrightarrow> bytes ! i = pkt ! i)"
      using to h by (simp add: word_less_nat_alt)
  qed
qed

text \<open>A request straight from a client: no relay yet, no options.\<close>

definition sample_request :: "u8 list" where
  "sample_request = [1, 1, 6, 0] @ replicate 232 0 @ MAGIC_COOKIE @ [53, 1, 1, 255]"

lemma sample_request_ok: "dhcp_ok sample_request" "length sample_request = 244"
  by (simp_all add: dhcp_ok_def sample_request_def length_MAGIC_COOKIE)

theorem forward_client_touches_only_hops_and_giaddr_witness:
  "\<exists>bytes. forward_client sample_request 0xc0a81401 0x0a000001 = Forward (0x0a000001, 67) bytes \<and>
     length bytes = 244 \<and> giaddr bytes = 0xc0a81401 \<and> unat (hops bytes) = 1 \<and> bytes ! 240 = sample_request ! 240"
proof -
  have g: "giaddr sample_request = 0" "hops sample_request = 0" "op sample_request = BOOTREQUEST"
    by (simp_all add: giaddr_def hops_def op_def addr_at_def GIADDR_OFF_def sample_request_def nth_append
        u32_from_be_def BOOTREQUEST_def)
  then obtain to bytes where f: "forward_client sample_request 0xc0a81401 0x0a000001 = Forward to bytes"
    using forward_client_touches_only_hops_and_giaddr [of sample_request "0xc0a81401" "0x0a000001"]
      sample_request_ok by (auto simp: word_less_nat_alt)
  then show ?thesis
    using forward_client_touches_only_hops_and_giaddr [of sample_request "0xc0a81401" "0x0a000001"]
      sample_request_ok g by simp
qed

lemma forward_server_Forward:
  "forward_server pkt src leg server prefix = Forward to bytes \<longleftrightarrow>
     dhcp_ok pkt \<and> op pkt = BOOTREPLY \<and> src = server \<and> giaddr pkt = leg \<and>
     (ciaddr pkt \<noteq> 0 \<longrightarrow> contains prefix (ciaddr pkt)) \<and> (yiaddr pkt \<noteq> 0 \<longrightarrow> contains prefix (yiaddr pkt)) \<and>
     to = (if ciaddr pkt = 0 then - 1 else ciaddr pkt, 68) \<and> bytes = pkt"
proof (cases "dhcp_ok pkt")
  case True
  then show ?thesis
    by (auto simp: forward_server_def Let_def bootp_parse_ok CLIENT_PORT_def)
next
  case False
  then show ?thesis
    using bootp_parse_bad [OF False] by (auto simp: forward_server_def)
qed

text \<open>Forwarding a reply. A packet on the server socket reaches a client exactly when it is a DHCP
  reply that comes from the declared server, carries this leg's address as \<open>giaddr\<close>, and names no
  client address outside the row's network; it is forwarded byte for byte, to the client's
  address if it has one and to the broadcast address otherwise, on port 68.\<close>

theorem forward_server_trust:
  "forward_server pkt src leg server prefix = Forward to bytes \<longleftrightarrow>
     dhcp_ok pkt \<and> op pkt = BOOTREPLY \<and> src = server \<and> giaddr pkt = leg \<and>
     ciaddr pkt \<in> insert 0 {a. contains prefix a} \<and> yiaddr pkt \<in> insert 0 {a. contains prefix a} \<and>
     to = (if ciaddr pkt = 0 then - 1 else ciaddr pkt, 68) \<and> bytes = pkt"
  unfolding forward_server_Forward by blast

lemma ack_discovery_Discovered:
  "ack_discovery pkt prefix fabric = Discovered a m l \<longleftrightarrow>
     dhcp_ok pkt \<and> message_type pkt = Some DHCPACK \<and> a = yiaddr pkt \<and> a \<noteq> 0 \<and> contains prefix a \<and>
     a \<notin> fabric \<and> a \<noteq> net prefix \<and> a \<noteq> broadcast prefix \<and> chaddr6 pkt = Some m \<and> l = lease_time pkt"
proof (cases "dhcp_ok pkt")
  case True
  then show ?thesis
    by (auto simp: ack_discovery_def Let_def bootp_parse_ok split: option.splits)
next
  case False
  then show ?thesis
    using bootp_parse_bad [OF False] by (auto simp: ack_discovery_def)
qed

section \<open>The option scan\<close>

text \<open>An option area as a DHCP server writes it: pads and options with a code, a length and a value.\<close>

datatype tlv = Pad | Opt u8 "u8 list"

fun tlv_bytes :: "tlv \<Rightarrow> u8 list" where
  "tlv_bytes Pad = [0]"
| "tlv_bytes (Opt c v) = [c, word_of_nat (length v)] @ v"

fun tlv_ok :: "tlv \<Rightarrow> bool" where
  "tlv_ok Pad = True"
| "tlv_ok (Opt c v) \<longleftrightarrow> c \<noteq> 0 \<and> c \<noteq> 255 \<and> length v < 256"

definition tlv_find :: "u8 \<Rightarrow> nat \<Rightarrow> tlv list \<Rightarrow> u8 list option" where
  "tlv_find code n ts =
     find_map (\<lambda>t. case t of Opt c v \<Rightarrow> if c = code \<and> length v = n then Some v else None | Pad \<Rightarrow> None) ts"

lemma option_loop_append:
  assumes "list_all tlv_ok ts"
  shows "option_loop code n (pre @ concat (map tlv_bytes ts) @ post) (length pre) =
    (case tlv_find code n ts of
       Some v \<Rightarrow> Some v
     | None \<Rightarrow> option_loop code n (pre @ concat (map tlv_bytes ts) @ post) (length pre + length (concat (map tlv_bytes ts))))"
  using assms
proof (induction ts arbitrary: pre)
  case Nil
  then show ?case
    by (simp add: tlv_find_def)
next
  case (Cons t ts)
  let ?all = "pre @ concat (map tlv_bytes (t # ts)) @ post"
  have "(pre @ tlv_bytes t) @ concat (map tlv_bytes ts) @ post = ?all"
    "length (pre @ tlv_bytes t) + length (concat (map tlv_bytes ts)) =
       length pre + length (concat (map tlv_bytes (t # ts)))"
    by simp_all
  then have IH: "option_loop code n ?all (length pre + length (tlv_bytes t)) =
    (case tlv_find code n ts of
       Some v \<Rightarrow> Some v
     | None \<Rightarrow> option_loop code n ?all (length pre + length (concat (map tlv_bytes (t # ts)))))"
    using Cons.IH [of "pre @ tlv_bytes t"] Cons.prems by (simp only: list.pred_inject simp_thms length_append)
  show ?case
  proof (cases t)
    case Pad
    have "option_loop code n ?all (length pre) = option_loop code n ?all (length pre + length (tlv_bytes t))"
      by (subst option_loop.simps) (simp add: Pad)
    then show ?thesis
      unfolding IH by (simp only: Pad tlv_find_def find_map.simps tlv.case option.case)
  next
    case (Opt c v)
    let ?l = "word_of_nat (length v) :: u8"
    let ?rest = "concat (map tlv_bytes ts) @ post"
    have ok: "c \<noteq> 0" "c \<noteq> 255" "length v < 256"
      using Cons.prems Opt by auto
    then have l: "unat ?l = length v"
      by (simp add: unat_of_nat)
    have all: "?all = pre @ c # ?l # v @ ?rest" "length (tlv_bytes t) = 2 + length v"
      by (simp_all add: Opt)
    have "get_at (pre @ c # ?l # v @ ?rest) (length pre + 1) = Some ?l"
      by (simp add: get_at_def nth_append)
    moreover have "get_range (pre @ c # ?l # v @ ?rest) (length pre + 2) (length pre + 2 + length v) = Some v"
      by (simp add: get_range_def)
    ultimately have "option_loop code n ?all (length pre) =
      (if c = code \<and> length v = n then Some v
       else option_loop code n ?all (length pre + length (tlv_bytes t)))"
      unfolding all using ok by (subst option_loop.simps) (simp add: l add.assoc)
    then show ?thesis
      unfolding IH by (simp add: Opt tlv_find_def)
  qed
qed

lemma option_loop_end:
  assumes "list_all tlv_ok ts"
  shows "option_loop code n (concat (map tlv_bytes ts) @ 255 # trailer) 0 = tlv_find code n ts"
proof -
  have "option_loop code n (concat (map tlv_bytes ts) @ 255 # trailer) (length (concat (map tlv_bytes ts))) = None"
    by (subst option_loop.simps) simp
  then show ?thesis
    using option_loop_append [OF assms, of code n "[]" "255 # trailer"] by (simp split: option.splits)
qed

text \<open>The option scan reads what a server wrote. On an option area of pads and options closed by the
  end option, with anything behind it, the scan finds the value of the first option with the
  asked code and length, and nothing when there is none.\<close>

theorem option_scan_reads_options:
  assumes "list_all tlv_ok ts" and "drop 240 p = concat (map tlv_bytes ts) @ 255 # trailer"
  shows "option_of p code n = tlv_find code n ts"
  using option_loop_end [OF assms(1)] assms(2)
  by (simp add: option_of_def HEADER_LEN_def length_MAGIC_COOKIE)

theorem option_scan_reads_options_witness:
  "option_of (replicate 236 0 @ MAGIC_COOKIE @ [53, 1, 5, 0, 51, 4, 0, 0, 14, 16, 255, 9]) 51 4 = Some [0, 0, 14, 16]"
proof -
  let ?ts = "[Opt 53 [5], Pad, Opt 51 [0, 0, 14, 16]]"
  have "drop 240 (replicate 236 0 @ MAGIC_COOKIE @ [53, 1, 5, 0, 51, 4, 0, 0, 14, 16, 255, 9]) =
      concat (map tlv_bytes ?ts) @ 255 # [9]"
    by (simp add: length_MAGIC_COOKIE)
  from option_scan_reads_options [OF _ this, of 51 4] show ?thesis
    by (simp add: tlv_find_def)
qed

section \<open>What reaches the table\<close>

text \<open>An address a row may claim for a VM.\<close>

definition row_admits :: "RelayRow \<Rightarrow> ipv4 \<Rightarrow> bool" where
  "row_admits row a \<longleftrightarrow> contains (row_prefix row) a \<and> a \<noteq> 0 \<and> a \<notin> row_fabric_addresses row \<and>
     a \<noteq> net (row_prefix row) \<and> a \<noteq> broadcast (row_prefix row)"

text \<open>The only way a relay changes the table: an upsert of an admissible address on its own leg, with
  a clamped lease.\<close>

definition relay_upsert :: "RelayRow \<Rightarrow> CapSource \<Rightarrow> NeighborTable \<Rightarrow> NeighborTable \<Rightarrow> bool" where
  "relay_upsert row src t t' \<longleftrightarrow>
     (\<exists>a m now l. row_admits row a \<and>
        t' = fst (upsert t (row_name row) (row_leg row) a m (now + clamp_lease l)
               (for_prefix src (row_prefix row)) now))"

lemma h_table_simps [simp]:
  "h_table (note_event row ev h) = h_table h" "h_table (journal l h) = h_table h"
  "h_table (journal_if c l h) = h_table h"
  by (simp_all add: note_event_def journal_def journal_if_def)

lemma register_ack_table:
  "h_table (fst (register_ack row (ack_discovery pkt (row_prefix row) (row_fabric_addresses row)) now h s)) = h_table h \<or>
   relay_upsert row (h_neighbor_cap h) (h_table h)
     (h_table (fst (register_ack row (ack_discovery pkt (row_prefix row) (row_fabric_addresses row)) now h s)))"
proof (cases "ack_discovery pkt (row_prefix row) (row_fabric_addresses row)")
  case (Discovered a m l)
  let ?u = "upsert (h_table h) (row_name row) (row_leg row) a m (now + clamp_lease l)
      (for_prefix (h_neighbor_cap h) (row_prefix row)) now"
  have "h_table (fst (register_ack row (Discovered a m l) now h s)) = fst ?u"
    by (auto simp: register_ack_def Let_def split: prod.splits Upsert.splits)
  moreover have "row_admits row a"
    using Discovered by (auto simp: ack_discovery_Discovered row_admits_def)
  ultimately show ?thesis
    unfolding Discovered relay_upsert_def by blast
qed (simp_all add: register_ack_def Let_def split: prod.splits)

lemma serve_step_table:
  assumes "serve_step row i h s = (h', s', why)"
  shows "h_table h' = h_table h \<or> relay_upsert row (h_neighbor_cap h) (h_table h) (h_table h')"
proof (cases i)
  case (ServerPacket pkt src_addr now e)
  have rc: "h_table (fst (reply_to_client row e h0 s0)) = h_table h0" for h0 s0
    by (simp add: reply_to_client_def Let_def split: option.splits)
  show ?thesis
  proof (cases src_addr)
    case (Some src)
    show ?thesis
    proof (cases "forward_server (take BUF_LEN pkt) src (row_leg_addr row) (row_dhcp_server row) (row_prefix row)")
      case (Forward to bytes)
      obtain h1 s1 where reg: "register_ack row
          (ack_discovery (take BUF_LEN pkt) (row_prefix row) (row_fabric_addresses row)) now h s = (h1, s1)"
        by (cases "register_ack row
          (ack_discovery (take BUF_LEN pkt) (row_prefix row) (row_fabric_addresses row)) now h s")
      have "h_table h' = h_table h1"
        using assms ServerPacket Some Forward reg rc [of h1 s1]
        by (auto simp: serve_step_def serve_server_def split: prod.splits)
      then show ?thesis
        using register_ack_table [of row "take BUF_LEN pkt" now h s] reg by simp
    next
      case (Drop r)
      then show ?thesis
        using assms ServerPacket Some
        by (cases r) (auto simp: serve_step_def serve_server_def Let_def split: prod.splits)
    qed
  qed (use assms ServerPacket in \<open>simp add: serve_step_def serve_server_def\<close>)
qed (use assms in \<open>auto simp: serve_step_def serve_poll_def serve_client_def Let_def
  split: option.splits if_splits Action.splits prod.splits\<close>)

text \<open>All relays of a member on their shared host, in any order.\<close>

definition relays_step ::
  "RelayRow list \<Rightarrow> Host \<times> (string \<Rightarrow> Serving) \<Rightarrow> RelayRow \<times> serve_input \<Rightarrow> Host \<times> (string \<Rightarrow> Serving)" where
  "relays_step rs st ev =
     (case (st, ev) of
        ((h, ss), (row, i)) \<Rightarrow>
          if row \<in> set rs then
            (case serve_step row i h (ss (row_name row)) of (h', s', _) \<Rightarrow> (h', ss(row_name row := s')))
          else (h, ss))"

definition claims_ok :: "RelayRow list \<Rightarrow> NeighborTable \<Rightarrow> bool" where
  "claims_ok rs t \<longleftrightarrow>
     (\<forall>k e. om_get (entries t) k = Some e \<longrightarrow>
        (\<exists>row\<in>set rs. fst k = row_name row \<and> row_admits row (snd k) \<and> e_leg e = row_leg row))"

lemma claims_ok_upsert:
  assumes "claims_ok rs t" "row \<in> set rs" "relay_upsert row src t t'"
  shows "claims_ok rs t'"
  unfolding claims_ok_def
proof (intro allI impI)
  fix k e
  assume k: "om_get (entries t') k = Some e"
  obtain a m now l where adm: "row_admits row a"
    and t': "t' = fst (upsert t (row_name row) (row_leg row) a m (now + clamp_lease l)
      (for_prefix src (row_prefix row)) now)"
    using assms(3) by (auto simp: relay_upsert_def)
  have "om_get (entries t) k = Some e \<or> k = (row_name row, a) \<and> e_leg e = row_leg row"
    using k unfolding t'
    by (auto simp: upsert_def Let_def map_simps split: option.splits if_splits)
  then show "\<exists>row\<in>set rs. fst k = row_name row \<and> row_admits row (snd k) \<and> e_leg e = row_leg row"
    using assms(1,2) adm unfolding claims_ok_def by auto
qed

lemma relays_step_claims_ok:
  assumes "claims_ok rs (h_table h)"
  shows "claims_ok rs (h_table (fst (relays_step rs (h, ss) (row, i))))"
proof (cases "row \<in> set rs")
  case True
  obtain h' s' why where st: "serve_step row i h (ss (row_name row)) = (h', s', why)"
    by (cases "serve_step row i h (ss (row_name row))")
  then have "claims_ok rs (h_table h')"
    using serve_step_table [OF st] claims_ok_upsert [OF assms True] assms by auto
  then show ?thesis
    using True st by (simp add: relays_step_def)
qed (simp add: relays_step_def assms)

interpretation relays: invariant_machine "relays_step rs" "\<lambda>st. claims_ok rs (h_table (fst st))" for rs
  by unfold_locales (metis relays_step_claims_ok surj_pair fst_conv)

text \<open>C9: what the relays let into the table. Whatever packets reach the relays of a member, forged ones
  included, and however the relays interleave, every claim in the table names a declared row,
  its leg, and an address inside that row's network that is neither its network nor its
  broadcast address, nor unset, nor one the fabric itself owns.\<close>

theorem relayed_claims_admissible:
  assumes "h_table h = new_table"
    and "entry (h_table (fst (foldl (relays_step rs) (h, ss) evs))) name a = Some e"
  shows "\<exists>row\<in>set rs. name = row_name row \<and> e_leg e = row_leg row \<and> contains (row_prefix row) a \<and>
    a \<notin> {0, net (row_prefix row), broadcast (row_prefix row)} \<union> row_fabric_addresses row"
proof -
  have "claims_ok rs (h_table (fst (foldl (relays_step rs) (h, ss) evs)))"
    using relays.run_inv [of rs "(h, ss)" evs] assms(1)
    by (simp add: claims_ok_def new_table_def)
  then show ?thesis
    using assms(2) unfolding claims_ok_def entry_def row_admits_def by fastforce
qed

definition sample_row :: RelayRow where
  "sample_row = \<lparr>row_name = ''vms'', row_leg = ''cfab-work-vms'', row_leg_addr = 0xc0a81402,
     row_dhcp_server = 0x0a000001, row_prefix = \<lparr>net = 0xc0a81400, len = 24\<rparr>,
     row_fabric_addresses = {0xc0a81401, 0xc0a81402}\<rparr>"

text \<open>A DHCPACK from the server that leases the given address for an hour.\<close>

definition sample_ack :: "ipv4 \<Rightarrow> u8 list" where
  "sample_ack a = [2, 1, 6, 1] @ replicate 12 0 @ octets a @ replicate 4 0 @ octets 0xc0a81402 @
     [2, 0, 0, 0, 0, 1] @ replicate 202 0 @ MAGIC_COOKIE @ [53, 1, 5, 51, 4, 0, 0, 14, 16, 255]"

definition sample_host :: Host where
  "sample_host = \<lparr>h_table = new_table, h_relays = [], h_neighbor_cap = \<lparr>gc_thresh3 = 1024, rows = 1\<rparr>, h_journal = []\<rparr>"

lemma sample_ack_fields:
  "dhcp_ok (sample_ack a)" "op (sample_ack a) = BOOTREPLY" "giaddr (sample_ack a) = 0xc0a81402"
  "ciaddr (sample_ack a) = 0" "yiaddr (sample_ack a) = a" "chaddr6 (sample_ack a) = Some (2, 0, 0, 0, 0, 1)"
  "length (sample_ack a) = 250"
proof -
  obtain p q r t where a: "a = u32_from_be p q r t"
    using u32_exhaust by blast
  have "(0xc0a81402 :: ipv4) = u32_from_be 192 168 20 2"
    by (simp add: u32_from_be_def)
  then have leg: "octets 0xc0a81402 = [192, 168, 20, 2]"
    using octets_u32_from_be by metis
  have oa: "octets a = [p, q, r, t]"
    by (simp add: a)
  show "dhcp_ok (sample_ack a)" "op (sample_ack a) = BOOTREPLY" "giaddr (sample_ack a) = 0xc0a81402"
    "ciaddr (sample_ack a) = 0" "yiaddr (sample_ack a) = a" "chaddr6 (sample_ack a) = Some (2, 0, 0, 0, 0, 1)"
    "length (sample_ack a) = 250"
    unfolding sample_ack_def leg oa
    by (simp_all add: a dhcp_ok_def length_MAGIC_COOKIE op_def BOOTREPLY_def giaddr_def GIADDR_OFF_def
        ciaddr_def CIADDR_OFF_def yiaddr_def YIADDR_OFF_def addr_at_def nth_append u32_from_be_def
        chaddr6_def htype_def hlen_def CHADDR_OFF_def)
qed

lemma sample_ack_options:
  "message_type (sample_ack a) = Some DHCPACK" "lease_time (sample_ack a) = Some 3600"
proof -
  let ?ts = "[Opt 53 [5], Opt 51 [0, 0, 14, 16]]"
  have "drop 240 (sample_ack a) = concat (map tlv_bytes ?ts) @ 255 # []"
    by (simp add: sample_ack_def length_MAGIC_COOKIE)
  then have o': "option_of (sample_ack a) code n = tlv_find code n ?ts" for code n
    using option_loop_end [of ?ts] by (simp add: option_of_def HEADER_LEN_def length_MAGIC_COOKIE)
  show "message_type (sample_ack a) = Some DHCPACK" "lease_time (sample_ack a) = Some 3600"
    by (simp_all add: message_type_def lease_time_def o' tlv_find_def DHCPACK_def u32_from_be_def)
qed

lemma sample_ack_discovered:
  "ack_discovery (sample_ack 0xc0a81407) (row_prefix sample_row) (row_fabric_addresses sample_row) =
     Discovered 0xc0a81407 (2, 0, 0, 0, 0, 1) (Some 3600)"
  "forward_server (sample_ack 0xc0a81407) 0x0a000001 (row_leg_addr sample_row) (row_dhcp_server sample_row)
     (row_prefix sample_row) = Forward (- 1, 68) (sample_ack 0xc0a81407)"
proof -
  have "broadcast \<lparr>net = 0xc0a81400, len = 24\<rparr> = 0xc0a814ff" "contains \<lparr>net = 0xc0a81400, len = 24\<rparr> 0xc0a81407"
    by (simp_all add: broadcast_def contains_def prefix_mask_def mask_eq_exp_minus_1)
  then show "ack_discovery (sample_ack 0xc0a81407) (row_prefix sample_row) (row_fabric_addresses sample_row) =
     Discovered 0xc0a81407 (2, 0, 0, 0, 0, 1) (Some 3600)"
    "forward_server (sample_ack 0xc0a81407) 0x0a000001 (row_leg_addr sample_row) (row_dhcp_server sample_row)
     (row_prefix sample_row) = Forward (- 1, 68) (sample_ack 0xc0a81407)"
    by (simp_all add: ack_discovery_Discovered forward_server_Forward sample_row_def sample_ack_fields sample_ack_options)
qed

lemma sample_ack_served:
  "\<exists>st e. foldl (relays_step [sample_row]) (sample_host, \<lambda>_. serving None)
     [(sample_row, ServerPacket (sample_ack 0xc0a81407) (Some 0x0a000001) 5 None)] = st \<and>
   entry (h_table (fst st)) ''vms'' 0xc0a81407 = Some e"
proof -
  have tk: "take BUF_LEN (sample_ack 0xc0a81407) = sample_ack 0xc0a81407"
    by (simp add: BUF_LEN_def sample_ack_fields)
  show ?thesis
    using sample_ack_discovered
    by (simp add: sample_row_def relays_step_def serve_step_def serve_server_def tk register_ack_def Let_def
        sample_host_def upsert_def new_table_def row_len_def for_prefix_def prefix_hosts_def GC_THRESH3_DEFAULT_def
        reply_to_client_def entry_def)
qed

theorem relayed_claims_admissible_witness:
  "\<exists>st e. foldl (relays_step [sample_row]) (sample_host, \<lambda>_. serving None)
     [(sample_row, ServerPacket (sample_ack 0xc0a81407) (Some 0x0a000001) 5 None)] = st \<and>
   entry (h_table (fst st)) ''vms'' 0xc0a81407 = Some e \<and> e_leg e = ''cfab-work-vms''"
proof -
  obtain st e where st: "foldl (relays_step [sample_row]) (sample_host, \<lambda>_. serving None)
     [(sample_row, ServerPacket (sample_ack 0xc0a81407) (Some 0x0a000001) 5 None)] = st"
    "entry (h_table (fst st)) ''vms'' 0xc0a81407 = Some e"
    using sample_ack_served by blast
  have "h_table sample_host = new_table"
    by (simp add: sample_host_def)
  from relayed_claims_admissible [OF this, of "[sample_row]" "\<lambda>_. serving None"] st show ?thesis
    by (fastforce simp: sample_row_def)
qed

section \<open>The journal under a flood\<close>

text \<open>A datagram on the server socket that teaches nothing: whatever it is, it is no ACK the relay
  would register. The forwarding of those that pass for replies succeeds.\<close>

definition forged :: "RelayRow \<Rightarrow> serve_input \<Rightarrow> bool" where
  "forged row i \<longleftrightarrow>
     (case i of
        ServerPacket pkt src now e \<Rightarrow>
          e = None \<and>
          (case ack_discovery (take BUF_LEN pkt) (row_prefix row) (row_fabric_addresses row) of
             Discovered _ _ _ \<Rightarrow> False | _ \<Rightarrow> True)
      | _ \<Rightarrow> False)"

text \<open>Lines printed, and lines still allowed.\<close>

definition lines_bound :: "Host \<Rightarrow> Serving \<Rightarrow> nat" where
  "lines_bound h s = length (h_journal h) + (if s_prefix_drop_logged s then 0 else 1) +
     (if s_ack_refused_logged s then 0 else 1)"

lemma h_journal_simps [simp]:
  "h_journal (note_event row ev h) = h_journal h"
  "length (h_journal (journal_if c l h)) = length (h_journal h) + (if c then 1 else 0)"
  by (simp_all add: note_event_def journal_def journal_if_def)

lemma forged_step:
  assumes "forged row i" "serve_step row i h s = (h', s', why)"
  shows "why = None \<and> lines_bound h' s' \<le> lines_bound h s"
proof -
  obtain pkt src now where i: "i = ServerPacket pkt src now None"
    using assms(1) by (auto simp: forged_def split: serve_input.splits)
  show ?thesis
  proof (cases "ack_discovery (take BUF_LEN pkt) (row_prefix row) (row_fabric_addresses row)")
    case (Discovered a m l)
    then show ?thesis
      using assms(1) by (simp add: forged_def i)
  next
    case (RefusedAck a)
    then show ?thesis
      using assms(2)
      by (auto simp: i serve_step_def serve_server_def register_ack_def reply_to_client_def Let_def lines_bound_def
          should_log_fixed_reason_drop_def split: option.splits Action.splits DropReason.splits if_splits)
  next
    case Ignore
    then show ?thesis
      using assms(2)
      by (auto simp: i serve_step_def serve_server_def register_ack_def reply_to_client_def Let_def lines_bound_def
          should_log_fixed_reason_drop_def split: option.splits Action.splits DropReason.splits if_splits)
  qed
qed

text \<open>A flood of forged replies cannot fill the journal or take the relay down. However many datagrams
  that teach nothing arrive on the server socket, and whatever addresses they claim, the relay
  keeps serving and prints at most two lines for all of them.\<close>

theorem forged_replies_print_two_lines:
  assumes "list_all (forged row) inputs" and "serve row inputs h (serving baseline) = (h', s', why)"
  shows "why = None \<and> length (h_journal h') \<le> length (h_journal h) + 2"
proof -
  have "why = None \<and> lines_bound h' s' \<le> lines_bound h s"
    if "list_all (forged row) inputs" "serve row inputs h s = (h', s', why)" for inputs h s
    using that
  proof (induction inputs arbitrary: h s)
    case (Cons i inputs)
    obtain h1 s1 w1 where st: "serve_step row i h s = (h1, s1, w1)"
      by (cases "serve_step row i h s")
    have "w1 = None \<and> lines_bound h1 s1 \<le> lines_bound h s"
      using forged_step [OF _ st] Cons.prems(1) by simp
    then show ?case
      using Cons.IH [of h1 s1] Cons.prems st by simp
  qed simp
  from this [OF assms] show ?thesis
    by (auto simp: lines_bound_def serving_def)
qed

theorem forged_replies_print_two_lines_witness:
  "\<exists>h s. serve sample_row (replicate 100 (ServerPacket [] (Some 0x0a000001) 5 None)) sample_host (serving None) = (h, s, None) \<and>
     length (h_journal h) \<le> 2"
proof -
  have f: "list_all (forged sample_row) (replicate 100 (ServerPacket [] (Some 0x0a000001) 5 None))"
    by (simp add: list_all_iff forged_def ack_discovery_def bootp_parse_def MIN_LEN_def HEADER_LEN_def)
  obtain h s why where sv: "serve sample_row (replicate 100 (ServerPacket [] (Some 0x0a000001) 5 None)) sample_host (serving None) = (h, s, why)"
    by (metis prod_cases3)
  show ?thesis
    using forged_replies_print_two_lines [OF f sv] sv by (simp add: sample_host_def)
qed

section \<open>The presence watch\<close>

fun keeps_serving :: "u32 \<Rightarrow> serve_input \<Rightarrow> bool" where
  "keeps_serving b (Poll now) \<longleftrightarrow> now = Some b"
| "keeps_serving b (ClientError e) \<longleftrightarrow> False"
| "keeps_serving b (ServerError e) \<longleftrightarrow> False"
| "keeps_serving b _ \<longleftrightarrow> True"

lemma s_baseline_serve_client [simp]:
  "s_baseline (snd (serve_client row pkt e h s)) = s_baseline s"
  "s_unknown_polls (snd (serve_client row pkt e h s)) = s_unknown_polls s"
  by (auto simp: serve_client_def Let_def split: Action.splits option.splits)

lemma s_baseline_register_ack [simp]:
  "s_baseline (snd (register_ack row ack now h s)) = s_baseline s"
  "s_unknown_polls (snd (register_ack row ack now h s)) = s_unknown_polls s"
  by (auto simp: register_ack_def Let_def split: AckOutcome.splits prod.splits Upsert.splits)

lemma s_baseline_reply_to_client [simp]:
  "s_baseline (snd (reply_to_client row e h s)) = s_baseline s"
  "s_unknown_polls (snd (reply_to_client row e h s)) = s_unknown_polls s"
  by (auto simp: reply_to_client_def Let_def split: option.splits)

lemma s_baseline_serve_server [simp]:
  "s_baseline (snd (serve_server row pkt src now e h s)) = s_baseline s"
  "s_unknown_polls (snd (serve_server row pkt src now e h s)) = s_unknown_polls s"
  by (simp_all add: serve_server_def Let_def case_prod_unfold split: option.splits Action.splits DropReason.splits)

lemma serve_step_baseline:
  assumes "serve_step row i h s = (h', s', why)" "s_baseline s = Some b"
  shows "(why = None \<longleftrightarrow> keeps_serving b i) \<and> s_baseline s' = Some b"
  using assms by (cases i) (auto simp: serve_step_def serve_poll_def Let_def case_prod_unfold split: if_splits)

text \<open>Datagrams and polls that cannot read the ifindex.\<close>

fun blind :: "serve_input \<Rightarrow> bool" where
  "blind (Poll now) \<longleftrightarrow> now = None"
| "blind (ClientError e) \<longleftrightarrow> False"
| "blind (ServerError e) \<longleftrightarrow> False"
| "blind _ \<longleftrightarrow> True"

fun is_poll :: "serve_input \<Rightarrow> bool" where
  "is_poll (Poll now) = True"
| "is_poll _ = False"

lemma serve_step_blind:
  assumes "serve_step row i h s = (h', s', why)" "s_baseline s = None" "blind i"
  shows "s_baseline s' = None \<and> s_unknown_polls s' = s_unknown_polls s + (if is_poll i then 1 else 0) \<and>
    (why = None \<longleftrightarrow> \<not> (is_poll i \<and> 5 \<le> s_unknown_polls s'))"
  using assms
  by (cases i) (auto simp: serve_step_def serve_poll_def Let_def case_prod_unfold UNKNOWN_BASELINE_LIMIT_def
      split: if_splits)

text \<open>The presence watch. A relay bound while its leg had a known ifindex stops serving exactly at the
  first poll that reads anything else, a rebuilt leg or a vanished one, or at a socket error,
  and nothing a client or a server sends ends it. A relay whose leg could never be read stops
  at the fifth poll, so it cannot stay deaf on a leg that is gone.\<close>

theorem presence_watch:
  "((\<exists>h' s'. serve row inputs h (serving (Some b)) = (h', s', None)) \<longleftrightarrow> list_all (keeps_serving b) inputs) \<and>
   (list_all blind inputs \<longrightarrow>
      ((\<exists>h' s'. serve row inputs h (serving None) = (h', s', None)) \<longleftrightarrow> length (filter is_poll inputs) < 5))"
proof
  have "(\<exists>h' s'. serve row inputs h s = (h', s', None)) \<longleftrightarrow> list_all (keeps_serving b) inputs"
    if "s_baseline s = Some b" for s h
    using that
  proof (induction inputs arbitrary: h s)
    case (Cons i inputs)
    obtain h1 s1 w1 where st: "serve_step row i h s = (h1, s1, w1)"
      by (cases "serve_step row i h s")
    then show ?case
      using serve_step_baseline [OF st Cons.prems] Cons.IH [of s1 h1] by (cases w1) auto
  qed simp
  then show "(\<exists>h' s'. serve row inputs h (serving (Some b)) = (h', s', None)) \<longleftrightarrow> list_all (keeps_serving b) inputs"
    by (simp add: serving_def)
next
  have "(\<exists>h' s'. serve row inputs h s = (h', s', None)) \<longleftrightarrow> s_unknown_polls s + length (filter is_poll inputs) < 5"
    if "list_all blind inputs" "s_baseline s = None" "s_unknown_polls s < 5" for s h
    using that
  proof (induction inputs arbitrary: h s)
    case (Cons i inputs)
    obtain h1 s1 w1 where st: "serve_step row i h s = (h1, s1, w1)"
      by (cases "serve_step row i h s")
    then show ?case
      using serve_step_blind [OF st Cons.prems(2)] Cons.IH [of s1 h1] Cons.prems by (cases w1) auto
  qed simp
  then show "list_all blind inputs \<longrightarrow>
      ((\<exists>h' s'. serve row inputs h (serving None) = (h', s', None)) \<longleftrightarrow> length (filter is_poll inputs) < 5)"
    by (simp add: serving_def)
qed

theorem presence_watch_witness:
  "(\<exists>h' s'. serve sample_row [Poll None, Poll None, Poll None, Poll None] sample_host (serving None) = (h', s', None)) \<and>
   \<not> (\<exists>h' s'. serve sample_row [Poll None, Poll None, Poll None, Poll None, Poll None] sample_host (serving None) = (h', s', None))"
  using presence_watch [of sample_row "[Poll None, Poll None, Poll None, Poll None]" sample_host 0]
    presence_watch [of sample_row "[Poll None, Poll None, Poll None, Poll None, Poll None]" sample_host 0]
  by simp

section \<open>Binding and retrying: properties\<close>

text \<open>A baseline is only trusted when the ifindex read before the bind and the one read after it agree.\<close>

lemma bind_attempts_agree:
  "bind_attempts leg binds reads i n = Inr base \<Longrightarrow>
     \<exists>j\<ge>i. j < i + n \<and> binds j = None \<and> reads j = base \<and> reads (Suc j) = base"
proof (induction n arbitrary: i)
  case (Suc n)
  show ?case
  proof (cases "binds i = None \<and> reads i = reads (Suc i)")
    case True
    then show ?thesis
      using Suc.prems by (intro exI [of _ i]) auto
  next
    case False
    then have "bind_attempts leg binds reads (Suc i) n = Inr base"
      using Suc.prems by (auto split: option.splits if_splits)
    then show ?thesis
      using Suc.IH [of "Suc i"] by (metis Suc_leD add_Suc_right add_Suc_shift)
  qed
qed simp

text \<open>The wait in closed form: the fuel is enough, and the wait ends at the first look that finds the
  leg, or at the retry interval.\<close>

lemma wait_for_leg_loop_eq:
  assumes "0 < poll" "retry - slept \<le> n * poll"
  shows "wait_for_leg_loop (Suc n) reads i slept poll retry =
    Some (if \<exists>k. reads (i + k) \<noteq> None
          then max slept (min retry (slept + poll * (LEAST k. reads (i + k) \<noteq> None)))
          else max slept retry)"
  using assms
proof (induction n arbitrary: i slept)
  case 0
  then have "retry \<le> slept"
    by simp
  then show ?case
    by auto
next
  case (Suc n)
  show ?case
  proof (cases "retry \<le> slept \<or> reads i \<noteq> None")
    case True
    then show ?thesis
    proof
      assume "reads i \<noteq> None"
      then have "(LEAST k. reads (i + k) \<noteq> None) = 0" "\<exists>k. reads (i + k) \<noteq> None"
        by (auto intro!: Least_equality) (rule exI [of _ 0], simp)
      then show ?thesis
        using \<open>reads i \<noteq> None\<close> by auto
    qed auto
  next
    case False
    let ?slept = "slept + min poll (retry - slept)"
    have "retry - ?slept \<le> n * poll"
      using Suc.prems by (auto simp: min_def)
    from Suc.IH [OF Suc.prems(1) this, of "Suc i"]
    have IH: "wait_for_leg_loop (Suc n) reads (Suc i) ?slept poll retry =
      Some (if \<exists>k. reads (Suc i + k) \<noteq> None
          then max ?slept (min retry (?slept + poll * (LEAST k. reads (Suc i + k) \<noteq> None)))
          else max ?slept retry)" .
    have step: "wait_for_leg_loop (Suc (Suc n)) reads i slept poll retry =
        wait_for_leg_loop (Suc n) reads (Suc i) ?slept poll retry"
      using False by simp
    have ex: "(\<exists>k. reads (i + k) \<noteq> None) \<longleftrightarrow> (\<exists>k. reads (Suc i + k) \<noteq> None)"
      using False by (metis add_Suc_right add_Suc_shift add_cancel_right_right not0_implies_Suc)
    show ?thesis
    proof (cases "\<exists>k. reads (Suc i + k) \<noteq> None")
      case True
      then obtain k where k: "reads (i + Suc k) \<noteq> None"
        by auto
      have "(LEAST k. reads (i + k) \<noteq> None) = Suc (LEAST k. reads (i + Suc k) \<noteq> None)"
        using Least_Suc [of "\<lambda>k. reads (i + k) \<noteq> None" "Suc k"] k False by simp
      then show ?thesis
        unfolding step IH using True ex False by (auto simp: min_def max_def)
    next
      case none: False
      then show ?thesis
        unfolding step IH using ex False by (auto simp: min_def max_def)
    qed
  qed
qed

lemma wait_for_leg_eq:
  assumes "0 < poll"
  shows "wait_for_leg reads poll retry =
    Some (if \<exists>k. reads k \<noteq> None then min retry (poll * (LEAST k. reads k \<noteq> None)) else retry)"
proof -
  have "retry \<le> Suc (retry div poll) * poll"
    using dividend_less_div_times [OF assms, of retry] by simp
  then show ?thesis
    using wait_for_leg_loop_eq [OF assms, of retry 0 "Suc (retry div poll)" reads 0]
    by (simp add: wait_for_leg_def)
qed

text \<open>How long an unbound relay waits. A pass that could not bind waits a multiple of the two-second
  poll, until the first look that finds the leg, and at most the minute of the retry interval.
  In particular a leg that is already there is not waited for at all: a bind that keeps
  failing on an existing leg (its port held, its address not assigned yet) is retried at once,
  with no pause between the attempts.\<close>

theorem unbound_relay_wait:
  "snd (relay_pass row (Inl e) events looks h) =
     Some (if \<exists>k. looks k \<noteq> None then min BIND_RETRY (LEG_POLL * (LEAST k. looks k \<noteq> None)) else BIND_RETRY) \<and>
   snd (relay_pass row (Inl e) events (\<lambda>_. Some ifindex) h) = Some 0"
proof -
  have "0 < LEG_POLL"
    by (simp add: LEG_POLL_def BACKOFF_def from_secs_def)
  moreover have "(LEAST k. Some ifindex \<noteq> None) = (0 :: nat)"
    by (rule Least_equality) simp_all
  ultimately show ?thesis
    by (simp add: relay_pass_def Let_def wait_for_leg_eq)
qed

end
