(* ===== verification/Workload_Announce.thy ===== *)
theory Workload_Announce
  imports Prober_Frame Machines
begin

text \<open>
  The gateway announcer (\<open>src/src/workload/announce.rs\<close>): the beacon and burst schedule as a state
  machine, and the two ARP frames it puts on the wire. The clock is the caller's; a run is a
  sequence of calls with the time that passes before each. The source's \<open>burst_left -= 1\<close> would
  panic below zero; here that is \<open>None\<close>, and it never happens.
\<close>

section \<open>The schedule\<close>

definition PERIOD :: duration where "PERIOD = from_secs 5"
definition BURST_LEN :: nat where "BURST_LEN = 3"
definition BURST_GAP :: duration where "BURST_GAP = from_secs 1"
definition BURST_MIN_GAP :: duration where "BURST_MIN_GAP = PERIOD"

record Announcer =
  an_ifname :: string
  an_gw :: ipv4
  beacon_due :: instant
  burst_left :: nat
  burst_due :: "instant option"
  last_burst :: "instant option"
  announces :: nat
  bursts :: nat

definition new_announcer :: "string \<Rightarrow> ipv4 \<Rightarrow> instant \<Rightarrow> Announcer" where
  "new_announcer ifname gw now =
     \<lparr>an_ifname = ifname, an_gw = gw, beacon_due = now, burst_left = 0, burst_due = None,
      last_burst = None, announces = 0, bursts = 0\<rparr>"

definition on_event :: "Announcer \<Rightarrow> instant \<Rightarrow> Announcer" where
  "on_event a now =
     (if burst_left a > 0 then a
      else if (case last_burst a of Some t \<Rightarrow> now < t + BURST_MIN_GAP | None \<Rightarrow> False) then a
      else a\<lparr>burst_left := BURST_LEN, burst_due := Some now, last_burst := Some now,
             bursts := bursts a + 1\<rparr>)"

definition next_due :: "Announcer \<Rightarrow> instant" where
  "next_due a = (case burst_due a of Some b \<Rightarrow> min b (beacon_due a) | None \<Rightarrow> beacon_due a)"

lemma PERIOD_pos [simp]: "0 < PERIOD"
  by (simp add: PERIOD_def from_secs_def)

function advance_beacon :: "instant \<Rightarrow> instant \<Rightarrow> instant" where
  "advance_beacon now due = (if due \<le> now then advance_beacon now (due + PERIOD) else due)"
  by pat_completeness auto
termination
  by (relation "measure (\<lambda>(now, due). Suc now - due)") (auto simp: PERIOD_def from_secs_def)

declare advance_beacon.simps [simp del]

definition fire :: "Announcer \<Rightarrow> instant \<Rightarrow> (Announcer \<times> bool) option" where
  "fire a now =
     (let burst = (case burst_due a of Some b \<Rightarrow> b \<le> now | None \<Rightarrow> False) in
      if burst \<and> burst_left a = 0 then None
      else
        let a = (if burst then
                   let left = burst_left a - 1 in
                   a\<lparr>burst_left := left,
                     burst_due := (if left > 0 then Some (the (burst_due a) + BURST_GAP) else None)\<rparr>
                 else a);
            beacon = (beacon_due a \<le> now);
            a = (if beacon then a\<lparr>beacon_due := advance_beacon now (beacon_due a)\<rparr> else a);
            send = (burst \<or> beacon);
            a = (if send then a\<lparr>announces := announces a + 1\<rparr> else a)
        in Some (a, send))"

definition counters :: "Announcer \<Rightarrow> nat \<times> nat" where
  "counters a = (announces a, bursts a)"

section \<open>The frames\<close>

definition unicast_probe :: "mac \<Rightarrow> mac \<Rightarrow> ipv4 \<Rightarrow> ipv4 \<Rightarrow> u8 list" where
  "unicast_probe src_mac dst_mac sender_ip target_ip =
     (let f = replicate 42 (0 :: u8);
          f = copy_at 0 (mac_bytes dst_mac) f;
          f = copy_at 6 (mac_bytes src_mac) f;
          f = copy_at 12 [0x08, 0x06] f;
          f = copy_at 14 [0x00, 0x01, 0x08, 0x00, 6, 4, 0x00, 0x01] f;
          f = copy_at 22 (mac_bytes src_mac) f;
          f = copy_at 28 (octets sender_ip) f
      in copy_at 38 (octets target_ip) f)"

definition gratuitous :: "mac \<Rightarrow> ipv4 \<Rightarrow> u8 list" where
  "gratuitous src_mac gw =
     (let f = replicate 42 (0 :: u8);
          f = copy_at 0 (replicate 6 0xff) f;
          f = copy_at 6 (mac_bytes src_mac) f;
          f = copy_at 12 [0x08, 0x06] f;
          f = copy_at 14 [0x00, 0x01, 0x08, 0x00, 6, 4, 0x00, 0x01] f;
          f = copy_at 22 (mac_bytes src_mac) f;
          f = copy_at 28 (octets gw) f
      in copy_at 38 (octets gw) f)"

text \<open>\<open>announce_due\<close>: the frames handed to the interface, and whether one was due; \<open>Inl\<close> is the
  send's error. The schedule has advanced either way.\<close>

definition announce_due ::
  "Announcer \<Rightarrow> (string \<Rightarrow> u8 list \<Rightarrow> string option) \<Rightarrow> mac \<Rightarrow> instant \<Rightarrow>
     (Announcer \<times> (string \<times> u8 list) list \<times> (string + bool)) option" where
  "announce_due a send src_mac now =
     (case fire a now of
        None \<Rightarrow> None
      | Some (a, False) \<Rightarrow> Some (a, [], Inr False)
      | Some (a, True) \<Rightarrow>
          let frame = gratuitous src_mac (an_gw a) in
          Some (a, [(an_ifname a, frame)],
                (case send (an_ifname a) frame of Some e \<Rightarrow> Inl e | None \<Rightarrow> Inr True)))"

lemma gratuitous_layout:
  "gratuitous m gw = arp_packet broadcast_mac m Untagged 1 m gw (0, 0, 0, 0, 0, 0) gw"
proof -
  obtain a b c d e f where m: "m = (a, b, c, d, e, f)"
    by (cases m)
  obtain r1 r2 r3 r4 where r: "octets gw = [r1, r2, r3, r4]"
    by (rule u32_exhaust [of gw]) simp
  show ?thesis
    unfolding gratuitous_def Let_def
    by (simp add: arp_packet_def arp_body_def mac_bytes_def broadcast_mac_def m r slice_simps)
qed

lemma unicast_probe_layout:
  "unicast_probe m v gw a = arp_packet v m Untagged 1 m gw (0, 0, 0, 0, 0, 0) a"
proof -
  obtain m1 m2 m3 m4 m5 m6 where m: "m = (m1, m2, m3, m4, m5, m6)"
    by (cases m)
  obtain v1 v2 v3 v4 v5 v6 where v: "v = (v1, v2, v3, v4, v5, v6)"
    by (cases v)
  obtain g1 g2 g3 g4 where g: "octets gw = [g1, g2, g3, g4]"
    by (rule u32_exhaust [of gw]) simp
  obtain r1 r2 r3 r4 where r: "octets a = [r1, r2, r3, r4]"
    by (rule u32_exhaust [of a]) simp
  show ?thesis
    unfolding unicast_probe_def Let_def
    by (simp add: arp_packet_def arp_body_def mac_bytes_def m v g r slice_simps)
qed

text \<open>The announcer's frames. The beacon is a broadcast ARP request whose sender and target are both
  the gateway, the refresh is an ARP request to one VM's own MAC, neither carries a VLAN tag,
  both are 42 bytes long, and no prober on the wire takes either for an answer to its probe.\<close>

theorem announce_frames:
  "gratuitous m gw = arp_packet broadcast_mac m Untagged 1 m gw (0, 0, 0, 0, 0, 0) gw \<and>
   unicast_probe m v gw a = arp_packet v m Untagged 1 m gw (0, 0, 0, 0, 0, 0) a \<and>
   length (gratuitous m gw) = 42 \<and> length (unicast_probe m v gw a) = 42 \<and>
   reply_from (gratuitous m gw) src targets = None \<and> reply_from (unicast_probe m v gw a) src targets = None"
proof -
  have "length (arp_packet d m Untagged 1 m gw z t) = 42" for d z t
    by (simp add: arp_packet_def arp_body_def)
  then show ?thesis
    using request_is_no_reply [where pad = "[]"]
    by (simp only: gratuitous_layout unicast_probe_layout append_Nil2 simp_thms)
qed

section \<open>The schedule: properties\<close>

text \<open>The while loop in closed form.\<close>

lemma advance_beacon_spec:
  "due \<le> now \<Longrightarrow> \<exists>k>0. advance_beacon now due = due + k * PERIOD \<and>
     now < due + k * PERIOD \<and> due + k * PERIOD \<le> now + PERIOD"
proof (induction now due rule: advance_beacon.induct)
  case (1 now due)
  show ?case
  proof (cases "due + PERIOD \<le> now")
    case True
    then obtain k where "0 < k" "advance_beacon now (due + PERIOD) = due + PERIOD + k * PERIOD"
      "now < due + PERIOD + k * PERIOD" "due + PERIOD + k * PERIOD \<le> now + PERIOD"
      using 1 by blast
    then show ?thesis
      using 1(2) by (intro exI [of _ "Suc k"]) (simp add: advance_beacon.simps [of now due])
  next
    case False
    then have "advance_beacon now (due + PERIOD) = due + PERIOD"
      by (simp add: advance_beacon.simps)
    then show ?thesis
      using 1(2) False by (intro exI [of _ 1]) (simp add: advance_beacon.simps [of now due])
  qed
qed

text \<open>A call and the time that passes before it.\<close>

datatype an_call = OnEvent duration | Fire duration

fun an_step :: "(Announcer \<times> instant) option \<Rightarrow> an_call \<Rightarrow> (Announcer \<times> instant) option" where
  "an_step None c = None"
| "an_step (Some (a, now)) (OnEvent d) = Some (on_event a (now + d), now + d)"
| "an_step (Some (a, now)) (Fire d) =
     (case fire a (now + d) of Some (a', _) \<Rightarrow> Some (a', now + d) | None \<Rightarrow> None)"

text \<open>The schedule's invariant since it was created at \<open>t0\<close>.\<close>

definition an_ok :: "instant \<Rightarrow> Announcer \<Rightarrow> instant \<Rightarrow> bool" where
  "an_ok t0 a now \<longleftrightarrow>
     t0 \<le> now \<and> (0 < burst_left a \<longleftrightarrow> burst_due a \<noteq> None) \<and>
     (\<exists>k. beacon_due a = t0 + k * PERIOD \<and> k * PERIOD \<le> now - t0 + PERIOD \<and>
        announces a + burst_left a \<le> k + BURST_LEN * bursts a) \<and>
     (case last_burst a of
        None \<Rightarrow> bursts a = 0
      | Some t \<Rightarrow> t \<le> now \<and> 0 < bursts a \<and> t0 + (bursts a - 1) * PERIOD \<le> t)"

lemma an_ok_later: "an_ok t0 a s \<Longrightarrow> s \<le> t \<Longrightarrow> an_ok t0 a t"
  unfolding an_ok_def by (fastforce split: option.splits)

lemma an_ok_new: "an_ok now (new_announcer ifname gw now) now"
  unfolding an_ok_def by (intro conjI exI [of _ 0]) (simp_all add: new_announcer_def)

lemma an_ok_on_event:
  assumes "an_ok t0 a now"
  shows "an_ok t0 (on_event a now) now"
proof (cases "0 < burst_left a \<or> (\<exists>t. last_burst a = Some t \<and> now < t + BURST_MIN_GAP)")
  case True
  then have "on_event a now = a"
    by (auto simp: on_event_def)
  with assms show ?thesis
    by simp
next
  case False
  then have ev: "on_event a now = a\<lparr>burst_left := BURST_LEN, burst_due := Some now, last_burst := Some now,
      bursts := bursts a + 1\<rparr>" and left: "burst_left a = 0"
    by (auto simp: on_event_def split: option.splits)
  have "t0 + bursts a * PERIOD \<le> now"
  proof (cases "last_burst a")
    case None
    then show ?thesis
      using assms by (simp add: an_ok_def)
  next
    case (Some t)
    then have "t0 + (bursts a - 1) * PERIOD + PERIOD \<le> now" "0 < bursts a"
      using assms False by (auto simp: an_ok_def BURST_MIN_GAP_def not_less)
    then show ?thesis
      by (cases "bursts a") simp_all
  qed
  then show ?thesis
    using assms left by (auto simp: an_ok_def ev BURST_LEN_def)
qed

text \<open>One call of \<open>fire\<close>, and what its answer means.\<close>

lemma fire_spec:
  assumes "an_ok t0 a now"
  shows "\<exists>a' send. fire a now = Some (a', send) \<and> an_ok t0 a' now \<and> now < beacon_due a' \<and>
    beacon_due a' \<le> now + PERIOD \<and> (send \<longleftrightarrow> next_due a \<le> now)"
proof -
  define burst where "burst = (case burst_due a of Some b \<Rightarrow> b \<le> now | None \<Rightarrow> False)"
  have left: "burst \<Longrightarrow> burst_left a = Suc (burst_left a - 1)"
    using assms by (auto simp: burst_def an_ok_def split: option.splits)
  define a1 where "a1 = (if burst then a\<lparr>burst_left := burst_left a - 1,
      burst_due := (if burst_left a - 1 > 0 then Some (the (burst_due a) + BURST_GAP) else None)\<rparr> else a)"
  have a1: "beacon_due a1 = beacon_due a" "announces a1 = announces a" "bursts a1 = bursts a"
    "last_burst a1 = last_burst a" "0 < burst_left a1 \<longleftrightarrow> burst_due a1 \<noteq> None"
    "burst_left a1 + (if burst then 1 else 0) = burst_left a"
    using left assms by (auto simp: a1_def an_ok_def)
  obtain k where k: "beacon_due a = t0 + k * PERIOD" "k * PERIOD \<le> now - t0 + PERIOD"
    "announces a + burst_left a \<le> k + BURST_LEN * bursts a"
    using assms unfolding an_ok_def by blast
  have t0: "t0 \<le> now"
    using assms by (simp add: an_ok_def)
  define beacon where "beacon \<longleftrightarrow> beacon_due a \<le> now"
  define a2 where "a2 = (if beacon then a1\<lparr>beacon_due := advance_beacon now (beacon_due a)\<rparr> else a1)"
  define a3 where "a3 = (if burst \<or> beacon then a2\<lparr>announces := announces a2 + 1\<rparr> else a2)"
  have fire: "fire a now = Some (a3, burst \<or> beacon)"
    using left unfolding fire_def Let_def burst_def [symmetric] a3_def a2_def a1_def beacon_def by auto
  obtain j where j: "beacon_due a3 = t0 + (k + j) * PERIOD" "now < beacon_due a3"
    "beacon_due a3 \<le> now + PERIOD" "beacon \<longrightarrow> 0 < j"
  proof (cases beacon)
    case True
    then obtain j where j: "0 < j" "advance_beacon now (beacon_due a) = beacon_due a + j * PERIOD"
      "now < beacon_due a + j * PERIOD" "beacon_due a + j * PERIOD \<le> now + PERIOD"
      using advance_beacon_spec [of "beacon_due a" now] by (auto simp: beacon_def)
    then have "beacon_due a3 = t0 + (k + j) * PERIOD"
      using True k(1) by (simp add: a3_def a2_def algebra_simps)
    then show thesis
      using j k(1) that [of j] by (simp add: algebra_simps)
  next
    case False
    then have "beacon_due a3 = beacon_due a"
      using a1 by (simp add: a3_def a2_def)
    then show thesis
      using False k t0 that [of 0] by (simp add: beacon_def)
  qed
  have "announces a3 + burst_left a3 \<le> (k + j) + BURST_LEN * bursts a3"
    using k(3) a1 j(4) by (auto simp: a3_def a2_def)
  moreover have "(k + j) * PERIOD \<le> now - t0 + PERIOD"
    using j(1,3) t0 by linarith
  moreover have bl: "0 < burst_left a3 \<longleftrightarrow> burst_due a3 \<noteq> None" and same: "bursts a3 = bursts a" "last_burst a3 = last_burst a"
    using a1 by (simp_all add: a3_def a2_def)
  ultimately have "an_ok t0 a3 now"
    using assms j(1) unfolding an_ok_def same by blast
  moreover have "burst \<or> beacon \<longleftrightarrow> next_due a \<le> now"
    by (auto simp: burst_def beacon_def next_due_def split: option.splits)
  ultimately show ?thesis
    using fire j by blast
qed

interpretation an: invariant_machine an_step "\<lambda>st. case st of None \<Rightarrow> False | Some (a, now) \<Rightarrow> an_ok t0 a now" for t0
proof
  fix st c
  assume "case st of None \<Rightarrow> False | Some (a, now) \<Rightarrow> an_ok t0 a now"
  then obtain a now where st: "st = Some (a, now)" and ok: "an_ok t0 a now"
    by (auto split: option.splits)
  show "case an_step st c of None \<Rightarrow> False | Some (a, now) \<Rightarrow> an_ok t0 a now"
  proof (cases c)
    case (OnEvent d)
    then show ?thesis
      using an_ok_on_event [OF an_ok_later [OF ok], of "now + d"] by (simp add: st)
  next
    case (Fire d)
    then show ?thesis
      using fire_spec [OF an_ok_later [OF ok], of "now + d"] by (auto simp: st)
  qed
qed

text \<open>The announcer's rate. Whatever MAC churn reports and whenever the supervisor wakes, the schedule
  never panics, has sent at most four frames, and started at most one burst, per started
  period of five seconds, and its next beacon stays on the five-second grid it started on.\<close>

theorem announce_rate:
  "\<exists>a now. foldl an_step (Some (new_announcer ifname gw t0, t0)) calls = Some (a, now) \<and> t0 \<le> now \<and>
     bursts a \<le> (now - t0) div PERIOD + 1 \<and> announces a \<le> 4 * ((now - t0) div PERIOD + 1) \<and>
     PERIOD dvd (beacon_due a - t0) \<and> beacon_due a \<le> now + PERIOD"
proof -
  obtain a now where run: "foldl an_step (Some (new_announcer ifname gw t0, t0)) calls = Some (a, now)"
    and ok: "an_ok t0 a now"
    using an.run_inv [of t0 "Some (new_announcer ifname gw t0, t0)" calls] an_ok_new
    by (auto split: option.splits)
  obtain k where k: "beacon_due a = t0 + k * PERIOD" "k * PERIOD \<le> now - t0 + PERIOD"
    "announces a + burst_left a \<le> k + BURST_LEN * bursts a" and t0: "t0 \<le> now"
    using ok unfolding an_ok_def by blast
  have "k \<le> (now - t0 + PERIOD) div PERIOD"
    using k(2) by (simp add: less_eq_div_iff_mult_less_eq)
  then have kle: "k \<le> (now - t0) div PERIOD + 1"
    using PERIOD_pos by (simp add: div_add_self2 del: PERIOD_pos)
  have ble: "bursts a \<le> (now - t0) div PERIOD + 1"
  proof (cases "last_burst a")
    case (Some t)
    then have "(bursts a - 1) * PERIOD \<le> now - t0"
      using ok by (auto simp: an_ok_def)
    then have "bursts a - 1 \<le> (now - t0) div PERIOD"
      by (simp add: less_eq_div_iff_mult_less_eq)
    then show ?thesis
      by simp
  qed (use ok in \<open>simp add: an_ok_def\<close>)
  have "announces a \<le> 4 * ((now - t0) div PERIOD + 1)"
    using k(3) kle ble by (simp add: BURST_LEN_def)
  then show ?thesis
    using run t0 ble k(1,2) by auto
qed

text \<open>The beacon never stops. In every state the schedule can reach, a call at or after the time it
  asks to be woken produces a frame, an earlier call produces none, and after any call the next
  beacon lies ahead, at most five seconds away.\<close>

theorem beacon_never_stops:
  assumes "foldl an_step (Some (new_announcer ifname gw t0, t0)) calls = Some (a, now)" and "now \<le> t"
  shows "\<exists>a' send. fire a t = Some (a', send) \<and> (send \<longleftrightarrow> next_due a \<le> t) \<and>
    t < beacon_due a' \<and> beacon_due a' \<le> t + PERIOD \<and> next_due a \<le> now + PERIOD"
proof -
  have ok: "an_ok t0 a now"
    using an.run_inv [of t0 "Some (new_announcer ifname gw t0, t0)" calls] an_ok_new assms(1)
    by (auto split: option.splits)
  have "next_due a \<le> beacon_due a"
    by (auto simp: next_due_def split: option.splits)
  also have "\<dots> \<le> now + PERIOD"
    using ok by (auto simp: an_ok_def)
  finally show ?thesis
    using fire_spec [OF an_ok_later [OF ok assms(2)]] by auto
qed

theorem beacon_never_stops_witness:
  "\<exists>a'. fire (new_announcer ''cfab-work-vms'' 1 9) 9 = Some (a', True) \<and> 9 < beacon_due a'"
proof -
  have "foldl an_step (Some (new_announcer ''cfab-work-vms'' 1 9, 9)) [] = Some (new_announcer ''cfab-work-vms'' 1 9, 9)"
    by simp
  from beacon_never_stops [OF this order_refl] show ?thesis
    by (auto simp: next_due_def new_announcer_def)
qed

end
