(* ===== verification/Fabric_Orders.thy ===== *)
theory Fabric_Orders
  imports Fabric_Paths_Unique
begin

text \<open>
  One member of an accepted fabric: its wire order in each zone, the rows and costs of its
  segments, and the interfaces it owns with the forwarding flag of each.
\<close>

section \<open>Wire orders\<close>

lemma sorted_candidate_rest:
  "sorted_wrt (\<lambda>(i, v) (j, w). wire_speed_mbps w < wire_speed_mbps v \<or> wire_speed_mbps v = wire_speed_mbps w \<and> i \<le> j)
     (candidate_rest f m z)"
proof -
  have "sorted (map (\<lambda>(i, w). (- int (unat (wire_speed_mbps w)), i)) (candidate_rest f m z))"
    unfolding candidate_rest_def by simp
  then show ?thesis
    unfolding sorted_map
    by (rule sorted_wrt_mono_rel [rotated]) (auto simp: word_less_alt word_uint_eq_iff)
qed

text \<open>The order of a member's wires in a zone. In an accepted fabric it names exactly the wires
  whose switch carries a segment of the zone. A derived order lists each once: the wire on the
  zone's primary switch first when the member has one, then the others by declared speed, the
  fastest first and equal speeds in declaration order. An override is used as declared.\<close>

theorem wire_order:
  assumes "from_decl d = Ok f" "m \<in> set (fab_members f)" "z \<in> set (fab_zones f)"
  shows "set (hp_order (zone_pref f m z)) = wire_name ` set (candidate_wires f m (zone_name z)) \<and>
    (hp_source (zone_pref f m z) = Override \<longrightarrow>
       \<lparr>pref_member = mem_name m, pref_zone = zone_name z, pref_order = hp_order (zone_pref f m z)\<rparr> \<in> set (fab_wire_prefs f)) \<and>
    (hp_source (zone_pref f m z) = Derived \<longrightarrow>
       (\<exists>rest. hp_order (zone_pref f m z) =
            map wire_name (filter (\<lambda>w. wire_domain w = zone_primary z) (candidate_wires f m (zone_name z)) @ map snd rest) \<and>
          mset (map snd rest) = mset (filter (\<lambda>w. wire_domain w \<noteq> zone_primary z) (candidate_wires f m (zone_name z))) \<and>
          set rest \<subseteq> set (List.enumerate 0 (candidate_wires f m (zone_name z))) \<and>
          sorted_wrt (\<lambda>(i, v) (j, w). wire_speed_mbps w < wire_speed_mbps v \<or>
             wire_speed_mbps v = wire_speed_mbps w \<and> i \<le> j) rest))"
proof (intro conjI impI)
  have ranked: "ranked f m"
    by (rule sized_ranked [OF accepted_sized [OF assms(1)] assms(2)])
  then have dom: "distinct (map wire_domain (mem_wires m))"
    by (simp add: ranked_def)
  show "set (hp_order (zone_pref f m z)) = wire_name ` set (candidate_wires f m (zone_name z))"
    by (rule set_order [OF ranked])
  show "\<lparr>pref_member = mem_name m, pref_zone = zone_name z, pref_order = hp_order (zone_pref f m z)\<rparr> \<in> set (fab_wire_prefs f)"
    if src: "hp_source (zone_pref f m z) = Override"
  proof -
    obtain p where p: "wire_pref f (mem_name m) (zone_name z) = Some p"
      using src by (cases "wire_pref f (mem_name m) (zone_name z)") (auto simp: zone_pref_def)
    then have "p \<in> set (fab_wire_prefs f)" "pref_member p = mem_name m" "pref_zone p = zone_name z"
      using find_in [OF p [unfolded wire_pref_def]] by auto
    then show ?thesis
      using p by (cases p rule: WirePref.cases) (simp add: zone_pref_def)
  qed
  show "\<exists>rest. hp_order (zone_pref f m z) =
        map wire_name (filter (\<lambda>w. wire_domain w = zone_primary z) (candidate_wires f m (zone_name z)) @ map snd rest) \<and>
      mset (map snd rest) = mset (filter (\<lambda>w. wire_domain w \<noteq> zone_primary z) (candidate_wires f m (zone_name z))) \<and>
      set rest \<subseteq> set (List.enumerate 0 (candidate_wires f m (zone_name z))) \<and>
      sorted_wrt (\<lambda>(i, v) (j, w). wire_speed_mbps w < wire_speed_mbps v \<or>
         wire_speed_mbps v = wire_speed_mbps w \<and> i \<le> j) rest"
    if src: "hp_source (zone_pref f m z) = Derived"
  proof (intro exI conjI)
    have "wire_pref f (mem_name m) (zone_name z) = None"
      using src by (cases "wire_pref f (mem_name m) (zone_name z)") (auto simp: zone_pref_def)
    then show "hp_order (zone_pref f m z) = map wire_name
        (filter (\<lambda>w. wire_domain w = zone_primary z) (candidate_wires f m (zone_name z)) @ map snd (candidate_rest f m z))"
      by (simp add: zone_pref_def derived_order_split [OF dom])
    show "set (candidate_rest f m z) \<subseteq> set (List.enumerate 0 (candidate_wires f m (zone_name z)))"
      by (auto simp: candidate_rest_def)
  qed (rule mset_candidate_rest sorted_candidate_rest)+
qed

theorem wire_order_witness:
  "set (hp_order (zone_pref sample_fabric sample_h1 (hd (fab_zones sample_fabric)))) = {''eth0'', ''eth1''} \<and>
   hp_source (zone_pref sample_fabric sample_h1 (hd (fab_zones sample_fabric))) = Derived"
proof -
  have "sample_h1 \<in> set (fab_members sample_fabric)" "hd (fab_zones sample_fabric) \<in> set (fab_zones sample_fabric)"
    by (simp_all add: sample_fabric_def)
  note order = wire_order [OF sample_accepted this, THEN conjunct1]
  show ?thesis
    unfolding order
    by (simp add: candidate_wires_def sample_fabric_def sample_members zone_pref_def wire_pref_def del: set_filter) auto
qed

section \<open>Segments and costs\<close>

lemma map_map_filter: "(\<And>x y. g x = Some y \<Longrightarrow> h y = k x) \<Longrightarrow> map h (List.map_filter g xs) = map k (filter (\<lambda>x. g x \<noteq> None) xs)"
  by (induction xs) (auto simp: List.map_filter_simps split: option.split)

lemma position_inj: "position (\<lambda>x. x = a) xs = Some i \<Longrightarrow> position (\<lambda>x. x = b) xs = Some i \<Longrightarrow> a = b"
  using position_Some [of "\<lambda>x. x = a" xs i] position_Some [of "\<lambda>x. x = b" xs i] by simp

lemma rank_inj:
  assumes ranked: "ranked f m" and "distinct (map wire_name (mem_wires m))"
    and s: "s \<in> set (fab_segments f)" "scope_domain (seg_scope s) = Some d" "wire_on m d = Some w"
    and t: "t \<in> set (fab_segments f)" "scope_domain (seg_scope t) = Some e" "wire_on m e = Some v"
    and zone: "seg_zone s = seg_zone t"
    and eq: "rank_of f m (seg_zone s) (wire_name w) = rank_of f m (seg_zone t) (wire_name v)"
  shows "d = e"
proof -
  obtain z i where z: "find (\<lambda>p. hp_zone p = seg_zone s) (prefs_of f m) = Some (zone_pref f m z)"
    "position (\<lambda>x. x = wire_name w) (hp_order (zone_pref f m z)) = Some i" "rank_of f m (seg_zone s) (wire_name w) = i"
    using rank_found [OF ranked s] by metis
  obtain z' j where z': "find (\<lambda>p. hp_zone p = seg_zone t) (prefs_of f m) = Some (zone_pref f m z')"
    "position (\<lambda>x. x = wire_name v) (hp_order (zone_pref f m z')) = Some j" "rank_of f m (seg_zone t) (wire_name v) = j"
    using rank_found [OF ranked t] by metis
  have "zone_pref f m z' = zone_pref f m z"
    using z(1) z'(1) zone by simp
  then have "wire_name w = wire_name v"
    using z(2,3) z'(2,3) eq by (intro position_inj [of _ "hp_order (zone_pref f m z)" i]) simp_all
  then have "w = v"
    using assms(2) wire_on_candidate(3) [OF s] wire_on_candidate(3) [OF t] by (auto simp: distinct_map inj_on_def)
  then show ?thesis
    using wire_on_candidate(2) [OF s] wire_on_candidate(2) [OF t] by simp
qed

text \<open>The segments a member carries and what they cost. In an accepted fabric they are those on
  the switches the member is wired to, in table order; a wire of rank zero costs 10 and one of
  rank r costs 100 r; and where no interface is declared on two switches, two segments of one zone
  never cost the same on one member.\<close>

theorem class_rows_complete:
  assumes "from_decl d = Ok f" "m \<in> set (fab_members f)"
  shows "\<exists>rows. class_rows_of f m = Ok rows \<and>
    map cr_ifname rows =
      map seg_ifname (filter (\<lambda>s. \<exists>t. seg_scope s = InDomain t \<and> wire_on m t \<noteq> None) (fab_segments f)) \<and>
    (\<forall>r\<in>set rows. \<exists>rank<length (mem_wires m). unat (cr_ospf_cost r) = (if rank = 0 then 10 else 100 * rank)) \<and>
    (distinct (map wire_name (mem_wires m)) \<longrightarrow>
       (\<forall>r\<in>set rows. \<forall>r'\<in>set rows. cr_zone r = cr_zone r' \<and> cr_ospf_cost r = cr_ospf_cost r' \<longrightarrow> r = r'))"
proof (rule exI [of _ "the_rows f m"], intro conjI ballI impI)
  have f: "sized f" and ranked: "ranked f m"
    using accepted_sized [OF assms(1)] sized_ranked assms(2) by blast+
  have wires: "length (mem_wires m) \<le> 52"
    using f assms(2) by (simp add: sized_def)
  show "class_rows_of f m = Ok (the_rows f m)"
    by (rule class_rows_total [OF ranked])
  have some: "segment_row f m s \<noteq> None \<longleftrightarrow> (\<exists>t. seg_scope s = InDomain t \<and> wire_on m t \<noteq> None)" for s
    by (cases "seg_scope s") (auto simp: segment_row_def)
  show "map cr_ifname (the_rows f m) =
      map seg_ifname (filter (\<lambda>s. \<exists>t. seg_scope s = InDomain t \<and> wire_on m t \<noteq> None) (fab_segments f))"
    unfolding the_rows_def some [symmetric] by (rule map_map_filter) (auto simp: segment_row_Some)
  show "\<exists>rank<length (mem_wires m). unat (cr_ospf_cost r) = (if rank = 0 then 10 else 100 * rank)"
    if "r \<in> set (the_rows f m)" for r
  proof -
    obtain s t w where s: "s \<in> set (fab_segments f)" "scope_domain (seg_scope s) = Some t" "wire_on m t = Some w"
      and r: "cr_ospf_cost r = ladder_cost (rank_of f m (seg_zone s) (wire_name w))"
      using \<open>r \<in> set (the_rows f m)\<close> by (auto simp: the_rows_iff segment_row_Some)
    have less: "rank_of f m (seg_zone s) (wire_name w) < length (mem_wires m)"
      using rank_found [OF ranked s] by metis
    show ?thesis
      using less wires unfolding r
      by (intro exI [of _ "rank_of f m (seg_zone s) (wire_name w)"] conjI unat_ladder_cost) simp_all
  qed
  show "r = r'" if dist: "distinct (map wire_name (mem_wires m))" and "r \<in> set (the_rows f m)" "r' \<in> set (the_rows f m)"
    and eq: "cr_zone r = cr_zone r' \<and> cr_ospf_cost r = cr_ospf_cost r'" for r r'
  proof -
    obtain s t w where s: "s \<in> set (fab_segments f)" "scope_domain (seg_scope s) = Some t" "wire_on m t = Some w"
      and r: "segment_row f m s = Some r"
      using \<open>r \<in> set (the_rows f m)\<close> unfolding the_rows_iff by (metis segment_row_Some)
    obtain s' t' w' where s': "s' \<in> set (fab_segments f)" "scope_domain (seg_scope s') = Some t'" "wire_on m t' = Some w'"
      and r': "segment_row f m s' = Some r'"
      using \<open>r' \<in> set (the_rows f m)\<close> unfolding the_rows_iff by (metis segment_row_Some)
    let ?i = "rank_of f m (seg_zone s) (wire_name w)" and ?j = "rank_of f m (seg_zone s') (wire_name w')"
    have "?i < length (mem_wires m)" "?j < length (mem_wires m)"
      using rank_found [OF ranked s] rank_found [OF ranked s'] by metis+
    moreover have zone: "seg_zone s = seg_zone s'" and "ladder_cost ?i = ladder_cost ?j"
      using eq r r' s s' by (auto simp: segment_row_Some)
    ultimately have "?i = ?j"
      using wires by (intro ladder_cost_inj) simp_all
    then have "t = t'"
      by (rule rank_inj [OF ranked dist s s' zone])
    then have "seg_scope s = seg_scope s'"
      using s(2) s'(2) by (cases "seg_scope s"; cases "seg_scope s'") auto
    then have "s = s'"
      using zone s(1) s'(1) checked_segments(2) [OF accepted_checked [OF assms(1)]]
      by (auto simp: distinct_map inj_on_def)
    then show ?thesis
      using r r' by simp
  qed
qed

theorem class_rows_complete_witness:
  "\<exists>rows. class_rows_of sample_fabric sample_nas = Ok rows \<and> map cr_ifname rows = [''stor-a'']"
proof -
  have "filter (\<lambda>s. \<exists>t. seg_scope s = InDomain t \<and> wire_on sample_nas t \<noteq> None) (fab_segments sample_fabric) =
      [\<lparr>seg_ifname = ''stor-a'', seg_scope = InDomain ''a'', seg_zone = ''storage'', seg_seg = 1, seg_vid = 51\<rparr>]"
    by (simp add: sample_fabric_def sample_members wire_on_def)
  then show ?thesis
    using class_rows_complete [OF sample_accepted, of sample_nas] by (auto simp: sample_fabric_members)
qed

end
