(* ===== verification/Fabric_Ownership.thy ===== *)
theory Fabric_Ownership
  imports Fabric_Paths_Unique
begin

text \<open>
  What an accepted fabric owns on a member and on the workload networks: the forwarding flag of
  each interface, and the addresses and names of the workload rows, kept apart from the zones,
  from the DHCP server and from each other.
\<close>

section \<open>Forwarding\<close>

lemma dedup_fst_subset: "set (dedup_fst xs) \<subseteq> set xs"
  by (induction xs rule: dedup_fst.induct) (auto split: if_splits)

lemma hd_dedup_fst: "xs \<noteq> [] \<Longrightarrow> dedup_fst xs \<noteq> [] \<and> hd (dedup_fst xs) = hd xs"
  by (induction xs rule: dedup_fst.induct) auto

text \<open>On a sorted list, a name keeps its least flag.\<close>

lemma dedup_fst_least:
  fixes xs :: "('a::linorder \<times> 'b::linorder) list"
  assumes "sorted xs" "(n, b) \<in> set (dedup_fst xs)" "(n, b') \<in> set xs"
  shows "b \<le> b'"
  using assms
proof (induction xs arbitrary: b' rule: dedup_fst.induct)
  case (3 x y xs)
  show ?case
  proof (cases "fst x = fst y")
    case True
    then have sub: "(n, b) \<in> set (dedup_fst (x # xs))" and "sorted (x # xs)"
      using 3 by auto
    show ?thesis
    proof (cases "(n, b') = y")
      case True': True
      have "b \<le> snd x"
        using 3(1) [OF True \<open>sorted (x # xs)\<close> sub, of "snd x"] True True' by (cases x) auto
      also have "snd x \<le> b'"
        using 3(3) True True' by (cases x) (auto simp: less_eq_prod_def)
      finally show ?thesis .
    next
      case False
      then show ?thesis
        using 3(1) [OF True \<open>sorted (x # xs)\<close> sub] 3(5) by auto
    qed
  next
    case False
    show ?thesis
    proof (cases "(n, b) = x")
      case True
      have "fst x < fst y"
        using False 3(3) by (cases x; cases y) (auto simp: less_eq_prod_def)
      moreover have "fst y \<le> fst z" if "z \<in> set (y # xs)" for z
        using 3(3) that by (cases y; cases z) (auto simp: less_eq_prod_def)
      ultimately have "(n, b') \<notin> set (y # xs)"
        using True by fastforce
      then show ?thesis
        using 3(5) True by auto
    next
      case nx: False
      then have mem: "(n, b) \<in> set (dedup_fst (y # xs))"
        using 3(4) False by auto
      have ymem: "(n, b) \<in> set (y # xs)"
        using mem dedup_fst_subset by blast
      have "fst x < fst y"
        using False 3(3) by (cases x; cases y) (auto simp: less_eq_prod_def)
      moreover have "fst y \<le> n"
        using 3(3) ymem by (cases y) (auto simp: less_eq_prod_def)
      ultimately have "(n, b') \<in> set (y # xs)"
        using 3(5) by auto
      then show ?thesis
        using 3(2) [OF False _ mem] 3(3) by auto
    qed
  qed
qed auto

lemma dedup_fst_names:
  fixes xs :: "('a \<times> 'b) list"
  shows "fst ` set (dedup_fst xs) = fst ` set xs"
  by (induction xs rule: dedup_fst.induct) auto

text \<open>The entries before sorting.\<close>

definition forwarding_entries :: "Fabric \<Rightarrow> Member \<Rightarrow> ClassRow list \<Rightarrow> GwRow list \<Rightarrow> FallbackRow list \<Rightarrow> (string \<times> bool) list" where
  "forwarding_entries f m cs gs fs =
     (let transit = (mem_kind m = Host \<and> fab_host_forward f); v = \<lparr>v_fabric = f, v_member = m\<rparr> in
      map (\<lambda>w. (wire_name w, False)) (mem_wires m) @
      map (\<lambda>r. (cr_ifname r, transit)) cs @
      concat (map (\<lambda>r. (gr_ifname r, transit) # map (\<lambda>p. (port_ifname p, False)) (gr_ports r)) gs) @
      concat (map (\<lambda>r. (fr_ifname r, transit) # map (\<lambda>p. (port_ifname p, False)) (fr_ports r)) fs) @
      map (\<lambda>r. (leg_ifname (wr_wl r), transit)) (workload_rows v) @
      concat (map (\<lambda>z. let (i, peer) = identity_ifnames (zone_id z) in [(peer, False), (i, False)]) (fab_zones f)))"

lemma owned_forwarding_eq:
  assumes "sized f" "m \<in> set (fab_members f)"
  obtains gs where "owned_forwarding \<lparr>v_fabric = f, v_member = m\<rparr> =
    Ok (dedup_fst (sort (forwarding_entries f m (the_rows f m) gs (the_fallbacks f m))))"
proof -
  have "all_ranked f"
    using assms(1) by (simp add: sized_def)
  then obtain gs where "gw_rows_of f m = Ok gs"
    using gw_rows_total assms(2) by blast
  then show ?thesis
    using that class_rows_total [OF sized_ranked [OF assms]] fallback_rows_total [OF \<open>all_ranked f\<close> assms(2)]
    by (simp add: owned_forwarding_def forwarding_entries_def Let_def class_rows_def gw_rows_def fallback_rows_def)
qed



section \<open>Workload networks\<close>

lemma check_workloads_all:
  "check_workloads f seen wls = Ok () \<Longrightarrow> i < length wls \<Longrightarrow> check_workload f (seen @ take i wls) (wls ! i) = Ok ()"
proof (induction wls arbitrary: seen i)
  case (Cons wl wls)
  show ?case
  proof (cases i)
    case 0
    then show ?thesis
      using Cons.prems by (auto simp: outcome_simps)
  next
    case (Suc j)
    then show ?thesis
      using Cons.prems Cons.IH [of "seen @ [wl]" j] by (auto simp: outcome_simps)
  qed
qed simp

lemma check_workload_facts:
  assumes "check_workload f seen wl = Ok ()"
  shows "check_blocks f wl = Ok ()" "check_server f wl = Ok ()" "contains (wl_prefix wl) (wl_gw wl)"
    "w \<in> set seen \<Longrightarrow> wl_name w \<noteq> wl_name wl" "w \<in> set seen \<Longrightarrow> leg_ifname w \<noteq> leg_ifname wl"
    "w \<in> set seen \<Longrightarrow> \<not> (wl_uplink w = wl_uplink wl \<and> wl_vid w = wl_vid wl)"
  using assms
  by (auto simp: check_workload_def Let_def outcome_simps image_iff find_None_iff split: option.splits)

lemma accepted_workloads:
  assumes "from_decl d = Ok f" "wl \<in> set (fab_workloads f)"
  obtains i where "i < length (fab_workloads f)" "fab_workloads f ! i = wl"
    "check_workload f (take i (fab_workloads f)) wl = Ok ()"
proof -
  obtain i where i: "i < length (fab_workloads f)" "fab_workloads f ! i = wl"
    using assms(2) by (auto simp: in_set_conv_nth)
  moreover have "check_workloads f [] (fab_workloads f) = Ok ()"
    using accepted_validated [OF assms(1)] by (auto simp: validate_def outcome_simps)
  ultimately show ?thesis
    using that check_workloads_all [of f "[]" "fab_workloads f" i] by simp
qed

text \<open>Two rows of the fabric that agree on a key no two rows share are one row.\<close>

lemma rows_unique:
  assumes "from_decl d = Ok f" "wl \<in> set (fab_workloads f)" "wl' \<in> set (fab_workloads f)"
    and apart: "\<And>seen w v. check_workload f seen w = Ok () \<Longrightarrow> v \<in> set seen \<Longrightarrow> key v \<noteq> key w"
    and "key wl = key wl'"
  shows "wl = wl'"
proof -
  obtain i where i: "i < length (fab_workloads f)" "fab_workloads f ! i = wl"
    "check_workload f (take i (fab_workloads f)) wl = Ok ()"
    by (rule accepted_workloads [OF assms(1,2)])
  obtain j where j: "j < length (fab_workloads f)" "fab_workloads f ! j = wl'"
    "check_workload f (take j (fab_workloads f)) wl' = Ok ()"
    by (rule accepted_workloads [OF assms(1,3)])
  have "wl \<in> set (take j (fab_workloads f))" if "i < j"
    using that i j by (auto simp: in_set_conv_nth)
  moreover have "wl' \<in> set (take i (fab_workloads f))" if "j < i"
    using that i j by (auto simp: in_set_conv_nth)
  ultimately have "i = j"
    using apart [OF i(3)] apart [OF j(3)] assms(5) by (metis linorder_neqE_nat)
  then show ?thesis
    using i(2) j(2) by simp
qed

lemma check_member_workloads_Ok:
  "check_member_workloads f m seen mws = Ok () \<Longrightarrow>
     distinct (map mw_name mws) \<and> set (map mw_name mws) \<inter> set seen = {} \<and>
     (\<forall>mw\<in>set mws. check_member_workload f m mw = Ok ())"
proof (induction mws arbitrary: seen)
  case (Cons a mws)
  then show ?case
    using Cons.IH [of "mw_name a # seen"] by (auto simp: outcome_simps)
qed simp

lemma accepted_member_workloads:
  assumes "from_decl d = Ok f" "m \<in> set (fab_members f)"
  shows "distinct (map mw_name (mem_workloads m))"
    "mw \<in> set (mem_workloads m) \<Longrightarrow> check_member_workload f m mw = Ok ()"
proof -
  have "check_member_workloads f m [] (mem_workloads m) = Ok ()"
    using accepted_validated [OF assms(1)] assms(2) by (auto simp: validate_def outcome_simps)
  then show "distinct (map mw_name (mem_workloads m))" "mw \<in> set (mem_workloads m) \<Longrightarrow> check_member_workload f m mw = Ok ()"
    using check_member_workloads_Ok by blast+
qed

definition address_on :: "Workload \<Rightarrow> Member \<Rightarrow> ipv4 option" where
  "address_on wl m = map_option mw_address (find (\<lambda>w. mw_name w = wl_name wl) (mem_workloads m))"

lemma check_addresses_Ok:
  "check_addresses wl seen ms = Ok () \<Longrightarrow>
     distinct (List.map_filter (address_on wl) ms) \<and> set (List.map_filter (address_on wl) ms) \<inter> fst ` set seen = {}"
proof (induction ms arbitrary: seen)
  case (Cons m ms)
  show ?case
  proof (cases "find (\<lambda>w. mw_name w = wl_name wl) (mem_workloads m)")
    case None
    then show ?thesis
      using Cons by (simp add: address_on_def List.map_filter_simps)
  next
    case (Some mw)
    then have "map_of seen (mw_address mw) = None" "check_addresses wl ((mw_address mw, mem_name m) # seen) ms = Ok ()"
      using Cons.prems by (auto split: option.splits)
    then show ?thesis
      using Cons.IH [of "(mw_address mw, mem_name m) # seen"] Some
      by (simp add: address_on_def List.map_filter_simps map_of_eq_None_iff)
  qed
qed (simp add: List.map_filter_simps)

lemma distinct_map_filter_inj:
  "distinct (List.map_filter g xs) \<Longrightarrow> x \<in> set xs \<Longrightarrow> y \<in> set xs \<Longrightarrow> g x = Some a \<Longrightarrow> g y = Some a \<Longrightarrow> x = y"
proof (induction xs)
  case (Cons z xs)
  have mem: "a \<in> set (List.map_filter g xs)" if "w \<in> set xs" "g w = Some a" for w
    using that by (force simp: List.map_filter_def)
  show ?case
    using Cons mem by (cases "g z") (auto simp: List.map_filter_simps)
qed simp

lemma length_leg_ifname: "length (leg_ifname wl) \<le> 15"
proof -
  let ?ends = "takeWhile (\<lambda>e. e \<le> 5) (char_ends (wl_name wl))"
  have "last ?ends \<le> 5" if "?ends \<noteq> []"
    using set_takeWhileD [OF last_in_set [OF that]] by simp
  then show ?thesis
    by (auto simp: leg_ifname_def Let_def LEG_PREFIX_def IFNAME_MAX_def)
qed

text \<open>C33: workload networks in an accepted fabric. A row's network shares no address with the
  \<open>/16\<close> block of any zone; its gateway lies inside it and its DHCP server outside; every member
  that carries the row is a host whose address lies inside and is neither the gateway nor the network
  or broadcast address; no two members have the same address on the row; and the name of its
  interface fits the kernel's fifteen bytes and belongs to no other row.\<close>

theorem workload_networks_apart:
  assumes "from_decl d = Ok f" "wl \<in> set (fab_workloads f)"
  shows "(\<forall>z\<in>set (fab_zones f). \<forall>a. \<not> (contains (wl_prefix wl) a \<and>
        contains \<lparr>net = u32_from_be 10 (zone_id z) 0 0, len = 16\<rparr> a)) \<and>
    contains (wl_prefix wl) (wl_gw wl) \<and>
    (\<forall>server. wl_dhcp_server wl = Some server \<longrightarrow> \<not> contains (wl_prefix wl) server) \<and>
    (\<forall>m\<in>set (fab_members f). \<forall>mw\<in>set (mem_workloads m). mw_name mw = wl_name wl \<longrightarrow>
       mem_kind m = Host \<and> contains (wl_prefix wl) (mw_address mw) \<and>
       mw_address mw \<notin> {wl_gw wl, net (wl_prefix wl), broadcast (wl_prefix wl)} \<and>
       (\<forall>m'\<in>set (fab_members f). \<forall>mw'\<in>set (mem_workloads m').
          mw_name mw' = wl_name wl \<and> mw_address mw' = mw_address mw \<longrightarrow> m' = m)) \<and>
    length (leg_ifname wl) \<le> 15 \<and>
    (\<forall>wl'\<in>set (fab_workloads f). leg_ifname wl' = leg_ifname wl \<longrightarrow> wl' = wl)"
proof (intro conjI ballI impI allI)
  obtain seen where ok: "check_workload f seen wl = Ok ()"
    using accepted_workloads [OF assms] by metis
  note facts = check_workload_facts [OF ok]
  have prefix: "prefix_ok (wl_prefix wl)"
    using resolved_workload [OF accepted_resolved [OF assms(1)] assms(2)] by blast
  show "\<not> (contains (wl_prefix wl) a \<and> contains \<lparr>net = u32_from_be 10 (zone_id z) 0 0, len = 16\<rparr> a)"
    if "z \<in> set (fab_zones f)" for z a
  proof -
    have "\<not> overlaps (wl_prefix wl) \<lparr>net = u32_from_be 10 (zone_id z) 0 0, len = 16\<rparr>"
      using facts(1) that by (auto simp: check_blocks_def block_parse outcome_simps)
    then show ?thesis
      using overlaps_iff_shared [OF prefix prefix_parse_ok [OF block_parse [of z]]] by blast
  qed
  show "contains (wl_prefix wl) (wl_gw wl)"
    by (rule facts(3))
  show "\<not> contains (wl_prefix wl) server" if "wl_dhcp_server wl = Some server" for server
    using facts(2) that by (auto simp: check_server_def outcome_simps)
  have unique: "wl' = wl" if "wl' \<in> set (fab_workloads f)" "wl_name wl' = wl_name wl" for wl'
    using rows_unique [OF assms(1) that(1) assms(2), of wl_name] check_workload_facts(4) that(2) by blast
  have row: "workload_of f (wl_name wl) = Some wl"
  proof -
    have "workload_of f (wl_name wl) \<noteq> None"
      using assms(2) by (auto simp: workload_of_def find_None_iff)
    then obtain wl' where wl': "workload_of f (wl_name wl) = Some wl'"
      by blast
    then show ?thesis
      using unique [of wl'] find_in [OF wl' [unfolded workload_of_def]] by auto
  qed
  fix m mw
  assume m: "m \<in> set (fab_members f)" and mw: "mw \<in> set (mem_workloads m)" "mw_name mw = wl_name wl"
  have "check_member_workload f m mw = Ok ()"
    by (rule accepted_member_workloads(2) [OF assms(1) m mw(1)])
  then show "mem_kind m = Host" "contains (wl_prefix wl) (mw_address mw)"
    "mw_address mw \<notin> {wl_gw wl, net (wl_prefix wl), broadcast (wl_prefix wl)}"
    using row mw(2) by (cases "mem_kind m"; auto simp: check_member_workload_def Let_def outcome_simps)+
  have on: "address_on wl m = Some (mw_address mw)" if "m \<in> set (fab_members f)" "mw \<in> set (mem_workloads m)" "mw_name mw = wl_name wl" for m mw
    using find_distinct [OF accepted_member_workloads(1) [OF assms(1) that(1)] that(2)] that(3) by (simp add: address_on_def)
  have "check_addresses wl [] (fab_members f) = Ok ()"
    using accepted_validated [OF assms(1)] assms(2) by (auto simp: validate_def outcome_simps)
  then have dist: "distinct (List.map_filter (address_on wl) (fab_members f))"
    using check_addresses_Ok by blast
  fix m' mw'
  assume "m' \<in> set (fab_members f)" "mw' \<in> set (mem_workloads m')" "mw_name mw' = wl_name wl \<and> mw_address mw' = mw_address mw"
  then show "m' = m"
    using distinct_map_filter_inj [OF dist _ m _ on [OF m mw]] on [of m' mw'] by simp
next
  show "length (leg_ifname wl) \<le> 15"
    by (rule length_leg_ifname)
  show "wl' = wl" if "wl' \<in> set (fab_workloads f)" "leg_ifname wl' = leg_ifname wl" for wl'
    using rows_unique [OF assms(1) that(1) assms(2), of leg_ifname] check_workload_facts(5) that(2) by blast
qed

theorem workload_networks_apart_witness:
  "\<exists>wl\<in>set (fab_workloads sample_fabric). wl_name wl = ''vms'' \<and> contains (wl_prefix wl) (wl_gw wl) \<and>
     \<not> contains (wl_prefix wl) 0x0a090001 \<and> length (leg_ifname wl) \<le> 15"
proof -
  have wl: "hd (fab_workloads sample_fabric) \<in> set (fab_workloads sample_fabric)"
    "wl_name (hd (fab_workloads sample_fabric)) = ''vms''"
    "wl_dhcp_server (hd (fab_workloads sample_fabric)) = Some 0x0a090001"
    by (simp_all add: sample_fabric_def)
  show ?thesis
    using workload_networks_apart [OF sample_accepted wl(1)] wl by (intro bexI [OF _ wl(1)]) simp
qed

end
