(* ===== verification/Shape_Tree.thy ===== *)
theory Shape_Tree
  imports Fabric_Sample
begin

text \<open>
  The shaping tree of one wire (\<open>src/src/emit/shape.rs\<close>): the bands of the zones a wire carries,
  their floors, what is left of them when the link is oversubscribed, and the \<open>tc\<close> program that
  installs them. Rates are \<open>u64\<close> words and every product and sum is the machine's. A warning
  carries what its message interpolates, one constructor per message.
\<close>

section \<open>The tree\<close>

definition L_EFF_PCT :: u64 where "L_EFF_PCT = 97"

datatype LinkSource = Measured | Declared

datatype BandClass = DscpBand Dscp | Untagged

record Band =
  b_minor :: u32
  b_prio :: u32
  b_floor :: u64
  b_eff :: u64
  b_class :: BandClass
  b_is_default :: bool
  b_label :: string
  b_effective_primary :: "string option"

datatype ShapeWarning =
    DeclaredSpeed string u64
  | Oversubscribed string u64 u64 u64
  | ControlUnmet string u64 u64 u64

record Derivation =
  t_dev :: string
  t_l_raw :: u64
  t_l :: u64
  t_source :: LinkSource
  t_bands :: "Band list"
  t_default_minor :: u32
  t_sum_eff :: u64
  t_warnings :: "ShapeWarning list"

definition eff_primary_dev :: "View \<Rightarrow> string \<Rightarrow> (string \<Rightarrow> bool) \<Rightarrow> string option result" where
  "eff_primary_dev v zone up =
     and_then (class_rows v) (\<lambda>rows.
       Ok (map_option snd (find (\<lambda>(_, w). up w)
         (sort (map (\<lambda>r. (cr_ospf_cost r, cr_wire r)) (filter (\<lambda>r. cr_zone r = zone) rows))))))"

text \<open>\<open>L\<close> before scaling: the measured capacity when there is one, else the declared speed.\<close>

definition link_raw :: "View \<Rightarrow> string \<Rightarrow> u64 option \<Rightarrow> (u64 \<times> LinkSource \<times> ShapeWarning list) result" where
  "link_raw v dev measured_cap =
     (let declared = and_then (link_speed v dev) (\<lambda>s. Ok (ucast s, Declared, [DeclaredSpeed dev (ucast s)])) in
      case measured_cap of
        Some c \<Rightarrow> if 0 < c then Ok (c, Measured, []) else declared
      | None \<Rightarrow> declared)"

definition wire_zones :: "View \<Rightarrow> string \<Rightarrow> string list result" where
  "wire_zones v dev =
     and_then (class_rows v) (\<lambda>rows.
       Ok (remdups_adj (sort (map cr_zone (filter (\<lambda>r. cr_wire r = dev) rows)))))"

definition band_order :: "View \<Rightarrow> string \<Rightarrow> string list \<Rightarrow> (u32 \<times> string) list result" where
  "band_order v dev zones =
     and_then (map_out (\<lambda>z. and_then (zone_of (v_fabric v) z) (\<lambda>zn. Ok (zone_band zn, z))) zones) (\<lambda>order.
       Ok (sort (order @ (if is_admin_if v dev then [(fab_admin_band (v_fabric v), ''admin'')] else []))))"

definition band_class :: "View \<Rightarrow> string \<Rightarrow> (BandClass \<times> u64) result" where
  "band_class v label =
     (if label = ''admin'' then Ok (Untagged, ucast (fab_admin_floor_mbps (v_fabric v)))
      else and_then (zone_of (v_fabric v) label) (\<lambda>z. Ok (DscpBand (zone_dscp z), ucast (zone_floor_mbps z))))"

definition make_band :: "View \<Rightarrow> string \<Rightarrow> (string \<Rightarrow> bool) \<Rightarrow> nat \<times> u32 \<times> string \<Rightarrow> Band result" where
  "make_band v dev up = (\<lambda>(rank, band, label).
     and_then (band_class v label) (\<lambda>(class, floor).
       let row = (\<lambda>flr def ep. \<lparr>b_minor = (word_of_nat rank + 1) * 10, b_prio = band, b_floor = flr, b_eff = flr,
                    b_class = class, b_is_default = def, b_label = label, b_effective_primary = ep\<rparr>) in
       if class = DscpBand Cs0
       then and_then (eff_primary_dev v label up) (\<lambda>ep. Ok (row (if ep \<noteq> Some dev then 1 else floor) True ep))
       else Ok (row floor False None)))"

text \<open>The loop assigns \<open>default_minor\<close> at every default band, so the last one stays.\<close>

definition default_minor :: "Band list \<Rightarrow> u32 option" where
  "default_minor bands = fold (\<lambda>b d. if b_is_default b then Some (b_minor b) else d) bands None"

definition sum_floors :: "Band list \<Rightarrow> u64" where
  "sum_floors bands = sum_list (map b_floor bands)"

definition protected_sum :: "Band list \<Rightarrow> u64" where
  "protected_sum bands = sum_floors (filter (\<lambda>b. b_prio b = 0) bands)"

definition degradable_sum :: "Band list \<Rightarrow> u64" where
  "degradable_sum bands = sum_floors (filter (\<lambda>b. b_prio b \<noteq> 0) bands)"

definition degrade :: "u64 \<Rightarrow> Band list \<Rightarrow> Band list" where
  "degrade l bands =
     (let sum_floor = sum_floors bands; protected = protected_sum bands; degradable = degradable_sum bands in
      if sum_floor \<le> l then bands
      else map (\<lambda>b. b\<lparr>b_eff :=
        if l < protected then b_floor b * l div sum_floor
        else if b_prio b = 0 then b_floor b
        else if degradable = 0 then 0 else b_floor b * (l - protected) div degradable\<rparr>) bands)"

definition degrade_warnings :: "string \<Rightarrow> u64 \<Rightarrow> Band list \<Rightarrow> ShapeWarning list" where
  "degrade_warnings dev l bands =
     (if sum_floors bands \<le> l then []
      else if l < protected_sum bands then [ControlUnmet dev (protected_sum bands) l (sum_floors bands)]
      else [Oversubscribed dev (sum_floors bands) l (protected_sum bands)])"

definition derive :: "View \<Rightarrow> string \<Rightarrow> u64 option \<Rightarrow> (string \<Rightarrow> bool) \<Rightarrow> Derivation result" where
  "derive v dev measured_cap up =
     and_then (link_raw v dev measured_cap) (\<lambda>(l_raw, source, warnings).
     let l = l_raw * L_EFF_PCT div 100 in
     and_then (wire_zones v dev) (\<lambda>zones.
     and_then (refuse (zones = []) (DerivedE (NoZoneOnWire dev))) (\<lambda>_.
     and_then (band_order v dev zones) (\<lambda>order.
     and_then (map_out (make_band v dev up) (List.enumerate 0 order)) (\<lambda>bands.
     and_then (ok_or (DerivedE (NoDefaultBand dev)) (default_minor bands)) (\<lambda>def.
       let effective = degrade l bands in
       Ok \<lparr>t_dev = dev, t_l_raw = l_raw, t_l = l, t_source = source, t_bands = effective, t_default_minor = def,
         t_sum_eff = sum_list (map b_eff effective), t_warnings = warnings @ degrade_warnings dev l bands\<rparr>))))))"

section \<open>The program\<close>

definition quantum_for :: "u64 \<Rightarrow> u64" where
  "quantum_for rate = (if 1000 \<le> rate then 60000 else 1514)"

definition rate_str :: "u64 \<Rightarrow> string" where
  "rate_str rate = (if 1 \<le> rate then dec (unat rate) @ ''mbit'' else ''1kbit'')"

definition rate_token :: "u64 \<Rightarrow> string" where
  "rate_token eff =
     (if 1000 \<le> eff \<and> eff mod 1000 = 0 then dec (unat (eff div 1000)) @ ''Gbit''
      else if 1 \<le> eff then dec (unat eff) @ ''Mbit''
      else ''1Kbit'')"

definition words :: "string \<Rightarrow> string list" where
  "words s = split_on (CHR '' '') s"

definition class_cmd :: "Derivation \<Rightarrow> Band \<Rightarrow> string list" where
  "class_cmd t b = words
     (''tc class add dev '' @ t_dev t @ '' parent 1:1 classid 1:'' @ dec (unat (b_minor b)) @ '' htb rate '' @
      rate_str (b_eff b) @ '' ceil '' @ dec (unat (t_l t)) @ ''mbit prio '' @ dec (unat (b_prio b)) @
      '' burst 64k quantum '' @ dec (unat (quantum_for (b_eff b))))"

definition leaf_cmd :: "Derivation \<Rightarrow> Band \<Rightarrow> string list" where
  "leaf_cmd t b = words
     (''tc qdisc add dev '' @ t_dev t @ '' parent 1:'' @ dec (unat (b_minor b)) @ '' handle '' @
      dec (unat (b_minor b)) @ '': fq_codel'')"

definition filter_cmd :: "Derivation \<Rightarrow> nat \<Rightarrow> Band \<Rightarrow> string list" where
  "filter_cmd t fprio b = words
     (case b_class b of
        Untagged \<Rightarrow> ''tc filter add dev '' @ t_dev t @ '' parent 1: protocol ip prio '' @ dec fprio @
          '' flower flowid 1:'' @ dec (unat (b_minor b))
      | DscpBand d \<Rightarrow> ''tc filter add dev '' @ t_dev t @ '' parent 1: protocol 802.1Q prio '' @ dec fprio @
          '' flower vlan_ethtype ip ip_tos '' @ tos d @ '' flowid 1:'' @ dec (unat (b_minor b)))"

fun filter_cmds :: "Derivation \<Rightarrow> nat \<Rightarrow> Band list \<Rightarrow> string list list" where
  "filter_cmds t fprio [] = []"
| "filter_cmds t fprio (b # bs) =
     (if b_is_default b then filter_cmds t fprio bs
      else filter_cmd t (fprio + 1) b # filter_cmds t (fprio + 1) bs)"

definition tc_argv :: "Derivation \<Rightarrow> (string list \<times> bool) list" where
  "tc_argv t =
     (words (''tc qdisc del dev '' @ t_dev t @ '' root''), True) #
     map (\<lambda>c. (c, False))
       (words (''tc qdisc add dev '' @ t_dev t @ '' root handle 1: htb default '' @ dec (unat (t_default_minor t))) #
        words (''tc class add dev '' @ t_dev t @ '' parent 1: classid 1:1 htb rate '' @ dec (unat (t_l t)) @ ''mbit ceil '' @
          dec (unat (t_l t)) @ ''mbit burst 64k quantum '' @ dec (unat (quantum_for (t_l t)))) #
        map (class_cmd t) (t_bands t) @ map (leaf_cmd t) (t_bands t) @ filter_cmds t 0 (t_bands t))"

definition render_tc :: "Derivation \<Rightarrow> string" where
  "render_tc t =
     concat (map (\<lambda>(line, ignore_err). join '' '' line @ (if ignore_err then '' 2>/dev/null || true'' else []) @ [CHR 0x0A])
       (tc_argv t))"

definition applied_classes :: "Derivation \<Rightarrow> (string \<times> string) list" where
  "applied_classes t = map (\<lambda>b. (''1:'' @ dec (unat (b_minor b)), rate_token (b_eff b))) (t_bands t)"

definition render_expect :: "Derivation \<Rightarrow> string" where
  "render_expect t =
     concat (map (\<lambda>b. ''1:'' @ dec (unat (b_minor b)) @ '' '' @ dec (unat (b_eff b)) @ [CHR 0x0A]) (t_bands t))"

end
