(* ===== verification/Shape_Degrade.thy ===== *)
theory Shape_Degrade
  imports Shape_Tree
begin

text \<open>
  What \<open>degrade\<close> leaves of the floors: the effective rates never add up to more than the link,
  a link that fits is left alone, and the control floors are kept whenever they fit.
\<close>

definition total_floor :: "Band list \<Rightarrow> nat" where
  "total_floor bs = (\<Sum>b\<leftarrow>bs. unat (b_floor b))"

definition total_eff :: "Band list \<Rightarrow> nat" where
  "total_eff bs = (\<Sum>b\<leftarrow>bs. unat (b_eff b))"

lemma total_floor_split:
  "total_floor bs = total_floor (filter (\<lambda>b. P b) bs) + total_floor (filter (\<lambda>b. \<not> P b) bs)"
  by (induction bs) (simp_all add: total_floor_def)

lemma total_floor_filter_le: "total_floor (filter P bs) \<le> total_floor bs"
  using total_floor_split [of bs P] by simp

lemma floor_le_total: "b \<in> set bs \<Longrightarrow> unat (b_floor b) \<le> total_floor bs"
  unfolding total_floor_def by (simp add: member_le_sum_list)

lemma unat_sum_floors: "total_floor bs < 2 ^ 64 \<Longrightarrow> unat (sum_floors bs) = total_floor bs"
  using unat_sum_list [of "map b_floor bs"] by (simp add: sum_floors_def total_floor_def comp_def)

lemma unat_mult_u64: "unat a * unat b < 2 ^ 64 \<Longrightarrow> unat (a * b :: u64) = unat a * unat b"
  by (simp add: unat_word_ariths)

text \<open>Scaling a list of shares of \<open>s\<close> to \<open>k\<close>, each rounded down, gives at most \<open>k\<close>.\<close>

lemma scaled_sum_le:
  fixes s :: nat
  assumes "0 < s" "(\<Sum>x\<leftarrow>xs. g x) \<le> s"
  shows "(\<Sum>x\<leftarrow>xs. g x * k div s) \<le> k"
proof -
  have "(\<Sum>x\<leftarrow>xs. g x * k div s) * s \<le> (\<Sum>x\<leftarrow>xs. g x) * k"
    by (induction xs) (simp_all add: algebra_simps add_mono)
  also have "\<dots> \<le> k * s"
    using assms(2) by (simp add: mult.commute)
  finally show ?thesis
    using assms(1) by simp
qed

lemma scaled_le: "k \<le> s \<Longrightarrow> a * k div s \<le> (a :: nat)"
  by (metis div_le_mono mult_le_mono2 div_mult_self_is_m bot_nat_0.not_eq_extremum div_by_0 le0)

text \<open>The two ways a floor is scaled, on numbers.\<close>

definition scaled_eff :: "nat \<Rightarrow> Band list \<Rightarrow> Band \<Rightarrow> nat" where
  "scaled_eff l bs b =
     (let p = total_floor (filter (\<lambda>b. b_prio b = 0) bs) in
      if total_floor bs \<le> l then unat (b_floor b)
      else if l < p then unat (b_floor b) * l div total_floor bs
      else if b_prio b = 0 then unat (b_floor b)
      else unat (b_floor b) * (l - p) div (total_floor bs - p))"

lemma degrade_exact:
  assumes fits: "total_floor bs < 2 ^ 32" and eff: "\<And>b. b \<in> set bs \<Longrightarrow> b_eff b = b_floor b"
  shows "map (\<lambda>b. unat (b_eff b)) (degrade l bs) = map (scaled_eff (unat l) bs) bs"
proof -
  let ?p = "filter (\<lambda>b. b_prio b = 0) bs" and ?d = "filter (\<lambda>b. b_prio b \<noteq> 0) bs"
  have split: "total_floor bs = total_floor ?p + total_floor ?d"
    by (rule total_floor_split)
  have sums: "unat (sum_floors bs) = total_floor bs" "unat (protected_sum bs) = total_floor ?p"
    "unat (degradable_sum bs) = total_floor ?d"
    using fits split by (simp_all add: protected_sum_def degradable_sum_def unat_sum_floors)
  have small: "unat (b_floor b) * k < 2 ^ 64" if "b \<in> set bs" "k < 2 ^ 32" for b k
    using mult_strict_mono' [of "unat (b_floor b)" "2 ^ 32" k "2 ^ 32"] floor_le_total [OF that(1)] fits that(2) by simp
  show ?thesis
  proof (cases "sum_floors bs \<le> l")
    case True
    then show ?thesis
      using sums eff by (simp add: degrade_def Let_def scaled_eff_def word_le_nat_alt)
  next
    case False
    then have over: "unat l < total_floor bs" "unat l < 2 ^ 32"
      using sums fits by (simp_all add: word_le_nat_alt)
    have whole: "unat (b_floor b * l div sum_floors bs) = unat (b_floor b) * unat l div total_floor bs" if "b \<in> set bs" for b
      using small [OF that over(2)] sums by (simp add: unat_div_distrib unat_mult_u64)
    have left: "unat (b_floor b * (l - protected_sum bs) div degradable_sum bs) =
        unat (b_floor b) * (unat l - total_floor ?p) div total_floor ?d"
      if "b \<in> set bs" "\<not> l < protected_sum bs" for b
    proof -
      have "unat (l - protected_sum bs) = unat l - total_floor ?p"
        using that(2) sums by (simp add: unat_sub word_le_nat_alt word_less_nat_alt)
      then show ?thesis
        using small [OF that(1), of "unat l - total_floor ?p"] over sums by (simp add: unat_div_distrib unat_mult_u64)
    qed
    have none: "b_floor b = 0" if "b \<in> set bs" "b_prio b \<noteq> 0" "degradable_sum bs = 0" for b
      using floor_le_total [of b ?d] that sums(3) by (simp add: unat_eq_zero)
    show ?thesis
      using False over whole left none sums split
      by (auto simp: degrade_def Let_def scaled_eff_def word_less_nat_alt not_less)
  qed
qed

lemma scaled_eff_le: "scaled_eff l bs b \<le> unat (b_floor b)"
  by (auto simp: scaled_eff_def Let_def intro!: scaled_le)

lemma sum_scaled_eff: "(\<Sum>b\<leftarrow>bs. scaled_eff l bs b) \<le> l"
proof -
  let ?p = "filter (\<lambda>b. b_prio b = 0) bs" and ?d = "filter (\<lambda>b. b_prio b \<noteq> 0) bs"
  have split: "total_floor bs = total_floor ?p + total_floor ?d"
    by (rule total_floor_split)
  consider (fits) "total_floor bs \<le> l" | (hard) "l < total_floor bs" "l < total_floor ?p"
    | (soft) "l < total_floor bs" "total_floor ?p \<le> l"
    by linarith
  then show ?thesis
  proof cases
    case fits
    then show ?thesis
      by (simp add: scaled_eff_def total_floor_def)
  next
    case hard
    then show ?thesis
      using scaled_sum_le [of "total_floor bs" "\<lambda>b. unat (b_floor b)" bs l]
      by (simp add: scaled_eff_def total_floor_def)
  next
    case soft
    let ?g = "\<lambda>b. unat (b_floor b) * (l - total_floor ?p) div total_floor ?d"
    have parted: "(\<Sum>b\<leftarrow>xs. if b_prio b = 0 then unat (b_floor b) else h b) =
        total_floor (filter (\<lambda>b. b_prio b = 0) xs) + (\<Sum>b\<leftarrow>filter (\<lambda>b. b_prio b \<noteq> 0) xs. h b)" for xs h
      by (induction xs) (simp_all add: total_floor_def)
    have "(\<Sum>b\<leftarrow>bs. scaled_eff l bs b) = (\<Sum>b\<leftarrow>bs. if b_prio b = 0 then unat (b_floor b) else ?g b)"
      using soft split by (intro arg_cong [where f = sum_list] map_cong) (simp_all add: scaled_eff_def)
    also have "\<dots> = total_floor ?p + (\<Sum>b\<leftarrow>?d. ?g b)"
      by (rule parted)
    also have "(\<Sum>b\<leftarrow>?d. ?g b) \<le> l - total_floor ?p"
      using soft split by (intro scaled_sum_le) (simp_all add: total_floor_def)
    finally show ?thesis
      using soft by simp
  qed
qed

text \<open>Only the effective rates change.\<close>

lemma degrade_keeps:
  "map (scaled_eff k bs) (degrade l xs) = map (scaled_eff k bs) xs" "total_floor (degrade l xs) = total_floor xs"
  "total_floor (filter (\<lambda>b. b_prio b = 0) (degrade l xs)) = total_floor (filter (\<lambda>b. b_prio b = 0) xs)"
  "map b_label (degrade l xs) = map b_label xs" "map b_floor (degrade l xs) = map b_floor xs"
  by (simp_all add: degrade_def Let_def scaled_eff_def total_floor_def comp_def filter_map)

lemma degraded_band:
  assumes "total_floor bs < 2 ^ 32" "\<And>b. b \<in> set bs \<Longrightarrow> b_eff b = b_floor b" "b \<in> set (degrade l bs)"
  shows "unat (b_eff b) = scaled_eff (unat l) bs b"
proof -
  have "map (\<lambda>b. unat (b_eff b)) (degrade l bs) = map (scaled_eff (unat l) bs) (degrade l bs)"
    unfolding degrade_keeps(1) by (rule degrade_exact [OF assms(1,2)])
  then show ?thesis
    using assms(3) by simp
qed

end
