(* ===== verification/Shape_Floors.thy ===== *)
theory Shape_Floors
  imports Shape_Degrade Fabric_Paths_Unique
begin

text \<open>
  The shaping tree of an accepted fabric: it exists exactly when the wire carries a bulk zone, it
  never promises more than the link, and the full floor of a bulk zone is on one wire.
\<close>

section \<open>What a tree is made of\<close>

lemma derive_Ok:
  assumes "derive v dev cap up = Ok t"
  obtains raw src ws zones order bands where
    "link_raw v dev cap = Ok (raw, src, ws)" "wire_zones v dev = Ok zones" "zones \<noteq> []"
    "band_order v dev zones = Ok order" "map_out (make_band v dev up) (List.enumerate 0 order) = Ok bands"
    "default_minor bands = Some (t_default_minor t)" "t_dev t = dev" "t_l_raw t = raw" "t_l t = raw * L_EFF_PCT div 100"
    "t_bands t = degrade (t_l t) bands" "t_sum_eff t = sum_list (map b_eff (t_bands t))"
    "t_warnings t = ws @ degrade_warnings dev (t_l t) bands"
proof -
  obtain raw src ws where raw: "link_raw v dev cap = Ok (raw, src, ws)"
    using assms by (auto simp: derive_def and_then_Ok)
  then show ?thesis
    using assms by (auto simp: derive_def Let_def outcome_simps intro!: that [OF raw])
qed

lemma make_band_Ok:
  assumes "make_band v dev up (rank, band, label) = Ok b"
  shows "b_label b = label" "b_prio b = band" "b_minor b = (word_of_nat rank + 1) * 10" "b_eff b = b_floor b"
    "b_is_default b \<longleftrightarrow> b_class b = DscpBand Cs0"
    "label = ''admin'' \<Longrightarrow> b_class b = Untagged \<and> b_floor b = ucast (fab_admin_floor_mbps (v_fabric v))"
    "label \<noteq> ''admin'' \<Longrightarrow> \<exists>z. zone_of (v_fabric v) label = Ok z \<and> b_class b = DscpBand (zone_dscp z) \<and>
       (zone_dscp z \<noteq> Cs0 \<longrightarrow> b_floor b = ucast (zone_floor_mbps z)) \<and>
       (zone_dscp z = Cs0 \<longrightarrow> eff_primary_dev v label up = Ok (b_effective_primary b) \<and>
          b_floor b = (if b_effective_primary b = Some dev then ucast (zone_floor_mbps z) else 1))"
  using assms
  by (auto simp: make_band_def band_class_def Let_def outcome_simps split: if_splits prod.splits)

lemma enumerate_snd: "x \<in> set (List.enumerate n xs) \<Longrightarrow> snd x \<in> set xs"
  by (metis image_eqI map_snd_enumerate set_map)

lemma bands_Ok:
  assumes "map_out (make_band v dev up) (List.enumerate n order) = Ok bands"
  shows "map (\<lambda>b. (b_prio b, b_label b)) bands = order" "length bands = length order"
    "b \<in> set bands \<Longrightarrow> \<exists>rank band label. make_band v dev up (rank, band, label) = Ok b \<and> (band, label) \<in> set order"
proof -
  have "map (\<lambda>b. (b_prio b, b_label b)) bands = map snd (List.enumerate n order)"
    using assms by (rule map_out_map) (auto dest: make_band_Ok(1,2))
  then show order: "map (\<lambda>b. (b_prio b, b_label b)) bands = order"
    by simp
  then show "length bands = length order"
    by (metis length_map)
  show "\<exists>rank band label. make_band v dev up (rank, band, label) = Ok b \<and> (band, label) \<in> set order" if b: "b \<in> set bands"
  proof -
    obtain x where x: "x \<in> set (List.enumerate n order)" "make_band v dev up x = Ok b"
      using map_out_all [OF assms b] by blast
    show ?thesis
      using x(2) enumerate_snd [OF x(1)] by (metis prod.collapse)
  qed
qed

lemma band_order_Ok:
  assumes "band_order v dev zones = Ok order"
  shows "mset (map snd order) = mset (zones @ (if is_admin_if v dev then [''admin''] else []))" "sorted order"
proof -
  obtain ps where ps: "map_out (\<lambda>z. and_then (zone_of (v_fabric v) z) (\<lambda>zn. Ok (zone_band zn, z))) zones = Ok ps"
    "order = sort (ps @ (if is_admin_if v dev then [(fab_admin_band (v_fabric v), ''admin'')] else []))"
    using assms by (auto simp: band_order_def outcome_simps)
  have "map snd ps = map id zones"
    using ps(1) by (rule map_out_map) (auto simp: outcome_simps)
  then have "image_mset snd (mset ps) = mset zones"
    by (metis list.map_id mset_map)
  then show "mset (map snd order) = mset (zones @ (if is_admin_if v dev then [''admin''] else []))" "sorted order"
    unfolding ps(2) by simp_all
qed

section \<open>The tree of an accepted fabric\<close>

lemma accepted_zone_count: "from_decl d = Ok f \<Longrightarrow> length (fab_zones f) \<le> 256"
proof -
  assume "from_decl d = Ok f"
  then have "distinct (map (dec \<circ> unat \<circ> zone_id) (fab_zones f))"
    using accepted_checked [of d f] by (auto simp: checked_def check_zones_def outcome_simps comp_def)
  then have "distinct (map zone_id (fab_zones f))"
    by (auto simp: distinct_map inj_on_def)
  then show ?thesis
    using distinct_length_le [of zone_id "fab_zones f" UNIV] card_u8 by simp
qed

lemma sorted_distinct_remdups_adj: "sorted xs \<Longrightarrow> distinct (remdups_adj xs)"
  by (induction xs rule: remdups_adj.induct) auto

lemma wire_zones_facts:
  assumes f: "from_decl d = Ok f" "m \<in> set (fab_members f)" and zones: "wire_zones \<lparr>v_fabric = f, v_member = m\<rparr> dev = Ok zones"
  shows "set zones = {cr_zone r | r. r \<in> set (the_rows f m) \<and> cr_wire r = dev}" "distinct zones"
    "set zones \<subseteq> zone_name ` set (fab_zones f)" "length zones \<le> 256"
proof -
  have ranked: "ranked f m"
    by (rule sized_ranked [OF accepted_sized [OF f(1)] f(2)])
  have eq: "zones = remdups_adj (sort (map cr_zone (filter (\<lambda>r. cr_wire r = dev) (the_rows f m))))"
    using zones by (simp add: wire_zones_def class_rows_def class_rows_total [OF ranked])
  show set: "set zones = {cr_zone r | r. r \<in> set (the_rows f m) \<and> cr_wire r = dev}"
    unfolding eq by auto
  show "distinct zones"
    unfolding eq by (simp add: sorted_distinct_remdups_adj)
  show sub: "set zones \<subseteq> zone_name ` set (fab_zones f)"
  proof
    fix n
    assume "n \<in> set zones"
    then obtain s where "s \<in> set (fab_segments f)" "seg_zone s = n"
      unfolding set by (auto simp: the_rows_iff segment_row_Some)
    then show "n \<in> zone_name ` set (fab_zones f)"
      using ranked unfolding ranked_def by (metis image_eqI)
  qed
  have "card (set zones) \<le> card (zone_name ` set (fab_zones f))"
    using sub by (simp add: card_mono)
  also have "\<dots> \<le> length (fab_zones f)"
    using card_image_le [of "set (fab_zones f)" zone_name] card_length [of "fab_zones f"] by simp
  finally show "length zones \<le> 256"
    using accepted_zone_count [OF f(1)] \<open>distinct zones\<close> by (simp add: distinct_card)
qed

text \<open>The floors an operator can mean: no zone and no admin band is promised more than ten
  terabits per second, and no measurement is beyond 2^56 Mb/s.\<close>

definition sane_floors :: "Fabric \<Rightarrow> bool" where
  "sane_floors f \<longleftrightarrow> (\<forall>z\<in>set (fab_zones f). unat (zone_floor_mbps z) \<le> 10000000) \<and> unat (fab_admin_floor_mbps f) \<le> 10000000"

lemma unat_less_2p32: "unat (x :: u32) < 2 ^ 32"
  using unsigned_less [of x, where 'a = nat] by simp

lemma unat_u64_of_u32 [simp]: "unat (ucast (x :: u32) :: u64) = unat x"
  using unat_less_2p32 [of x] by (simp add: unsigned_ucast_eq take_bit_nat_eq_self)

lemma zone_of_in: "zone_of f n = Ok z \<Longrightarrow> z \<in> set (fab_zones f) \<and> zone_name z = n"
  by (auto simp: zone_of_def outcome_simps dest!: find_in)

lemma band_floor_le:
  assumes "sane_floors (v_fabric v)" "make_band v dev up (rank, band, label) = Ok b"
  shows "unat (b_floor b) \<le> 10000000"
proof (cases "label = ''admin''")
  case True
  then show ?thesis
    using make_band_Ok(6) [OF assms(2)] assms(1) by (simp add: sane_floors_def unat_u64_of_u32)
next
  case False
  then obtain z where "zone_of (v_fabric v) label = Ok z" "b_floor b = ucast (zone_floor_mbps z) \<or> b_floor b = 1"
    using make_band_Ok(7) [OF assms(2)] by metis
  then show ?thesis
    using assms(1) zone_of_in [of "v_fabric v" label z] by (auto simp: sane_floors_def unat_u64_of_u32)
qed

lemma total_floor_le: "(\<And>b. b \<in> set bs \<Longrightarrow> unat (b_floor b) \<le> k) \<Longrightarrow> total_floor bs \<le> length bs * k"
  by (induction bs) (auto simp: total_floor_def add_mono)

lemma bands_fit:
  assumes f: "from_decl d = Ok f" "m \<in> set (fab_members f)" "sane_floors f"
    and v: "v = \<lparr>v_fabric = f, v_member = m\<rparr>"
    and bands: "wire_zones v dev = Ok zones" "band_order v dev zones = Ok order"
      "map_out (make_band v dev up) (List.enumerate 0 order) = Ok bands"
  shows "total_floor bands < 2 ^ 32" "b \<in> set bands \<Longrightarrow> b_eff b = b_floor b"
proof -
  have "length order = length (map snd order)"
    by simp
  also have "\<dots> = length (zones @ (if is_admin_if v dev then [''admin''] else []))"
    using band_order_Ok(1) [OF bands(2)] by (metis size_mset)
  also have "\<dots> \<le> 257"
    using wire_zones_facts(4) [OF f(1,2)] bands(1) v by fastforce
  finally have "length bands \<le> 257"
    using bands_Ok(2) [OF bands(3)] by simp
  moreover have "unat (b_floor b) \<le> 10000000" if "b \<in> set bands" for b
    using bands_Ok(3) [OF bands(3) that] band_floor_le f(3) v by (metis View.select_convs(1))
  ultimately show "total_floor bands < 2 ^ 32"
    using total_floor_le [of bands 10000000] by fastforce
  show "b_eff b = b_floor b" if "b \<in> set bands"
    using bands_Ok(3) [OF bands(3) that] make_band_Ok(4) by blast
qed

lemma link_raw_Ok:
  assumes "link_raw v dev cap = Ok (raw, src, ws)"
  shows "cap = Some raw \<or> unat raw < 2 ^ 32"
  using assms unat_less_2p32 by (auto simp: link_raw_def Let_def outcome_simps unat_u64_of_u32 split: option.splits if_splits)


section \<open>When a wire can be shaped\<close>

lemma default_minor_None: "default_minor bs = None \<longleftrightarrow> (\<forall>b\<in>set bs. \<not> b_is_default b)"
proof -
  have "fold (\<lambda>b d. if b_is_default b then Some (b_minor b) else d) bs acc = None \<longleftrightarrow>
      acc = None \<and> (\<forall>b\<in>set bs. \<not> b_is_default b)" for acc
    by (induction bs arbitrary: acc) auto
  then show ?thesis
    by (simp add: default_minor_def)
qed

lemma eff_primary_total:
  "ranked f m \<Longrightarrow> eff_primary_dev \<lparr>v_fabric = f, v_member = m\<rparr> zone up =
     Ok (map_option snd (find (\<lambda>(_, w). up w)
       (sort (map (\<lambda>r. (cr_ospf_cost r, cr_wire r)) (filter (\<lambda>r. cr_zone r = zone) (the_rows f m))))))"
  by (simp add: eff_primary_dev_def class_rows_def class_rows_total)

lemma make_band_total:
  assumes "ranked f m" "label = ''admin'' \<or> label \<in> zone_name ` set (fab_zones f)"
  shows "\<exists>b. make_band \<lparr>v_fabric = f, v_member = m\<rparr> dev up (rank, band, label) = Ok b"
proof (cases "label = ''admin''")
  case True
  then show ?thesis
    by (simp add: make_band_def band_class_def)
next
  case False
  then obtain z where "zone_of f label = Ok z"
    using assms(2) zone_of_Ok [of f label] by auto
  then show ?thesis
    using False by (simp add: make_band_def band_class_def Let_def eff_primary_total [OF assms(1)])
qed

lemma map_out_total: "(\<And>x. x \<in> set xs \<Longrightarrow> \<exists>y. g x = Ok y) \<Longrightarrow> \<exists>ys. map_out g xs = Ok ys"
  by (induction xs) (auto simp: outcome_simps)

lemma bands_total:
  assumes "from_decl d = Ok f" "m \<in> set (fab_members f)"
  defines "v \<equiv> \<lparr>v_fabric = f, v_member = m\<rparr>"
  obtains zones order bands where "wire_zones v dev = Ok zones" "band_order v dev zones = Ok order"
    "map_out (make_band v dev up) (List.enumerate 0 order) = Ok bands"
proof -
  have ranked: "ranked f m"
    by (rule sized_ranked [OF accepted_sized [OF assms(1)] assms(2)])
  obtain zones where zones: "wire_zones v dev = Ok zones"
    by (simp add: wire_zones_def v_def class_rows_def class_rows_total [OF ranked])
  note names = wire_zones_facts(3) [OF assms(1,2) zones [unfolded v_def]]
  have "\<exists>y. and_then (zone_of f z) (\<lambda>zn. Ok (zone_band zn, z)) = Ok y" if "z \<in> set zones" for z
    using zone_of_Ok [of f z] names that by (auto simp: outcome_simps)
  then obtain order where order: "band_order v dev zones = Ok order"
    using map_out_total [of zones "\<lambda>z. and_then (zone_of f z) (\<lambda>zn. Ok (zone_band zn, z))"]
    by (auto simp: band_order_def v_def)
  have "snd ` set order \<subseteq> set zones \<union> {''admin''}"
    using mset_eq_setD [OF band_order_Ok(1) [OF order]] by (auto split: if_splits)
  then have "\<exists>y. make_band v dev up x = Ok y" if "x \<in> set (List.enumerate 0 order)" for x
    using enumerate_snd [OF that] names make_band_total [OF ranked, of "snd (snd x)" dev up "fst x" "fst (snd x)"]
    by (auto simp: v_def)
  then show ?thesis
    using that [OF zones order] map_out_total by blast
qed

lemma row_wire_named: "r \<in> set (the_rows f m) \<Longrightarrow> wire_named m (cr_wire r) \<noteq> None"
  by (auto simp: the_rows_iff segment_row_Some wire_on_def wire_named_def find_None_iff dest!: find_in)

lemma link_raw_total: "wire_named (v_member v) dev \<noteq> None \<Longrightarrow> \<exists>x. link_raw v dev cap = Ok x"
  by (auto simp: link_raw_def Let_def link_speed_def ok_or_def split: option.splits)

lemma link_raw_no_panic: "link_raw v dev cap \<noteq> Panic"
  by (simp add: link_raw_def Let_def link_speed_def ok_or_def split: option.split)

text \<open>Shaping a wire of an accepted fabric never panics, and it succeeds exactly when the wire
  carries a bulk (cs0) zone other than one named \<open>admin\<close>, whose band is the default class: a
  measured capacity, missing carriers and full or empty floors do not matter.\<close>

theorem derive_succeeds_iff:
  assumes f: "from_decl d = Ok f" "m \<in> set (fab_members f)"
  shows "derive \<lparr>v_fabric = f, v_member = m\<rparr> dev cap up \<noteq> Panic \<and>
    (\<exists>rows. class_rows_of f m = Ok rows \<and>
       ((\<exists>t. derive \<lparr>v_fabric = f, v_member = m\<rparr> dev cap up = Ok t) \<longleftrightarrow>
          (\<exists>r\<in>set rows. cr_wire r = dev \<and> cr_zone r \<noteq> ''admin'' \<and>
             (\<exists>z. zone_of f (cr_zone r) = Ok z \<and> zone_dscp z = Cs0))))"
proof -
  let ?v = "\<lparr>v_fabric = f, v_member = m\<rparr>"
  have ranked: "ranked f m"
    by (rule sized_ranked [OF accepted_sized [OF f(1)] f(2)])
  obtain zones order bands where tree: "wire_zones ?v dev = Ok zones" "band_order ?v dev zones = Ok order"
    "map_out (make_band ?v dev up) (List.enumerate 0 order) = Ok bands"
    using bands_total [OF f] .
  note zones = wire_zones_facts [OF f tree(1)]
  have "set (map snd order) = set (zones @ (if is_admin_if ?v dev then [''admin''] else []))"
    by (rule mset_eq_setD [OF band_order_Ok(1) [OF tree(2)]])
  moreover have "map b_label bands = map snd order"
    using bands_Ok(1) [OF tree(3)] by auto
  ultimately have labels: "set (map b_label bands) = set zones \<union> (if is_admin_if ?v dev then {''admin''} else {})"
    by simp
  have band: "(b_label b = ''admin'' \<longrightarrow> \<not> b_is_default b) \<and> (b_label b \<noteq> ''admin'' \<longrightarrow>
      (\<exists>z. zone_of f (b_label b) = Ok z \<and> (b_is_default b \<longleftrightarrow> zone_dscp z = Cs0)))" if b: "b \<in> set bands" for b
  proof -
    obtain rank band label where "make_band ?v dev up (rank, band, label) = Ok b"
      using bands_Ok(3) [OF tree(3) b] by blast
    then show ?thesis
      using make_band_Ok by fastforce
  qed
  have "(\<exists>b\<in>set bands. b_is_default b) \<longleftrightarrow>
      (\<exists>n\<in>set (map b_label bands). n \<noteq> ''admin'' \<and> (\<exists>z. zone_of f n = Ok z \<and> zone_dscp z = Cs0))"
    using band by (fastforce simp: image_iff)
  then have default: "default_minor bands \<noteq> None \<longleftrightarrow>
      (\<exists>r\<in>set (the_rows f m). cr_wire r = dev \<and> cr_zone r \<noteq> ''admin'' \<and> (\<exists>z. zone_of f (cr_zone r) = Ok z \<and> zone_dscp z = Cs0))"
    unfolding default_minor_None labels zones(1) by auto
  have speed: "\<exists>x. link_raw ?v dev cap = Ok x" if some: "zones \<noteq> []"
  proof -
    obtain r where "r \<in> set (the_rows f m)" "cr_wire r = dev"
      using zones(1) some by (cases zones) auto
    then show ?thesis
      using row_wire_named link_raw_total [of ?v dev cap] by fastforce
  qed
  have empty: "\<not> (\<exists>r\<in>set (the_rows f m). cr_wire r = dev)" if "zones = []"
    using zones(1) that by auto
  have "derive ?v dev cap up \<noteq> Panic \<and> ((\<exists>t. derive ?v dev cap up = Ok t) \<longleftrightarrow> zones \<noteq> [] \<and> default_minor bands \<noteq> None)"
  proof (cases "link_raw ?v dev cap")
    case (Ok x)
    then show ?thesis
      using tree by (cases x) (auto simp: derive_def Let_def refuse_def ok_or_def split: option.splits)
  qed (use link_raw_no_panic speed in \<open>auto simp: derive_def\<close>)
  moreover have "zones \<noteq> [] \<and> default_minor bands \<noteq> None \<longleftrightarrow> default_minor bands \<noteq> None"
    using default empty by blast
  ultimately show ?thesis
    using default class_rows_total [OF ranked] by simp
qed

section \<open>Where a bulk zone has its floor\<close>

text \<open>The wire a bulk zone counts on: up, and the cheapest of those that are, by name on a tie.\<close>

definition best_up :: "ClassRow list \<Rightarrow> string \<Rightarrow> (string \<Rightarrow> bool) \<Rightarrow> string \<Rightarrow> bool" where
  "best_up rows zone up w \<longleftrightarrow>
     (\<exists>r\<in>set rows. cr_zone r = zone \<and> cr_wire r = w \<and> up w \<and>
        (\<forall>s\<in>set rows. cr_zone s = zone \<and> up (cr_wire s) \<longrightarrow> (cr_ospf_cost r, w) \<le> (cr_ospf_cost s, cr_wire s)))"

lemma find_sorted:
  "sorted xs \<Longrightarrow> find P xs = Some x \<longleftrightarrow> x \<in> set xs \<and> P x \<and> (\<forall>y\<in>set xs. P y \<longrightarrow> x \<le> y)"
  by (induction xs) (auto intro: antisym)

lemma eff_primary_best:
  "map_option snd (find (\<lambda>(_, w). up w)
     (sort (map (\<lambda>r. (cr_ospf_cost r, cr_wire r)) (filter (\<lambda>r. cr_zone r = zone) rows)))) = Some w \<longleftrightarrow>
   best_up rows zone up w"
  by (auto simp: find_sorted best_up_def image_iff)

lemma best_up_unique: "best_up rows zone up v \<Longrightarrow> best_up rows zone up w \<Longrightarrow> v = w"
  by (auto simp: eff_primary_best [symmetric])

lemma best_up_exists:
  assumes "r \<in> set rows" "cr_zone r = zone" "up (cr_wire r)"
  shows "\<exists>w. best_up rows zone up w"
proof -
  let ?ps = "sort (map (\<lambda>r. (cr_ospf_cost r, cr_wire r)) (filter (\<lambda>r. cr_zone r = zone) rows))"
  have "find (\<lambda>(_, w). up w) ?ps \<noteq> None"
    using assms by (auto simp: find_None_iff)
  then obtain p where "find (\<lambda>(_, w). up w) ?ps = Some p"
    by blast
  then show ?thesis
    using eff_primary_best [THEN iffD1, of up zone rows "snd p"] by auto
qed

text \<open>The full floor of a bulk zone is on one wire. In every tree of the member, the bulk band of
  a zone has the declared floor exactly on the cheapest wire of the zone that is up and the
  one-megabit token everywhere else; while any wire of the zone is up there is exactly one such
  wire.\<close>

theorem bulk_floor_on_one_wire:
  assumes f: "from_decl d = Ok f" "m \<in> set (fab_members f)"
    and t: "derive \<lparr>v_fabric = f, v_member = m\<rparr> dev cap up = Ok t" and b: "b \<in> set (t_bands t)" "b_class b = DscpBand Cs0"
  shows "\<exists>rows z. class_rows_of f m = Ok rows \<and> zone_of f (b_label b) = Ok z \<and>
    b_floor b = (if best_up rows (b_label b) up dev then ucast (zone_floor_mbps z) else 1) \<and>
    ((\<exists>r\<in>set rows. cr_zone r = b_label b \<and> up (cr_wire r)) \<longrightarrow> (\<exists>!w. best_up rows (b_label b) up w))"
proof -
  let ?v = "\<lparr>v_fabric = f, v_member = m\<rparr>"
  have ranked: "ranked f m"
    by (rule sized_ranked [OF accepted_sized [OF f(1)] f(2)])
  obtain order bands where tree: "map_out (make_band ?v dev up) (List.enumerate 0 order) = Ok bands"
    "t_bands t = degrade (t_l t) bands"
    by (rule derive_Ok [OF t]) blast
  obtain b0 where b0: "b0 \<in> set bands" "b_class b0 = b_class b" "b_label b0 = b_label b" "b_floor b0 = b_floor b"
    using b(1) unfolding tree(2) by (auto simp: degrade_def Let_def split: if_splits)
  obtain rank band label where mk: "make_band ?v dev up (rank, band, label) = Ok b0"
    using bands_Ok(3) [OF tree(1) b0(1)] by blast
  have label: "label = b_label b" "label \<noteq> ''admin''"
    using make_band_Ok(1,6) [OF mk] b0 b(2) by auto
  obtain z where z: "zone_of f label = Ok z" "eff_primary_dev ?v label up = Ok (b_effective_primary b0)"
    "b_floor b0 = (if b_effective_primary b0 = Some dev then ucast (zone_floor_mbps z) else 1)"
    using make_band_Ok(7) [OF mk label(2)] b0(2) b(2) by auto
  then have "b_effective_primary b0 = Some dev \<longleftrightarrow> best_up (the_rows f m) label up dev"
    unfolding eff_primary_total [OF ranked] by (simp add: eff_primary_best [symmetric])
  then show ?thesis
    using z class_rows_total [OF ranked] b0(4) label(1) best_up_exists best_up_unique by (metis (full_types))
qed

section \<open>The tree of a sample wire\<close>

definition sample_tree :: Derivation where
  "sample_tree =
     \<lparr>t_dev = ''eth0'', t_l_raw = 4000, t_l = 3880, t_source = Measured,
      t_bands =
        [\<lparr>b_minor = 10, b_prio = 1, b_floor = 100, b_eff = 94, b_class = Untagged, b_is_default = False, b_label = ''admin'',
          b_effective_primary = None\<rparr>,
         \<lparr>b_minor = 20, b_prio = 2, b_floor = 4000, b_eff = 3785, b_class = DscpBand Cs0, b_is_default = True,
          b_label = ''storage'', b_effective_primary = Some ''eth0''\<rparr>],
      t_default_minor = 20, t_sum_eff = 3879, t_warnings = [Oversubscribed ''eth0'' 4100 3880 0]\<rparr>"

lemma sample_tree_eq:
  assumes "up ''eth0''"
  shows "derive \<lparr>v_fabric = sample_fabric, v_member = sample_h1\<rparr> ''eth0'' (Some 4000) up = Ok sample_tree"
proof -
  let ?v = "\<lparr>v_fabric = sample_fabric, v_member = sample_h1\<rparr>"
  have zones: "wire_zones ?v ''eth0'' = Ok [''storage'']"
    by (simp add: wire_zones_def class_rows_def sample_rows sample_row_a_def sample_row_b_def)
  have order: "band_order ?v ''eth0'' [''storage''] = Ok [(1, ''admin''), (2, ''storage'')]"
    by (simp add: band_order_def zone_of_def ok_or_def is_admin_if_def admin_ifs_def sample_fabric_def sample_h1_def)
  have ep: "eff_primary_dev ?v ''storage'' up = Ok (Some ''eth0'')"
    using assms by (simp add: eff_primary_dev_def class_rows_def sample_rows sample_row_a_def sample_row_b_def)
  have "band_class ?v ''admin'' = Ok (Untagged, 100)" "band_class ?v ''storage'' = Ok (DscpBand Cs0, 4000)"
    by (simp_all add: band_class_def zone_of_def ok_or_def sample_fabric_def)
  then have "map_out (make_band ?v ''eth0'' up) (List.enumerate 0 [(1, ''admin''), (2, ''storage'')]) =
      Ok (map (\<lambda>b. b\<lparr>b_eff := b_floor b\<rparr>) (t_bands sample_tree))"
    by (simp add: make_band_def ep sample_tree_def)
  then show ?thesis
    by (simp add: derive_def link_raw_def zones order refuse_def ok_or_def default_minor_def degrade_def degrade_warnings_def
        sum_floors_def protected_sum_def degradable_sum_def Let_def L_EFF_PCT_def sample_tree_def)
qed

lemma sample_sane: "sane_floors sample_fabric"
  by (simp add: sane_floors_def sample_fabric_def)


theorem derive_succeeds_iff_witness:
  "(\<exists>t. derive \<lparr>v_fabric = sample_fabric, v_member = sample_nas\<rparr> ''eno1'' None (\<lambda>w. False) = Ok t)"
proof -
  have "zone_of sample_fabric ''storage'' = Ok (hd (fab_zones sample_fabric))" "zone_dscp (hd (fab_zones sample_fabric)) = Cs0"
    by (simp_all add: zone_of_def ok_or_def sample_fabric_def)
  then show ?thesis
    using derive_succeeds_iff [OF sample_accepted, of sample_nas "''eno1''" None "\<lambda>w. False"]
    by (simp add: sample_fabric_members sample_rows sample_row_a_def)
qed

theorem bulk_floor_on_one_wire_witness:
  "\<exists>rows. class_rows_of sample_fabric sample_h1 = Ok rows \<and> best_up rows ''storage'' (\<lambda>w. True) ''eth0'' \<and>
     (\<exists>!w. best_up rows ''storage'' (\<lambda>w. True) w)"
  using bulk_floor_on_one_wire [OF sample_accepted _ sample_tree_eq [of "\<lambda>w. True"], of "t_bands sample_tree ! 1"]
  by (simp add: sample_fabric_members sample_rows) (auto simp: sample_tree_def sample_row_a_def split: if_splits)

end
