(* ===== verification/Shape_Record.thy ===== *)
theory Shape_Record
  imports Shape_Tree Text_Scan Ordered_Map
begin

text \<open>
  The record of an applied shape (\<open>src/src/emit/shape.rs\<close>, \<open>ShapeApplied\<close>): the text the shape
  daemon publishes after a reconvergence and the strict reader \<open>status\<close> uses on it. The wires are
  a \<open>BTreeMap\<close> by device name.
\<close>

datatype AppliedWire = Shaped "(string \<times> string) list" | NoCarrier | Failed string

record ShapeApplied =
  sa_tick :: u64
  sa_wires :: "(string, AppliedWire) omap"

definition APPLIED_HEADER :: string where "APPLIED_HEADER = ''cfab-shape-applied 1''"

fun render_applied :: "string \<times> AppliedWire \<Rightarrow> string" where
  "render_applied (dev, Shaped classes) =
     ''dev '' @ dev @ '' shaped'' @ concat (map (\<lambda>(cid, rate). '' '' @ cid @ ''='' @ rate) classes) @ [CHR 0x0A]"
| "render_applied (dev, NoCarrier) = ''dev '' @ dev @ '' no-carrier'' @ [CHR 0x0A]"
| "render_applied (dev, Failed msg) =
     ''dev '' @ dev @ '' failed '' @ map (\<lambda>c. if c = CHR 0x0A then CHR '' '' else c) msg @ [CHR 0x0A]"

definition render_record :: "ShapeApplied \<Rightarrow> string" where
  "render_record r =
     APPLIED_HEADER @ [CHR 0x0A] @ ''tick '' @ dec (unat (sa_tick r)) @ [CHR 0x0A] @
     concat (map render_applied (sa_wires r))"

datatype RecordError = BadHeader | BadTick | BadLine string | BadClass string

definition parse_applied :: "string \<Rightarrow> string \<Rightarrow> (RecordError, AppliedWire) outcome" where
  "parse_applied line rest =
     (if rest = ''no-carrier'' then Ok NoCarrier
      else case strip_prefix ''failed '' rest of
        Some msg \<Rightarrow> Ok (Failed msg)
      | None \<Rightarrow>
          (case strip_prefix ''shaped'' rest of
             Some spec \<Rightarrow>
               and_then (map_out (\<lambda>tok. ok_or (BadClass tok) (split_once (CHR ''='') tok)) (split_whitespace spec))
                 (\<lambda>classes. Ok (Shaped classes))
           | None \<Rightarrow> Err (BadLine line)))"

fun parse_wires :: "(string, AppliedWire) omap \<Rightarrow> string list \<Rightarrow> (RecordError, (string, AppliedWire) omap) outcome" where
  "parse_wires wires [] = Ok wires"
| "parse_wires wires (line # ls) =
     (if trim_text line = [] then parse_wires wires ls
      else and_then (ok_or (BadLine line) (strip_prefix ''dev '' line)) (\<lambda>rest.
           and_then (ok_or (BadLine line) (split_once (CHR '' '') rest)) (\<lambda>(dev, rest).
           and_then (parse_applied line rest) (\<lambda>w. parse_wires (om_insert dev w wires) ls))))"

definition parse_tick :: "string list \<Rightarrow> u64 option" where
  "parse_tick ls =
     Option.bind (case ls of [] \<Rightarrow> None | l # _ \<Rightarrow> strip_prefix ''tick '' l) (\<lambda>v.
       map_option word_of_nat (parse_uint (2 ^ 64 - 1) (trim_text v)))"

definition parse_record :: "string \<Rightarrow> (RecordError, ShapeApplied) outcome" where
  "parse_record text =
     (case str_lines text of
        [] \<Rightarrow> Err BadHeader
      | header # ls \<Rightarrow>
          and_then (refuse (header \<noteq> APPLIED_HEADER) BadHeader) (\<lambda>_.
          and_then (ok_or BadTick (parse_tick ls)) (\<lambda>tick.
          and_then (parse_wires [] (tl ls)) (\<lambda>wires. Ok \<lparr>sa_tick = tick, sa_wires = wires\<rparr>))))"

section \<open>Reading a record back\<close>

text \<open>A device name is one word of one line, and a class is a word with one \<open>=\<close> after the id.\<close>

definition class_words :: "(string \<times> string) list \<Rightarrow> bool" where
  "class_words classes \<longleftrightarrow>
     list_all (\<lambda>(cid, rate). list_all visible cid \<and> list_all visible rate \<and> CHR ''='' \<notin> set cid) classes"

fun wire_words :: "string \<times> AppliedWire \<Rightarrow> bool" where
  "wire_words (dev, w) \<longleftrightarrow> CHR '' '' \<notin> set dev \<and> CHR 0x0A \<notin> set dev \<and>
     (case w of Shaped classes \<Rightarrow> class_words classes | _ \<Rightarrow> True)"

definition recordable :: "ShapeApplied \<Rightarrow> bool" where
  "recordable r \<longleftrightarrow> om_ok (sa_wires r) \<and> list_all wire_words (sa_wires r)"

fun as_read :: "AppliedWire \<Rightarrow> AppliedWire" where
  "as_read (Failed msg) = Failed (strip_cr (map (\<lambda>c. if c = CHR 0x0A then CHR '' '' else c) msg))"
| "as_read w = w"

lemma om_insert_last: "om_ok (m @ [(k, v)]) \<Longrightarrow> om_insert k v m = m @ [(k, v)]"
  by (induction m) (auto simp: om_ok_def)

lemma class_words_simps [simp]:
  "class_words []"
  "class_words ((cid, rate) # cs) \<longleftrightarrow> list_all visible cid \<and> list_all visible rate \<and> CHR ''='' \<notin> set cid \<and> class_words cs"
  by (simp_all add: class_words_def)

definition classes_text :: "(string \<times> string) list \<Rightarrow> string" where
  "classes_text cs = concat (map (\<lambda>(cid, rate). '' '' @ cid @ ''='' @ rate) cs)"

lemma classes_text_chars: "class_words cs \<Longrightarrow> c \<in> set (classes_text cs) \<Longrightarrow> visible c \<or> c = CHR '' ''"
  unfolding classes_text_def class_words_def
  by (fastforce simp: list_all_iff visible_def [of "CHR ''=''"])

lemma parse_classes:
  "class_words classes \<Longrightarrow>
     map_out (\<lambda>tok. ok_or (BadClass tok) (split_once (CHR ''='') tok)) (split_whitespace (classes_text classes)) = Ok classes"
proof (induction classes)
  case (Cons p classes)
  obtain cid rate where p: "p = (cid, rate)"
    by (cases p)
  have "classes_text classes = [] \<or> hd (classes_text classes) = CHR '' ''"
    by (cases classes) (auto simp: classes_text_def)
  moreover have "list_all visible (cid @ ''='' @ rate)"
    using Cons.prems p by (simp add: visible_def [of "CHR ''=''"])
  ultimately have token: "split_whitespace (CHR '' '' # (cid @ ''='' @ rate) @ classes_text classes) =
      (cid @ ''='' @ rate) # split_whitespace (classes_text classes)"
    by (intro split_whitespace_word) auto
  have "split_once (CHR ''='') (cid @ ''='' @ rate) = Some (cid, rate)"
    using Cons.prems p by (simp add: split_once_append)
  moreover have "classes_text (p # classes) = CHR '' '' # (cid @ ''='' @ rate) @ classes_text classes"
    by (simp add: classes_text_def p)
  ultimately show ?case
    using token Cons p by (simp add: ok_or_def)
qed (simp add: classes_text_def split_whitespace_def split_ws.simps cut_None)

text \<open>What the reader makes of one printed line.\<close>

definition applied_rest :: "AppliedWire \<Rightarrow> string" where
  "applied_rest w =
     (case w of
        Shaped classes \<Rightarrow> ''shaped'' @ classes_text classes
      | NoCarrier \<Rightarrow> ''no-carrier''
      | Failed msg \<Rightarrow> ''failed '' @ map (\<lambda>c. if c = CHR 0x0A then CHR '' '' else c) msg)"

lemma render_applied_line: "render_applied (dev, w) = (''dev '' @ dev @ '' '' @ applied_rest w) @ CHR 0x0A # []"
  by (cases w) (simp_all add: applied_rest_def classes_text_def)

lemma strip_cr_append: "b \<noteq> [] \<Longrightarrow> strip_cr (a @ b) = a @ strip_cr b"
  by (auto simp: strip_cr_def butlast_append)

lemma applied_rest_no_newline:
  assumes "wire_words (dev, w)"
  shows "CHR 0x0A \<notin> set (applied_rest w)"
  using assms by (cases w) (auto simp: applied_rest_def visible_def dest!: classes_text_chars)

lemma parse_applied_rest:
  assumes "wire_words (dev, w)"
  shows "parse_applied line (strip_cr (applied_rest w)) = Ok (as_read w)"
proof (cases w)
  case (Shaped classes)
  have "CHR 0x0D \<notin> set (applied_rest w)"
    using assms Shaped by (auto simp: applied_rest_def visible_def dest!: classes_text_chars)
  then have "strip_cr (applied_rest w) = applied_rest w"
    by (metis last_in_set strip_cr_keep)
  then show ?thesis
    using assms Shaped parse_classes [of classes]
    by (auto simp: parse_applied_def applied_rest_def strip_prefix_def)
next
  case NoCarrier
  then show ?thesis
    by (simp add: parse_applied_def applied_rest_def strip_cr_def)
next
  case (Failed msg)
  let ?msg = "map (\<lambda>c. if c = CHR 0x0A then CHR '' '' else c) msg"
  have "strip_cr (''failed '' @ ?msg) = ''failed '' @ strip_cr ?msg"
    by (cases msg) (simp_all add: strip_cr_append del: append.simps, simp add: strip_cr_def)
  then show ?thesis
    by (simp add: Failed parse_applied_def applied_rest_def strip_prefix_def)
qed

lemma parse_printed_wires:
  assumes "om_ok (m @ ws)" "list_all wire_words ws"
  shows "parse_wires (map (\<lambda>(dev, w). (dev, as_read w)) m) (str_lines (concat (map render_applied ws))) =
    Ok (map (\<lambda>(dev, w). (dev, as_read w)) (m @ ws))"
  using assms
proof (induction ws arbitrary: m)
  case (Cons p ws)
  obtain dev w where p: "p = (dev, w)"
    by (cases p)
  let ?line = "''dev '' @ dev @ '' '' @ applied_rest w"
  have ok: "wire_words (dev, w)"
    using Cons.prems(2) p by simp
  have "applied_rest w \<noteq> []"
    by (cases w) (simp_all add: applied_rest_def)
  then have cr: "strip_cr ?line = ''dev '' @ dev @ '' '' @ strip_cr (applied_rest w)"
    using strip_cr_append [of "applied_rest w" "''dev '' @ dev @ '' ''"] by simp
  define l where "l = strip_cr ?line"
  have "str_lines (concat (map render_applied (p # ws))) = l # str_lines (concat (map render_applied ws))"
    using str_lines_line [of ?line] ok applied_rest_no_newline [OF ok] by (simp add: p render_applied_line l_def)
  moreover have "trim_text l \<noteq> []"
    unfolding l_def cr by (intro trim_text_nonempty [of "CHR ''d''"]) (simp_all add: visible_def)
  moreover have "strip_prefix ''dev '' l = Some (dev @ '' '' @ strip_cr (applied_rest w))"
    unfolding l_def cr by (rule strip_prefix_append)
  moreover have "split_once (CHR '' '') (dev @ '' '' @ strip_cr (applied_rest w)) = Some (dev, strip_cr (applied_rest w))"
    using split_once_append [of "CHR '' ''" dev] ok by simp
  moreover have "om_insert dev (as_read w) (map (\<lambda>(dev, w). (dev, as_read w)) m) = map (\<lambda>(dev, w). (dev, as_read w)) (m @ [(dev, w)])"
    using Cons.prems(1) p om_insert_last [of "map (\<lambda>(dev, w). (dev, as_read w)) m" dev "as_read w"]
    by (simp add: om_ok_def comp_def case_prod_beta sorted_wrt_append)
  moreover have "parse_wires (map (\<lambda>(dev, w). (dev, as_read w)) (m @ [(dev, w)])) (str_lines (concat (map render_applied ws))) =
      Ok (map (\<lambda>(dev, w). (dev, as_read w)) ((m @ [(dev, w)]) @ ws))"
    using Cons.prems p by (intro Cons.IH) auto
  ultimately show ?case
    using parse_applied_rest [OF ok, of l] by (simp add: ok_or_def p)
qed simp

lemma visible_dec: "list_all visible (dec n)"
  using set_dec [of n] by (auto simp: list_all_iff visible_def digit_def)

lemma parse_render_record:
  assumes "recordable r"
  shows "parse_record (render_record r) = Ok (r\<lparr>sa_wires := map (\<lambda>(dev, w). (dev, as_read w)) (sa_wires r)\<rparr>)"
proof -
  let ?tick = "dec (unat (sa_tick r))"
  have digits: "list_all visible ?tick"
    by (rule visible_dec)
  have "CHR 0x0D \<notin> set ?tick" "CHR 0x0A \<notin> set ?tick"
    using digits by (auto simp: list_all_iff visible_def)
  moreover from this have "strip_cr ?tick = ?tick"
    by (intro strip_cr_keep) (metis dec_nonempty last_in_set)
  ultimately have "strip_cr (''tick '' @ ?tick) = ''tick '' @ ?tick" "CHR 0x0A \<notin> set (''tick '' @ ?tick)"
    by (simp_all add: strip_cr_append del: append.simps)
  moreover have "strip_cr APPLIED_HEADER = APPLIED_HEADER" "CHR 0x0A \<notin> set APPLIED_HEADER"
    by (simp_all add: APPLIED_HEADER_def strip_cr_def)
  ultimately have lines: "str_lines (render_record r) =
      APPLIED_HEADER # (''tick '' @ ?tick) # str_lines (concat (map render_applied (sa_wires r)))"
    using str_lines_line [of APPLIED_HEADER] str_lines_line [of "''tick '' @ ?tick"] by (simp add: render_record_def)
  have "parse_tick ((''tick '' @ ?tick) # ls) = Some (sa_tick r)" for ls
    using digits unsigned_less [of "sa_tick r", where 'a = nat]
    by (simp add: parse_tick_def trim_text_visible parse_uint_dec strip_prefix_def)
  moreover have "parse_wires [] (str_lines (concat (map render_applied (sa_wires r)))) =
      Ok (map (\<lambda>(dev, w). (dev, as_read w)) (sa_wires r))"
    using parse_printed_wires [of "[]" "sa_wires r"] assms by (simp add: recordable_def)
  ultimately show ?thesis
    by (simp add: parse_record_def lines refuse_def ok_or_def)
qed

text \<open>C35: the shape record is read back as it was written. For devices whose names are words and
  classes as the trees print them, the strict reader returns the tick, every device exactly once
  and its outcome; a failure message that holds newlines stays on its line and forges no other
  device, and comes back with spaces for them (and without a final carriage return).\<close>

theorem shape_record_roundtrip:
  "recordable r \<Longrightarrow> parse_record (render_record r) = Ok (r\<lparr>sa_wires := map (\<lambda>(dev, w). (dev, as_read w)) (sa_wires r)\<rparr>)"
  by (rule parse_render_record)

text \<open>The classes a tree reports are such words.\<close>

lemma applied_class_words: "class_words (applied_classes t)"
proof -
  have "CHR ''='' \<notin> set (dec n)" for n
  proof
    assume "CHR ''='' \<in> set (dec n)"
    then obtain k :: nat where "k < 10" "CHR ''='' = char_of (48 + k)"
      using set_dec [of n] by (auto simp: digit_def)
    then have "of_char (CHR ''='') = (48 + k) mod 256"
      by (metis of_char_of)
    then show False
      using \<open>k < 10\<close> by simp
  qed
  moreover have "list_all visible (rate_token r)" for r
    by (simp add: rate_token_def visible_dec) (simp add: visible_def)
  moreover have "visible (CHR ''1'')" "visible (CHR '':'')"
    by (simp_all add: visible_def)
  ultimately show ?thesis
    by (auto simp: applied_classes_def class_words_def list_all_iff [of _ "map _ _"] visible_dec)
qed

definition sample_record :: ShapeApplied where
  "sample_record = \<lparr>sa_tick = 1700000000,
     sa_wires = [(''eth0'', Shaped [(''1:10'', ''94Mbit''), (''1:20'', ''4Gbit'')]), (''eth1'', NoCarrier),
       (''eth2'', Failed [CHR ''x'', CHR 0x0A, CHR ''y''])]\<rparr>"

theorem shape_record_roundtrip_witness:
  "parse_record (render_record sample_record) = Ok \<lparr>sa_tick = 1700000000,
     sa_wires = [(''eth0'', Shaped [(''1:10'', ''94Mbit''), (''1:20'', ''4Gbit'')]), (''eth1'', NoCarrier),
       (''eth2'', Failed ''x y'')]\<rparr>"
proof -
  have "recordable sample_record"
    by (simp add: recordable_def om_ok_def sample_record_def visible_def)
  from shape_record_roundtrip [OF this] show ?thesis
    by (simp add: sample_record_def strip_cr_def)
qed

end
