(* ===== verification/Sys_World.thy ===== *)
theory Sys_World
  imports Host_Io Outcome Text_Scan
begin

text \<open>
  The system boundary (\<open>src/src/sys.rs\<close>): the \<open>Sys\<close> trait every command goes through. The model
  keeps what was asked of the system, in order, and takes the answers from an arbitrary
  environment: the answer to a request may depend on how many requests went before it, so files,
  carriers and command outcomes may change at any moment. What is printed for the operator is
  not modelled.
\<close>

datatype SysOp =
    RunOp "string list"
  | ReadOp string
  | WriteOp string string
  | RenameOp string string
  | RemoveOp string
  | MkdirOp string
  | SleepOp duration
  | ListOp string
  | ExistsOp string
  | LinkOp string
  | RequestOp string string

datatype Reading = Content string | Absent | Unreadable

record Sys =
  ops :: "SysOp list"
  run_answer :: "nat \<Rightarrow> string list \<Rightarrow> Output option"
  read_answer :: "nat \<Rightarrow> string \<Rightarrow> Reading"
  done_answer :: "nat \<Rightarrow> SysOp \<Rightarrow> bool"
  list_answer :: "nat \<Rightarrow> string \<Rightarrow> string list option"
  exists_answer :: "nat \<Rightarrow> string \<Rightarrow> bool"
  link_answer :: "nat \<Rightarrow> string \<Rightarrow> string option"
  request_answer :: "nat \<Rightarrow> string \<Rightarrow> string \<Rightarrow> string + string"

definition log_op :: "SysOp \<Rightarrow> Sys \<Rightarrow> Sys" where
  "log_op p s = s\<lparr>ops := ops s @ [p]\<rparr>"

text \<open>\<open>Sys::run\<close>: \<open>None\<close> is an exec that failed.\<close>

definition sys_run :: "string list \<Rightarrow> Sys \<Rightarrow> Output option \<times> Sys" where
  "sys_run argv s = (run_answer s (length (ops s)) argv, log_op (RunOp argv) s)"

definition sys_reading :: "string \<Rightarrow> Sys \<Rightarrow> Reading \<times> Sys" where
  "sys_reading path s = (read_answer s (length (ops s)) path, log_op (ReadOp path) s)"

definition sys_read :: "string \<Rightarrow> Sys \<Rightarrow> string option \<times> Sys" where
  "sys_read path s =
     (let (r, s) = sys_reading path s in (case r of Content t \<Rightarrow> Some t | _ \<Rightarrow> None, s))"

definition sys_do :: "SysOp \<Rightarrow> Sys \<Rightarrow> bool \<times> Sys" where
  "sys_do p s = (done_answer s (length (ops s)) p, log_op p s)"

definition sys_write :: "string \<Rightarrow> string \<Rightarrow> Sys \<Rightarrow> bool \<times> Sys" where
  "sys_write path content = sys_do (WriteOp path content)"

definition sys_rename :: "string \<Rightarrow> string \<Rightarrow> Sys \<Rightarrow> bool \<times> Sys" where
  "sys_rename a b = sys_do (RenameOp a b)"

definition sys_remove :: "string \<Rightarrow> Sys \<Rightarrow> bool \<times> Sys" where
  "sys_remove path = sys_do (RemoveOp path)"

definition sys_mkdir_p :: "string \<Rightarrow> Sys \<Rightarrow> bool \<times> Sys" where
  "sys_mkdir_p path = sys_do (MkdirOp path)"

definition sys_sleep :: "duration \<Rightarrow> Sys \<Rightarrow> Sys" where
  "sys_sleep d s = log_op (SleepOp d) s"

definition sys_list_dir :: "string \<Rightarrow> Sys \<Rightarrow> string list option \<times> Sys" where
  "sys_list_dir path s = (list_answer s (length (ops s)) path, log_op (ListOp path) s)"

definition sys_exists :: "string \<Rightarrow> Sys \<Rightarrow> bool \<times> Sys" where
  "sys_exists path s = (exists_answer s (length (ops s)) path, log_op (ExistsOp path) s)"

definition sys_read_link :: "string \<Rightarrow> Sys \<Rightarrow> string option \<times> Sys" where
  "sys_read_link path s = (link_answer s (length (ops s)) path, log_op (LinkOp path) s)"

text \<open>\<open>Sys::unix_request\<close>: \<open>Inl\<close> is the error's text.\<close>

definition unix_request :: "string \<Rightarrow> string \<Rightarrow> Sys \<Rightarrow> (string + string) \<times> Sys" where
  "unix_request path line s = (request_answer s (length (ops s)) path line, log_op (RequestOp path line) s)"

definition run_ignore :: "string list \<Rightarrow> Sys \<Rightarrow> bool \<times> Sys" where
  "run_ignore argv s = (let (out, s) = sys_run argv s in (out \<noteq> None, s))"

text \<open>\<open>Iterator::any\<close> and \<open>filter\<close> with a closure that reads the system: \<open>any\<close> stops at the first hit.\<close>

fun sys_any :: "('a \<Rightarrow> Sys \<Rightarrow> bool \<times> Sys) \<Rightarrow> 'a list \<Rightarrow> Sys \<Rightarrow> bool \<times> Sys" where
  "sys_any p [] s = (False, s)"
| "sys_any p (x # xs) s = (let (b, s) = p x s in if b then (True, s) else sys_any p xs s)"

fun sys_filter :: "('a \<Rightarrow> Sys \<Rightarrow> bool \<times> Sys) \<Rightarrow> 'a list \<Rightarrow> Sys \<Rightarrow> 'a list \<times> Sys" where
  "sys_filter p [] s = ([], s)"
| "sys_filter p (x # xs) s =
     (let (b, s) = p x s; (ys, s) = sys_filter p xs s in (if b then x # ys else ys, s))"

lemma sys_any_cong [fundef_cong]:
  "xs = ys \<Longrightarrow> s = t \<Longrightarrow> (\<And>x u. x \<in> set ys \<Longrightarrow> p x u = q x u) \<Longrightarrow> sys_any p xs s = sys_any q ys t"
proof (induction xs arbitrary: ys s t)
  case (Cons x xs)
  then show ?case
    by (cases ys) (auto split: prod.splits)
qed auto

section \<open>Requests are only added\<close>

text \<open>A call adds requests that satisfy \<open>P\<close> to those before it and leaves the environment alone.\<close>

definition adds :: "(SysOp \<Rightarrow> bool) \<Rightarrow> Sys \<Rightarrow> Sys \<Rightarrow> bool" where
  "adds P s s' \<longleftrightarrow> (\<exists>ps. list_all P ps \<and> s' = s\<lparr>ops := ops s @ ps\<rparr>)"

lemma adds_refl [simp]: "adds P s s"
  by (auto simp: adds_def intro!: exI [of _ "[]"])

lemma adds_trans [trans]: "adds P s t \<Longrightarrow> adds P t u \<Longrightarrow> adds P s u"
proof -
  assume "adds P s t" "adds P t u"
  then obtain ps qs where "list_all P ps" "t = s\<lparr>ops := ops s @ ps\<rparr>" "list_all P qs" "u = t\<lparr>ops := ops t @ qs\<rparr>"
    by (auto simp: adds_def)
  then have "list_all P (ps @ qs)" "u = s\<lparr>ops := ops s @ ps @ qs\<rparr>"
    by simp_all
  then show "adds P s u"
    unfolding adds_def by blast
qed

lemma adds_log_op [simp]: "adds P s (log_op p s) \<longleftrightarrow> P p"
  by (auto simp: adds_def log_op_def intro!: exI [of _ "[p]"] dest!: arg_cong [where f = ops])

lemma adds_log: "adds P s t \<Longrightarrow> P p \<Longrightarrow> adds P s (log_op p t)"
  using adds_trans [of P s t "log_op p t"] by simp

lemma adds_mono: "adds P s t \<Longrightarrow> (\<And>p. P p \<Longrightarrow> Q p) \<Longrightarrow> adds Q s t"
  by (auto simp: adds_def list_all_iff)

lemma adds_calls:
  "sys_run argv s = (out, s') \<Longrightarrow> P (RunOp argv) \<Longrightarrow> adds P s s'"
  "run_ignore argv s = (b, s') \<Longrightarrow> P (RunOp argv) \<Longrightarrow> adds P s s'"
  "sys_read path s = (r, s') \<Longrightarrow> P (ReadOp path) \<Longrightarrow> adds P s s'"
  "sys_do p s = (b, s') \<Longrightarrow> P p \<Longrightarrow> adds P s s'"
  "sys_list_dir path s = (names, s') \<Longrightarrow> P (ListOp path) \<Longrightarrow> adds P s s'"
  "sys_exists path s = (b, s') \<Longrightarrow> P (ExistsOp path) \<Longrightarrow> adds P s s'"
  "sys_read_link path s = (l, s') \<Longrightarrow> P (LinkOp path) \<Longrightarrow> adds P s s'"
  "unix_request path line s = (a, s') \<Longrightarrow> P (RequestOp path line) \<Longrightarrow> adds P s s'"
  by (auto simp: sys_list_dir_def sys_exists_def sys_read_link_def unix_request_def sys_run_def run_ignore_def sys_read_def sys_reading_def sys_do_def split: prod.splits)

lemma adds_any:
  assumes "\<And>x u b u'. x \<in> set xs \<Longrightarrow> p x u = (b, u') \<Longrightarrow> adds P u u'"
  shows "sys_any p xs s = (b, s') \<Longrightarrow> adds P s s'"
  using assms
proof (induction xs arbitrary: s b)
  case (Cons x xs)
  obtain c t where p: "p x s = (c, t)"
    by (cases "p x s")
  have "adds P s t"
    by (rule Cons.prems(2) [OF _ p]) simp
  moreover have "adds P t s'"
    using Cons.prems Cons.IH [of t b] p by (auto split: if_splits)
  ultimately show ?case
    by (rule adds_trans)
qed simp

lemma adds_filter:
  assumes "\<And>x u b u'. x \<in> set xs \<Longrightarrow> p x u = (b, u') \<Longrightarrow> adds P u u'"
  shows "sys_filter p xs s = (ys, s') \<Longrightarrow> adds P s s'"
  using assms
proof (induction xs arbitrary: s ys s')
  case (Cons x xs)
  obtain c t where p: "p x s = (c, t)"
    by (cases "p x s")
  obtain zs u where q: "sys_filter p xs t = (zs, u)"
    by (cases "sys_filter p xs t")
  have "adds P s t"
    by (rule Cons.prems(2) [OF _ p]) simp
  moreover have "adds P t u"
    by (rule Cons.IH [OF q]) (rule Cons.prems(2), auto)
  moreover have "u = s'"
    using Cons.prems(1) p q by auto
  ultimately show ?case
    by (blast intro: adds_trans)
qed simp

end
