(* ===== verification/Shape_Daemon.thy ===== *)
theory Shape_Daemon
  imports Shape_Floors Shape_Record Sys_World
begin

text \<open>
  The shape daemon (\<open>src/src/commands/shape_daemon.rs\<close>) and the chain of measured capacities it
  reads (\<open>src/src/caps.rs\<close>, with the probe of \<open>src/src/cluster.rs\<close>): the debounced event loop, one
  reconvergence, the record it publishes and the tear-down. The JSON reader behind the probe and
  the text of an error are arguments.
\<close>

section \<open>The capacity of a wire\<close>

record ClusterInfo =
  ci_name :: string
  ci_version :: u64
  ci_nodes :: u64
  ci_quorate :: bool

record Node =
  nd_id :: u64
  nd_online :: bool
  nd_ip :: "string option"

record Members =
  ms_nodename :: string
  ms_version :: u64
  ms_cluster :: "ClusterInfo option"
  ms_nodelist :: "(string, Node) omap"

record Pmxcfs =
  pmx_root :: string

definition pmx_new :: Pmxcfs where "pmx_new = \<lparr>pmx_root = ''/etc/pve''\<rparr>"

definition members_path :: "Pmxcfs \<Rightarrow> string" where "members_path p = pmx_root p @ ''/.members''"

definition cfab_dir :: "Pmxcfs \<Rightarrow> string" where "cfab_dir p = pmx_root p @ ''/cfab''"

definition caps_dir :: "Pmxcfs \<Rightarrow> string" where "caps_dir p = cfab_dir p @ ''/caps''"

definition member_caps_dir :: "Pmxcfs \<Rightarrow> string \<Rightarrow> string" where
  "member_caps_dir p member = caps_dir p @ ''/'' @ member"

definition cap_path :: "Pmxcfs \<Rightarrow> string \<Rightarrow> string \<Rightarrow> string" where
  "cap_path p member dev = member_caps_dir p member @ ''/cap-'' @ dev"

text \<open>\<open>Pmxcfs::probe\<close>: \<open>None\<close> is an error, \<open>Some None\<close> no pmxcfs.\<close>

definition pmx_probe :: "(string \<Rightarrow> Members option) \<Rightarrow> Pmxcfs \<Rightarrow> Sys \<Rightarrow> Members option option \<times> Sys" where
  "pmx_probe parse_members p s =
     (let (r, s) = sys_reading (members_path p) s in
      (case r of
         Content json \<Rightarrow> map_option Some (parse_members json)
       | Absent \<Rightarrow> Some None
       | Unreadable \<Rightarrow> None, s))"

definition positive :: "string \<Rightarrow> u64 option" where
  "positive text =
     Option.bind (parse_uint (2 ^ 64 - 1) (trim_text text)) (\<lambda>n. if 0 < n then Some (word_of_nat n) else None)"

definition read_cap ::
    "(string \<Rightarrow> Members option) \<Rightarrow> Pmxcfs \<Rightarrow> string \<Rightarrow> string \<Rightarrow> string \<Rightarrow> Sys \<Rightarrow> u64 option \<times> Sys" where
  "read_cap parse_members p member run_dir dev s =
     (let local = run_dir @ ''/cap-'' @ dev;
          (text, s) = sys_read local s in
      case text of
        Some t \<Rightarrow> (positive t, s)
      | None \<Rightarrow>
          (let (m, s) = pmx_probe parse_members p s in
           if \<exists>mem c. m = Some (Some mem) \<and> ms_cluster mem = Some c then
             (let (text, s) = sys_read (cap_path p member dev) s in
              case Option.bind text positive of
                None \<Rightarrow> (None, s)
              | Some v \<Rightarrow>
                  (let (made, s) = sys_mkdir_p run_dir s;
                       s = (if made then snd (sys_write local (dec (unat v) @ [CHR 0x0A]) s) else s) in
                   (Some v, s)))
           else (None, s)))"

section \<open>The event loop\<close>

datatype RecvEvent = Line string | Timeout | Disconnected

fun contains_text :: "string \<Rightarrow> string \<Rightarrow> bool" where
  "contains_text p [] \<longleftrightarrow> p = []"
| "contains_text p (c # s) \<longleftrightarrow> take (length p) (c # s) = p \<or> contains_text p s"

definition touches :: "string list \<Rightarrow> string \<Rightarrow> bool" where
  "touches devs line \<longleftrightarrow> (\<exists>d\<in>set devs. contains_text (d @ '':'') line \<or> contains_text (d @ ''@'') line)"

text \<open>The loop over a finite prefix of what the channel delivers, each event with the answer of
  \<open>stop\<close> before it. The first component says whether the loop has returned.\<close>

fun event_loop :: "string list \<Rightarrow> ('s \<Rightarrow> 's) \<Rightarrow> bool \<Rightarrow> (bool \<times> RecvEvent) list \<Rightarrow> 's \<Rightarrow> bool \<times> bool \<times> 's" where
  "event_loop devs apply pending [] s = (False, pending, s)"
| "event_loop devs apply pending ((stop, ev) # evs) s =
     (if stop then (True, pending, s)
      else case ev of
        Line line \<Rightarrow> event_loop devs apply (pending \<or> touches devs line) evs s
      | Timeout \<Rightarrow> if pending then event_loop devs apply False evs (apply s) else event_loop devs apply False evs s
      | Disconnected \<Rightarrow> (True, pending, s))"

definition transitions :: "string list option \<Rightarrow> string list \<Rightarrow> string list \<Rightarrow> string list" where
  "transitions prev now devs =
     (let out = List.map_filter (\<lambda>d.
        let was = map_option (\<lambda>p. d \<in> set p) prev; is_up = d \<in> set now; wire = ''shape-daemon: wire '' @ d in
        case (was, is_up) of
          (None, False) \<Rightarrow> Some (wire @ '' DOWN at start'')
        | (Some False, True) \<Rightarrow> Some (wire @ '' UP'')
        | (Some True, False) \<Rightarrow> Some (wire @ '' DOWN'')
        | _ \<Rightarrow> None) devs in
      if prev \<noteq> None \<and> out = []
      then [''shape-daemon: link event on fabric wires, up-set unchanged (flap?)''] else out)"

section \<open>One reconvergence\<close>

fun read_up :: "string list \<Rightarrow> Sys \<Rightarrow> string list \<times> Sys" where
  "read_up [] s = ([], s)"
| "read_up (d # ds) s =
     (let (text, s) = sys_read (''/sys/class/net/'' @ d @ ''/carrier'') s;
          (up, s) = read_up ds s in
      (if (case text of Some t \<Rightarrow> trim_text t = ''1'' | None \<Rightarrow> False) then d # up else up, s))"

text \<open>The tc program: a failing exec stops the reconvergence, a failing command does not.\<close>

fun run_program :: "(string list \<times> bool) list \<Rightarrow> Sys \<Rightarrow> bool \<times> Sys" where
  "run_program [] s = (True, s)"
| "run_program ((argv, ignore_err) # cmds) s =
     (let (out, s) = sys_run argv s in if out = None then (False, s) else run_program cmds s)"

record Config =
  cf_view :: View
  cf_parse_members :: "string \<Rightarrow> Members option"
  cf_display :: "Error \<Rightarrow> string"

definition wire_cap :: "Config \<Rightarrow> string \<Rightarrow> Sys \<Rightarrow> u64 option \<times> Sys" where
  "wire_cap cf dev =
     read_cap (cf_parse_members cf) pmx_new (mem_name (v_member (cf_view cf))) (fab_run_dir (v_fabric (cf_view cf))) dev"

fun shape_wires ::
    "Config \<Rightarrow> string list \<Rightarrow> string list \<Rightarrow> (string, AppliedWire) omap \<Rightarrow> Sys \<Rightarrow> (string, AppliedWire) omap option \<times> Sys" where
  "shape_wires cf up [] wires s = (Some wires, s)"
| "shape_wires cf up (dev # devs) wires s =
     (let (measured, s) = wire_cap cf dev s in
      case derive (cf_view cf) dev measured (\<lambda>w. w \<in> set up) of
        Ok t \<Rightarrow>
          (let wires = om_insert dev (Shaped (applied_classes t)) wires;
               (going, s) = run_program (tc_argv t) s in
           if going then shape_wires cf up devs wires s else (None, s))
      | Err e \<Rightarrow> shape_wires cf up devs (om_insert dev (Failed (cf_display cf e)) wires) s
      | Panic \<Rightarrow> (None, s))"

definition shape_applied_path :: "string \<Rightarrow> string" where
  "shape_applied_path run_dir = rev (dropWhile (\<lambda>c. c = CHR ''/'') (rev run_dir)) @ ''/shape.applied''"

definition write_record :: "Config \<Rightarrow> ShapeApplied \<Rightarrow> Sys \<Rightarrow> Sys" where
  "write_record cf r s =
     (let path = shape_applied_path (fab_run_dir (v_fabric (cf_view cf))); tmp = path @ ''.tmp'';
          (ok, s) = sys_write tmp (render_record r) s in
      if ok then snd (sys_rename tmp path s) else s)"

definition reconverge :: "Config \<Rightarrow> u64 \<Rightarrow> string list \<Rightarrow> Sys \<Rightarrow> string list option \<times> Sys" where
  "reconverge cf tick devs s =
     (let (up, s) = read_up devs s;
          wires = fold (\<lambda>d. om_insert d NoCarrier) (filter (\<lambda>d. d \<notin> set up) devs) [];
          (wires, s) = shape_wires cf up up wires s in
      case wires of
        None \<Rightarrow> (None, s)
      | Some ws \<Rightarrow> (Some up, write_record cf \<lparr>sa_tick = tick, sa_wires = ws\<rparr> s))"

section \<open>The daemon\<close>

fun teardown :: "string list \<Rightarrow> Sys \<Rightarrow> bool \<times> Sys" where
  "teardown [] s = (True, s)"
| "teardown (d # ds) s =
     (let (a, s) = run_ignore [''tc'', ''qdisc'', ''del'', ''dev'', d, ''root''] s in
      if \<not> a then (False, s)
      else let (b, s) = run_ignore [''tc'', ''qdisc'', ''replace'', ''dev'', d, ''root'', ''fq_codel''] s in
        if \<not> b then (False, s) else teardown ds s)"

definition teardown_record :: "Config \<Rightarrow> Sys \<Rightarrow> Sys" where
  "teardown_record cf s = snd (sys_remove (shape_applied_path (fab_run_dir (v_fabric (cf_view cf)))) s)"

text \<open>The life of the daemon. Wall-clock seconds come from \<open>dm_clock\<close>; installing the signal handler
  and spawning \<open>ip monitor link\<close> may fail.\<close>

record Daemon =
  dm_prev_up :: "string list option"
  dm_sys :: Sys
  dm_clock :: "nat \<Rightarrow> u64"
  dm_log :: "string list"

definition daemon_apply :: "Config \<Rightarrow> string list \<Rightarrow> Daemon \<Rightarrow> Daemon" where
  "daemon_apply cf devs dm =
     (let (r, s) = reconverge cf (dm_clock dm (length (ops (dm_sys dm)))) devs (dm_sys dm) in
      case r of
        None \<Rightarrow> dm\<lparr>dm_sys := s\<rparr>
      | Some up \<Rightarrow> dm\<lparr>dm_prev_up := Some up, dm_sys := s, dm_log := dm_log dm @ transitions (dm_prev_up dm) up devs\<rparr>)"

datatype DaemonExit = NoWiresHere | NoHandler | NoMonitor | StillRunning | TeardownFailed | TornDown

definition daemon_run ::
    "Config \<Rightarrow> bool \<Rightarrow> bool \<Rightarrow> (bool \<times> RecvEvent) list \<Rightarrow> string list \<Rightarrow> Daemon \<Rightarrow> DaemonExit \<times> Daemon" where
  "daemon_run cf handler_ok spawn_ok evs devs dm =
     (if devs = [] then (NoWiresHere, dm)
      else let dm = daemon_apply cf devs (dm\<lparr>dm_prev_up := None\<rparr>) in
        if \<not> handler_ok then (NoHandler, dm)
        else if \<not> spawn_ok then (NoMonitor, dm)
        else let (ended, _, dm) = event_loop devs (daemon_apply cf devs) False evs dm in
          if \<not> ended then (StillRunning, dm)
          else let (ok, s) = teardown devs (dm_sys dm) in
            if \<not> ok then (TeardownFailed, dm\<lparr>dm_sys := s\<rparr>)
            else (TornDown, dm\<lparr>dm_sys := teardown_record cf s\<rparr>))"

section \<open>Debouncing\<close>

text \<open>What the channel delivered, cut at the timeouts: the bursts that are over, and the open one.\<close>

fun bursts :: "string list \<Rightarrow> RecvEvent list \<Rightarrow> string list list \<times> string list" where
  "bursts acc [] = ([], acc)"
| "bursts acc (Line l # evs) = bursts (acc @ [l]) evs"
| "bursts acc (_ # evs) = (let (closed, open_burst) = bursts [] evs in (acc # closed, open_burst))"

lemma event_loop_bursts:
  assumes "list_all (\<lambda>(stop, ev). \<not> stop \<and> ev \<noteq> Disconnected) evs" "bursts acc (map snd evs) = (closed, left)"
  shows "event_loop devs apply (list_ex (touches devs) acc) evs s =
    (False, list_ex (touches devs) left, (apply ^^ length (filter (list_ex (touches devs)) closed)) s)"
  using assms
proof (induction evs arbitrary: acc closed s)
  case (Cons e evs)
  obtain stop ev where e: "e = (stop, ev)"
    by (cases e)
  show ?case
  proof (cases ev)
    case (Line l)
    then show ?thesis
      using Cons.prems Cons.IH [of "acc @ [l]" closed s] e by (simp add: list_ex_append)
  next
    case Timeout
    obtain rest where rest: "bursts [] (map snd evs) = (rest, left)" "closed = acc # rest"
      using Cons.prems Timeout e by (auto split: prod.splits)
    then show ?thesis
      using Cons.prems Cons.IH [of "[]" rest] Timeout e by (simp add: funpow_swap1)
  next
    case Disconnected
    then show ?thesis
      using Cons.prems e by simp
  qed
qed simp

text \<open>One reconvergence per burst. While the daemon is neither stopped nor cut off from \<open>ip
  monitor\<close>, it reconverges exactly once for every burst of link lines that names a fabric wire and
  is over (a quiet gap follows), never for a burst that names none, and a burst that is still open
  is remembered exactly when it names a wire.\<close>

theorem one_reconvergence_per_burst:
  assumes "list_all (\<lambda>(stop, ev). \<not> stop \<and> ev \<noteq> Disconnected) evs" "bursts [] (map snd evs) = (closed, left)"
  shows "event_loop devs (daemon_apply cf devs) False evs dm =
    (False, list_ex (touches devs) left, (daemon_apply cf devs ^^ length (filter (list_ex (touches devs)) closed)) dm)"
  using event_loop_bursts [OF assms, of devs "daemon_apply cf devs" dm] by simp

theorem one_reconvergence_per_burst_witness:
  "\<forall>cf dm. event_loop [''eth0''] (daemon_apply cf [''eth0'']) False
     [(False, Line ''2: eth0: <UP>''), (False, Line ''3: eth0: <DOWN>''), (False, Timeout), (False, Line ''7: tap1: <UP>''), (False, Timeout)] dm =
   (False, False, daemon_apply cf [''eth0''] dm)"
  using one_reconvergence_per_burst [of
      "[(False, Line ''2: eth0: <UP>''), (False, Line ''3: eth0: <DOWN>''), (False, Timeout), (False, Line ''7: tap1: <UP>''), (False, Timeout)]"
      "[[''2: eth0: <UP>'', ''3: eth0: <DOWN>''], [''7: tap1: <UP>'']]" "[]" "[''eth0'']"]
  by (simp add: touches_def)

end
