(* ===== verification/Shape_Reconverge.thy ===== *)
theory Shape_Reconverge
  imports Shape_Daemon
begin

text \<open>
  What the shape daemon asks of the system: a reconvergence runs the whole program of every wire
  that is up and publishes a record that says exactly that, nothing but the fabric's wires is ever
  shaped, and a daemon that ends puts every wire back.
\<close>

section \<open>The requests of a reconvergence\<close>

text \<open>The requests the daemon may make for a set of wires.\<close>

definition record_path :: "Config \<Rightarrow> string" where
  "record_path cf = shape_applied_path (fab_run_dir (v_fabric (cf_view cf)))"

fun shaping_op :: "Config \<Rightarrow> string list \<Rightarrow> SysOp \<Rightarrow> bool" where
  "shaping_op cf devs (RunOp argv) \<longleftrightarrow>
     (\<exists>dev\<in>set devs. \<exists>cap up t. derive (cf_view cf) dev cap up = Ok t \<and> argv \<in> fst ` set (tc_argv t))"
| "shaping_op cf devs (ReadOp path) \<longleftrightarrow> True"
| "shaping_op cf devs (WriteOp path content) \<longleftrightarrow>
     path = record_path cf @ ''.tmp'' \<or> (\<exists>dev\<in>set devs. path = fab_run_dir (v_fabric (cf_view cf)) @ ''/cap-'' @ dev)"
| "shaping_op cf devs (RenameOp a b) \<longleftrightarrow> a = record_path cf @ ''.tmp'' \<and> b = record_path cf"
| "shaping_op cf devs (MkdirOp path) \<longleftrightarrow> path = fab_run_dir (v_fabric (cf_view cf))"
| "shaping_op cf devs _ \<longleftrightarrow> False"

lemma adds_sys_read: "adds P s (snd (sys_read path s)) \<longleftrightarrow> P (ReadOp path)"
  by (simp add: sys_read_def sys_reading_def)

lemma adds_sys_do: "adds P s (snd (sys_do p s)) \<longleftrightarrow> P p"
  by (simp add: sys_do_def)

lemma read_cap_adds:
  assumes "read_cap pm p member run_dir dev s = (v, s')"
    and "\<And>path. P (ReadOp path)" "P (MkdirOp run_dir)" "\<And>c. P (WriteOp (run_dir @ ''/cap-'' @ dev) c)"
  shows "adds P s s'"
  using assms
  by (auto simp: read_cap_def pmx_probe_def sys_read_def sys_reading_def sys_mkdir_p_def sys_write_def sys_do_def Let_def
      split: option.splits if_splits Reading.splits intro!: adds_log)

lemma wire_cap_adds: "wire_cap cf dev s = (v, s') \<Longrightarrow> dev \<in> set devs \<Longrightarrow> adds (shaping_op cf devs) s s'"
  unfolding wire_cap_def by (erule read_cap_adds) auto

lemma run_program_adds:
  "run_program cmds s = (b, s') \<Longrightarrow> (\<And>argv. argv \<in> fst ` set cmds \<Longrightarrow> P (RunOp argv)) \<Longrightarrow> adds P s s'"
proof (induction cmds arbitrary: s)
  case (Cons c cmds)
  obtain argv ig where c: "c = (argv, ig)"
    by (cases c)
  have "adds P s (log_op (RunOp argv) s)"
    using Cons.prems(2) [of argv] by (simp add: c)
  moreover have "adds P (log_op (RunOp argv) s) s'"
    using Cons.prems Cons.IH [of "log_op (RunOp argv) s"] by (auto simp: c sys_run_def split: if_splits)
  ultimately show ?case
    by (rule adds_trans)
qed simp

lemma run_program_all: "run_program cmds s = (True, s') \<Longrightarrow> s' = s\<lparr>ops := ops s @ map (RunOp \<circ> fst) cmds\<rparr>"
proof (induction cmds arbitrary: s)
  case (Cons c cmds)
  then show ?case
    using Cons.IH [of "log_op (RunOp (fst c)) s"] by (cases c) (auto simp: sys_run_def log_op_def split: if_splits)
qed simp

lemma read_up_facts:
  "read_up devs s = (up, s') \<Longrightarrow> adds (shaping_op cf ds) s s' \<and> set up \<subseteq> set devs \<and> (distinct devs \<longrightarrow> distinct up)"
proof (induction devs arbitrary: s up)
  case (Cons d devs)
  obtain t s1 where r: "sys_read (''/sys/class/net/'' @ d @ ''/carrier'') s = (t, s1)"
    by fastforce
  obtain up' where u: "read_up devs s1 = (up', s')" "up = d # up' \<or> up = up'"
    using Cons.prems r by (auto split: prod.splits if_splits)
  have "adds (shaping_op cf ds) s s1"
    using r by (rule adds_calls) simp
  moreover note Cons.IH [OF u(1)]
  ultimately show ?case
    using u(2) adds_trans by auto
qed simp

section \<open>The record\<close>

text \<open>What the record says of a wire that is up is what was done to it.\<close>

definition wire_done :: "Config \<Rightarrow> string list \<Rightarrow> string \<Rightarrow> AppliedWire \<Rightarrow> Sys \<Rightarrow> bool" where
  "wire_done cf up dev w s \<longleftrightarrow>
     (\<exists>cap t xs ys. derive (cf_view cf) dev cap (\<lambda>w. w \<in> set up) = Ok t \<and> w = Shaped (applied_classes t) \<and>
        ops s = xs @ map (RunOp \<circ> fst) (tc_argv t) @ ys) \<or>
     (\<exists>cap e. derive (cf_view cf) dev cap (\<lambda>w. w \<in> set up) = Err e \<and> w = Failed (cf_display cf e))"

lemma wire_done_adds: "wire_done cf up dev w s \<Longrightarrow> adds P s s' \<Longrightarrow> wire_done cf up dev w s'"
  unfolding wire_done_def adds_def by (elim disjE exE conjE) (force, blast)

lemma shape_wires_adds:
  "shape_wires cf up devs wires s = (res, s') \<Longrightarrow> set devs \<subseteq> set ds \<Longrightarrow> adds (shaping_op cf ds) s s'"
proof (induction devs arbitrary: wires s)
  case (Cons dev devs)
  obtain cap s1 where cap: "wire_cap cf dev s = (cap, s1)"
    by fastforce
  have s1: "adds (shaping_op cf ds) s s1"
    using wire_cap_adds [OF cap, of ds] Cons.prems(2) by simp
  also have "adds (shaping_op cf ds) s1 s'"
  proof (cases "derive (cf_view cf) dev cap (\<lambda>w. w \<in> set up)")
    case (Ok t)
    obtain b s2 where run: "run_program (tc_argv t) s1 = (b, s2)"
      by fastforce
    have "adds (shaping_op cf ds) s1 s2"
    proof (rule run_program_adds [OF run])
      fix argv
      assume "argv \<in> fst ` set (tc_argv t)"
      then show "shaping_op cf ds (RunOp argv)"
        using Ok Cons.prems(2) by (metis list.set_intros(1) shaping_op.simps(1) subset_code(1))
    qed
    moreover have "adds (shaping_op cf ds) s2 s'"
      using Cons.prems Cons.IH [of "om_insert dev (Shaped (applied_classes t)) wires" s2] cap Ok run by (cases b) auto
    ultimately show ?thesis
      by (rule adds_trans)
  qed (use Cons cap in auto)
  finally show ?case .
qed simp

lemma shape_wires_record:
  assumes "shape_wires cf up devs wires s = (Some wires', s')" "distinct devs" "om_ok wires"
  shows "om_ok wires' \<and> (\<forall>dev. if dev \<in> set devs
    then \<exists>w. om_get wires' dev = Some w \<and> wire_done cf up dev w s' else om_get wires' dev = om_get wires dev)"
  using assms
proof (induction devs arbitrary: wires s)
  case (Cons dev devs)
  obtain cap s1 where cap: "wire_cap cf dev s = (cap, s1)"
    by fastforce
  obtain w s2 where step: "shape_wires cf up devs (om_insert dev w wires) s2 = (Some wires', s')" "wire_done cf up dev w s2"
  proof (cases "derive (cf_view cf) dev cap (\<lambda>w. w \<in> set up)")
    case (Ok t)
    obtain s2 where run: "run_program (tc_argv t) s1 = (True, s2)"
      using Cons.prems cap Ok by (auto split: if_splits prod.splits)
    show ?thesis
    proof (rule that)
      show "shape_wires cf up devs (om_insert dev (Shaped (applied_classes t)) wires) s2 = (Some wires', s')"
        using Cons.prems cap Ok run by simp
      show "wire_done cf up dev (Shaped (applied_classes t)) s2"
        using Ok run_program_all [OF run] by (force simp: wire_done_def)
    qed
  next
    case (Err e)
    then show ?thesis
      using Cons.prems cap that [of "Failed (cf_display cf e)" s1] by (auto simp: wire_done_def)
  qed (use Cons.prems cap in auto)
  have later: "wire_done cf up dev w s'"
    using wire_done_adds [OF step(2) shape_wires_adds [OF step(1) order_refl]] .
  have "om_ok (om_insert dev w wires)"
    using Cons.prems(3) by (rule map_inv)
  then show ?case
    using Cons.IH [OF step(1)] Cons.prems(2) later by (auto simp: map_simps split: if_splits)
qed simp

lemma no_carrier_wires:
  "om_ok wires \<Longrightarrow> om_ok (fold (\<lambda>d. om_insert d NoCarrier) ds wires) \<and>
     (\<forall>dev. om_get (fold (\<lambda>d. om_insert d NoCarrier) ds wires) dev = (if dev \<in> set ds then Some NoCarrier else om_get wires dev))"
  by (induction ds arbitrary: wires) (auto simp: map_simps map_inv)

lemma write_record_ops:
  "\<exists>n. ops (write_record cf r s) = ops s @ WriteOp (record_path cf @ ''.tmp'') (render_record r) #
     take n [RenameOp (record_path cf @ ''.tmp'') (record_path cf)]"
  by (auto simp: write_record_def record_path_def sys_write_def sys_rename_def sys_do_def log_op_def Let_def
      intro: exI [of _ 0] exI [of _ 1])

lemma write_record_adds: "adds (shaping_op cf devs) s (write_record cf r s)"
  by (auto simp: write_record_def record_path_def sys_write_def sys_rename_def sys_do_def Let_def intro!: adds_log)

lemma sorted_wires: "view_wires v = Ok devs \<Longrightarrow> sorted devs \<and> distinct devs"
  by (auto simp: view_wires_def outcome_simps sorted_distinct_remdups_adj)


section \<open>A sample reconvergence\<close>

definition sample_config :: Config where
  "sample_config = \<lparr>cf_view = \<lparr>v_fabric = sample_fabric, v_member = sample_h1\<rparr>, cf_parse_members = (\<lambda>_. None), cf_display = (\<lambda>_. [])\<rparr>"

text \<open>Only \<open>eth0\<close> has a carrier, and its capacity was measured.\<close>

definition sample_sys :: Sys where
  "sample_sys = \<lparr>ops = [], run_answer = (\<lambda>_ _. Some \<lparr>status = 0, stdout = [], stderr = []\<rparr>),
     read_answer = (\<lambda>_ path. if path = ''/sys/class/net/eth0/carrier'' then Content ''1''
       else if path = ''/run/cfab/cap-eth0'' then Content ''4000'' else Absent),
     done_answer = (\<lambda>_ _. True), list_answer = (\<lambda>_ _. None), exists_answer = (\<lambda>_ _. False),
     link_answer = (\<lambda>_ _. None), request_answer = (\<lambda>_ _ _. Inl [])\<rparr>"

lemma sample_wires: "view_wires (cf_view sample_config) = Ok [''eth0'', ''eth1'']"
  by (simp add: view_wires_def class_rows_def sample_config_def sample_rows sample_row_a_def sample_row_b_def)

lemma sample_up:
  "read_up [''eth0'', ''eth1''] sample_sys = ([''eth0''], sample_sys\<lparr>ops := [ReadOp ''/sys/class/net/eth0/carrier'', ReadOp ''/sys/class/net/eth1/carrier'']\<rparr>)"
  by (simp add: sys_read_def sys_reading_def log_op_def sample_sys_def trim_text_visible visible_def)

lemma sample_cap: "wire_cap sample_config ''eth0'' (sample_sys\<lparr>ops := os\<rparr>) = (Some 4000, sample_sys\<lparr>ops := os @ [ReadOp ''/run/cfab/cap-eth0'']\<rparr>)"
proof -
  have "positive ''4000'' = Some 4000"
    by (simp add: positive_def trim_text_visible visible_def parse_uint_def digit_val_def)
  then show ?thesis
    by (simp add: wire_cap_def read_cap_def sys_read_def sys_reading_def log_op_def sample_sys_def sample_config_def sample_fabric_def Let_def)
qed

lemma run_program_runs:
  "(\<And>n argv. run_answer s n argv \<noteq> None) \<Longrightarrow> run_program cmds s = (True, s\<lparr>ops := ops s @ map (RunOp \<circ> fst) cmds\<rparr>)"
proof (induction cmds arbitrary: s)
  case (Cons c cmds)
  then show ?case
    using Cons.IH [of "log_op (RunOp (fst c)) s"] by (cases c) (simp add: sys_run_def log_op_def)
qed simp

lemma sample_reconverge: "\<exists>s'. reconverge sample_config 7 [''eth0'', ''eth1''] sample_sys = (Some [''eth0''], s')"
proof -
  have tree: "derive (cf_view sample_config) ''eth0'' (Some 4000) (\<lambda>w. w = ''eth0'') = Ok sample_tree"
    by (simp add: sample_config_def sample_tree_eq)
  have "run_program (tc_argv sample_tree) (sample_sys\<lparr>ops := os\<rparr>) =
      (True, sample_sys\<lparr>ops := os @ map (RunOp \<circ> fst) (tc_argv sample_tree)\<rparr>)" for os
    using run_program_runs [of "sample_sys\<lparr>ops := os\<rparr>" "tc_argv sample_tree"] by (simp add: sample_sys_def)
  then show ?thesis
    by (simp add: reconverge_def sample_up sample_cap tree del: read_up.simps)
qed


section \<open>The end of the daemon\<close>

lemma reconverge_adds: "reconverge cf tick devs s = (r, s') \<Longrightarrow> adds (shaping_op cf devs) s s'"
proof -
  assume run: "reconverge cf tick devs s = (r, s')"
  obtain up s1 where up: "read_up devs s = (up, s1)"
    by fastforce
  obtain ws s2 where ws: "shape_wires cf up up (fold (\<lambda>d. om_insert d NoCarrier) (filter (\<lambda>d. d \<notin> set up) devs) []) s1 = (ws, s2)"
    by fastforce
  have "adds (shaping_op cf devs) s s1"
    using read_up_facts [OF up] by blast
  also have "adds (shaping_op cf devs) s1 s2"
    using shape_wires_adds [OF ws] read_up_facts [OF up] by blast
  also have "adds (shaping_op cf devs) s2 s'"
    using run up ws write_record_adds by (auto simp: reconverge_def split: option.splits)
  finally show ?thesis .
qed

lemma daemon_apply_adds: "adds (shaping_op cf devs) (dm_sys dm) (dm_sys (daemon_apply cf devs dm))"
  using reconverge_adds [of cf _ devs "dm_sys dm"] by (auto simp: daemon_apply_def split: prod.splits option.splits)

lemma event_loop_adds:
  "event_loop devs (daemon_apply cf devs) pending evs dm = (ended, p, dm') \<Longrightarrow> adds (shaping_op cf devs) (dm_sys dm) (dm_sys dm')"
proof (induction evs arbitrary: pending dm)
  case (Cons e evs)
  then show ?case
    using adds_trans [OF daemon_apply_adds] by (cases e) (auto split: if_splits RecvEvent.splits)
qed simp

definition restore_ops :: "string \<Rightarrow> SysOp list" where
  "restore_ops d = [RunOp [''tc'', ''qdisc'', ''del'', ''dev'', d, ''root''],
     RunOp [''tc'', ''qdisc'', ''replace'', ''dev'', d, ''root'', ''fq_codel'']]"

lemma teardown_ops:
  "teardown devs s = (ok, s') \<Longrightarrow> \<exists>n. s' = s\<lparr>ops := ops s @ take n (concat (map restore_ops devs))\<rparr> \<and>
     (ok \<longrightarrow> n = length (concat (map restore_ops devs)))"
proof (induction devs arbitrary: s)
  case (Cons d devs)
  let ?s1 = "log_op (restore_ops d ! 0) s" and ?s2 = "log_op (restore_ops d ! 1) (log_op (restore_ops d ! 0) s)"
  have "\<exists>a b. teardown (d # devs) s = (if a then (False, ?s1) else if b then (False, ?s2) else teardown devs ?s2)"
    by (simp add: run_ignore_def sys_run_def restore_ops_def Let_def) blast
  then consider "\<not> ok" "s' = ?s1" | "\<not> ok" "s' = ?s2" | "teardown devs ?s2 = (ok, s')"
    using Cons.prems by (metis prod.inject)
  then show ?case
  proof cases
    case 1
    then show ?thesis
      by (intro exI [of _ 1]) (simp add: log_op_def restore_ops_def)
  next
    case 2
    then show ?thesis
      by (intro exI [of _ 2]) (simp add: log_op_def restore_ops_def)
  next
    case 3
    then obtain n where "s' = ?s2\<lparr>ops := ops ?s2 @ take n (concat (map restore_ops devs))\<rparr>"
      "ok \<longrightarrow> n = length (concat (map restore_ops devs))"
      using Cons.IH by blast
    then show ?thesis
      by (intro exI [of _ "n + 2"]) (simp add: log_op_def restore_ops_def [of d])
  qed
qed simp


text \<open>A daemon that is stopped at once, on a host whose wires have no carrier.\<close>

definition sample_daemon :: Daemon where
  "sample_daemon = \<lparr>dm_prev_up = None, dm_sys = sample_sys, dm_clock = (\<lambda>_. 7), dm_log = []\<rparr>"


end
