(* ===== verification/Supervisor_Child.thy ===== *)
theory Supervisor_Child
  imports Machines Fabric_Model Workload_Relay
begin

text \<open>
  One supervised child (\<open>src/src/supervisor/child.rs\<close>): its state machine, which decides every
  transition from its arguments, and the ring of captured output lines. Restart counts are
  unbounded numbers: at one restart in two seconds a 64-bit counter does not wrap.
\<close>

section \<open>The state machine\<close>

definition LOG_LINES :: nat where "LOG_LINES = 200"
definition LOG_LINE_MAX :: nat where "LOG_LINE_MAX = 2048"

datatype ChildState = Starting | Running | Restarting | Stopped

fun state_str :: "ChildState \<Rightarrow> string" where
  "state_str Starting = ''starting''"
| "state_str Running = ''running''"
| "state_str Restarting = ''restarting''"
| "state_str Stopped = ''stopped''"

record Child =
  ch_name :: string
  ch_state :: ChildState
  ch_want :: bool
  ch_restarts :: nat
  ch_why_stopped :: "string option"
  ch_pid :: "u32 option"
  ch_started_at :: "instant option"
  ch_last_exit :: "string option"
  ch_exited_at :: "instant option"
  ch_log :: "string list"

definition new_child :: "string \<Rightarrow> Child" where
  "new_child n = \<lparr>ch_name = n, ch_state = Stopped, ch_want = False, ch_restarts = 0, ch_why_stopped = None, ch_pid = None,
     ch_started_at = None, ch_last_exit = None, ch_exited_at = None, ch_log = []\<rparr>"

definition stopped_child :: "string \<Rightarrow> string \<Rightarrow> Child" where
  "stopped_child n why = (new_child n)\<lparr>ch_why_stopped := Some why\<rparr>"

definition exited :: "string \<Rightarrow> instant \<Rightarrow> Child \<Rightarrow> Child \<times> instant option" where
  "exited cause now c =
     (let c = c\<lparr>ch_pid := None, ch_started_at := None, ch_last_exit := Some cause, ch_exited_at := Some now\<rparr> in
      if ch_want c then (c\<lparr>ch_state := Restarting, ch_restarts := ch_restarts c + 1\<rparr>, Some (now + BACKOFF))
      else (c\<lparr>ch_state := Stopped\<rparr>, None))"

definition spawned :: "u32 \<Rightarrow> instant \<Rightarrow> bool \<Rightarrow> Child \<Rightarrow> Child" where
  "spawned p now needs_readiness c =
     c\<lparr>ch_pid := Some p, ch_started_at := Some now, ch_want := True, ch_why_stopped := None,
       ch_state := (if needs_readiness then Starting else Running)\<rparr>"

definition became_ready :: "Child \<Rightarrow> Child" where
  "became_ready c = (if ch_state c = Starting then c\<lparr>ch_state := Running\<rparr> else c)"

text \<open>Whole seconds of a duration in nanoseconds.\<close>

definition as_secs :: "duration \<Rightarrow> nat" where
  "as_secs d = d div 1000000000"

record ExitCause =
  ec_cause :: string
  ec_s_ago :: nat

definition last_exit :: "Child \<Rightarrow> instant \<Rightarrow> ExitCause option" where
  "last_exit c now =
     (case (ch_last_exit c, ch_exited_at c) of
        (Some cause, Some at) \<Rightarrow> Some \<lparr>ec_cause = cause, ec_s_ago = as_secs (now - at)\<rparr>
      | _ \<Rightarrow> None)"

definition uptime_s :: "Child \<Rightarrow> instant \<Rightarrow> nat option" where
  "uptime_s c now = map_option (\<lambda>t. as_secs (now - t)) (ch_started_at c)"

section \<open>The captured lines\<close>

text \<open>\<open>str::is_char_boundary\<close> on UTF-8 bytes.\<close>

definition is_char_boundary :: "string \<Rightarrow> nat \<Rightarrow> bool" where
  "is_char_boundary s i \<longleftrightarrow> i = 0 \<or> i = length s \<or> i < length s \<and> \<not> is_continuation (s ! i)"

fun back_to_boundary :: "string \<Rightarrow> nat \<Rightarrow> nat" where
  "back_to_boundary s 0 = 0"
| "back_to_boundary s (Suc e) = (if is_char_boundary s (Suc e) then Suc e else back_to_boundary s e)"

definition push_log :: "string \<Rightarrow> Child \<Rightarrow> Child" where
  "push_log line c =
     (let e = back_to_boundary line (min (length line) LOG_LINE_MAX);
          ring = (if length (ch_log c) = LOG_LINES then tl (ch_log c) else ch_log c) in
      c\<lparr>ch_log := ring @ [take e line]\<rparr>)"

definition log_tail :: "Child \<Rightarrow> nat \<Rightarrow> string list" where
  "log_tail c n = drop (length (ch_log c) - n) (ch_log c)"

section \<open>The invariant of a child\<close>

datatype child_call = ExitedCall string instant | SpawnedCall u32 instant bool | ReadyCall | LogCall string

fun child_step :: "Child \<Rightarrow> child_call \<Rightarrow> Child" where
  "child_step c (ExitedCall cause now) = fst (exited cause now c)"
| "child_step c (SpawnedCall p now needs) = spawned p now needs c"
| "child_step c ReadyCall = became_ready c"
| "child_step c (LogCall line) = push_log line c"

definition child_ok :: "Child \<Rightarrow> bool" where
  "child_ok c \<longleftrightarrow>
     (ch_pid c \<noteq> None \<longleftrightarrow> ch_state c = Starting \<or> ch_state c = Running) \<and>
     (ch_started_at c \<noteq> None \<longleftrightarrow> ch_pid c \<noteq> None) \<and>
     (ch_state c = Stopped \<longleftrightarrow> \<not> ch_want c) \<and>
     (ch_why_stopped c \<noteq> None \<longrightarrow> ch_state c = Stopped) \<and>
     (ch_last_exit c \<noteq> None \<longleftrightarrow> ch_exited_at c \<noteq> None) \<and>
     length (ch_log c) \<le> LOG_LINES \<and>
     list_all (\<lambda>l. length l \<le> LOG_LINE_MAX) (ch_log c)"

lemma back_to_boundary_le: "back_to_boundary s e \<le> e"
  by (induction e) auto

lemma back_to_boundary_boundary: "is_char_boundary s (back_to_boundary s e)"
  by (induction e) (auto simp: is_char_boundary_def)

lemma child_ok_new: "child_ok (new_child n)" "child_ok (stopped_child n why)"
  by (simp_all add: child_ok_def new_child_def stopped_child_def)

lemma ring_bound:
  "list_all P xs \<Longrightarrow> P x \<Longrightarrow> list_all P ((if length xs = n then tl xs else xs) @ [x])"
  "length xs \<le> n \<Longrightarrow> 0 < n \<Longrightarrow> length ((if length xs = n then tl xs else xs) @ [x]) \<le> n"
  by (cases xs; simp)+

lemma child_ok_push_log: "child_ok c \<Longrightarrow> child_ok (push_log l c)"
proof -
  assume c: "child_ok c"
  define cut where "cut = take (back_to_boundary l (min (length l) LOG_LINE_MAX)) l"
  have "length cut \<le> LOG_LINE_MAX"
    using back_to_boundary_le [of l "min (length l) LOG_LINE_MAX"] by (simp add: cut_def)
  moreover have "ch_log (push_log l c) = (if length (ch_log c) = LOG_LINES then tl (ch_log c) else ch_log c) @ [cut]"
    by (simp add: push_log_def Let_def cut_def)
  ultimately have "list_all (\<lambda>l. length l \<le> LOG_LINE_MAX) (ch_log (push_log l c)) \<and> length (ch_log (push_log l c)) \<le> LOG_LINES"
    using c unfolding child_ok_def by (simp only: ring_bound) (simp add: LOG_LINES_def)
  then show ?thesis
    using c by (simp add: child_ok_def) (simp add: push_log_def Let_def)
qed

interpretation child: invariant_machine child_step child_ok
proof
  fix c e assume "child_ok c"
  then show "child_ok (child_step c e)"
    by (cases e) (auto simp: child_ok_push_log, auto simp: child_ok_def exited_def spawned_def became_ready_def Let_def)
qed

text \<open>Whatever calls a child receives, in whatever order: a process id and a start time are
  recorded exactly while it is starting or running, it is stopped exactly when it is not wanted,
  a reason for being stopped is given only then, at most 200 lines of at most 2048 bytes are kept;
  and its restart count never goes down.\<close>

theorem child_consistent:
  "child_ok (foldl child_step (new_child n) es) \<and>
   ch_restarts (foldl child_step (new_child n) es) \<le> ch_restarts (foldl child_step (new_child n) (es @ fs))"
proof -
  have m: "ch_restarts c \<le> ch_restarts (child_step c e)" for c e
    by (cases e) (simp_all add: exited_def spawned_def became_ready_def push_log_def Let_def)
  show ?thesis
    using child.run_inv [OF child_ok_new(1), of n es] child.run_mono [of ch_restarts "foldl child_step (new_child n) es" fs] m
    by simp
qed

text \<open>The captured output is a faithful tail of what was pushed: after any sequence of lines the
  ring holds the last 200 of them in order, each one whole or cut at the last character boundary
  within 2048 bytes, so no line is cut inside a character.\<close>

theorem log_ring_is_tail:
  "ch_log (foldl (\<lambda>c l. push_log l c) (new_child n) ls) =
     drop (length ls - 200) (map (\<lambda>l. take (back_to_boundary l (min (length l) 2048)) l) ls) \<and>
   is_char_boundary l (back_to_boundary l (min (length l) 2048)) \<and>
   log_tail (foldl (\<lambda>c l. push_log l c) (new_child n) ls) 200 = ch_log (foldl (\<lambda>c l. push_log l c) (new_child n) ls)"
proof -
  define cut where "cut = (\<lambda>l :: string. take (back_to_boundary l (min (length l) 2048)) l)"
  have step: "ch_log (push_log l c) = (if length (ch_log c) = 200 then tl (ch_log c) else ch_log c) @ [cut l]" for l c
    by (simp add: push_log_def Let_def LOG_LINES_def LOG_LINE_MAX_def cut_def)
  have ring: "ch_log (foldl (\<lambda>c l. push_log l c) (new_child n) ls) = drop (length ls - 200) (map cut ls)"
  proof (induction ls rule: rev_induct)
    case (snoc l ls)
    moreover have "Suc (length ls) - 200 = Suc (length ls - 200)" if "200 \<le> length ls"
      using that by simp
    ultimately show ?case
      by (cases "200 \<le> length ls") (auto simp: step drop_Suc tl_drop simp del: diff_Suc_numeral)
  qed (simp add: new_child_def)
  then show ?thesis
    by (simp add: cut_def [symmetric] back_to_boundary_boundary log_tail_def)
qed

end
