(* ===== verification/Supervisor_Run.thy ===== *)
theory Supervisor_Run
  imports Supervisor_Child
begin

text \<open>
  How the supervisor runs its children (\<open>src/src/supervisor/mod.rs\<close>): \<open>launch\<close>, the exit and respawn
  arms of the main loop, \<open>restart_child\<close> inside a re-apply, the start and the stop sequence. The
  state has the children, the pending respawns and the exit channel; beside them the processes
  that are alive, which the code does not see. Deaths, spawn results and clock values are
  arbitrary. A step that reaches \<open>child_mut\<close>'s panic has no result.
\<close>

section \<open>The state\<close>

record Super =
  sv_children :: "Child list"
  sv_pending :: "(string \<times> instant) list"
  sv_exits :: "(string \<times> string) list"
  sv_procs :: "(string \<times> u32) list"
  sv_wait :: "(string \<times> bool) list"

definition NAMES :: "string list" where
  "NAMES = [''engine'', ''shape-daemon'', ''conf-sync'']"

definition new_super :: Super where
  "new_super = \<lparr>sv_children = map new_child NAMES, sv_pending = [], sv_exits = [], sv_procs = [], sv_wait = []\<rparr>"

text \<open>\<open>Shared::child\<close> and \<open>child_mut\<close>: \<open>None\<close> is the panic for an unknown name.\<close>

definition child_named :: "string \<Rightarrow> Super \<Rightarrow> Child option" where
  "child_named n st = find (\<lambda>c. ch_name c = n) (sv_children st)"

fun child_mut :: "string \<Rightarrow> (Child \<Rightarrow> Child \<times> 'a) \<Rightarrow> Child list \<Rightarrow> (Child list \<times> 'a) option" where
  "child_mut n f [] = None"
| "child_mut n f (c # cs) =
     (if ch_name c = n then (case f c of (c', a) \<Rightarrow> Some (c' # cs, a))
      else map_option (\<lambda>(cs', a). (c # cs', a)) (child_mut n f cs))"

definition on_child :: "string \<Rightarrow> (Child \<Rightarrow> Child \<times> 'a) \<Rightarrow> Super \<Rightarrow> (Super \<times> 'a) option" where
  "on_child n f st = map_option (\<lambda>(cs, a). (st\<lparr>sv_children := cs\<rparr>, a)) (child_mut n f (sv_children st))"

definition set_child :: "string \<Rightarrow> (Child \<Rightarrow> Child) \<Rightarrow> Super \<Rightarrow> Super option" where
  "set_child n f st = map_option fst (on_child n (\<lambda>c. (f c, ())) st)"

definition mark_stopped :: "string \<Rightarrow> string \<Rightarrow> Super \<Rightarrow> Super option" where
  "mark_stopped n why =
     set_child n (\<lambda>c. c\<lparr>ch_state := Stopped, ch_want := False, ch_why_stopped := Some why\<rparr>)"

section \<open>Exits, respawns and launches\<close>

definition retain_not :: "string \<Rightarrow> (string \<times> instant) list \<Rightarrow> (string \<times> instant) list" where
  "retain_not n = filter (\<lambda>(m, _). m \<noteq> n)"

definition schedule :: "string \<Rightarrow> instant \<Rightarrow> Super \<Rightarrow> Super" where
  "schedule n due st = st\<lparr>sv_pending := retain_not n (sv_pending st) @ [(n, due)]\<rparr>"

definition launch :: "string \<Rightarrow> bool \<Rightarrow> string + u32 \<Rightarrow> instant \<Rightarrow> Super \<Rightarrow> Super option" where
  "launch n needs_readiness spawn now st =
     Option.bind (set_child n (\<lambda>c. c\<lparr>ch_want := True\<rparr>) st) (\<lambda>st.
       case spawn of
         Inr p \<Rightarrow>
           Option.bind (set_child n (spawned p now needs_readiness) st) (\<lambda>st.
             Some (st\<lparr>sv_procs := sv_procs st @ [(n, p)]\<rparr>))
       | Inl e \<Rightarrow>
           Option.bind (on_child n (exited (''spawn failed: '' @ e) now) st) (\<lambda>(st, _).
             Some (schedule n (now + BACKOFF) st)))"

definition handle_exit :: "string \<Rightarrow> string \<Rightarrow> instant \<Rightarrow> Super \<Rightarrow> Super option" where
  "handle_exit n cause now st =
     Option.bind (on_child n (exited cause now) st) (\<lambda>(st, respawn).
       Some (if respawn \<noteq> None then schedule n (now + BACKOFF) st else st))"

fun launch_all :: "string list \<Rightarrow> (string \<Rightarrow> string + u32) \<Rightarrow> instant \<Rightarrow> Super \<Rightarrow> Super option" where
  "launch_all [] spawn now st = Some st"
| "launch_all (n # ns) spawn now st =
     Option.bind (launch n (n = ''engine'') (spawn n) now st) (launch_all ns spawn now)"

definition respawn_due :: "(string \<Rightarrow> string + u32) \<Rightarrow> instant \<Rightarrow> Super \<Rightarrow> Super option" where
  "respawn_due spawn now st =
     (let due = map fst (filter (\<lambda>(_, d). d \<le> now) (sv_pending st)) in
      launch_all due spawn now (st\<lparr>sv_pending := filter (\<lambda>(_, d). d > now) (sv_pending st)\<rparr>))"

section \<open>Restarts\<close>

text \<open>The end of \<open>restart_child\<close>: the pending respawn is dropped and the replacement launched.\<close>

definition relaunch :: "string \<Rightarrow> bool \<Rightarrow> string + u32 \<Rightarrow> instant \<Rightarrow> Super \<Rightarrow> Super option" where
  "relaunch n needs_readiness spawn now st =
     launch n needs_readiness spawn now (st\<lparr>sv_pending := retain_not n (sv_pending st)\<rparr>)"

text \<open>The restarts of a re-apply that are left. A child with a process gets its SIGTERM and is waited
  for; one without is launched at once.\<close>

fun restart_next :: "(string \<times> bool) list \<Rightarrow> (string \<Rightarrow> string + u32) \<Rightarrow> instant \<Rightarrow> Super \<Rightarrow> Super option" where
  "restart_next [] spawn now st = Some (st\<lparr>sv_wait := []\<rparr>)"
| "restart_next ((n, needs) # rest) spawn now st =
     (case child_named n st of
        None \<Rightarrow> None
      | Some c \<Rightarrow>
          if ch_pid c \<noteq> None then Some (st\<lparr>sv_wait := (n, needs) # rest\<rparr>)
          else Option.bind (relaunch n needs (spawn n) now st) (restart_next rest spawn now))"

definition reapply_targets :: "bool \<Rightarrow> (string \<times> bool) list" where
  "reapply_targets host = (''engine'', True) # (if host then [(''shape-daemon'', False)] else [])"

definition finish_restart :: "(string \<Rightarrow> string + u32) \<Rightarrow> instant \<Rightarrow> Super \<Rightarrow> Super option" where
  "finish_restart spawn now st =
     (case sv_wait st of
        [] \<Rightarrow> Some st
      | (n, needs) # rest \<Rightarrow> Option.bind (relaunch n needs (spawn n) now st) (restart_next rest spawn now))"

text \<open>The exit the restart waits for: it is recorded, and no respawn is scheduled for it.\<close>

definition own_exit :: "string \<Rightarrow> (string \<Rightarrow> string + u32) \<Rightarrow> instant \<Rightarrow> Super \<Rightarrow> Super option" where
  "own_exit cause spawn now st =
     (case sv_wait st of
        [] \<Rightarrow> Some st
      | (n, needs) # rest \<Rightarrow>
          Option.bind (on_child n (exited cause now) st) (\<lambda>(st, _). finish_restart spawn now st))"

section \<open>Start\<close>

text \<open>Steps 3 and 4 of \<open>run_with\<close>, for a start that is not refused.\<close>

definition start_supervisor :: "bool \<Rightarrow> bool \<Rightarrow> bool \<Rightarrow> (string \<Rightarrow> string + u32) \<Rightarrow> instant \<Rightarrow> Super option" where
  "start_supervisor host clustered ready spawn now =
     Option.bind (launch ''engine'' True (spawn ''engine'') now new_super) (\<lambda>st.
     Option.bind (if ready then set_child ''engine'' became_ready st else Some st) (\<lambda>st.
     Option.bind (if host then launch ''shape-daemon'' False (spawn ''shape-daemon'') now st
                  else mark_stopped ''shape-daemon'' ''not a host'' st) (\<lambda>st.
       if clustered then launch ''conf-sync'' False (spawn ''conf-sync'') now st
       else mark_stopped ''conf-sync'' ''not clustered'' st)))"

section \<open>The main loop as a step relation\<close>

text \<open>The label of a step is false for the one step in which \<open>restart_child\<close> gives up waiting: at its
  deadline it sends SIGKILL at most and launches the replacement without having seen the exit.\<close>

inductive sup_step :: "bool \<Rightarrow> Super \<Rightarrow> bool \<Rightarrow> Super \<Rightarrow> bool" for host where
  dies: "(n, p) \<in> set (sv_procs st) \<Longrightarrow>
    sup_step host st True (st\<lparr>sv_procs := remove1 (n, p) (sv_procs st), sv_exits := sv_exits st @ [(n, cause)]\<rparr>)"
| exit_arm: "sv_wait st = [] \<Longrightarrow> sv_exits st = (n, cause) # es \<Longrightarrow>
    handle_exit n cause now (st\<lparr>sv_exits := es\<rparr>) = Some st' \<Longrightarrow> sup_step host st True st'"
| respawn_arm: "sv_wait st = [] \<Longrightarrow> (n, d) \<in> set (sv_pending st) \<Longrightarrow> d \<le> now \<Longrightarrow>
    respawn_due spawn now st = Some st' \<Longrightarrow> sup_step host st True st'"
| ready_arm: "sv_wait st = [] \<Longrightarrow> set_child ''engine'' became_ready st = Some st' \<Longrightarrow> sup_step host st True st'"
| prints: "set_child n (push_log line) st = Some st' \<Longrightarrow> sup_step host st True st'"
| reapply: "sv_wait st = [] \<Longrightarrow> restart_next (reapply_targets host) spawn now st = Some st' \<Longrightarrow> sup_step host st True st'"
| restart_own: "sv_wait st = (n, needs) # rest \<Longrightarrow> sv_exits st = (n, cause) # es \<Longrightarrow>
    own_exit cause spawn now (st\<lparr>sv_exits := es\<rparr>) = Some st' \<Longrightarrow> sup_step host st True st'"
| restart_other: "sv_wait st = (n, needs) # rest \<Longrightarrow> sv_exits st = (m, cause) # es \<Longrightarrow> m \<noteq> n \<Longrightarrow>
    handle_exit m cause now (st\<lparr>sv_exits := es\<rparr>) = Some st' \<Longrightarrow> sup_step host st True st'"
| restart_gives_up: "sv_wait st = (n, needs) # rest \<Longrightarrow> finish_restart spawn now st = Some st' \<Longrightarrow> sup_step host st False st'"

text \<open>The states a supervisor reaches, and whether no restart has given up on the way.\<close>

inductive sup_reach :: "bool \<Rightarrow> bool \<Rightarrow> Super \<Rightarrow> bool" for host where
  start: "start_supervisor host clustered ready spawn now = Some st \<Longrightarrow> sup_reach host True st"
| more: "sup_reach host timely st \<Longrightarrow> sup_step host st t st' \<Longrightarrow> sup_reach host (timely \<and> t) st'"

section \<open>Stop\<close>

definition stop_targets :: "Super \<Rightarrow> (string \<times> u32) list" where
  "stop_targets st = List.map_filter (\<lambda>c. map_option (Pair (ch_name c)) (ch_pid c)) (sv_children st)"

text \<open>Steps 1, 3 and 4 of the stop sequence: the names still alive when the wait ends, given the exits
  the channel delivers before the deadline.\<close>

fun stop_wait :: "string list \<Rightarrow> (string \<times> string) list \<Rightarrow> string list" where
  "stop_wait alive [] = alive"
| "stop_wait alive ((n, _) # evs) = (if alive = [] then [] else stop_wait (filter (\<lambda>m. m \<noteq> n) alive) evs)"

definition stop_kills :: "Super \<Rightarrow> (string \<times> string) list \<Rightarrow> (string \<times> u32) list" where
  "stop_kills st evs =
     filter (\<lambda>(n, _). n \<in> set (stop_wait (map fst (stop_targets st)) evs)) (stop_targets st)"

end
