(* ===== verification/Supervisor_Single.thy ===== *)
theory Supervisor_Single
  imports Supervisor_Run
begin

text \<open>
  The invariant of the supervisor: as long as no restart has given up waiting, each child has at
  most one process and the recorded process id is that of the process, a wanted child without a
  process is always scheduled, and the stop sequence reaches every process. A restart that gives
  up breaks it, which a concrete run shows.
\<close>

section \<open>Updating one child\<close>

lemma child_mut_eq:
  assumes "distinct (map ch_name cs)" "c \<in> set cs" "ch_name c = n" "\<And>d. ch_name (fst (f d)) = ch_name d"
  shows "child_mut n f cs = Some (map (\<lambda>d. if ch_name d = n then fst (f d) else d) cs, snd (f c))"
  using assms(1,2)
proof (induction cs)
  case (Cons d cs)
  show ?case
  proof (cases "ch_name d = n")
    case True
    then have "\<forall>e\<in>set cs. ch_name e \<noteq> n"
      using Cons.prems(1) by (auto simp: image_iff)
    then have "c = d" "map (\<lambda>d. if ch_name d = n then fst (f d) else d) cs = cs"
      using Cons.prems(2) assms(3) by (auto intro: map_idI)
    then show ?thesis
      using True by (simp split: prod.splits)
  next
    case False
    then show ?thesis
      using Cons assms(3) by auto
  qed
qed simp

text \<open>The part of the state that is about one name.\<close>

definition procs_of :: "string \<Rightarrow> Super \<Rightarrow> (string \<times> u32) list" where
  "procs_of n st = filter (\<lambda>(m, _). m = n) (sv_procs st)"

definition exits_of :: "string \<Rightarrow> Super \<Rightarrow> (string \<times> string) list" where
  "exits_of n st = filter (\<lambda>(m, _). m = n) (sv_exits st)"

definition pending_of :: "string \<Rightarrow> Super \<Rightarrow> (string \<times> instant) list" where
  "pending_of n st = filter (\<lambda>(m, _). m = n) (sv_pending st)"

text \<open>The process of a child: none, one that is alive, or one whose exit is in the channel.\<close>

definition tracked :: "Child \<Rightarrow> (string \<times> u32) list \<Rightarrow> (string \<times> string) list \<Rightarrow> bool" where
  "tracked c ps es \<longleftrightarrow>
     (case ch_pid c of
        None \<Rightarrow> ps = [] \<and> es = []
      | Some p \<Rightarrow> ps = [(ch_name c, p)] \<and> es = [] \<or> ps = [] \<and> length es = 1)"

text \<open>A respawn is scheduled exactly for a wanted child without a process, two seconds after its
  last exit; a child about to be launched has neither a process nor a respawn. A child that is
  required is wanted.\<close>

definition scheduled_right :: "bool \<Rightarrow> bool \<Rightarrow> Child \<Rightarrow> (string \<times> instant) list \<Rightarrow> bool" where
  "scheduled_right req gap c q \<longleftrightarrow>
     (if gap then ch_pid c = None \<and> q = [] \<and> ch_why_stopped c = None
      else (req \<longrightarrow> ch_want c) \<and> (if ch_pid c = None \<and> ch_want c
      then (\<exists>t. ch_exited_at c = Some t \<and> q = [(ch_name c, t + BACKOFF)])
      else q = []))"

definition sup_ok :: "string set \<Rightarrow> string set \<Rightarrow> Super \<Rightarrow> bool" where
  "sup_ok req gap st \<longleftrightarrow>
     map ch_name (sv_children st) = NAMES \<and>
     (\<forall>c\<in>set (sv_children st). child_ok c \<and> tracked c (procs_of (ch_name c) st) (exits_of (ch_name c) st) \<and>
        scheduled_right (ch_name c \<in> req) (ch_name c \<in> gap) c (pending_of (ch_name c) st)) \<and>
     fst ` set (sv_procs st) \<subseteq> set NAMES \<and> fst ` set (sv_exits st) \<subseteq> set NAMES \<and>
     fst ` set (sv_pending st) \<subseteq> set NAMES \<and> fst ` set (sv_wait st) \<subseteq> set NAMES"

lemma distinct_NAMES: "distinct NAMES"
  by (simp add: NAMES_def)

lemma child_named_Some: "child_named n st = Some c \<Longrightarrow> c \<in> set (sv_children st) \<and> ch_name c = n"
  by (auto simp: child_named_def find_Some_iff)

lemma child_named_ex:
  assumes "map ch_name (sv_children st) = NAMES" "n \<in> set NAMES"
  obtains c where "c \<in> set (sv_children st)" "ch_name c = n" "child_named n st = Some c"
proof -
  have "n \<in> ch_name ` set (sv_children st)"
    using assms by (auto simp flip: set_map)
  then obtain c where "child_named n st = Some c"
    by (cases "child_named n st") (auto simp: child_named_def find_None_iff)
  then show thesis
    using that child_named_Some by blast
qed

lemma on_child_eq:
  assumes "map ch_name (sv_children st) = NAMES" "child_named n st = Some c" "\<And>d. ch_name (fst (f d)) = ch_name d"
  shows "on_child n f st = Some (st\<lparr>sv_children := map (\<lambda>d. if ch_name d = n then fst (f d) else d) (sv_children st)\<rparr>, snd (f c))"
  using child_mut_eq [of "sv_children st" c n f] assms(1,3) child_named_Some [OF assms(2)] distinct_NAMES
  by (simp add: on_child_def)

lemma set_child_eq:
  assumes "map ch_name (sv_children st) = NAMES" "n \<in> set NAMES" "\<And>d. ch_name (f d) = ch_name d"
  shows "set_child n f st = Some (st\<lparr>sv_children := map (\<lambda>d. if ch_name d = n then f d else d) (sv_children st)\<rparr>)"
proof -
  obtain c where "child_named n st = Some c"
    using assms by (blast elim: child_named_ex)
  then show ?thesis
    using assms by (simp add: set_child_def on_child_eq)
qed

lemma map_at_twice:
  assumes "\<And>d. ch_name (g d) = ch_name d"
  shows "map (\<lambda>d. if ch_name d = n then f d else d) (map (\<lambda>d. if ch_name d = n then g d else d) cs) =
         map (\<lambda>d. if ch_name d = n then f (g d) else d) cs"
  using assms by (auto simp: comp_def)

lemma names_at: "(\<And>d. ch_name (g d) = ch_name d) \<Longrightarrow> map ch_name (map (\<lambda>d. if ch_name d = n then g d else d) cs) = map ch_name cs"
  by (induction cs) auto

text \<open>The child behind a launch: spawned, or gone again at once.\<close>

definition launched :: "bool \<Rightarrow> string + u32 \<Rightarrow> instant \<Rightarrow> Child \<Rightarrow> Child" where
  "launched needs spawn now c =
     (case spawn of
        Inr p \<Rightarrow> spawned p now needs (c\<lparr>ch_want := True\<rparr>)
      | Inl e \<Rightarrow> fst (exited (''spawn failed: '' @ e) now (c\<lparr>ch_want := True\<rparr>)))"

lemma ch_name_keep [simp]:
  "ch_name (fst (exited cause now c)) = ch_name c" "ch_name (spawned p now needs c) = ch_name c"
  "ch_name (became_ready c) = ch_name c" "ch_name (push_log l c) = ch_name c" "ch_name (launched needs spawn now c) = ch_name c"
  by (simp_all add: exited_def spawned_def became_ready_def push_log_def launched_def Let_def split: sum.splits)

lemma launch_eq:
  assumes "map ch_name (sv_children st) = NAMES" "n \<in> set NAMES"
  shows "launch n needs spawn now st = Some (st\<lparr>
     sv_children := map (\<lambda>d. if ch_name d = n then launched needs spawn now d else d) (sv_children st),
     sv_procs := sv_procs st @ (case spawn of Inr p \<Rightarrow> [(n, p)] | Inl _ \<Rightarrow> []),
     sv_pending := (case spawn of Inr _ \<Rightarrow> sv_pending st | Inl _ \<Rightarrow> retain_not n (sv_pending st) @ [(n, now + BACKOFF)])\<rparr>)"
proof -
  define st1 where "st1 = st\<lparr>sv_children := map (\<lambda>d. if ch_name d = n then d\<lparr>ch_want := True\<rparr> else d) (sv_children st)\<rparr>"
  have names: "map ch_name (sv_children st1) = NAMES"
    using assms(1) names_at [of "\<lambda>d. d\<lparr>ch_want := True\<rparr>" n "sv_children st"] by (simp add: st1_def)
  then obtain c where c: "child_named n st1 = Some c"
    using assms(2) by (blast elim: child_named_ex)
  have first: "set_child n (\<lambda>c. c\<lparr>ch_want := True\<rparr>) st = Some st1"
    using assms by (simp add: set_child_eq st1_def)
  have twice: "map (\<lambda>d. if ch_name d = n then f d else d) (sv_children st1) =
      map (\<lambda>d. if ch_name d = n then f (d\<lparr>ch_want := True\<rparr>) else d) (sv_children st)" for f
    unfolding st1_def by (simp add: map_at_twice [where g = "\<lambda>d. d\<lparr>ch_want := True\<rparr>"])
  show ?thesis
  proof (cases spawn)
    case (Inl e)
    then show ?thesis
      using on_child_eq [OF names c, of "exited (''spawn failed: '' @ e) now"]
      by (simp add: launch_def first twice schedule_def launched_def cong: if_cong) (simp add: st1_def)
  next
    case (Inr p)
    then show ?thesis
      using set_child_eq [OF names assms(2), of "spawned p now needs"]
      by (simp add: launch_def first twice launched_def cong: if_cong) (simp add: st1_def)
  qed
qed

lemma exit_eq:
  assumes "map ch_name (sv_children st) = NAMES" "child_named n st = Some c"
  shows "on_child n (exited cause now) st =
    Some (st\<lparr>sv_children := map (\<lambda>d. if ch_name d = n then fst (exited cause now d) else d) (sv_children st)\<rparr>, snd (exited cause now c))"
  using assms by (simp add: on_child_eq)

text \<open>One name is changed and the others are left alone.\<close>

lemma sup_ok_update:
  assumes ok: "sup_ok req gap st"
    and cs: "sv_children st' = map (\<lambda>d. if ch_name d = n then g d else d) (sv_children st)" "\<And>d. ch_name (g d) = ch_name d"
    and others: "\<And>m. m \<noteq> n \<Longrightarrow> procs_of m st' = procs_of m st \<and> exits_of m st' = exits_of m st \<and>
        pending_of m st' = pending_of m st \<and> (m \<in> gap' \<longleftrightarrow> m \<in> gap)"
    and names: "fst ` set (sv_procs st') \<subseteq> set NAMES" "fst ` set (sv_exits st') \<subseteq> set NAMES"
      "fst ` set (sv_pending st') \<subseteq> set NAMES" "fst ` set (sv_wait st') \<subseteq> set NAMES"
    and own: "\<And>c. c \<in> set (sv_children st) \<Longrightarrow> ch_name c = n \<Longrightarrow> child_ok (g c) \<and> tracked (g c) (procs_of n st') (exits_of n st') \<and>
        scheduled_right (n \<in> req) (n \<in> gap') (g c) (pending_of n st')"
  shows "sup_ok req gap' st'"
proof -
  have "map ch_name (sv_children st') = NAMES"
    using ok cs(2) by (simp add: sup_ok_def cs(1) comp_def if_distrib cong: if_cong)
  moreover have "child_ok c' \<and> tracked c' (procs_of (ch_name c') st') (exits_of (ch_name c') st') \<and>
      scheduled_right (ch_name c' \<in> req) (ch_name c' \<in> gap') c' (pending_of (ch_name c') st')" if mem: "c' \<in> set (sv_children st')" for c'
  proof -
    obtain c where c: "c \<in> set (sv_children st)" "c' = (if ch_name c = n then g c else c)"
      using mem unfolding cs(1) set_map by (rule imageE)
    show ?thesis
    proof (cases "ch_name c = n")
      case True
      then show ?thesis
        using own [OF c(1)] c(2) cs(2) by simp
    next
      case False
      then show ?thesis
        using ok c others [OF False] by (simp add: sup_ok_def)
    qed
  qed
  ultimately show ?thesis
    using names by (simp add: sup_ok_def)
qed

section \<open>Every step keeps the invariant\<close>

lemmas of_defs = procs_of_def exits_of_def pending_of_def

lemma filter_retain [simp]:
  "filter (\<lambda>(m, _). m = k) (retain_not n q) = (if k = n then [] else filter (\<lambda>(m, _). m = k) q)"
  by (induction q) (auto simp: retain_not_def)

lemma retain_names: "fst ` set q \<subseteq> N \<Longrightarrow> (a, b) \<in> set (retain_not n q) \<Longrightarrow> a \<in> N"
  by (force simp: retain_not_def)

lemma sup_ok_names: "sup_ok req gap st \<Longrightarrow> map ch_name (sv_children st) = NAMES"
  by (simp add: sup_ok_def)

lemma sup_okD:
  assumes "sup_ok req gap st" "c \<in> set (sv_children st)"
  shows "child_ok c" "tracked c (procs_of (ch_name c) st) (exits_of (ch_name c) st)"
    "scheduled_right (ch_name c \<in> req) (ch_name c \<in> gap) c (pending_of (ch_name c) st)"
  using assms by (simp_all add: sup_ok_def)

lemma child_ok_launched: "child_ok c \<Longrightarrow> ch_why_stopped c = None \<Longrightarrow> child_ok (launched needs spawn now c)"
  by (auto simp: launched_def child_ok_def exited_def spawned_def Let_def split: sum.splits)

lemma launch_ok:
  assumes ok: "sup_ok req gap st" and n: "n \<in> set NAMES" "n \<in> gap"
  obtains st' where "launch n needs spawn now st = Some st'" "sup_ok req (gap - {n}) st'" "sv_wait st' = sv_wait st"
proof -
  let ?st = "st\<lparr>
     sv_children := map (\<lambda>d. if ch_name d = n then launched needs spawn now d else d) (sv_children st),
     sv_procs := sv_procs st @ (case spawn of Inr p \<Rightarrow> [(n, p)] | Inl _ \<Rightarrow> []),
     sv_pending := (case spawn of Inr _ \<Rightarrow> sv_pending st | Inl _ \<Rightarrow> retain_not n (sv_pending st) @ [(n, now + BACKOFF)])\<rparr>"
  have names: "fst ` set (sv_procs st) \<subseteq> set NAMES" "fst ` set (sv_exits st) \<subseteq> set NAMES"
      "fst ` set (sv_pending st) \<subseteq> set NAMES" "fst ` set (sv_wait st) \<subseteq> set NAMES"
    using ok by (simp_all add: sup_ok_def)
  have "sup_ok req (gap - {n}) ?st"
  proof (rule sup_ok_update [OF ok, where n = n and g = "launched needs spawn now"])
    fix c assume c: "c \<in> set (sv_children st)" "ch_name c = n"
    note d = sup_okD [OF ok c(1), unfolded c(2)]
    have e: "ch_pid c = None" "procs_of n st = []" "exits_of n st = []" "pending_of n st = []" "ch_why_stopped c = None"
      using d(2,3) n(2) by (auto simp: scheduled_right_def tracked_def)
    have "tracked (launched needs spawn now c) (procs_of n ?st) (exits_of n ?st)"
      using e c(2) by (cases spawn) (simp_all add: of_defs tracked_def launched_def spawned_def exited_def)
    moreover have "scheduled_right (n \<in> req) (n \<in> gap - {n}) (launched needs spawn now c) (pending_of n ?st)"
      using e c(2) by (cases spawn) (simp_all add: pending_of_def scheduled_right_def launched_def spawned_def exited_def)
    ultimately show "child_ok (launched needs spawn now c) \<and> tracked (launched needs spawn now c) (procs_of n ?st) (exits_of n ?st) \<and>
        scheduled_right (n \<in> req) (n \<in> gap - {n}) (launched needs spawn now c) (pending_of n ?st)"
      using child_ok_launched [OF d(1) e(5)] by simp
  qed (use names n(1) in \<open>auto simp: of_defs dest: retain_names [OF names(3)] split: sum.splits\<close>)
  then show thesis
    using launch_eq [OF sup_ok_names [OF ok] n(1)] by (intro that [of ?st]) simp_all
qed

lemma take_exit:
  assumes ok: "sup_ok req gap st" and ex: "sv_exits st = (n, cause) # es"
    and c: "c \<in> set (sv_children st)" "ch_name c = n"
  shows "ch_pid c \<noteq> None" "procs_of n st = []" "filter (\<lambda>(m, _). m = n) es = []" "n \<notin> gap" "pending_of n st = []"
proof -
  note d = sup_okD [OF ok c(1), unfolded c(2)]
  have "exits_of n st = (n, cause) # filter (\<lambda>(m, _). m = n) es"
    by (simp add: exits_of_def ex)
  then show "ch_pid c \<noteq> None" "procs_of n st = []" "filter (\<lambda>(m, _). m = n) es = []" "n \<notin> gap" "pending_of n st = []"
    using d(2,3) by (auto simp: tracked_def scheduled_right_def split: option.splits if_splits)
qed

lemma child_ok_exited: "child_ok c \<Longrightarrow> child_ok (fst (exited cause now c))"
  using child.step_inv [of c "ExitedCall cause now"] by simp

lemma handle_exit_ok:
  assumes ok: "sup_ok req gap st" and ex: "sv_exits st = (n, cause) # es"
  obtains st' where "handle_exit n cause now (st\<lparr>sv_exits := es\<rparr>) = Some st'" "sup_ok req gap st'" "sv_wait st' = sv_wait st"
proof -
  have names: "fst ` set (sv_procs st) \<subseteq> set NAMES" "fst ` set es \<subseteq> set NAMES" "n \<in> set NAMES"
      "fst ` set (sv_pending st) \<subseteq> set NAMES" "fst ` set (sv_wait st) \<subseteq> set NAMES" "map ch_name (sv_children st) = NAMES"
    using ok ex by (auto simp: sup_ok_def)
  obtain c where c: "c \<in> set (sv_children st)" "ch_name c = n" "child_named n st = Some c"
    by (rule child_named_ex [OF names(6) names(3)])
  note t = take_exit [OF ok ex c(1,2)]
  let ?q = "if ch_want c then retain_not n (sv_pending st) @ [(n, now + BACKOFF)] else sv_pending st"
  let ?st = "st\<lparr>sv_exits := es, sv_children := map (\<lambda>d. if ch_name d = n then fst (exited cause now d) else d) (sv_children st), sv_pending := ?q\<rparr>"
  have "sup_ok req gap ?st"
  proof (rule sup_ok_update [OF ok, where n = n and g = "\<lambda>d. fst (exited cause now d)"])
    fix d assume d: "d \<in> set (sv_children st)" "ch_name d = n"
    have "d = c"
      using names(6) distinct_NAMES c d by (metis distinct_map inj_on_contraD)
    have "tracked (fst (exited cause now d)) (procs_of n ?st) (exits_of n ?st)"
      using t by (simp add: of_defs tracked_def exited_def Let_def)
    moreover have "scheduled_right (n \<in> req) (n \<in> gap) (fst (exited cause now d)) (pending_of n ?st)"
      using t(4,5) c(2) sup_okD(3) [OF ok c(1)] \<open>d = c\<close> by (simp add: pending_of_def scheduled_right_def exited_def Let_def)
    ultimately show "child_ok (fst (exited cause now d)) \<and> tracked (fst (exited cause now d)) (procs_of n ?st) (exits_of n ?st) \<and>
        scheduled_right (n \<in> req) (n \<in> gap) (fst (exited cause now d)) (pending_of n ?st)"
      using child_ok_exited [OF sup_okD(1) [OF ok d(1)]] by simp
  qed (use names ex in \<open>auto simp: of_defs dest: retain_names [OF names(4)]\<close>)
  moreover have "child_named n (st\<lparr>sv_exits := es\<rparr>) = Some c" "map ch_name (sv_children (st\<lparr>sv_exits := es\<rparr>)) = NAMES"
    using c(3) names(6) by (simp_all add: child_named_def)
  then have "handle_exit n cause now (st\<lparr>sv_exits := es\<rparr>) = Some ?st"
    by (simp add: handle_exit_def exit_eq) (simp add: exited_def schedule_def Let_def)
  ultimately show thesis
    by (intro that [of ?st]) simp_all
qed

lemma relaunch_ok:
  assumes ok: "sup_ok req gap st" and n: "n \<in> set NAMES" "n \<notin> gap" "child_named n st = Some c" "ch_pid c = None" "ch_want c"
  obtains st' where "relaunch n needs spawn now st = Some st'" "sup_ok req gap st'" "sv_wait st' = sv_wait st"
proof -
  let ?st = "st\<lparr>sv_pending := retain_not n (sv_pending st)\<rparr>"
  have names: "fst ` set (sv_procs st) \<subseteq> set NAMES" "fst ` set (sv_exits st) \<subseteq> set NAMES"
      "fst ` set (sv_pending st) \<subseteq> set NAMES" "fst ` set (sv_wait st) \<subseteq> set NAMES" "map ch_name (sv_children st) = NAMES"
    using ok by (simp_all add: sup_ok_def)
  have "sup_ok req (insert n gap) ?st"
  proof (rule sup_ok_update [OF ok, where n = n and g = id])
    fix d assume d: "d \<in> set (sv_children st)" "ch_name d = n"
    have "d = c"
      using names(5) distinct_NAMES child_named_Some [OF n(3)] d by (metis distinct_map inj_on_contraD)
    then show "child_ok (id d) \<and> tracked (id d) (procs_of n ?st) (exits_of n ?st) \<and>
        scheduled_right (n \<in> req) (n \<in> insert n gap) (id d) (pending_of n ?st)"
      using sup_okD [OF ok d(1)] n(4,5) d(2) by (auto simp: of_defs scheduled_right_def child_ok_def)
  qed (use names in \<open>auto simp: of_defs dest: retain_names [OF names(3)] intro: map_idI [symmetric]\<close>)
  then obtain st' where "launch n needs spawn now ?st = Some st'" "sup_ok req (insert n gap - {n}) st'" "sv_wait st' = sv_wait ?st"
    using n(1) by (rule launch_ok) simp
  moreover have "insert n gap - {n} = gap"
    using n(2) by simp
  ultimately show thesis
    by (intro that [of st']) (simp_all add: relaunch_def)
qed

text \<open>The names a restart waits for, or is about to restart, are required.\<close>

lemma restart_next_ok:
  assumes "sup_ok req {} st" "fst ` set rest \<subseteq> req \<inter> set NAMES"
  obtains st' where "restart_next rest spawn now st = Some st'" "sup_ok req {} st'" "set (sv_wait st') \<subseteq> set rest"
  using assms
proof (induction rest arbitrary: st thesis)
  case Nil
  then show ?case
    by (auto simp: sup_ok_def of_defs)
next
  case (Cons r rest)
  obtain n needs where r: "r = (n, needs)"
    by (rule prod.exhaust)
  have n: "n \<in> set NAMES" "n \<in> req"
    using Cons.prems(3) by (auto simp: r)
  obtain c where c: "c \<in> set (sv_children st)" "ch_name c = n" "child_named n st = Some c"
    by (rule child_named_ex [OF sup_ok_names [OF Cons.prems(2)] n(1)])
  have want: "ch_want c"
    using sup_okD(3) [OF Cons.prems(2) c(1)] n c(2) by (simp add: scheduled_right_def)
  show ?case
  proof (cases "ch_pid c")
    case None
    obtain st1 where st1: "relaunch n needs (spawn n) now st = Some st1" "sup_ok req {} st1"
      using relaunch_ok [OF Cons.prems(2) n(1) _ c(3) None want] by blast
    obtain st' where "restart_next rest spawn now st1 = Some st'" "sup_ok req {} st'" "set (sv_wait st') \<subseteq> set rest"
      by (rule Cons.IH [OF _ st1(2)]) (use Cons.prems(3) in auto)
    then show ?thesis
      using Cons.prems(1) [of st'] None c(3) st1(1) by (auto simp: r)
  next
    case (Some p)
    then show ?thesis
      using Cons.prems c(3) n by (intro Cons.prems(1) [of "st\<lparr>sv_wait := (n, needs) # rest\<rparr>"]) (auto simp: r sup_ok_def of_defs)
  qed
qed

lemma own_exit_ok:
  assumes ok: "sup_ok req {} st" and ex: "sv_exits st = (n, cause) # es" and w: "sv_wait st = (n, needs) # rest"
    and r: "fst ` set (sv_wait st) \<subseteq> req"
  obtains st' where "own_exit cause spawn now (st\<lparr>sv_exits := es\<rparr>) = Some st'" "sup_ok req {} st'" "set (sv_wait st') \<subseteq> set rest"
proof -
  have names: "fst ` set (sv_procs st) \<subseteq> set NAMES" "fst ` set es \<subseteq> set NAMES" "n \<in> set NAMES"
      "fst ` set (sv_pending st) \<subseteq> set NAMES" "fst ` set (sv_wait st) \<subseteq> set NAMES" "map ch_name (sv_children st) = NAMES"
    using ok ex by (auto simp: sup_ok_def)
  obtain c where c: "c \<in> set (sv_children st)" "ch_name c = n" "child_named n st = Some c"
    by (rule child_named_ex [OF names(6) names(3)])
  note t = take_exit [OF ok ex c(1,2)]
  have want: "ch_want c" "ch_why_stopped c = None"
    using sup_okD(1,3) [OF ok c(1)] c(2) r w by (auto simp: scheduled_right_def child_ok_def)
  define st1 where "st1 = st\<lparr>sv_exits := es, sv_children := map (\<lambda>d. if ch_name d = n then fst (exited cause now d) else d) (sv_children st)\<rparr>"
  let ?st = "st1\<lparr>sv_pending := retain_not n (sv_pending st)\<rparr>"
  have "sup_ok req {n} ?st"
  proof (rule sup_ok_update [OF ok, where n = n and g = "\<lambda>d. fst (exited cause now d)"])
    fix d assume d: "d \<in> set (sv_children st)" "ch_name d = n"
    have "d = c"
      using names(6) distinct_NAMES c d by (metis distinct_map inj_on_contraD)
    then have "scheduled_right (n \<in> req) (n \<in> {n}) (fst (exited cause now d)) (pending_of n ?st)"
      using want by (simp add: pending_of_def scheduled_right_def exited_def Let_def)
    moreover have "tracked (fst (exited cause now d)) (procs_of n ?st) (exits_of n ?st)"
      using t by (simp add: of_defs tracked_def exited_def Let_def st1_def)
    ultimately show "child_ok (fst (exited cause now d)) \<and> tracked (fst (exited cause now d)) (procs_of n ?st) (exits_of n ?st) \<and>
        scheduled_right (n \<in> req) (n \<in> {n}) (fst (exited cause now d)) (pending_of n ?st)"
      using child_ok_exited [OF sup_okD(1) [OF ok d(1)]] by simp
  qed (use names ex in \<open>auto simp: of_defs st1_def dest: retain_names [OF names(4)]\<close>)
  then obtain st2 where st2: "launch n needs (spawn n) now ?st = Some st2" "sup_ok req {} st2"
    using names(3) by (rule launch_ok) simp_all
  obtain st' where st': "restart_next rest spawn now st2 = Some st'" "sup_ok req {} st'" "set (sv_wait st') \<subseteq> set rest"
    by (rule restart_next_ok [OF st2(2)]) (use names(5) r w in auto)
  have "child_named n (st\<lparr>sv_exits := es\<rparr>) = Some c" "map ch_name (sv_children (st\<lparr>sv_exits := es\<rparr>)) = NAMES"
    using c(3) names(6) by (simp_all add: child_named_def)
  then have "on_child n (exited cause now) (st\<lparr>sv_exits := es\<rparr>) = Some (st1, snd (exited cause now c))"
    by (simp add: exit_eq st1_def)
  then have "own_exit cause spawn now (st\<lparr>sv_exits := es\<rparr>) = Some st'"
    using st2(1) st'(1) w by (simp add: own_exit_def finish_restart_def) (simp add: st1_def relaunch_def)
  then show thesis
    using st' by (intro that)
qed

lemma dies_ok:
  assumes ok: "sup_ok req gap st" and p: "(n, p) \<in> set (sv_procs st)"
  shows "sup_ok req gap (st\<lparr>sv_procs := remove1 (n, p) (sv_procs st), sv_exits := sv_exits st @ [(n, cause)]\<rparr>)"
proof (rule sup_ok_update [OF ok, where n = n and g = id])
  have names: "fst ` set (sv_procs st) \<subseteq> set NAMES" "fst ` set (sv_exits st) \<subseteq> set NAMES"
    using ok by (simp_all add: sup_ok_def)
  moreover have n: "fst (n, p) \<in> fst ` set (sv_procs st)"
    using p by (rule imageI)
  show "fst ` set (sv_procs (st\<lparr>sv_procs := remove1 (n, p) (sv_procs st), sv_exits := sv_exits st @ [(n, cause)]\<rparr>)) \<subseteq> set NAMES"
    using names(1) set_remove1_subset [of "(n, p)" "sv_procs st"] by auto
  show "fst ` set (sv_exits (st\<lparr>sv_procs := remove1 (n, p) (sv_procs st), sv_exits := sv_exits st @ [(n, cause)]\<rparr>)) \<subseteq> set NAMES"
    using names n by auto
  fix c assume c: "c \<in> set (sv_children st)" "ch_name c = n"
  have "(n, p) \<in> set (procs_of n st)"
    using p by (simp add: procs_of_def)
  then have "ch_pid c = Some p" "procs_of n st = [(n, p)]" "exits_of n st = []"
    using sup_okD(2) [OF ok c(1)] c(2) by (auto simp: tracked_def split: option.splits)
  then show "child_ok (id c) \<and>
      tracked (id c) (procs_of n (st\<lparr>sv_procs := remove1 (n, p) (sv_procs st), sv_exits := sv_exits st @ [(n, cause)]\<rparr>))
        (exits_of n (st\<lparr>sv_procs := remove1 (n, p) (sv_procs st), sv_exits := sv_exits st @ [(n, cause)]\<rparr>)) \<and>
      scheduled_right (n \<in> req) (n \<in> gap) (id c)
        (pending_of n (st\<lparr>sv_procs := remove1 (n, p) (sv_procs st), sv_exits := sv_exits st @ [(n, cause)]\<rparr>))"
    using sup_okD [OF ok c(1)] c(2) by (simp add: tracked_def of_defs filter_remove1)
qed (use ok in \<open>auto simp: sup_ok_def of_defs filter_remove1 remove1_idem intro: map_idI [symmetric]\<close>)

lemma child_mut_None: "\<forall>c\<in>set cs. ch_name c \<noteq> n \<Longrightarrow> child_mut n f cs = None"
  by (induction cs) auto

lemma set_child_ok:
  assumes ok: "sup_ok req gap st" and s: "set_child n f st = Some st'"
    and f: "\<And>c. ch_name (f c) = ch_name c \<and> ch_pid (f c) = ch_pid c \<and> ch_want (f c) = ch_want c \<and>
        ch_exited_at (f c) = ch_exited_at c \<and> ch_why_stopped (f c) = ch_why_stopped c \<and> (child_ok c \<longrightarrow> child_ok (f c))"
  shows "sup_ok req gap st'" "sv_wait st' = sv_wait st"
proof -
  have n: "n \<in> set NAMES"
  proof (rule ccontr)
    assume "n \<notin> set NAMES"
    then have "\<forall>c\<in>set (sv_children st). ch_name c \<noteq> n"
      using sup_ok_names [OF ok] by (metis image_eqI set_map)
    then show False
      using s child_mut_None [of "sv_children st" n "\<lambda>c. (f c, ())"] by (simp add: set_child_def on_child_def)
  qed
  have st': "st' = st\<lparr>sv_children := map (\<lambda>d. if ch_name d = n then f d else d) (sv_children st)\<rparr>"
    using s f set_child_eq [OF sup_ok_names [OF ok] n, of f] by simp
  then show "sv_wait st' = sv_wait st"
    by simp
  show "sup_ok req gap st'"
  proof (rule sup_ok_update [OF ok, where n = n and g = f])
    fix c assume c: "c \<in> set (sv_children st)" "ch_name c = n"
    have "tracked (f c) ps es = tracked c ps es" "scheduled_right r g (f c) q = scheduled_right r g c q" for ps es r g q
      using f [of c] by (auto simp: tracked_def scheduled_right_def split: option.splits)
    moreover have "procs_of n st' = procs_of n st" "exits_of n st' = exits_of n st" "pending_of n st' = pending_of n st"
      by (simp_all add: st' of_defs)
    ultimately show "child_ok (f c) \<and> tracked (f c) (procs_of n st') (exits_of n st') \<and> scheduled_right (n \<in> req) (n \<in> gap) (f c) (pending_of n st')"
      using sup_okD [OF ok c(1)] c(2) f [of c] by simp
  qed (use ok f in \<open>auto simp: st' sup_ok_def of_defs\<close>)
qed

lemma mark_stopped_ok:
  assumes ok: "sup_ok req gap st" and n: "n \<in> set NAMES" "n \<in> gap" "n \<notin> req"
  obtains st' where "mark_stopped n why st = Some st'" "sup_ok req (gap - {n}) st'" "sv_wait st' = sv_wait st"
proof -
  let ?f = "\<lambda>c. c\<lparr>ch_state := Stopped, ch_want := False, ch_why_stopped := Some why\<rparr>"
  let ?st = "st\<lparr>sv_children := map (\<lambda>d. if ch_name d = n then ?f d else d) (sv_children st)\<rparr>"
  have "sup_ok req (gap - {n}) ?st"
  proof (rule sup_ok_update [OF ok, where n = n and g = ?f])
    fix c assume c: "c \<in> set (sv_children st)" "ch_name c = n"
    have e: "ch_pid c = None" "pending_of n st = []"
      using sup_okD(3) [OF ok c(1)] c(2) n(2) by (simp_all add: scheduled_right_def)
    have "child_ok (?f c)" "scheduled_right (n \<in> req) (n \<in> gap - {n}) (?f c) (pending_of n ?st)"
      using e sup_okD(1) [OF ok c(1)] n(3) by (auto simp: child_ok_def scheduled_right_def pending_of_def)
    then show "child_ok (?f c) \<and> tracked (?f c) (procs_of n ?st) (exits_of n ?st) \<and> scheduled_right (n \<in> req) (n \<in> gap - {n}) (?f c) (pending_of n ?st)"
      using sup_okD(2) [OF ok c(1)] c(2) e by (simp add: tracked_def of_defs)
  qed (use ok in \<open>auto simp: sup_ok_def of_defs\<close>)
  moreover have "mark_stopped n why st = Some ?st"
    using set_child_eq [OF sup_ok_names [OF ok] n(1), of ?f] by (simp add: mark_stopped_def)
  ultimately show thesis
    by (intro that [of ?st]) simp_all
qed

lemma launch_all_ok:
  assumes "sup_ok req (set ns) st" "distinct ns" "set ns \<subseteq> set NAMES"
  obtains st' where "launch_all ns spawn now st = Some st'" "sup_ok req {} st'" "sv_wait st' = sv_wait st"
  using assms
proof (induction ns arbitrary: st thesis)
  case (Cons n ns)
  obtain st1 where st1: "launch n (n = ''engine'') (spawn n) now st = Some st1" "sup_ok req (set (n # ns) - {n}) st1" "sv_wait st1 = sv_wait st"
    by (rule launch_ok [OF Cons.prems(2)]) (use Cons.prems(4) in auto)
  then have "sup_ok req (set ns) st1"
    using Cons.prems(3) by simp
  then obtain st' where "launch_all ns spawn now st1 = Some st'" "sup_ok req {} st'" "sv_wait st' = sv_wait st1"
    by (rule Cons.IH [rotated]) (use Cons.prems in auto)
  then show ?case
    using Cons.prems(1) [of st'] st1 by simp
qed simp

lemma distinct_by_filter: "(\<And>n. length (filter (\<lambda>(m, _). m = n) q) \<le> 1) \<Longrightarrow> distinct (map fst q)"
proof (induction q)
  case (Cons e q)
  have "filter (\<lambda>(m, _). m = fst e) q = []"
    using Cons.prems [of "fst e"] by (cases e) simp
  then have "fst e \<notin> fst ` set q"
    by (auto simp: filter_empty_conv)
  moreover have "length (filter (\<lambda>(m, _). m = n) q) \<le> 1" for n
    using Cons.prems [of n] by (simp split: if_splits)
  then have "distinct (map fst q)"
    by (rule Cons.IH)
  ultimately show ?case
    by simp
qed simp

lemma pending_length: "sup_ok req gap st \<Longrightarrow> length (pending_of n st) \<le> 1"
proof (cases "n \<in> set NAMES")
  case True
  assume ok: "sup_ok req gap st"
  obtain c where c: "c \<in> set (sv_children st)" "ch_name c = n"
    using child_named_ex [OF sup_ok_names [OF ok] True] by blast
  then show ?thesis
    using sup_okD(3) [OF ok c(1)] by (auto simp: scheduled_right_def split: if_splits)
next
  case False
  assume "sup_ok req gap st"
  with False have "pending_of n st = []"
    by (fastforce simp: sup_ok_def pending_of_def filter_empty_conv)
  then show ?thesis
    by simp
qed

lemma respawn_due_ok:
  assumes ok: "sup_ok req {} st"
  obtains st' where "respawn_due spawn now st = Some st'" "sup_ok req {} st'" "sv_wait st' = sv_wait st"
proof -
  let ?due = "map fst (filter (\<lambda>(_, d). d \<le> now) (sv_pending st))"
  let ?st = "st\<lparr>sv_pending := filter (\<lambda>(_, d). d > now) (sv_pending st)\<rparr>"
  have "distinct (map fst (sv_pending st))"
    using pending_length [OF ok] by (intro distinct_by_filter) (simp add: pending_of_def)
  then have dist: "distinct ?due"
    by (rule distinct_map_filter)
  have sub: "set ?due \<subseteq> set NAMES"
    using ok by (auto simp: sup_ok_def)
  have own: "scheduled_right (n \<in> req) (n \<in> set ?due) c (pending_of n ?st)" if c: "c \<in> set (sv_children st)" "ch_name c = n" for c n
  proof -
    have s: "scheduled_right (n \<in> req) False c (pending_of n st)"
      using sup_okD(3) [OF ok c(1)] c(2) by simp
    have p: "pending_of n ?st = filter (\<lambda>(_, d). d > now) (pending_of n st)"
      by (auto simp: pending_of_def intro: filter_cong)
    have d: "n \<in> set ?due \<longleftrightarrow> (\<exists>e\<in>set (pending_of n st). snd e \<le> now)"
      by (force simp: pending_of_def)
    show ?thesis
      using s sup_okD(1) [OF ok c(1)] unfolding p d by (auto simp: scheduled_right_def child_ok_def split: if_splits)
  qed
  have "sup_ok req (set ?due) ?st"
    using ok own unfolding sup_ok_def by (auto simp: procs_of_def exits_of_def)
  then obtain st' where "launch_all ?due spawn now ?st = Some st'" "sup_ok req {} st'" "sv_wait st' = sv_wait ?st"
    using dist sub by (rule launch_all_ok)
  then show thesis
    by (intro that [of st']) (simp_all add: respawn_due_def)
qed

section \<open>What a run keeps\<close>

definition required :: "bool \<Rightarrow> string set" where
  "required host = fst ` set (reapply_targets host)"

lemma required_names: "required host \<subseteq> set NAMES"
  by (auto simp: required_def reapply_targets_def NAMES_def)

lemma new_super_ok: "sup_ok req (set NAMES) new_super"
  by (auto simp: sup_ok_def new_super_def of_defs tracked_def scheduled_right_def child_ok_new(1) comp_def) (simp_all add: new_child_def)

lemma keeps_ready: "set_child n became_ready st = Some st' \<Longrightarrow> sup_ok req gap st \<Longrightarrow> sup_ok req gap st' \<and> sv_wait st' = sv_wait st"
  using set_child_ok [where f = became_ready] child.step_inv [of _ ReadyCall] by (simp add: became_ready_def)

lemma keeps_log: "set_child n (push_log l) st = Some st' \<Longrightarrow> sup_ok req gap st \<Longrightarrow> sup_ok req gap st' \<and> sv_wait st' = sv_wait st"
  using set_child_ok [where f = "push_log l"] child.step_inv [of _ "LogCall l"] by (simp add: push_log_def Let_def)

definition run_ok :: "bool \<Rightarrow> Super \<Rightarrow> bool" where
  "run_ok host st \<longleftrightarrow> sup_ok (required host) {} st \<and> fst ` set (sv_wait st) \<subseteq> required host"

lemma start_ok:
  "\<exists>st. start_supervisor host clustered ready spawn now = Some st \<and> run_ok host st \<and> sv_wait st = []"
proof -
  let ?R = "required host"
  have r: "''shape-daemon'' \<in> ?R \<longleftrightarrow> host" "''conf-sync'' \<notin> ?R"
    by (auto simp: required_def reapply_targets_def)
  obtain s1 where s1: "launch ''engine'' True (spawn ''engine'') now new_super = Some s1" "sup_ok ?R (set NAMES - {''engine''}) s1" "sv_wait s1 = []"
    by (rule launch_ok [OF new_super_ok, where n = "''engine''" and needs = True and spawn = "spawn ''engine''" and now = now and req = "required host"])
      (auto simp: NAMES_def new_super_def)
  obtain s2 where s2: "(if ready then set_child ''engine'' became_ready s1 else Some s1) = Some s2" "sup_ok ?R (set NAMES - {''engine''}) s2" "sv_wait s2 = []"
  proof (cases ready)
    case True
    have "''engine'' \<in> set NAMES"
      by (simp add: NAMES_def)
    from set_child_eq [OF sup_ok_names [OF s1(2)] this, of became_ready] show thesis
      using that True s1 keeps_ready by force
  qed (use that s1 in simp)
  obtain s3 where s3: "(if host then launch ''shape-daemon'' False (spawn ''shape-daemon'') now s2 else mark_stopped ''shape-daemon'' ''not a host'' s2) = Some s3"
      "sup_ok ?R (set NAMES - {''engine''} - {''shape-daemon''}) s3" "sv_wait s3 = []"
  proof (cases host)
    case True
    show thesis
      by (rule launch_ok [OF s2(2), of "''shape-daemon''" False "spawn ''shape-daemon''" now]) (use that True s2(3) in \<open>auto simp: NAMES_def\<close>)
  next
    case False
    show thesis
      by (rule mark_stopped_ok [OF s2(2), of "''shape-daemon''" "''not a host''"]) (use that False r s2(3) in \<open>auto simp: NAMES_def\<close>)
  qed
  have last: "set NAMES - {''engine''} - {''shape-daemon''} - {''conf-sync''} = {}"
    by (auto simp: NAMES_def)
  obtain s4 where s4: "(if clustered then launch ''conf-sync'' False (spawn ''conf-sync'') now s3 else mark_stopped ''conf-sync'' ''not clustered'' s3) = Some s4"
      "sup_ok ?R {} s4" "sv_wait s4 = []"
  proof (cases clustered)
    case True
    show thesis
      by (rule launch_ok [OF s3(2), of "''conf-sync''" False "spawn ''conf-sync''" now]) (use that True s3(3) last in \<open>auto simp: NAMES_def\<close>)
  next
    case False
    show thesis
      by (rule mark_stopped_ok [OF s3(2), of "''conf-sync''" "''not clustered''"]) (use that False r s3(3) last in \<open>auto simp: NAMES_def\<close>)
  qed
  then show ?thesis
    using s1(1) s2(1) s3(1) by (intro exI [of _ s4]) (simp add: start_supervisor_def run_ok_def)
qed

lemma step_ok: "sup_step host st t st' \<Longrightarrow> t \<Longrightarrow> run_ok host st \<Longrightarrow> run_ok host st'"
proof (induction rule: sup_step.induct)
  case (dies n p st cause)
  then show ?case
    by (simp add: run_ok_def dies_ok)
next
  case (exit_arm st n cause es now st')
  then show ?case
    unfolding run_ok_def by (metis handle_exit_ok option.inject)
next
  case (respawn_arm st n d now spawn st')
  then show ?case
    unfolding run_ok_def by (metis respawn_due_ok option.inject)
next
  case (ready_arm st st')
  then show ?case
    unfolding run_ok_def using keeps_ready by metis
next
  case (prints n line st st')
  then show ?case
    unfolding run_ok_def using keeps_log by metis
next
  case (reapply st spawn now st')
  have "fst ` set (reapply_targets host) \<subseteq> required host \<inter> set NAMES"
    using required_names [of host] by (simp add: required_def)
  then obtain u where "restart_next (reapply_targets host) spawn now st = Some u" "sup_ok (required host) {} u" "set (sv_wait u) \<subseteq> set (reapply_targets host)"
    using reapply.prems(2) unfolding run_ok_def by (blast elim: restart_next_ok)
  then show ?case
    using reapply by (auto simp: run_ok_def required_def)
next
  case (restart_own st n needs rest cause es spawn now st')
  obtain u where "own_exit cause spawn now (st\<lparr>sv_exits := es\<rparr>) = Some u" "sup_ok (required host) {} u" "set (sv_wait u) \<subseteq> set rest"
    using own_exit_ok [OF _ restart_own.hyps(2,1)] restart_own.prems(2) unfolding run_ok_def by blast
  then show ?case
    using restart_own by (auto simp: run_ok_def)
next
  case (restart_other st n needs rest m cause es now st')
  then show ?case
    unfolding run_ok_def by (metis handle_exit_ok option.inject)
qed simp

lemma reach_ok: "sup_reach host timely st \<Longrightarrow> timely \<Longrightarrow> run_ok host st"
proof (induction rule: sup_reach.induct)
  case (start clustered ready spawn now st)
  then show ?case
    using start_ok [of host clustered ready spawn now] by auto
next
  case (more timely st t st')
  then show ?case
    using step_ok by blast
qed

lemma stop_wait_keeps: "n \<in> set alive \<Longrightarrow> n \<notin> fst ` set evs \<Longrightarrow> n \<in> set (stop_wait alive evs)"
  by (induction alive evs rule: stop_wait.induct) auto

lemma live_recorded:
  assumes ok: "sup_ok req {} st" and p: "(n, p) \<in> set (sv_procs st)"
  obtains c where "c \<in> set (sv_children st)" "ch_name c = n" "ch_pid c = Some p" "procs_of n st = [(n, p)]"
proof -
  have "fst (n, p) \<in> fst ` set (sv_procs st)"
    using p by (rule imageI)
  then have "n \<in> set NAMES"
    using ok by (auto simp: sup_ok_def)
  then obtain c where c: "c \<in> set (sv_children st)" "ch_name c = n"
    using child_named_ex [OF sup_ok_names [OF ok]] by metis
  have "(n, p) \<in> set (procs_of n st)"
    using p by (simp add: procs_of_def)
  then have "ch_pid c = Some p" "procs_of n st = [(n, p)]"
    using sup_okD(2) [OF ok c(1)] c(2) by (auto simp: tracked_def split: option.splits)
  with c show thesis
    by (rule that)
qed


text \<open>C19: the supervisor never gives up on a wanted child. As long as no restart has given up
  waiting, every wanted child has a process, or has an exit in the channel that will be handled,
  or is scheduled to be launched exactly two seconds after its last exit; a child that is not
  wanted is never scheduled; and each child's record is consistent.\<close>

theorem wanted_child_comes_back:
  assumes "sup_reach host True st"
  shows "list_all (\<lambda>c.
     child_ok c \<and>
     (case ch_pid c of
        Some p \<Rightarrow> (ch_name c, p) \<in> set (sv_procs st) \<or> ch_name c \<in> fst ` set (sv_exits st)
      | None \<Rightarrow> if ch_want c then \<exists>t. ch_exited_at c = Some t \<and> (ch_name c, t + from_secs 2) \<in> set (sv_pending st)
                else ch_name c \<notin> fst ` set (sv_pending st))) (sv_children st)"
proof -
  have ok: "sup_ok (required host) {} st"
    using reach_ok [OF assms] by (simp add: run_ok_def)
  have "child_ok c \<and>
     (case ch_pid c of
        Some p \<Rightarrow> (ch_name c, p) \<in> set (sv_procs st) \<or> ch_name c \<in> fst ` set (sv_exits st)
      | None \<Rightarrow> if ch_want c then \<exists>t. ch_exited_at c = Some t \<and> (ch_name c, t + from_secs 2) \<in> set (sv_pending st)
                else ch_name c \<notin> fst ` set (sv_pending st))" if c: "c \<in> set (sv_children st)" for c
  proof -
    note d = sup_okD [OF ok c]
    have mem: "set (procs_of (ch_name c) st) \<subseteq> set (sv_procs st)" "fst ` set (exits_of (ch_name c) st) \<subseteq> fst ` set (sv_exits st)"
      "set (pending_of (ch_name c) st) \<subseteq> set (sv_pending st)"
      by (auto simp: of_defs)
    have e: "exits_of (ch_name c) st \<noteq> [] \<Longrightarrow> ch_name c \<in> fst ` set (sv_exits st)"
      by (force simp: exits_of_def filter_empty_conv)
    have q: "pending_of (ch_name c) st = [] \<Longrightarrow> ch_name c \<notin> fst ` set (sv_pending st)"
      by (force simp: pending_of_def filter_empty_conv)
    show ?thesis
    proof (cases "ch_pid c")
      case (Some p)
      then have "procs_of (ch_name c) st = [(ch_name c, p)] \<or> exits_of (ch_name c) st \<noteq> []"
        using d(2) by (auto simp: tracked_def)
      then show ?thesis
        using d(1) Some mem(1) e by auto
    next
      case None
      then show ?thesis
        using d(1,3) mem(3) q by (auto simp: scheduled_right_def BACKOFF_def split: if_splits)
    qed
  qed
  then show ?thesis
    by (simp add: list_all_iff)
qed

text \<open>C21: no state of a supervisor in which no restart gave up reaches the panic of an unknown child:
  the start, the next exit in the channel, the respawns that are due and a re-apply all have a
  result, whatever the spawns return.\<close>

theorem supervisor_never_panics:
  assumes "sup_reach host True st"
  shows "start_supervisor host clustered ready spawn now \<noteq> None \<and> respawn_due spawn now st \<noteq> None \<and>
     restart_next (reapply_targets host) spawn now st \<noteq> None \<and>
     (case sv_exits st of
        [] \<Rightarrow> True
      | (n, cause) # es \<Rightarrow>
          handle_exit n cause now (st\<lparr>sv_exits := es\<rparr>) \<noteq> None \<and>
          (case sv_wait st of
             [] \<Rightarrow> True
           | (m, _) # _ \<Rightarrow> if m = n then own_exit cause spawn now (st\<lparr>sv_exits := es\<rparr>) \<noteq> None else True))"
proof -
  have ok: "sup_ok (required host) {} st" and w: "fst ` set (sv_wait st) \<subseteq> required host"
    using reach_ok [OF assms] by (simp_all add: run_ok_def)
  have "start_supervisor host clustered ready spawn now \<noteq> None"
    using start_ok by (metis option.distinct(1))
  moreover have "respawn_due spawn now st \<noteq> None"
    using respawn_due_ok [OF ok] by (metis option.distinct(1))
  moreover have "restart_next (reapply_targets host) spawn now st \<noteq> None"
    using restart_next_ok [OF ok, of "reapply_targets host"] required_names [of host]
    by (metis le_inf_iff option.distinct(1) order_refl required_def)
  moreover have "handle_exit n cause now (st\<lparr>sv_exits := es\<rparr>) \<noteq> None" if "sv_exits st = (n, cause) # es" for n cause es
    using handle_exit_ok [OF ok that] by (metis option.distinct(1))
  moreover have "own_exit cause spawn now (st\<lparr>sv_exits := es\<rparr>) \<noteq> None"
    if "sv_exits st = (n, cause) # es" "sv_wait st = (n, needs) # rest" for n cause es needs rest
    using own_exit_ok [OF ok that w] by (metis option.distinct(1))
  ultimately show ?thesis
    by (auto split: list.splits)
qed

section \<open>A restart that gives up\<close>

text \<open>The witness run: a leaf that is not clustered, whose engine is process 1.\<close>

definition spawn_one :: "u32 \<Rightarrow> string \<Rightarrow> string + u32" where
  "spawn_one p n = Inr p"

definition leaf_started :: Super where
  "leaf_started = the (start_supervisor False False True (spawn_one 1) 0)"

lemma leaf_reached: "sup_reach False True leaf_started"
proof -
  obtain st where st: "start_supervisor False False True (spawn_one 1) 0 = Some st"
    using start_ok by blast
  then show ?thesis
    by (simp add: leaf_started_def sup_reach.start)
qed

lemmas run_defs = start_supervisor_def launch_def handle_exit_def mark_stopped_def set_child_def on_child_def new_super_def NAMES_def
  new_child_def spawn_one_def spawned_def became_ready_def exited_def schedule_def retain_not_def respawn_due_def relaunch_def
  finish_restart_def child_named_def reapply_targets_def stop_targets_def


theorem wanted_child_comes_back_witness:
  "\<exists>c\<in>set (sv_children leaf_started). ch_name c = ''engine'' \<and> child_ok c"
proof -
  have "''engine'' \<in> set (map ch_name (sv_children leaf_started))"
    by (simp add: leaf_started_def run_defs)
  then show ?thesis
    using wanted_child_comes_back [OF leaf_reached] by (auto simp: list_all_iff)
qed

theorem supervisor_never_panics_witness:
  "respawn_due (spawn_one 2) 5 leaf_started \<noteq> None"
  using supervisor_never_panics [OF leaf_reached, of False True "spawn_one 2" 5] by simp


end
