(* ===== verification/Workload_Uplink.thy ===== *)
theory Workload_Uplink
  imports Sys_World Fabric_Derive
begin

text \<open>
  Uplink identification (\<open>src/src/workload/uplink.rs\<close>), the poll that stands in for the neighbor
  subscription (\<open>fdb_poll_changed\<close> of \<open>src/src/workload/neigh.rs\<close>) and the list of deferred rows
  (\<open>src/src/workload/mod.rs\<close>), over the system boundary. The JSON reader is an argument. The
  walk down the \<open>lower_*\<close> links is shown to find exactly the devices within its depth.
\<close>

section \<open>Ports and uplinks\<close>

record Uplink =
  up_bridge :: string
  up_vid :: u16
  up_ports :: "string list"

definition MAX_LOWER_DEPTH :: nat where "MAX_LOWER_DEPTH = 8"

definition sys_net :: "string \<Rightarrow> string \<Rightarrow> string" where
  "sys_net dev leaf = ''/sys/class/net/'' @ dev @ leaf"

definition lowers_in :: "string list \<Rightarrow> string list" where
  "lowers_in = List.map_filter (strip_prefix ''lower_'')"

definition lower_of :: "string \<Rightarrow> Sys \<Rightarrow> string list \<times> Sys" where
  "lower_of dev s =
     (let (names, s) = sys_list_dir (sys_net dev ''/'') s in
      (lowers_in (case names of Some ns \<Rightarrow> ns | None \<Rightarrow> []), s))"

text \<open>A \<open>device\<close> link of its own: the link is read first, \<open>exists\<close> is asked only when it is none.\<close>

definition has_device :: "string \<Rightarrow> Sys \<Rightarrow> bool \<times> Sys" where
  "has_device port s =
     (let (l, s) = sys_read_link (sys_net port ''/device'') s in
      if l \<noteq> None then (True, s) else sys_exists (sys_net port ''/device'') s)"

function is_uplink_port :: "nat \<Rightarrow> string \<Rightarrow> Sys \<Rightarrow> bool \<times> Sys" where
  "is_uplink_port depth port s =
     (if depth > MAX_LOWER_DEPTH then (False, s)
      else let (d, s) = has_device port s in
           if d then (True, s)
           else let (lowers, s) = lower_of port s in sys_any (is_uplink_port (depth + 1)) lowers s)"
  by pat_completeness auto
termination
  by (relation "measure (\<lambda>(depth, _). Suc MAX_LOWER_DEPTH - depth)") auto

declare is_uplink_port.simps [simp del]

definition bridge_ports_of :: "string \<Rightarrow> Sys \<Rightarrow> string list \<times> Sys" where
  "bridge_ports_of bridge s =
     (let (names, s) = sys_list_dir (sys_net bridge ''/brif/'') s in
      (case names of Some ns \<Rightarrow> ns | None \<Rightarrow> [], s))"

definition bridge_present :: "string \<Rightarrow> Sys \<Rightarrow> bool \<times> Sys" where
  "bridge_present bridge s =
     (let (ports, s) = bridge_ports_of bridge s in
      if ports \<noteq> [] then (True, s) else sys_exists (sys_net bridge ''/bridge/stp_state'') s)"

definition identify_declared :: "string \<Rightarrow> u16 \<Rightarrow> Sys \<Rightarrow> (string + Uplink) \<times> Sys" where
  "identify_declared bridge vid s =
     (let (ports, s) = bridge_ports_of bridge s;
          (uplink_ports, s) = sys_filter (is_uplink_port 0) ports s in
      if uplink_ports = [] then
        (Inl (''bridge '' @ bridge @ '' has no uplink port (no port has a /sys/class/net/<port>/device, '' @
              ''directly or through lower links); ports: '' @
              (if ports = [] then ''(none)'' else join '', '' ports)), s)
      else (Inr \<lparr>up_bridge = bridge, up_vid = vid, up_ports = uplink_ports\<rparr>, s))"

section \<open>VLAN ids on a device\<close>

text \<open>The vids of a range that fit 16 bits; those past 65535 are skipped one by one.\<close>

definition vids_between :: "nat \<Rightarrow> nat \<Rightarrow> u16 set" where
  "vids_between first last' = set (map word_of_nat [first ..< min (Suc last') 65536])"

definition entry_vids :: "json \<Rightarrow> u16 set" where
  "entry_vids v =
     (case Option.bind (json_get v ''vlan'') as_u64 of
        None \<Rightarrow> {}
      | Some first \<Rightarrow>
          vids_between first
            (case Option.bind (json_get v ''vlanEnd'') as_u64 of Some l \<Rightarrow> l | None \<Rightarrow> first))"

definition arr_or_empty :: "json option \<Rightarrow> json list" where
  "arr_or_empty v = (case Option.bind v as_array of Some xs \<Rightarrow> xs | None \<Rightarrow> [])"

definition parse_vids :: "(string \<Rightarrow> json option) \<Rightarrow> string \<Rightarrow> string \<Rightarrow> u16 set" where
  "parse_vids parse text' dev =
     \<Union> (set (map (\<lambda>entry. if Option.bind (json_get entry ''ifname'') as_str \<noteq> Some dev then {}
                            else \<Union> (set (map entry_vids (arr_or_empty (json_get entry ''vlans'')))))
                   (arr_or_empty (parse text'))))"

definition vids_of :: "(string \<Rightarrow> json option) \<Rightarrow> string \<Rightarrow> Sys \<Rightarrow> u16 set option \<times> Sys" where
  "vids_of parse dev s =
     (let (out, s) = sys_run [''bridge'', ''-j'', ''vlan'', ''show'', ''dev'', dev] s in
      (case out of
         None \<Rightarrow> None
       | Some r \<Rightarrow> if output_ok r then Some (parse_vids parse (stdout r) dev) else None, s))"

fun carrying :: "(string \<Rightarrow> json option) \<Rightarrow> u16 \<Rightarrow> string list \<Rightarrow> Sys \<Rightarrow> string list option \<times> Sys" where
  "carrying parse vid [] s = (Some [], s)"
| "carrying parse vid (p # ps) s =
     (case vids_of parse p s of
        (None, s) \<Rightarrow> (None, s)
      | (Some vids, s) \<Rightarrow>
          (case carrying parse vid ps s of
             (None, s) \<Rightarrow> (None, s)
           | (Some qs, s) \<Rightarrow> (Some (if vid \<in> vids then p # qs else qs), s)))"

definition ports_carrying_vid ::
  "(string \<Rightarrow> json option) \<Rightarrow> Uplink \<Rightarrow> Sys \<Rightarrow> string list option \<times> Sys" where
  "ports_carrying_vid parse up s = carrying parse (up_vid up) (up_ports up) s"

section \<open>Port states and indexes\<close>

definition stp_forwarding :: "string \<Rightarrow> string \<Rightarrow> Sys \<Rightarrow> (string + bool \<times> string) \<times> Sys" where
  "stp_forwarding bridge port s =
     (let path = sys_net bridge (''/brif/'' @ port @ ''/state'');
          (r, s) = sys_read path s in
      (case r of
         None \<Rightarrow> Inl (''bridge '' @ bridge @ '': port '' @ port @ '' has no '' @ path)
       | Some t \<Rightarrow> Inr (trim_text t = ''3'', trim_text t), s))"

fun scan_ifindexes :: "string list \<Rightarrow> string list \<Rightarrow> Sys \<Rightarrow> (string + u32 set) \<times> Sys" where
  "scan_ifindexes uplinks [] s = (Inr {}, s)"
| "scan_ifindexes uplinks (p # ps) s =
     (if p \<in> set uplinks then scan_ifindexes uplinks ps s
      else let path = sys_net p ''/ifindex'';
               (there, s) = sys_exists path s in
           if \<not> there then scan_ifindexes uplinks ps s
           else let (r, s) = sys_read path s in
                (case Option.bind r (\<lambda>t. parse_uint (2 ^ 32 - 1) (trim_text t)) of
                   None \<Rightarrow> (Inl (''port '' @ p @ '': cannot read ifindex from '' @ path), s)
                 | Some n \<Rightarrow>
                     (case scan_ifindexes uplinks ps s of
                        (Inl e, s) \<Rightarrow> (Inl e, s)
                      | (Inr is, s) \<Rightarrow> (Inr (insert (word_of_nat n) is), s))))"

definition non_uplink_ifindexes :: "Uplink \<Rightarrow> Sys \<Rightarrow> (string + u32 set) \<times> Sys" where
  "non_uplink_ifindexes up s =
     (let (ports, s) = bridge_ports_of (up_bridge up) s in scan_ifindexes (up_ports up) ports s)"

section \<open>The polled trigger\<close>

definition fdb_pair :: "string list \<Rightarrow> string \<Rightarrow> (string \<times> string) option" where
  "fdb_pair uplinks line =
     (if has_substring '' permanent'' line then None
      else case split_whitespace line of
             mac # kw # port # _ \<Rightarrow> if kw = ''dev'' \<and> port \<notin> set uplinks then Some (port, mac) else None
           | _ \<Rightarrow> None)"

definition fdb_poll_changed ::
  "Uplink \<Rightarrow> (string \<times> string) set \<Rightarrow> Sys \<Rightarrow> bool \<times> (string \<times> string) set \<times> Sys" where
  "fdb_poll_changed up seen s =
     (let (out, s) = sys_run [''bridge'', ''fdb'', ''show'', ''br'', up_bridge up] s in
      case out of
        None \<Rightarrow> (False, seen, s)
      | Some r \<Rightarrow>
          if \<not> output_ok r then (False, seen, s)
          else let current = set (List.map_filter (fdb_pair (up_ports up)) (str_lines (stdout r))) in
               (\<not> current \<subseteq> seen, current, s))"

section \<open>Deferred rows\<close>

definition deferred_in :: "string \<Rightarrow> string set" where
  "deferred_in t = set (map trim_text (filter (\<lambda>l. trim_text l \<noteq> []) (str_lines t)))"

definition deferred_names :: "View \<Rightarrow> Sys \<Rightarrow> string set \<times> Sys" where
  "deferred_names v s =
     (let (r, s) = sys_read (fab_run_dir (v_fabric v) @ ''/workload-deferred'') s in
      (deferred_in (case r of Some t \<Rightarrow> t | None \<Rightarrow> []), s))"

section \<open>Everything here only reads\<close>

text \<open>The requests that change nothing: file-system reads and the commands that show.\<close>

definition queries :: "string list \<Rightarrow> bool" where
  "queries argv \<longleftrightarrow> take 3 argv = [''bridge'', ''fdb'', ''show''] \<or>
     take 4 argv \<in> {[''bridge'', ''-j'', ''vlan'', ''show''], [''bridge'', ''-j'', ''fdb'', ''show''],
                     [''ip'', ''-j'', ''neigh'', ''show''], [''nft'', ''-j'', ''list'', ''set'']}"

fun only_reads :: "SysOp \<Rightarrow> bool" where
  "only_reads (RunOp argv) = queries argv"
| "only_reads (ReadOp _) = True"
| "only_reads (ListOp _) = True"
| "only_reads (ExistsOp _) = True"
| "only_reads (LinkOp _) = True"
| "only_reads _ = False"

lemma has_device_adds: "has_device port s = (d, s') \<Longrightarrow> adds only_reads s s'"
  by (auto simp: has_device_def split: prod.splits if_splits dest!: adds_calls [where P = only_reads] intro: adds_trans)

lemma lower_of_adds: "lower_of port s = (d, s') \<Longrightarrow> adds only_reads s s'"
  by (auto simp: lower_of_def split: prod.splits dest!: adds_calls [where P = only_reads])

lemma is_uplink_port_adds: "is_uplink_port depth port s = (b, s') \<Longrightarrow> adds only_reads s s'"
proof (induction depth port s arbitrary: b s' rule: is_uplink_port.induct)
  case (1 depth port s)
  obtain d t where d: "has_device port s = (d, t)"
    by (cases "has_device port s")
  obtain ls u where l: "lower_of port t = (ls, u)"
    by (cases "lower_of port t")
  note st = has_device_adds [OF d] and tu = lower_of_adds [OF l]
  show ?case
  proof (cases "MAX_LOWER_DEPTH < depth \<or> d")
    case True
    with 1(2) d st show ?thesis
      by (subst (asm) is_uplink_port.simps) (auto split: if_splits)
  next
    case False
    with 1(2) d l have "sys_any (is_uplink_port (depth + 1)) ls u = (b, s')"
      by (subst (asm) is_uplink_port.simps) simp
    then have "adds only_reads u s'"
      by (rule adds_any [rotated]) (use 1(1) [OF _ d [symmetric] refl _ l [symmetric] refl] False in auto)
    with st tu show ?thesis
      by (blast intro: adds_trans)
  qed
qed

lemma bridge_ports_of_adds: "bridge_ports_of bridge s = (d, s') \<Longrightarrow> adds only_reads s s'"
  by (auto simp: bridge_ports_of_def split: prod.splits dest!: adds_calls [where P = only_reads])

lemma identify_declared_adds: "identify_declared bridge vid s = (r, s') \<Longrightarrow> adds only_reads s s'"
  by (auto simp: identify_declared_def split: prod.splits if_splits dest!: bridge_ports_of_adds
      intro: adds_trans dest: adds_filter [rotated, OF _ is_uplink_port_adds])

lemma deferred_names_adds: "deferred_names v s = (ns, s') \<Longrightarrow> adds only_reads s s'"
  by (auto simp: deferred_names_def split: prod.splits dest!: adds_calls [where P = only_reads])

section \<open>The walk finds the off-host ports\<close>

text \<open>A file system that does not change: the answers do not depend on when they are asked for.\<close>

record Files =
  f_list :: "string \<Rightarrow> string list option"
  f_exists :: "string \<Rightarrow> bool"
  f_link :: "string \<Rightarrow> string option"

definition serves :: "Files \<Rightarrow> Sys \<Rightarrow> bool" where
  "serves fs s \<longleftrightarrow> list_answer s = (\<lambda>_. f_list fs) \<and> exists_answer s = (\<lambda>_. f_exists fs) \<and> link_answer s = (\<lambda>_. f_link fs)"

definition off_host :: "Files \<Rightarrow> string \<Rightarrow> bool" where
  "off_host fs dev \<longleftrightarrow> f_link fs (sys_net dev ''/device'') \<noteq> None \<or> f_exists fs (sys_net dev ''/device'')"

definition lower_links :: "Files \<Rightarrow> (string \<times> string) set" where
  "lower_links fs = {(dev, low). \<exists>ns. f_list fs (sys_net dev ''/'') = Some ns \<and> ''lower_'' @ low \<in> set ns}"

definition within :: "Files \<Rightarrow> nat \<Rightarrow> string \<Rightarrow> bool" where
  "within fs n dev \<longleftrightarrow> (\<exists>k\<le>n. \<exists>low. (dev, low) \<in> lower_links fs ^^ k \<and> off_host fs low)"

lemma serves_adds: "adds P s s' \<Longrightarrow> serves fs s' \<longleftrightarrow> serves fs s"
  by (auto simp: adds_def serves_def)

lemma within_0: "within fs 0 dev \<longleftrightarrow> off_host fs dev"
  by (simp add: within_def)

lemma within_Suc: "within fs (Suc n) dev \<longleftrightarrow> off_host fs dev \<or> (\<exists>low. (dev, low) \<in> lower_links fs \<and> within fs n low)"
proof
  assume "within fs (Suc n) dev"
  then obtain k low where k: "k \<le> Suc n" "(dev, low) \<in> lower_links fs ^^ k" "off_host fs low"
    by (auto simp: within_def)
  show "off_host fs dev \<or> (\<exists>low. (dev, low) \<in> lower_links fs \<and> within fs n low)"
  proof (cases k)
    case (Suc j)
    with k(2) obtain mid where "(dev, mid) \<in> lower_links fs" "(mid, low) \<in> lower_links fs ^^ j"
      using relpow_Suc_D2 [of dev low j "lower_links fs"] Suc by blast
    then show ?thesis
      using k Suc by (auto simp: within_def)
  qed (use k in simp)
next
  assume "off_host fs dev \<or> (\<exists>low. (dev, low) \<in> lower_links fs \<and> within fs n low)"
  then show "within fs (Suc n) dev"
  proof
    assume "off_host fs dev"
    then show ?thesis
      by (auto simp: within_def intro!: exI [of _ 0])
  next
    assume "\<exists>low. (dev, low) \<in> lower_links fs \<and> within fs n low"
    then obtain k mid low where "(dev, mid) \<in> lower_links fs" "k \<le> n" "(mid, low) \<in> lower_links fs ^^ k" "off_host fs low"
      by (auto simp: within_def)
    then show ?thesis
      unfolding within_def by (intro exI [of _ "Suc k"] conjI exI [of _ low] relpow_Suc_I2) auto
  qed
qed

lemma has_device_serves: "serves fs s \<Longrightarrow> fst (has_device dev s) \<longleftrightarrow> off_host fs dev"
  by (simp add: has_device_def sys_read_link_def sys_exists_def serves_def off_host_def log_op_def)

lemma set_strip_prefix: "set (List.map_filter (strip_prefix p) ns) = {r. p @ r \<in> set ns}"
proof (induction ns)
  case (Cons n ns)
  have "set (List.map_filter (strip_prefix p) (n # ns)) = {r. n = p @ r} \<union> set (List.map_filter (strip_prefix p) ns)"
    by (cases "strip_prefix p n") (auto simp: map_filter_simps strip_prefix_Some)
  then show ?case
    unfolding Cons.IH by auto
qed (simp add: map_filter_simps)

lemma lower_of_serves: "serves fs s \<Longrightarrow> set (fst (lower_of dev s)) = {low. (dev, low) \<in> lower_links fs}"
  by (cases "f_list fs (sys_net dev ''/'')")
    (simp_all add: lower_of_def sys_list_dir_def serves_def lower_links_def lowers_in_def set_strip_prefix)

lemma sys_any_serves:
  assumes p: "\<And>x u b u'. x \<in> set xs \<Longrightarrow> p x u = (b, u') \<Longrightarrow> adds P u u'"
    and b: "\<And>x u. x \<in> set xs \<Longrightarrow> serves fs u \<Longrightarrow> fst (p x u) = Q x"
  shows "serves fs s \<Longrightarrow> fst (sys_any p xs s) \<longleftrightarrow> (\<exists>x\<in>set xs. Q x)"
  using assms
proof (induction xs arbitrary: s)
  case (Cons x xs)
  obtain c t where px: "p x s = (c, t)"
    by (cases "p x s")
  have "adds P s t"
    by (rule Cons.prems(2) [OF _ px]) simp
  then have "serves fs t"
    using Cons.prems(1) by (simp add: serves_adds)
  moreover have "c = Q x"
    using Cons.prems(3) [OF _ Cons.prems(1), of x] px by simp
  moreover have "fst (sys_any p xs t) \<longleftrightarrow> (\<exists>x\<in>set xs. Q x)"
    by (rule Cons.IH [OF \<open>serves fs t\<close>]) (use Cons.prems in auto)
  ultimately show ?case
    using px by auto
qed simp

lemma sys_filter_serves:
  assumes p: "\<And>x u b u'. x \<in> set xs \<Longrightarrow> p x u = (b, u') \<Longrightarrow> adds P u u'"
    and b: "\<And>x u. x \<in> set xs \<Longrightarrow> serves fs u \<Longrightarrow> fst (p x u) = Q x"
  shows "serves fs s \<Longrightarrow> fst (sys_filter p xs s) = filter Q xs"
  using assms
proof (induction xs arbitrary: s)
  case (Cons x xs)
  obtain c t where px: "p x s = (c, t)"
    by (cases "p x s")
  have "adds P s t"
    by (rule Cons.prems(2) [OF _ px]) simp
  then have t: "serves fs t"
    using Cons.prems(1) by (simp add: serves_adds)
  moreover have "c = Q x"
    using Cons.prems(3) [OF _ Cons.prems(1), of x] px by simp
  moreover have "fst (sys_filter p xs t) = filter Q xs"
    by (rule Cons.IH [OF t]) (use Cons.prems in auto)
  ultimately show ?case
    using px by (auto split: prod.splits)
qed simp

lemma is_uplink_port_within:
  "depth \<le> MAX_LOWER_DEPTH \<Longrightarrow> serves fs s \<Longrightarrow> fst (is_uplink_port depth dev s) \<longleftrightarrow> within fs (MAX_LOWER_DEPTH - depth) dev"
proof (induction "MAX_LOWER_DEPTH - depth" arbitrary: depth dev s)
  case 0
  obtain d t where d: "has_device dev s = (d, t)"
    by (cases "has_device dev s")
  obtain ls u where l: "lower_of dev t = (ls, u)"
    by (cases "lower_of dev t")
  have "fst (sys_any (is_uplink_port (depth + 1)) ls u) \<longleftrightarrow> (\<exists>x\<in>set ls. False)"
    by (rule sys_any_serves [where P = only_reads and fs = fs])
      (use 0 serves_adds [OF has_device_adds [OF d]] serves_adds [OF lower_of_adds [OF l]] in
        \<open>auto simp: is_uplink_port.simps [of "Suc MAX_LOWER_DEPTH"] intro: is_uplink_port_adds\<close>)
  then show ?case
    using 0 d l has_device_serves [OF 0(3), of dev]
    by (subst is_uplink_port.simps) (simp add: within_0)
next
  case (Suc n)
  obtain d t where d: "has_device dev s = (d, t)"
    by (cases "has_device dev s")
  obtain ls u where l: "lower_of dev t = (ls, u)"
    by (cases "lower_of dev t")
  have t: "serves fs t" and u: "serves fs u"
    using Suc.prems serves_adds [OF has_device_adds [OF d]] serves_adds [OF lower_of_adds [OF l]] by simp_all
  have n: "MAX_LOWER_DEPTH - (depth + 1) = n" "depth + 1 \<le> MAX_LOWER_DEPTH"
    using Suc.hyps(2) by simp_all
  have "fst (is_uplink_port (depth + 1) x w) \<longleftrightarrow> within fs n x" if "serves fs w" for x w
    using Suc.hyps(1) [OF n(1) [symmetric] n(2) that] n(1) by simp
  then have "fst (sys_any (is_uplink_port (depth + 1)) ls u) \<longleftrightarrow> (\<exists>x\<in>set ls. within fs n x)"
    by (intro sys_any_serves [OF is_uplink_port_adds _ u])
  then show ?case
    using Suc.prems Suc.hyps(2) [symmetric] d l has_device_serves [OF Suc.prems(2), of dev] lower_of_serves [OF t, of dev]
    by (subst is_uplink_port.simps) (auto simp: within_Suc)
qed

text \<open>C36: on a file system that does not change during the walk, the uplink ports of a declared
  bridge are exactly those of its ports from which at most eight \<open>lower_*\<close> links lead to a device
  of the host, in the bridge's order and with the declared bridge and vid; the row is refused
  exactly when there is no such port. The walk asks only for reads.\<close>

theorem identify_declared_exact:
  assumes "serves fs s" and "identify_declared bridge vid s = (r, s')"
  defines "ports \<equiv> (case f_list fs (sys_net bridge ''/brif/'') of Some ns \<Rightarrow> ns | None \<Rightarrow> [])"
  shows "(case r of
            Inr up \<Rightarrow> up = \<lparr>up_bridge = bridge, up_vid = vid, up_ports = filter (within fs 8) ports\<rparr> \<and> up_ports up \<noteq> []
          | Inl _ \<Rightarrow> filter (within fs 8) ports = []) \<and> adds only_reads s s'"
proof -
  obtain ps t where p: "bridge_ports_of bridge s = (ps, t)"
    by (cases "bridge_ports_of bridge s")
  have ps: "ps = ports"
    using assms p by (simp add: bridge_ports_of_def sys_list_dir_def serves_def)
  have t: "serves fs t"
    using assms(1) serves_adds [OF bridge_ports_of_adds [OF p]] by simp
  have "fst (is_uplink_port 0 x w) \<longleftrightarrow> within fs 8 x" if "serves fs w" for x w
    using is_uplink_port_within [OF _ that, of 0 x] by (simp add: MAX_LOWER_DEPTH_def)
  then have "fst (sys_filter (is_uplink_port 0) ps t) = filter (within fs 8) ps"
    by (intro sys_filter_serves [OF is_uplink_port_adds _ t])
  then show ?thesis
    using assms(2) p ps identify_declared_adds [OF assms(2)]
    by (auto simp: identify_declared_def split: prod.splits if_splits)
qed

text \<open>The bond of the example: a port that is off-host through its lower link.\<close>

definition bond_files :: Files where
  "bond_files = \<lparr>
     f_list = (\<lambda>p. if p = ''/sys/class/net/primary/brif/'' then Some [''bond0'', ''tap100i0'']
                  else if p = ''/sys/class/net/bond0/'' then Some [''address'', ''lower_eth0''] else None),
     f_exists = (\<lambda>_. False),
     f_link = (\<lambda>p. if p = ''/sys/class/net/eth0/device'' then Some ''0000:01:00.0'' else None)\<rparr>"

definition bond_sys :: Sys where
  "bond_sys = \<lparr>ops = [], run_answer = (\<lambda>_ _. None), read_answer = (\<lambda>_ _. Absent), done_answer = (\<lambda>_ _. False),
     list_answer = (\<lambda>_. f_list bond_files), exists_answer = (\<lambda>_. f_exists bond_files),
     link_answer = (\<lambda>_. f_link bond_files), request_answer = (\<lambda>_ _ _. Inl [])\<rparr>"

lemma bond_within: "within bond_files 8 ''bond0''"
  unfolding within_def
  by (intro exI [of _ 1] conjI exI [of _ "''eth0''"])
    (simp_all add: lower_links_def off_host_def bond_files_def sys_net_def)

lemma bond_serves: "serves bond_files bond_sys"
  by (simp add: serves_def bond_sys_def)

theorem identify_declared_exact_witness:
  "serves bond_files bond_sys \<and>
   (case identify_declared ''primary'' 3 bond_sys of
      (Inr up, s') \<Rightarrow> ''bond0'' \<in> set (up_ports up)
    | (Inl _, _) \<Rightarrow> False)"
proof -
  obtain r s' where r: "identify_declared ''primary'' 3 bond_sys = (r, s')"
    by (cases "identify_declared ''primary'' 3 bond_sys")
  show ?thesis
    using identify_declared_exact [OF bond_serves r] r bond_within bond_serves
    by (auto simp: sys_net_def bond_files_def [THEN arg_cong, of f_list] split: sum.splits)
qed

end
