(* ===== verification/Host_Vms.thy ===== *)
theory Host_Vms
  imports Workload_Uplink Workload_Announce
begin

text \<open>
  Which addresses of a workload leg are VMs of this host (\<open>local_vms\<close> of
  \<open>src/src/workload/hostroutes.rs\<close>) and the damper on their withdrawal (\<open>Holddown\<close>). The join of
  the neighbor and FDB documents is shown to be the one its comment describes, and the damper to
  be a function of the history of observations. The JSON reader is an argument.
\<close>

section \<open>The join of neighbors and FDB\<close>

definition RESOLVED :: "string list" where
  "RESOLVED = [''REACHABLE'', ''STALE'', ''DELAY'', ''PROBE'', ''PERMANENT'']"

definition HOLDDOWN :: duration where "HOLDDOWN = PERIOD"

definition lower_char :: "char \<Rightarrow> char" where
  "lower_char c = (let n = of_char c in if 65 \<le> n \<and> n \<le> (90 :: nat) then char_of (n + 32) else c)"

definition to_ascii_lowercase :: "string \<Rightarrow> string" where
  "to_ascii_lowercase = map lower_char"

text \<open>\<open>u8::from_str_radix(s, 16)\<close>: an optional plus sign, at least one digit of either case.\<close>

definition hex_val :: "char \<Rightarrow> nat option" where
  "hex_val c = (let n = of_char c in
     if 48 \<le> n \<and> n \<le> 57 then Some (n - 48)
     else if 97 \<le> n \<and> n \<le> 102 then Some (n - 87)
     else if 65 \<le> n \<and> n \<le> (70 :: nat) then Some (n - 55)
     else None)"

fun hex_digits_val :: "nat \<Rightarrow> string \<Rightarrow> nat option" where
  "hex_digits_val acc [] = Some acc"
| "hex_digits_val acc (c # cs) =
     (case hex_val c of None \<Rightarrow> None | Some d \<Rightarrow> hex_digits_val (acc * 16 + d) cs)"

definition parse_hex_u8 :: "string \<Rightarrow> u8 option" where
  "parse_hex_u8 s =
     (let ds = (case s of c # cs \<Rightarrow> if c = CHR ''+'' then cs else s | [] \<Rightarrow> []) in
      if ds = [] then None
      else case hex_digits_val 0 ds of
             None \<Rightarrow> None
           | Some n \<Rightarrow> if n \<le> 255 then Some (word_of_nat n) else None)"

definition parse_mac :: "string \<Rightarrow> mac option" where
  "parse_mac s =
     (case map parse_hex_u8 (split_on (CHR '':'') s) of
        [Some a, Some b, Some c, Some d, Some e, Some f] \<Rightarrow> Some (a, b, c, d, e, f)
      | _ \<Rightarrow> None)"

definition fabric_addresses :: "View \<Rightarrow> Workload \<Rightarrow> ipv4 set" where
  "fabric_addresses v wl =
     insert (wl_gw wl)
       (set (map mw_address (filter (\<lambda>mw. mw_name mw = wl_name wl)
               (concat (map mem_workloads (fab_members (v_fabric v)))))))"

text \<open>An FDB entry with the two fields that are read: the MAC and the port it was seen on.\<close>

definition fdb_entry :: "json \<Rightarrow> (string \<times> string) option" where
  "fdb_entry e =
     (case as_str (json_at e ''mac'') of
        None \<Rightarrow> None
      | Some m \<Rightarrow> map_option (Pair m) (as_str (json_at e ''ifname'')))"

definition resolved :: "json list \<Rightarrow> bool" where
  "resolved states \<longleftrightarrow> list_ex (\<lambda>t. t \<in> set RESOLVED) (List.map_filter as_str states)"

text \<open>One pass of the second loop: the VM a neighbor entry stands for.\<close>

definition neigh_vm :: "string set \<Rightarrow> ipv4 set \<Rightarrow> Workload \<Rightarrow> json \<Rightarrow> (ipv4 \<times> mac) option" where
  "neigh_vm local_macs exclude wl e =
     (case Option.bind (as_str (json_at e ''dst'')) parse_ipv4 of
        None \<Rightarrow> None
      | Some dst \<Rightarrow>
          if \<not> contains (wl_prefix wl) dst \<or> dst \<in> exclude then None
          else case as_array (json_at e ''state'') of
                 None \<Rightarrow> None
               | Some states \<Rightarrow>
                   if \<not> resolved states then None
                   else case as_str (json_at e ''lladdr'') of
                          None \<Rightarrow> None
                        | Some m \<Rightarrow>
                            if to_ascii_lowercase m \<in> local_macs then map_option (Pair dst) (parse_mac m)
                            else None)"

definition local_vm_macs ::
  "(string \<Rightarrow> json option) \<Rightarrow> string \<Rightarrow> string \<Rightarrow> View \<Rightarrow> Workload \<Rightarrow> string list \<Rightarrow> (ipv4, mac) omap option" where
  "local_vm_macs parse neigh_json fdb_json v wl uplink_ports =
     Option.bind (parse neigh_json) (\<lambda>neigh.
     Option.bind (parse fdb_json) (\<lambda>fdb.
     Option.bind (as_array neigh) (\<lambda>neigh.
     Option.bind (as_array fdb) (\<lambda>fdb.
       let entries = List.map_filter fdb_entry fdb;
           local_macs = set (map (to_ascii_lowercase \<circ> fst) (filter (\<lambda>(m, p). p \<notin> set uplink_ports) entries)) in
       if length entries = 0 \<and> fdb \<noteq> [] then None
       else let exclude = fabric_addresses v wl;
                out = foldl (\<lambda>m e. case neigh_vm local_macs exclude wl e of
                                     None \<Rightarrow> m
                                   | Some (a, b) \<Rightarrow> om_insert a b m) [] neigh in
            if length (List.map_filter (\<lambda>e. as_str (json_at e ''dst'')) neigh) = 0 \<and> neigh \<noteq> [] then None
            else Some out))))"

definition local_vms ::
  "(string \<Rightarrow> json option) \<Rightarrow> string \<Rightarrow> string \<Rightarrow> View \<Rightarrow> Workload \<Rightarrow> string list \<Rightarrow> ipv4 set option" where
  "local_vms parse neigh_json fdb_json v wl uplink_ports =
     map_option (\<lambda>m. set (map fst m)) (local_vm_macs parse neigh_json fdb_json v wl uplink_ports)"

section \<open>The damper\<close>

type_synonym Holddown = "(ipv4, instant option) omap"

text \<open>The closure of \<open>retain\<close>: what is left of an entry, with its deadline set.\<close>

definition retain_entry :: "ipv4 set \<Rightarrow> instant \<Rightarrow> ipv4 \<times> instant option \<Rightarrow> (ipv4 \<times> instant option) option" where
  "retain_entry live now e =
     (let (addr, due) = e in
      if addr \<in> live then Some (addr, due)
      else let deadline = (case due of Some d \<Rightarrow> d | None \<Rightarrow> now + HOLDDOWN) in
           if now < deadline then Some (addr, Some deadline) else None)"

definition hd_observe :: "Holddown \<Rightarrow> ipv4 set \<Rightarrow> instant \<Rightarrow> Holddown \<times> ipv4 set" where
  "hd_observe entries live now =
     (let entries = foldl (\<lambda>m a. om_insert a None m) entries (sorted_list_of_set live);
          entries = List.map_filter (retain_entry live now) entries in
      (entries, set (map fst entries)))"

section \<open>The documents a row is read from\<close>

definition neigh_argv :: "Workload \<Rightarrow> string list" where
  "neigh_argv wl = [''ip'', ''-j'', ''neigh'', ''show'', ''nud'', ''all'', ''dev'', leg_ifname wl]"

definition fdb_argv :: "Workload \<Rightarrow> string list" where
  "fdb_argv wl = [''bridge'', ''-j'', ''fdb'', ''show'', ''br'', wl_uplink wl]"

definition read_local_vms ::
  "(string \<Rightarrow> json option) \<Rightarrow> View \<Rightarrow> Workload \<Rightarrow> Sys \<Rightarrow> ipv4 set option \<times> Sys" where
  "read_local_vms parse v wl s =
     (case identify_declared (wl_uplink wl) (wl_vid wl) s of
        (Inl _, s) \<Rightarrow> (None, s)
      | (Inr up, s) \<Rightarrow>
          (case sys_run (neigh_argv wl) s of
             (None, s) \<Rightarrow> (None, s)
           | (Some neigh, s) \<Rightarrow>
               (case sys_run (fdb_argv wl) s of
                  (None, s) \<Rightarrow> (None, s)
                | (Some fdb, s) \<Rightarrow>
                    if \<not> output_ok neigh \<or> \<not> output_ok fdb then (None, s)
                    else (local_vms parse (stdout neigh) (stdout fdb) v wl (up_ports up), s))))"

fun seed_rows ::
  "(string \<Rightarrow> json option) \<Rightarrow> View \<Rightarrow> string set \<Rightarrow> WorkloadRow list \<Rightarrow> (string, ipv4 set) omap \<Rightarrow> Sys \<Rightarrow>
     (string, ipv4 set) omap \<times> Sys" where
  "seed_rows parse v deferred [] m s = (m, s)"
| "seed_rows parse v deferred (row # rows) m s =
     (let (vms, s) = (if wl_name (wr_wl row) \<in> deferred then ({}, s)
                      else let (r, s) = read_local_vms parse v (wr_wl row) s in
                           (case r of Some a \<Rightarrow> a | None \<Rightarrow> {}, s)) in
      seed_rows parse v deferred rows (om_insert (local_set (wr_wl row)) vms m) s)"

definition seed_locals :: "(string \<Rightarrow> json option) \<Rightarrow> View \<Rightarrow> Sys \<Rightarrow> (string, ipv4 set) omap \<times> Sys" where
  "seed_locals parse v s =
     (let rows = workload_rows v in
      if rows = [] then ([], s)
      else let (deferred, s) = deferred_names v s in seed_rows parse v deferred rows [] s)"

section \<open>The MAC is read back as it is written\<close>

lemma hex_val_digit: "d < 16 \<Longrightarrow> hex_val (hex_digit d) = Some d"
  by (simp add: hex_val_def hex_digit_def Let_def)

lemma hex_digit_colon: "d < 16 \<Longrightarrow> hex_digit d \<noteq> CHR '':''" "d < 16 \<Longrightarrow> hex_digit d \<noteq> CHR ''+''"
  using hex_val_digit [of d] by (auto simp: hex_val_def)

lemma parse_hex_hex2: "parse_hex_u8 (hex2 b) = Some b"
proof -
  have "unat b div 16 < 16"
    using unat_u8_less [of b] by (simp add: less_mult_imp_div_less)
  then show ?thesis
    using unat_u8_le [of b] by (simp add: parse_hex_u8_def hex2_def hex_val_digit hex_digit_colon)
qed

lemma colon_notin_hex2: "CHR '':'' \<notin> set (hex2 b)"
proof -
  have "unat b div 16 < 16" "unat b mod 16 < 16"
    using unat_u8_less [of b] by (simp_all add: less_mult_imp_div_less)
  then show ?thesis
    using hex_digit_colon(1) [of "unat b div 16"] hex_digit_colon(1) [of "unat b mod 16"] by (simp add: hex2_def)
qed

lemma parse_mac_str: "parse_mac (mac_str m) = Some m"
proof -
  obtain a b c d e f where m: "m = (a, b, c, d, e, f)"
    by (cases m)
  have "split_on (CHR '':'') (mac_str m) = map hex2 [a, b, c, d, e, f]"
    by (simp add: mac_str_def m mac_bytes_def split_on_append_sep split_on_no_sep colon_notin_hex2)
  then show ?thesis
    by (simp add: parse_mac_def parse_hex_hex2 m)
qed

section \<open>The join is the one described\<close>

text \<open>A neighbor entry for the address \<open>a\<close> that is resolved and has the MAC text \<open>m\<close>; and an FDB
  entry of that MAC, in any case of letters, behind a port that is no uplink.\<close>

definition neighbor_at :: "json \<Rightarrow> ipv4 \<Rightarrow> string \<Rightarrow> bool" where
  "neighbor_at e a m \<longleftrightarrow>
     (\<exists>d states. json_at e ''dst'' = JStr d \<and> parse_ipv4 d = Some a \<and> json_at e ''state'' = JArr states \<and>
        (\<exists>t. JStr t \<in> set states \<and> t \<in> set RESOLVED)) \<and>
     json_at e ''lladdr'' = JStr m \<and> parse_mac m \<noteq> None"

definition behind_local_port :: "json list \<Rightarrow> string list \<Rightarrow> string \<Rightarrow> bool" where
  "behind_local_port fdb uplink_ports m \<longleftrightarrow>
     (\<exists>f\<in>set fdb. \<exists>m' port. json_at f ''mac'' = JStr m' \<and> json_at f ''ifname'' = JStr port \<and> port \<notin> set uplink_ports \<and>
        to_ascii_lowercase m' = to_ascii_lowercase m)"

definition is_local_vm :: "json list \<Rightarrow> json list \<Rightarrow> View \<Rightarrow> Workload \<Rightarrow> string list \<Rightarrow> ipv4 \<Rightarrow> bool" where
  "is_local_vm neigh fdb v wl uplink_ports a \<longleftrightarrow>
     contains (wl_prefix wl) a \<and> a \<notin> fabric_addresses v wl \<and>
     (\<exists>e\<in>set neigh. \<exists>m. neighbor_at e a m \<and> behind_local_port fdb uplink_ports m)"

text \<open>A document of entries none of which has the fields that are read.\<close>

definition foreign :: "string list \<Rightarrow> json list \<Rightarrow> bool" where
  "foreign keys es \<longleftrightarrow> es \<noteq> [] \<and> \<not> (\<exists>e\<in>set es. \<forall>k\<in>set keys. \<exists>t. json_at e k = JStr t)"

lemma as_str_Some: "as_str v = Some t \<longleftrightarrow> v = JStr t"
  by (cases v) auto

lemma as_str_None: "as_str v = None \<longleftrightarrow> (\<forall>t. v \<noteq> JStr t)"
  by (cases v) auto

lemma as_array_Some: "as_array v = Some xs \<longleftrightarrow> v = JArr xs"
  by (cases v) auto

lemma set_map_filter: "y \<in> set (List.map_filter g xs) \<longleftrightarrow> (\<exists>x\<in>set xs. g x = Some y)"
  by (force simp: map_filter_def)

lemma map_filter_empty: "List.map_filter g xs = [] \<longleftrightarrow> (\<forall>x\<in>set xs. g x = None)"
  by (induction xs) (auto simp: map_filter_simps split: option.splits)

lemma fdb_entry_Some: "fdb_entry e = Some (m, p) \<longleftrightarrow> json_at e ''mac'' = JStr m \<and> json_at e ''ifname'' = JStr p"
  by (auto simp: fdb_entry_def as_str_Some split: option.splits)

lemma fdb_entry_None: "fdb_entry e = None \<longleftrightarrow> \<not> (\<forall>k\<in>set [''mac'', ''ifname'']. \<exists>t. json_at e k = JStr t)"
  by (cases "fdb_entry e") (auto simp: fdb_entry_Some dest: sym [where t = None] simp: fdb_entry_def as_str_Some split: option.splits)

lemma resolved_iff: "resolved states \<longleftrightarrow> (\<exists>t. JStr t \<in> set states \<and> t \<in> set RESOLVED)"
  by (auto simp: resolved_def list_ex_iff set_map_filter as_str_Some)

lemma neigh_vm_Some:
  "(\<exists>b. neigh_vm macs exclude wl e = Some (a, b)) \<longleftrightarrow>
     contains (wl_prefix wl) a \<and> a \<notin> exclude \<and> (\<exists>m. neighbor_at e a m \<and> to_ascii_lowercase m \<in> macs)"
  by (auto simp: neigh_vm_def neighbor_at_def resolved_iff as_str_Some as_array_Some bind_eq_Some_conv bind_eq_None_conv
      split: option.splits if_splits)

lemma dom_collect:
  "set (map fst (foldl (\<lambda>m e. case g e of None \<Rightarrow> m | Some (a, b) \<Rightarrow> om_insert a b m) m0 es)) =
     set (map fst m0) \<union> {a. \<exists>e\<in>set es. \<exists>b. g e = Some (a, b)}"
proof (induction es arbitrary: m0)
  case (Cons e es)
  have ins: "set (map fst (om_insert a b m0)) = insert a (set (map fst m0))" for a b
    using om.dom_ins [of a b m0] by (simp add: dom_map_of_conv_image_fst)
  show ?case
    unfolding foldl_Cons Cons.IH by (cases "g e") (auto simp: ins simp del: set_map)
qed simp

text \<open>C26: the addresses reported as local VMs are exactly those of the row's prefix, not owned by the
  fabric itself, for which a resolved neighbor entry names a MAC the FDB has behind a port that
  is no uplink. There is no answer exactly when a document is no array or is one none of whose
  entries has the fields that are read; an empty array is an answer.\<close>

theorem local_vms_exact:
  "local_vms parse neigh_json fdb_json v wl uplink_ports =
     (case (parse neigh_json, parse fdb_json) of
        (Some (JArr neigh), Some (JArr fdb)) \<Rightarrow>
          if foreign [''mac'', ''ifname''] fdb \<or> foreign [''dst''] neigh then None
          else Some {a. is_local_vm neigh fdb v wl uplink_ports a}
      | _ \<Rightarrow> None)"
proof (cases "\<exists>neigh fdb. parse neigh_json = Some (JArr neigh) \<and> parse fdb_json = Some (JArr fdb)")
  case True
  then obtain neigh fdb where p: "parse neigh_json = Some (JArr neigh)" "parse fdb_json = Some (JArr fdb)"
    by blast
  define macs where "macs = set (map (to_ascii_lowercase \<circ> fst) (filter (\<lambda>(m, p). p \<notin> set uplink_ports) (List.map_filter fdb_entry fdb)))"
  have macs: "to_ascii_lowercase m \<in> macs \<longleftrightarrow> behind_local_port fdb uplink_ports m" for m
  proof -
    have "x \<in> macs \<longleftrightarrow> (\<exists>f\<in>set fdb. \<exists>m' port. fdb_entry f = Some (m', port) \<and> port \<notin> set uplink_ports \<and> x = to_ascii_lowercase m')" for x
      unfolding macs_def set_map image_iff set_filter Bex_def by (auto simp: set_map_filter)
    then show ?thesis
      unfolding behind_local_port_def fdb_entry_Some by (simp add: eq_commute [of "to_ascii_lowercase m"])
  qed
  have fdb: "length (List.map_filter fdb_entry fdb) = 0 \<and> fdb \<noteq> [] \<longleftrightarrow> foreign [''mac'', ''ifname''] fdb"
    by (auto simp: map_filter_empty fdb_entry_None foreign_def)
  have neigh: "length (List.map_filter (\<lambda>e. as_str (json_at e ''dst'')) neigh) = 0 \<and> neigh \<noteq> [] \<longleftrightarrow> foreign [''dst''] neigh"
    by (auto simp: map_filter_empty foreign_def as_str_None)
  have out: "set (map fst (foldl (\<lambda>m e. case neigh_vm macs (fabric_addresses v wl) wl e of
                                         None \<Rightarrow> m | Some (a, b) \<Rightarrow> om_insert a b m) [] neigh)) =
             {a. is_local_vm neigh fdb v wl uplink_ports a}"
    unfolding dom_collect neigh_vm_Some by (auto simp: is_local_vm_def macs)
  show ?thesis
    unfolding local_vms_def local_vm_macs_def p
    by (simp add: Let_def fdb neigh out [symmetric] macs_def [symmetric] del: length_0_conv set_map)
next
  case False
  then show ?thesis
    by (auto simp: local_vms_def local_vm_macs_def as_array_Some bind_eq_None_conv split: option.splits json.splits)
qed

section \<open>The damper depends on the history alone\<close>

lemma om_get_map_filter:
  assumes "distinct (map fst m)" and "\<And>k v. f (k, v) = map_option (Pair k) (g k v)"
  shows "om_get (List.map_filter f m) k = Option.bind (om_get m k) (g k)"
  using assms(1)
proof (induction m arbitrary: k)
  case (Cons e m)
  obtain j v where e: "e = (j, v)"
    by (cases e)
  have none: "om_get (List.map_filter f m) j = None"
    using Cons by (simp add: e map_of_eq_None_iff [THEN iffD2])
  show ?case
    using Cons none by (cases "g j v") (auto simp: e assms(2) map_filter_simps)
qed (simp add: map_filter_simps)

lemma om_get_insert_all:
  "om_get (foldl (\<lambda>m a. om_insert a v m) m as) k = (if k \<in> set as then Some v else om_get m k)"
  by (induction as arbitrary: m) (auto simp: om_get_insert)

lemma om_ok_insert_all: "om_ok m \<Longrightarrow> om_ok (foldl (\<lambda>m a. om_insert a v m) m as)"
  by (induction as arbitrary: m) (auto intro: om_ok_insert)

lemma om_ok_map_filter:
  assumes "om_ok m" and "\<And>k v. f (k, v) = map_option (Pair k) (g k v)"
  shows "om_ok (List.map_filter f m)"
proof -
  have "map fst (List.map_filter f m) = map fst (filter (\<lambda>(k, v). g k v \<noteq> None) m)"
    by (induction m) (auto simp: map_filter_simps assms(2) split: option.splits)
  then show ?thesis
    using om_ok_filter [OF assms(1)] by (simp add: om_ok_def)
qed

definition remaining :: "ipv4 set \<Rightarrow> instant \<Rightarrow> ipv4 \<Rightarrow> instant option \<Rightarrow> instant option option" where
  "remaining live now addr due =
     (if addr \<in> live then Some due
      else let deadline = (case due of Some d \<Rightarrow> d | None \<Rightarrow> now + HOLDDOWN) in
           if now < deadline then Some (Some deadline) else None)"

lemma retain_entry_remaining: "retain_entry live now (k, v) = map_option (Pair k) (remaining live now k v)"
  by (simp add: retain_entry_def remaining_def Let_def)

lemma hd_observe_get:
  assumes "om_ok m"
  shows "om_get (fst (hd_observe m live now)) a =
           (if a \<in> live then Some None else Option.bind (om_get m a) (remaining live now a))"
proof -
  have "distinct (map fst (foldl (\<lambda>m a. om_insert a None m) m (sorted_list_of_set live)))"
    using assms by (intro om_ok_distinct om_ok_insert_all)
  from om_get_map_filter [where f = "retain_entry live now", OF this retain_entry_remaining, of a] show ?thesis
    using assms by (simp add: hd_observe_def Let_def om_get_insert_all) (simp add: remaining_def)
qed

lemma hd_observe_ok: "om_ok m \<Longrightarrow> om_ok (fst (hd_observe m live now))"
  by (simp add: hd_observe_def Let_def) (rule om_ok_map_filter [where f = "retain_entry live now", OF om_ok_insert_all retain_entry_remaining])

lemma hd_observe_wanted: "snd (hd_observe m live now) = dom (om_get (fst (hd_observe m live now)))"
  by (simp add: hd_observe_def Let_def dom_map_of_conv_image_fst)

text \<open>A history of observations, oldest first: what was live, and when.\<close>

type_synonym history = "(ipv4 set \<times> instant) list"

definition hd_run :: "history \<Rightarrow> Holddown" where
  "hd_run obs = foldl (\<lambda>m (live, t). fst (hd_observe m live t)) [] obs"

text \<open>The address was live once, was missing first at \<open>t\<close>, and has been missing since.\<close>

definition gone_since :: "history \<Rightarrow> ipv4 \<Rightarrow> instant \<Rightarrow> bool" where
  "gone_since obs a t \<longleftrightarrow>
     (\<exists>pre L0 t0 L post. obs = pre @ (L0, t0) # (L, t) # post \<and> a \<in> L0 \<and> list_all (\<lambda>(L', _). a \<notin> L') ((L, t) # post))"

definition live_now :: "history \<Rightarrow> ipv4 \<Rightarrow> bool" where
  "live_now obs a \<longleftrightarrow> obs \<noteq> [] \<and> a \<in> fst (last obs)"

lemma gone_since_snoc:
  "gone_since (obs @ [(live, now)]) a t \<longleftrightarrow>
     a \<notin> live \<and> (gone_since obs a t \<or> t = now \<and> live_now obs a)"
proof
  assume "gone_since (obs @ [(live, now)]) a t"
  then obtain pre L0 t0 L post where g: "obs @ [(live, now)] = pre @ (L0, t0) # (L, t) # post" "a \<in> L0"
    "list_all (\<lambda>(L', _). a \<notin> L') ((L, t) # post)"
    by (auto simp: gone_since_def)
  show "a \<notin> live \<and> (gone_since obs a t \<or> t = now \<and> live_now obs a)"
  proof (cases post rule: rev_cases)
    case Nil
    with g show ?thesis
      by (auto simp: live_now_def)
  next
    case (snoc post' e)
    with g have "obs = pre @ (L0, t0) # (L, t) # post'" "e = (live, now)"
      by (metis append_Cons append_assoc butlast_snoc last_snoc)+
    with g snoc show ?thesis
      unfolding gone_since_def by fastforce
  qed
next
  assume r: "a \<notin> live \<and> (gone_since obs a t \<or> t = now \<and> live_now obs a)"
  then consider "gone_since obs a t" | "t = now" "live_now obs a"
    by blast
  then show "gone_since (obs @ [(live, now)]) a t"
  proof cases
    case 1
    then obtain pre L0 t0 L post where "obs = pre @ (L0, t0) # (L, t) # post" "a \<in> L0" "list_all (\<lambda>(L', _). a \<notin> L') ((L, t) # post)"
      by (auto simp: gone_since_def)
    with r show ?thesis
      unfolding gone_since_def
      by (intro exI [of _ pre] exI [of _ L0] exI [of _ t0] exI [of _ L] exI [of _ "post @ [(live, now)]"]) simp
  next
    case 2
    then obtain pre L0 t0 where "obs = pre @ [(L0, t0)]" "a \<in> L0"
      by (cases obs rule: rev_cases) (auto simp: live_now_def)
    with r 2 show ?thesis
      unfolding gone_since_def
      by (intro exI [of _ pre] exI [of _ L0] exI [of _ t0] exI [of _ live] exI [of _ "[]"]) simp
  qed
qed

lemma hd_run_snoc: "hd_run (obs @ [(live, t)]) = fst (hd_observe (hd_run obs) live t)"
  by (simp add: hd_run_def)

lemma hd_run_ok: "om_ok (hd_run obs)"
proof (induction obs rule: rev_induct)
  case (snoc e obs)
  then show ?case
    by (cases e) (simp add: hd_run_snoc hd_observe_ok)
qed (simp add: hd_run_def)

lemma HOLDDOWN_pos: "0 < HOLDDOWN"
  by (simp add: HOLDDOWN_def PERIOD_def from_secs_def)

lemma hd_run_get:
  assumes "sorted (map snd obs)"
  shows "(om_get (hd_run obs) a = Some None \<longleftrightarrow> live_now obs a) \<and>
         (\<forall>d. om_get (hd_run obs) a = Some (Some d) \<longleftrightarrow> (\<exists>t. gone_since obs a t \<and> d = t + HOLDDOWN \<and> snd (last obs) < d))"
  using assms
proof (induction obs rule: rev_induct)
  case Nil
  then show ?case
    by (simp add: hd_run_def live_now_def gone_since_def)
next
  case (snoc e obs)
  obtain live now where e: "e = (live, now)"
    by (cases e)
  have "sorted (map snd obs)"
    using snoc.prems by (simp add: sorted_append)
  note IH = snoc.IH [OF this]
  have le: "gone_since obs a t \<Longrightarrow> snd (last obs) \<le> now" for t
    using snoc.prems by (cases obs rule: rev_cases) (auto simp: e sorted_append gone_since_def)
  have g: "om_get (hd_run (obs @ [e])) a =
             (if a \<in> live then Some None else Option.bind (om_get (hd_run obs) a) (remaining live now a))"
    by (simp add: e hd_run_snoc hd_observe_get hd_run_ok)
  show ?case
  proof (cases "a \<in> live")
    case True
    then show ?thesis
      unfolding g by (simp add: e live_now_def gone_since_snoc)
  next
    case False
    have none: "om_get (hd_run (obs @ [e])) a \<noteq> Some None"
      unfolding g using False by (auto simp: remaining_def Let_def bind_eq_Some_conv split: if_splits)
    have "om_get (hd_run (obs @ [e])) a = Some (Some d) \<longleftrightarrow>
            live_now obs a \<and> d = now + HOLDDOWN \<or> om_get (hd_run obs) a = Some (Some d) \<and> now < d" for d
      unfolding g using False HOLDDOWN_pos conjunct1 [OF IH]
      by (cases "om_get (hd_run obs) a") (auto simp: remaining_def split: option.splits)
    also have "\<dots> d \<longleftrightarrow> (\<exists>t. gone_since (obs @ [e]) a t \<and> d = t + HOLDDOWN \<and> now < d)" for d
    proof -
      have "gone_since obs a t \<and> d = t + HOLDDOWN \<and> snd (last obs) < d \<and> now < d \<longleftrightarrow>
            gone_since obs a t \<and> d = t + HOLDDOWN \<and> now < d" for t
        using le [of t] by auto
      then show ?thesis
        unfolding e gone_since_snoc spec [OF conjunct2 [OF IH]] using False HOLDDOWN_pos by auto
    qed
    finally show ?thesis
      using False none by (simp add: e live_now_def)
  qed
qed

text \<open>C25: the wanted set after any history of observations. An address is wanted exactly when it is
  live, or when it was live once and less than the hold-down has passed since the first
  observation that missed it, with none since that saw it: it is held for five seconds, is
  dropped by the first observation at or after that, and a return inside the window starts over.\<close>

theorem holddown_by_history:
  assumes "sorted (map snd (obs @ [(live, now)]))"
  shows "snd (hd_observe (hd_run obs) live now) =
           {a. a \<in> live \<or> (\<exists>t. gone_since (obs @ [(live, now)]) a t \<and> now < t + from_secs 5)}"
proof -
  have "a \<in> snd (hd_observe (hd_run obs) live now) \<longleftrightarrow> om_get (hd_run (obs @ [(live, now)])) a \<noteq> None" for a
    unfolding hd_observe_wanted by (auto simp: hd_run_snoc)
  also have "\<dots> a \<longleftrightarrow> om_get (hd_run (obs @ [(live, now)])) a = Some None \<or>
      (\<exists>d. om_get (hd_run (obs @ [(live, now)])) a = Some (Some d))" for a
    by (cases "om_get (hd_run (obs @ [(live, now)])) a") auto
  also have "\<dots> a \<longleftrightarrow> a \<in> live \<or> (\<exists>t. gone_since (obs @ [(live, now)]) a t \<and> now < t + HOLDDOWN)" for a
    using hd_run_get [OF assms, of a] by (auto simp: live_now_def)
  finally show ?thesis
    by (auto simp: HOLDDOWN_def PERIOD_def)
qed

text \<open>An address seen at 0 s and missed at 2 s is still wanted at 6 s and is dropped at 7 s.\<close>

theorem holddown_by_history_witness:
  "(7 :: ipv4) \<in> snd (hd_observe (hd_run [({7}, 0), ({}, from_secs 2)]) {} (from_secs 6)) \<and>
   7 \<notin> snd (hd_observe (hd_run [({7}, 0), ({}, from_secs 2)]) {} (from_secs 7))"
proof -
  have g: "gone_since ([({7}, 0), ({}, from_secs 2)] @ [({}, now)]) 7 t \<longleftrightarrow> t = from_secs 2" for t now
    unfolding gone_since_snoc by (auto simp: gone_since_snoc [of "[({7}, 0)]", simplified] gone_since_snoc [of "[]", simplified] live_now_def)
  show ?thesis
    using holddown_by_history [of "[({7}, 0), ({}, from_secs 2)]" "{}" "from_secs 6"]
      holddown_by_history [of "[({7}, 0), ({}, from_secs 2)]" "{}" "from_secs 7"] g [of "from_secs 6"] g [of "from_secs 7"]
    by (simp add: from_secs_def)
qed

end
