(* ===== verification/Host_Routes.thy ===== *)
theory Host_Routes
  imports Host_Vms
begin

text \<open>
  The host-route reconcile (\<open>HostRoutes\<close> of \<open>src/src/workload/hostroutes.rs\<close>): one pass reads
  the VMs of every workload leg, damps withdrawals, deletes the neighbor entries of the VMs that
  left, hands the engine the whole set, moves the packet filter's set to it and probes idle VMs.
  The state of a pass is the rows, the system, the packet socket and the journal lines said so
  far. The JSON reader is an argument; the answers of the system and of the socket are arbitrary.
\<close>

section \<open>Faults that repeat\<close>

datatype Cond = ReadCond | EngineCond | NftCond | ProbeCond | AgeingCond

fun cond_str :: "Cond \<Rightarrow> string" where
  "cond_str ReadCond = ''VM read''"
| "cond_str EngineCond = ''engine route request''"
| "cond_str NftCond = ''local set update''"
| "cond_str ProbeCond = ''idle-VM probe''"
| "cond_str AgeingCond = ''bridge ageing_time read''"

record Row =
  holddown :: Holddown
  standing :: "Cond \<Rightarrow> string option"
  last_wanted :: "ipv4 set"
  seen_before :: bool
  next_probe :: "instant option"

definition default_row :: Row where
  "default_row = \<lparr>holddown = [], standing = (\<lambda>_. None), last_wanted = {}, seen_before = False, next_probe = None\<rparr>"

definition say_once :: "Cond \<Rightarrow> string \<Rightarrow> Row \<times> string list \<Rightarrow> Row \<times> string list" where
  "say_once cond line ro =
     (let (r, out) = ro in
      if standing r cond = Some line then (r, out)
      else (r\<lparr>standing := (standing r)(cond \<mapsto> line)\<rparr>, out @ [line]))"

definition recovered :: "Cond \<Rightarrow> string \<Rightarrow> Row \<times> string list \<Rightarrow> Row \<times> string list" where
  "recovered cond name ro =
     (let (r, out) = ro in
      case standing r cond of
        None \<Rightarrow> (r, out)
      | Some _ \<Rightarrow> (r\<lparr>standing := (standing r)(cond := None)\<rparr>,
                   out @ [''cfab: workload '' @ name @ '': '' @ cond_str cond @ '' recovered'']))"

section \<open>The state of a pass\<close>

datatype NetOp = MacOp string | SendOp string "u8 list"

record AnnounceIo =
  net_ops :: "NetOp list"
  mac_answer :: "nat \<Rightarrow> string \<Rightarrow> string + mac"
  send_answer :: "nat \<Rightarrow> string \<Rightarrow> u8 list \<Rightarrow> string option"

record Pass =
  hr_rows :: "string \<Rightarrow> Row option"
  hr_sys :: Sys
  hr_io :: AnnounceIo
  hr_out :: "string list"

definition io_mac :: "string \<Rightarrow> Pass \<Rightarrow> (string + mac) \<times> Pass" where
  "io_mac ifname p =
     (mac_answer (hr_io p) (length (net_ops (hr_io p))) ifname,
      p\<lparr>hr_io := (hr_io p)\<lparr>net_ops := net_ops (hr_io p) @ [MacOp ifname]\<rparr>\<rparr>)"

definition io_send :: "string \<Rightarrow> u8 list \<Rightarrow> Pass \<Rightarrow> string option \<times> Pass" where
  "io_send ifname frame p =
     (send_answer (hr_io p) (length (net_ops (hr_io p))) ifname frame,
      p\<lparr>hr_io := (hr_io p)\<lparr>net_ops := net_ops (hr_io p) @ [SendOp ifname frame]\<rparr>\<rparr>)"

definition ask :: "(Sys \<Rightarrow> 'a \<times> Sys) \<Rightarrow> Pass \<Rightarrow> 'a \<times> Pass" where
  "ask f p = (let (a, s) = f (hr_sys p) in (a, p\<lparr>hr_sys := s\<rparr>))"

definition row_of :: "string \<Rightarrow> Pass \<Rightarrow> Row" where
  "row_of name p = (case hr_rows p name of Some r \<Rightarrow> r | None \<Rightarrow> default_row)"

definition set_row :: "string \<Rightarrow> Row \<Rightarrow> Pass \<Rightarrow> Pass" where
  "set_row name r p = p\<lparr>hr_rows := (hr_rows p)(name \<mapsto> r)\<rparr>"

definition on_row :: "string \<Rightarrow> (Row \<times> string list \<Rightarrow> Row \<times> string list) \<Rightarrow> Pass \<Rightarrow> Pass" where
  "on_row name f p = (let (r, out) = f (row_of name p, hr_out p) in (set_row name r p)\<lparr>hr_out := out\<rparr>)"

definition say :: "string \<Rightarrow> Pass \<Rightarrow> Pass" where
  "say line p = p\<lparr>hr_out := hr_out p @ [line]\<rparr>"

definition fail_costing :: "string \<Rightarrow> Cond \<Rightarrow> string \<Rightarrow> string \<Rightarrow> Pass \<Rightarrow> Pass" where
  "fail_costing name cond why cost =
     on_row name (say_once cond (''cfab: workload '' @ name @ '': '' @ why @ ''; '' @ cost))"

definition ENGINE_COST :: string where "ENGINE_COST = ''host routes unchanged''"
definition NFT_COST :: string where "NFT_COST = ''the local set is unchanged''"

section \<open>Reading a row\<close>

definition observe_row ::
  "(string \<Rightarrow> json option) \<Rightarrow> View \<Rightarrow> Workload \<Rightarrow> Pass \<Rightarrow> (ipv4, mac) omap option \<times> Pass" where
  "observe_row parse v wl p =
     (let leg = leg_ifname wl; name = wl_name wl in
      case ask (identify_declared (wl_uplink wl) (wl_vid wl)) p of
        (Inl _, p) \<Rightarrow> (None, p)
      | (Inr up, p) \<Rightarrow>
          (case ask (sys_run (neigh_argv wl)) p of
             (None, p) \<Rightarrow> (None, p)
           | (Some neigh, p) \<Rightarrow>
               if \<not> output_ok neigh then
                 (None, fail_costing name ReadCond (''cannot read the neighbors of '' @ leg) ENGINE_COST p)
               else
                 (case ask (sys_run (fdb_argv wl)) p of
                    (None, p) \<Rightarrow> (None, p)
                  | (Some fdb, p) \<Rightarrow>
                      if \<not> output_ok fdb then
                        (None, fail_costing name ReadCond (''cannot read the FDB of bridge '' @ wl_uplink wl) ENGINE_COST p)
                      else
                        (case local_vm_macs parse (stdout neigh) (stdout fdb) v wl (up_ports up) of
                           Some live \<Rightarrow> (Some live, on_row name (recovered ReadCond name) p)
                         | None \<Rightarrow>
                             (None, fail_costing name ReadCond
                                      (''cannot parse the neighbors of '' @ leg @ '' or the FDB of '' @ wl_uplink wl)
                                      ENGINE_COST p)))))"

section \<open>Joining and leaving\<close>

definition neigh_del_argv :: "Workload \<Rightarrow> ipv4 \<Rightarrow> string list" where
  "neigh_del_argv wl a = [''ip'', ''neigh'', ''del'', ipv4_str a, ''dev'', leg_ifname wl]"

definition is_ok_and_ok :: "Output option \<Rightarrow> bool" where
  "is_ok_and_ok r \<longleftrightarrow> (case r of Some o' \<Rightarrow> output_ok o' | None \<Rightarrow> False)"

definition depart :: "Workload \<Rightarrow> Pass \<Rightarrow> ipv4 \<Rightarrow> Pass" where
  "depart wl p a =
     (let (r, p) = ask (sys_run (neigh_del_argv wl a)) p;
          left = ''cfab: workload '' @ wl_name wl @ '': vm '' @ ipv4_str a @ '' left (no longer seen as a local VM)'' in
      if is_ok_and_ok r then say left p
      else say (left @ ''; cannot delete its neighbor entry on '' @ leg_ifname wl) p)"

definition reconcile_membership :: "Workload \<Rightarrow> ipv4 set \<Rightarrow> Pass \<Rightarrow> Pass" where
  "reconcile_membership wl wanted p =
     (let name = wl_name wl; r = row_of name p; first = \<not> seen_before r; prev = last_wanted r;
          p = set_row name (r\<lparr>seen_before := True, last_wanted := wanted\<rparr>) p in
      if first then p
      else let p = foldl (\<lambda>p a. say (''cfab: workload '' @ name @ '': vm '' @ ipv4_str a @ '' joined'') p) p
                     (sorted_list_of_set (wanted - prev)) in
           foldl (depart wl) p (sorted_list_of_set (prev - wanted)))"

section \<open>The engine's routes\<close>

definition sock_path :: "Fabric \<Rightarrow> string" where
  "sock_path f = fab_run_dir f @ ''/engine.sock''"

definition routes_line :: "Workload \<Rightarrow> u32 \<Rightarrow> ipv4 set \<Rightarrow> string" where
  "routes_line wl ifindex wanted =
     ''workload-routes '' @ leg_ifname wl @ '' '' @ dec (unat ifindex) @
     concat (map (\<lambda>a. '' '' @ ipv4_str a @ ''/32'') (sorted_list_of_set wanted)) @ [CHR 0x0A]"

datatype Refusal = Withdrew string | Plain

definition refusal :: "(string \<Rightarrow> json option) \<Rightarrow> string \<Rightarrow> Refusal option" where
  "refusal parse reply =
     (case parse reply of
        None \<Rightarrow> if has_substring (CHR 0x22 # ''error'' @ [CHR 0x22]) reply then Some Plain else None
      | Some v \<Rightarrow>
          (case json_get v ''error'' of
             None \<Rightarrow> None
           | Some err \<Rightarrow>
               if json_at v ''withdrew'' = JBool True
               then Some (Withdrew (case as_str err of Some t \<Rightarrow> t | None \<Rightarrow> []))
               else Some Plain))"

definition engine_fault ::
  "(string \<Rightarrow> json option) \<Rightarrow> Workload \<Rightarrow> string \<Rightarrow> string + string \<Rightarrow> (string \<times> string) option" where
  "engine_fault parse wl line answer =
     (case answer of
        Inr reply \<Rightarrow>
          (case refusal parse reply of
             None \<Rightarrow> None
           | Some (Withdrew e) \<Rightarrow>
               Some (''engine withdrew the routes of '' @ leg_ifname wl @ '' and refused the reinstall: '' @ e,
                     ''retried next tick'')
           | Some Plain \<Rightarrow>
               Some (''engine refused '' @ trim_text line @ '': '' @ trim_text reply, ENGINE_COST))
      | Inl e \<Rightarrow> Some (''engine would not take '' @ trim_text line @ '': '' @ e, ENGINE_COST))"

definition ask_engine ::
  "(string \<Rightarrow> json option) \<Rightarrow> View \<Rightarrow> Workload \<Rightarrow> u32 \<Rightarrow> ipv4 set \<Rightarrow> Pass \<Rightarrow> Pass" where
  "ask_engine parse v wl ifindex wanted p =
     (let line = routes_line wl ifindex wanted;
          (answer, p) = ask (unix_request (sock_path (v_fabric v)) line) p in
      case engine_fault parse wl line answer of
        Some (why, cost) \<Rightarrow> fail_costing (wl_name wl) EngineCond why cost p
      | None \<Rightarrow> on_row (wl_name wl) (recovered EngineCond (wl_name wl)) p)"

section \<open>The packet filter's set\<close>

definition elem_addr :: "json \<Rightarrow> ipv4 option" where
  "elem_addr e =
     Option.bind (case as_str e of Some t \<Rightarrow> Some t | None \<Rightarrow> as_str (json_at e ''val'')) parse_ipv4"

definition parse_set_elements :: "(string \<Rightarrow> json option) \<Rightarrow> string \<Rightarrow> ipv4 set option" where
  "parse_set_elements parse t =
     Option.bind (parse t) (\<lambda>doc.
     Option.bind (as_array (json_at doc ''nftables'')) (\<lambda>items.
     Option.bind (find_map (\<lambda>i. json_get i ''set'') items) (\<lambda>st.
       Some (set (List.map_filter elem_addr
               (case as_array (json_at st ''elem'') of Some es \<Rightarrow> es | None \<Rightarrow> []))))))"

definition nft_list_argv :: "Workload \<Rightarrow> string list" where
  "nft_list_argv wl = [''nft'', ''-j'', ''list'', ''set'', ''inet'', ''cfab-fwd'', local_set wl]"

definition braced :: "ipv4 set \<Rightarrow> string" where
  "braced elems = ''{ '' @ join '', '' (map ipv4_str (sorted_list_of_set elems)) @ '' }''"

definition nft_element_argv :: "Workload \<Rightarrow> string \<Rightarrow> ipv4 set \<Rightarrow> string list" where
  "nft_element_argv wl verb elems = [''nft'', verb, ''element'', ''inet'', ''cfab-fwd'', local_set wl, braced elems]"

fun move_elements :: "Workload \<Rightarrow> (string \<times> ipv4 set) list \<Rightarrow> Pass \<Rightarrow> Pass" where
  "move_elements wl [] p = on_row (wl_name wl) (recovered NftCond (wl_name wl)) p"
| "move_elements wl ((verb, elems) # moves) p =
     (if elems = {} then move_elements wl moves p
      else let (r, p) = ask (sys_run (nft_element_argv wl verb elems)) p in
           if is_ok_and_ok r then move_elements wl moves p
           else fail_costing (wl_name wl) NftCond
                  (''cannot '' @ verb @ '' '' @ braced elems @ '' in the nft set inet cfab-fwd '' @ local_set wl) NFT_COST p)"

definition sync_set :: "(string \<Rightarrow> json option) \<Rightarrow> Workload \<Rightarrow> ipv4 set \<Rightarrow> Pass \<Rightarrow> Pass" where
  "sync_set parse wl wanted p =
     (let (listing, p) = ask (sys_run (nft_list_argv wl)) p;
          held = (case listing of
                    Some o' \<Rightarrow> if output_ok o' then parse_set_elements parse (stdout o') else None
                  | None \<Rightarrow> None) in
      case held of
        None \<Rightarrow> fail_costing (wl_name wl) NftCond (''cannot read the nft set inet cfab-fwd '' @ local_set wl) NFT_COST p
      | Some held \<Rightarrow> move_elements wl [(''add'', wanted - held), (''delete'', held - wanted)] p)"

section \<open>The idle-VM probe\<close>

definition DEFAULT_AGEING :: duration where "DEFAULT_AGEING = from_secs 300"

definition ageing_path :: "string \<Rightarrow> string" where
  "ageing_path bridge = sys_net bridge ''/bridge/ageing_time''"

text \<open>The interval in nanoseconds; \<open>saturating_mul\<close> is the minimum with the largest 64-bit value.\<close>

definition interval_of :: "nat \<Rightarrow> duration" where
  "interval_of centisecs = max (from_millis (min (centisecs * 10) (2 ^ 64 - 1)) div 3) PERIOD"

definition probe_interval :: "string \<Rightarrow> Sys \<Rightarrow> (duration \<times> string option) \<times> Sys" where
  "probe_interval bridge s =
     (let (r, s) = sys_read (ageing_path bridge) s in
      (case Option.bind r (\<lambda>t. parse_uint (2 ^ 64 - 1) (trim_text t)) of
         None \<Rightarrow> (max (DEFAULT_AGEING div 3) PERIOD, Some (''cannot read '' @ ageing_path bridge))
       | Some c \<Rightarrow>
           if c > 0 then (interval_of c, None)
           else (max (DEFAULT_AGEING div 3) PERIOD, Some (''cannot read '' @ ageing_path bridge)), s))"

definition probe_one :: "Workload \<Rightarrow> mac \<Rightarrow> nat \<times> string option \<times> Pass \<Rightarrow> ipv4 \<times> mac \<Rightarrow> nat \<times> string option \<times> Pass" where
  "probe_one wl src acc vm =
     (let (failed, last_err, p) = acc; (addr, m) = vm;
          (e, p) = io_send (leg_ifname wl) (unicast_probe src m (wl_gw wl) addr) p in
      case e of
        Some e \<Rightarrow> (failed + 1, Some (ipv4_str addr @ '': '' @ e), p)
      | None \<Rightarrow> (failed, last_err, p))"

definition send_probes :: "Workload \<Rightarrow> (ipv4, mac) omap \<Rightarrow> Pass \<Rightarrow> Pass" where
  "send_probes wl live p =
     (let name = wl_name wl; leg = leg_ifname wl in
      case io_mac leg p of
        (Inl e, p) \<Rightarrow>
          fail_costing name ProbeCond (''cannot read the MAC of '' @ leg @ '' for the idle-VM probe: '' @ e)
            ''no probe sent this cycle'' p
      | (Inr src, p) \<Rightarrow>
          let (failed, last_err, p) = foldl (probe_one wl src) (0, None, p) live in
          if failed > 0 then
            fail_costing name ProbeCond
              (dec failed @ '' of '' @ dec (length live) @ '' idle-VM probes on '' @ leg @ '' failed: '' @
               (case last_err of Some e \<Rightarrow> e | None \<Rightarrow> []))
              ''retried next cycle'' p
          else on_row name (recovered ProbeCond name) p)"

definition maybe_probe :: "Workload \<Rightarrow> (ipv4, mac) omap \<Rightarrow> instant \<Rightarrow> Pass \<Rightarrow> Pass" where
  "maybe_probe wl live now p =
     (let name = wl_name wl;
          due = (case next_probe (row_of name p) of Some d \<Rightarrow> d | None \<Rightarrow> now);
          p = set_row name ((row_of name p)\<lparr>next_probe := Some due\<rparr>) p in
      if now < due then p
      else let ((interval, fault), p) = ask (probe_interval (wl_uplink wl)) p;
               p = set_row name ((row_of name p)\<lparr>next_probe := Some (now + interval)\<rparr>) p;
               p = (case fault of
                      Some why \<Rightarrow> fail_costing name AgeingCond why
                        (''probing at the default '' @ dec 300 @ ''s ageing_time assumption'') p
                    | None \<Rightarrow> on_row name (recovered AgeingCond name) p) in
           if live = [] then p else send_probes wl live p)"

section \<open>One pass\<close>

definition leg_ifindex :: "string \<Rightarrow> Sys \<Rightarrow> u32 option \<times> Sys" where
  "leg_ifindex leg s =
     (let (r, s) = sys_read (sys_net leg ''/ifindex'') s in
      (map_option word_of_nat (Option.bind r (\<lambda>t. parse_uint (2 ^ 32 - 1) (trim_text t))), s))"

text \<open>The body of the loop behind the read: what a row's live set is used for.\<close>

definition push_row ::
  "(string \<Rightarrow> json option) \<Rightarrow> View \<Rightarrow> WorkloadRow \<Rightarrow> bool \<Rightarrow> (ipv4, mac) omap \<Rightarrow> instant \<Rightarrow> Pass \<Rightarrow> Pass" where
  "push_row parse v row installed live now p =
     (let wl = wr_wl row; name = wl_name wl;
          (idx, p) = ask (leg_ifindex (leg_ifname wl)) p;
          ifindex = (case idx of Some i \<Rightarrow> i | None \<Rightarrow> 0);
          r = row_of name p;
          (h, wanted) = hd_observe (holddown r) (set (map fst live)) now;
          p = set_row name (r\<lparr>holddown := h\<rparr>) p;
          p = (if installed then reconcile_membership wl wanted p else p);
          p = ask_engine parse v wl ifindex (if installed then insert (wr_addr row) wanted else wanted) p;
          p = sync_set parse wl wanted p in
      if installed then maybe_probe wl live now p else p)"

definition tick_row ::
  "(string \<Rightarrow> json option) \<Rightarrow> View \<Rightarrow> string set \<Rightarrow> instant \<Rightarrow> Pass \<Rightarrow> WorkloadRow \<Rightarrow> Pass" where
  "tick_row parse v deferred now p row =
     (let wl = wr_wl row; name = wl_name wl;
          p = set_row name (row_of name p) p;
          installed = (name \<notin> deferred);
          (live, p) = (if installed then observe_row parse v wl p
                       else (Some [], set_row name ((row_of name p)\<lparr>holddown := [], last_wanted := {}\<rparr>) p)) in
      case live of None \<Rightarrow> p | Some live \<Rightarrow> push_row parse v row installed live now p)"

text \<open>\<open>HostRoutes::tick\<close>; the journal lines are those of this pass.\<close>

definition hr_tick :: "(string \<Rightarrow> json option) \<Rightarrow> View \<Rightarrow> instant \<Rightarrow> Pass \<Rightarrow> Pass" where
  "hr_tick parse v now p =
     (let p = p\<lparr>hr_out := []\<rparr>; rows = workload_rows v in
      if rows = [] then p
      else let (deferred, p) = ask (deferred_names v) p in foldl (tick_row parse v deferred now) p rows)"

end
