(* ===== verification/Host_Reconcile.thy ===== *)
theory Host_Reconcile
  imports Host_Routes
begin

text \<open>
  What one pass of the host-route reconcile asks for and what it keeps: a failed read costs
  nothing, the requests of a pass in their order, the packet filter's set moved to the wanted one,
  the pace and the targets of the idle-VM probe, and one journal line per change of a fault.
\<close>

section \<open>What the steps leave alone\<close>

named_theorems pass_simps \<open>the fields of a pass behind the elementary steps\<close>

lemma ask_simps [pass_simps]:
  "fst (ask f p) = fst (f (hr_sys p))"
  "hr_sys (snd (ask f p)) = snd (f (hr_sys p))"
  "hr_rows (snd (ask f p)) = hr_rows p" "hr_io (snd (ask f p)) = hr_io p" "hr_out (snd (ask f p)) = hr_out p"
  "row_of name (snd (ask f p)) = row_of name p"
  by (simp_all add: ask_def row_of_def split: prod.splits)

lemma set_row_simps [pass_simps]:
  "hr_sys (set_row n r p) = hr_sys p" "hr_io (set_row n r p) = hr_io p" "hr_out (set_row n r p) = hr_out p"
  "row_of m (set_row n r p) = (if m = n then r else row_of m p)"
  by (simp_all add: set_row_def row_of_def)

lemma say_simps [pass_simps]:
  "hr_sys (say l p) = hr_sys p" "hr_io (say l p) = hr_io p" "row_of m (say l p) = row_of m p"
  by (simp_all add: say_def row_of_def)

lemma on_row_simps [pass_simps]:
  "hr_sys (on_row n f p) = hr_sys p" "hr_io (on_row n f p) = hr_io p"
  "row_of m (on_row n f p) = (if m = n then fst (f (row_of n p, hr_out p)) else row_of m p)"
  by (simp_all add: on_row_def set_row_def row_of_def split: prod.splits)

lemma fail_costing_simps [pass_simps]:
  "hr_sys (fail_costing n c w k p) = hr_sys p" "hr_io (fail_costing n c w k p) = hr_io p"
  by (simp_all add: fail_costing_def pass_simps)

text \<open>Two states of a row that differ at most in the faults that stand.\<close>

definition same_row :: "Row \<Rightarrow> Row \<Rightarrow> bool" where
  "same_row r r' \<longleftrightarrow> holddown r' = holddown r \<and> last_wanted r' = last_wanted r \<and> seen_before r' = seen_before r \<and>
     next_probe r' = next_probe r"

lemma same_row_refl [simp]: "same_row r r"
  by (simp add: same_row_def)

lemma same_row_trans [trans]: "same_row a b \<Longrightarrow> same_row b c \<Longrightarrow> same_row a c"
  by (simp add: same_row_def)

lemma same_row_said:
  "same_row r (fst (say_once c l (r, out)))" "same_row r (fst (recovered c n (r, out)))"
  by (simp_all add: same_row_def say_once_def recovered_def split: option.splits)

text \<open>A step that leaves all rows alone but for the faults that stand.\<close>

definition quiet :: "Pass \<Rightarrow> Pass \<Rightarrow> bool" where
  "quiet p q \<longleftrightarrow> (\<forall>n. same_row (row_of n p) (row_of n q))"

lemma quiet_refl [simp]: "quiet p p"
  by (simp add: quiet_def)

lemma quiet_trans [trans]: "quiet a b \<Longrightarrow> quiet b c \<Longrightarrow> quiet a c"
  unfolding quiet_def by (blast intro: same_row_trans)

lemma quiet_ask [simp]: "quiet p (snd (ask f p))"
  by (simp add: quiet_def pass_simps)

lemma quiet_said [simp]:
  "quiet p (on_row n (say_once c l) p)" "quiet p (on_row n (recovered c m) p)" "quiet p (fail_costing n c w k p)"
  by (simp_all add: quiet_def fail_costing_def pass_simps same_row_said)

lemma quiet_then:
  "quiet p q \<Longrightarrow> quiet p (on_row n (recovered c m) q)" "quiet p q \<Longrightarrow> quiet p (fail_costing n c w k q)"
  by (rule quiet_trans, assumption, simp)+

lemma quiet_say [simp]: "quiet p (say l p)"
  by (simp add: quiet_def pass_simps)

lemma ask_cases:
  obtains a q where "ask f p = (a, q)" "a = fst (f (hr_sys p))" "hr_sys q = snd (f (hr_sys p))" "hr_io q = hr_io p"
    "hr_out q = hr_out p" "quiet p q" "\<And>n. row_of n q = row_of n p"
  by (rule that [of "fst (ask f p)" "snd (ask f p)"]) (auto simp: ask_simps(2-6) intro: ask_simps(1))

section \<open>A failed read\<close>

lemma queries_argv: "queries (neigh_argv wl)" "queries (fdb_argv wl)" "queries (nft_list_argv wl)"
  by (simp_all add: queries_def neigh_argv_def fdb_argv_def nft_list_argv_def)

lemma ask_adds:
  assumes "\<And>s a s'. f s = (a, s') \<Longrightarrow> adds P s s'" and "ask f p = (a, q)"
  shows "adds P (hr_sys p) (hr_sys q)" and "quiet p q" and "hr_io q = hr_io p"
proof -
  have "q = snd (ask f p)"
    using assms(2) by simp
  then show "quiet p q" "hr_io q = hr_io p"
    by (simp_all add: pass_simps)
  show "adds P (hr_sys p) (hr_sys q)"
    using assms(2) assms(1) [of "hr_sys p"] by (auto simp: ask_def split: prod.splits)
qed

lemma ask_run_adds:
  "ask (sys_run argv) p = (a, q) \<Longrightarrow> queries argv \<Longrightarrow> adds only_reads (hr_sys p) (hr_sys q) \<and> quiet p q \<and> hr_io q = hr_io p"
  using ask_adds [of "sys_run argv" only_reads p a q] by (simp add: adds_calls(1))

lemma observe_row_reads:
  assumes "observe_row parse v wl p = (live, q)"
  shows "adds only_reads (hr_sys p) (hr_sys q) \<and> quiet p q \<and> hr_io q = hr_io p"
proof -
  obtain up p1 where 1: "ask (identify_declared (wl_uplink wl) (wl_vid wl)) p = (up, p1)"
    by (cases "ask (identify_declared (wl_uplink wl) (wl_vid wl)) p")
  obtain a2 p2 where 2: "ask (sys_run (neigh_argv wl)) p1 = (a2, p2)"
    by (cases "ask (sys_run (neigh_argv wl)) p1")
  obtain a3 p3 where 3: "ask (sys_run (fdb_argv wl)) p2 = (a3, p3)"
    by (cases "ask (sys_run (fdb_argv wl)) p2")
  have r1: "adds only_reads (hr_sys p) (hr_sys p1)" "quiet p p1" "hr_io p1 = hr_io p"
    using ask_adds [OF _ 1] identify_declared_adds by blast+
  note r2 = ask_run_adds [OF 2 queries_argv(1)]
  note r3 = ask_run_adds [OF 3 queries_argv(2)]
  have s2: "adds only_reads (hr_sys p) (hr_sys p2)" "quiet p p2" "hr_io p2 = hr_io p"
    using r1 r2 by (auto intro: adds_trans quiet_trans)
  have s3: "adds only_reads (hr_sys p) (hr_sys p3)" "quiet p p3" "hr_io p3 = hr_io p"
    using s2 r3 by (auto intro: adds_trans quiet_trans)
  show ?thesis
    using assms 1 2 3 r1 s2 s3
    by (auto simp: observe_row_def Let_def pass_simps split: sum.splits option.splits if_splits intro: quiet_trans)
qed

text \<open>C24: a row that cannot be read this pass costs it nothing. The pass asks the system for reads
  alone: no neighbor entry is deleted, the engine is not asked and the packet filter's set is not
  touched; no frame is sent; and of the state of every row only the faults that stand may change,
  so its hold-down, its wanted set and its probe schedule are those of before.\<close>

theorem failed_read_withdraws_nothing:
  assumes "wl_name (wr_wl row) \<notin> deferred"
    and "fst (observe_row parse v (wr_wl row) (set_row (wl_name (wr_wl row)) (row_of (wl_name (wr_wl row)) p) p)) = None"
  shows "adds only_reads (hr_sys p) (hr_sys (tick_row parse v deferred now p row)) \<and>
         hr_io (tick_row parse v deferred now p row) = hr_io p \<and>
         (\<forall>n. same_row (row_of n p) (row_of n (tick_row parse v deferred now p row)))"
proof -
  define p0 where "p0 = set_row (wl_name (wr_wl row)) (row_of (wl_name (wr_wl row)) p) p"
  obtain q where q: "observe_row parse v (wr_wl row) p0 = (None, q)"
    using assms(2) by (cases "observe_row parse v (wr_wl row) p0") (simp add: p0_def)
  have t: "tick_row parse v deferred now p row = q"
    using assms(1) q by (simp add: tick_row_def Let_def p0_def [symmetric])
  have "quiet p p0" "hr_sys p0 = hr_sys p" "hr_io p0 = hr_io p"
    by (simp_all add: p0_def quiet_def pass_simps)
  then show ?thesis
    using observe_row_reads [OF q] unfolding t by (auto simp: quiet_def intro: same_row_trans)
qed

text \<open>A host on which nothing can be read, and one workload row.\<close>

definition blind_sys :: Sys where
  "blind_sys = \<lparr>ops = [], run_answer = (\<lambda>_ _. None), read_answer = (\<lambda>_ _. Absent), done_answer = (\<lambda>_ _. False),
     list_answer = (\<lambda>_ _. None), exists_answer = (\<lambda>_ _. False), link_answer = (\<lambda>_ _. None),
     request_answer = (\<lambda>_ _ _. Inl ''refused'')\<rparr>"

definition sample_wl :: Workload where
  "sample_wl = \<lparr>wl_name = ''vms'', wl_uplink = ''primary'', wl_vid = 3, wl_prefix = \<lparr>net = 0x0A000000, len = 8\<rparr>,
     wl_gw = 0x0A000001, wl_dhcp_server = None, wl_allow = []\<rparr>"

definition sample_wl_row :: WorkloadRow where
  "sample_wl_row = \<lparr>wr_wl = sample_wl, wr_address = ''10.0.0.2/8'', wr_addr = 0x0A000002\<rparr>"

definition held_row :: Row where
  "held_row = default_row\<lparr>holddown := [(0x0A000007, None)], last_wanted := {0x0A000007}, seen_before := True\<rparr>"

definition sample_pass :: "Sys \<Rightarrow> Pass" where
  "sample_pass s = \<lparr>hr_rows = [''vms'' \<mapsto> held_row], hr_sys = s,
     hr_io = \<lparr>net_ops = [], mac_answer = (\<lambda>_ _. Inr (2, 0, 0, 0, 0, 1)), send_answer = (\<lambda>_ _ _. None)\<rparr>, hr_out = []\<rparr>"

theorem failed_read_withdraws_nothing_witness:
  "\<forall>parse v now. holddown (row_of ''vms'' (tick_row parse v {} now (sample_pass blind_sys) sample_wl_row)) = [(0x0A000007, None)]"
proof (intro allI)
  fix parse v now
  have "fst (observe_row parse v (wr_wl sample_wl_row)
          (set_row (wl_name (wr_wl sample_wl_row)) (row_of (wl_name (wr_wl sample_wl_row)) (sample_pass blind_sys)) (sample_pass blind_sys))) = None"
    by (simp add: observe_row_def ask_def identify_declared_def bridge_ports_of_def sys_list_dir_def sample_pass_def set_row_def
        blind_sys_def sample_wl_row_def sample_wl_def)
  from failed_read_withdraws_nothing [of sample_wl_row "{}", OF _ this, of now]
  have "same_row (row_of ''vms'' (sample_pass blind_sys)) (row_of ''vms'' (tick_row parse v {} now (sample_pass blind_sys) sample_wl_row))"
    by simp
  then show "holddown (row_of ''vms'' (tick_row parse v {} now (sample_pass blind_sys) sample_wl_row)) = [(0x0A000007, None)]"
    by (simp add: same_row_def row_of_def sample_pass_def held_row_def)
qed

section \<open>The requests of a pass, in order\<close>

lemma ops_calls [pass_simps]:
  "ops (snd (sys_run argv s)) = ops s @ [RunOp argv]"
  "ops (snd (sys_read path s)) = ops s @ [ReadOp path]"
  "ops (snd (unix_request path line s)) = ops s @ [RequestOp path line]"
  "ops (snd (leg_ifindex leg s)) = ops s @ [ReadOp (sys_net leg ''/ifindex'')]"
  "ops (snd (probe_interval bridge s)) = ops s @ [ReadOp (ageing_path bridge)]"
  by (simp_all add: sys_run_def sys_read_def sys_reading_def unix_request_def leg_ifindex_def probe_interval_def log_op_def
      split: prod.splits)

lemma depart_simps [pass_simps]:
  "ops (hr_sys (depart wl p a)) = ops (hr_sys p) @ [RunOp (neigh_del_argv wl a)]"
  "hr_io (depart wl p a) = hr_io p" "row_of n (depart wl p a) = row_of n p"
  by (rule ask_cases [of "sys_run (neigh_del_argv wl a)" p], simp add: depart_def Let_def pass_simps)+

lemma depart_all:
  "ops (hr_sys (foldl (depart wl) p as)) = ops (hr_sys p) @ map (RunOp \<circ> neigh_del_argv wl) as \<and>
   hr_io (foldl (depart wl) p as) = hr_io p \<and> row_of n (foldl (depart wl) p as) = row_of n p"
  by (induction as arbitrary: p) (simp_all add: pass_simps)

lemma say_all:
  "hr_sys (foldl (\<lambda>p a. say (f a) p) p as) = hr_sys p \<and> hr_io (foldl (\<lambda>p a. say (f a) p) p as) = hr_io p \<and>
   row_of n (foldl (\<lambda>p a. say (f a) p) p as) = row_of n p"
  by (induction as arbitrary: p) (simp_all add: pass_simps)

definition departed :: "Row \<Rightarrow> ipv4 set \<Rightarrow> ipv4 list" where
  "departed r wanted = (if seen_before r then sorted_list_of_set (last_wanted r - wanted) else [])"

lemma reconcile_membership_simps [pass_simps]:
  "ops (hr_sys (reconcile_membership wl wanted p)) =
     ops (hr_sys p) @ map (RunOp \<circ> neigh_del_argv wl) (departed (row_of (wl_name wl) p) wanted)"
  "hr_io (reconcile_membership wl wanted p) = hr_io p"
  "row_of n (reconcile_membership wl wanted p) =
     (if n = wl_name wl then (row_of n p)\<lparr>seen_before := True, last_wanted := wanted\<rparr> else row_of n p)"
  by (simp_all add: reconcile_membership_def departed_def Let_def depart_all say_all pass_simps)

lemma ask_engine_simps [pass_simps]:
  "ops (hr_sys (ask_engine parse v wl i wanted p)) =
     ops (hr_sys p) @ [RequestOp (sock_path (v_fabric v)) (routes_line wl i wanted)]"
  "hr_io (ask_engine parse v wl i wanted p) = hr_io p"
  "quiet p (ask_engine parse v wl i wanted p)"
proof -
  obtain a q where q: "ask (unix_request (sock_path (v_fabric v)) (routes_line wl i wanted)) p = (a, q)"
    "ops (hr_sys q) = ops (hr_sys p) @ [RequestOp (sock_path (v_fabric v)) (routes_line wl i wanted)]" "hr_io q = hr_io p" "quiet p q"
    by (rule ask_cases [of "unix_request (sock_path (v_fabric v)) (routes_line wl i wanted)" p]) (simp add: pass_simps)
  then show
    "ops (hr_sys (ask_engine parse v wl i wanted p)) =
       ops (hr_sys p) @ [RequestOp (sock_path (v_fabric v)) (routes_line wl i wanted)]"
    "hr_io (ask_engine parse v wl i wanted p) = hr_io p"
    "quiet p (ask_engine parse v wl i wanted p)"
    by (auto simp: ask_engine_def Let_def pass_simps split: option.splits intro: quiet_then)
qed

text \<open>The element commands that are run: those with something to move, up to and with the first
  that fails.\<close>

definition run_moves :: "(string \<times> ipv4 set) list \<Rightarrow> (string \<times> ipv4 set) list \<Rightarrow> bool" where
  "run_moves moves done' \<longleftrightarrow> (\<exists>k. done' = take k (filter (\<lambda>(verb, elems). elems \<noteq> {}) moves))"

lemma move_elements_quiet: "quiet p (move_elements wl moves p) \<and> hr_io (move_elements wl moves p) = hr_io p"
proof (induction wl moves p rule: move_elements.induct)
  case (2 wl verb elems moves p)
  obtain a q where q: "ask (sys_run (nft_element_argv wl verb elems)) p = (a, q)" and "quiet p q" "hr_io q = hr_io p"
    by (rule ask_cases [of "sys_run (nft_element_argv wl verb elems)" p])
  then show ?case
    using 2 q by (auto simp: pass_simps intro: quiet_trans)
qed (simp add: pass_simps)

lemma move_elements_ops:
  "\<exists>done'. run_moves moves done' \<and>
     ops (hr_sys (move_elements wl moves p)) = ops (hr_sys p) @ map (\<lambda>(verb, elems). RunOp (nft_element_argv wl verb elems)) done'"
proof (induction wl moves p rule: move_elements.induct)
  case (1 wl p)
  then show ?case
    by (simp add: run_moves_def pass_simps)
next
  case (2 wl verb elems moves p)
  note IH = 2
  obtain a q where q: "ask (sys_run (nft_element_argv wl verb elems)) p = (a, q)"
    and o: "ops (hr_sys q) = ops (hr_sys p) @ [RunOp (nft_element_argv wl verb elems)]"
    by (rule ask_cases [of "sys_run (nft_element_argv wl verb elems)" p]) (simp add: pass_simps)
  consider "elems = {}" | "elems \<noteq> {}" "is_ok_and_ok a" | "elems \<noteq> {}" "\<not> is_ok_and_ok a"
    by blast
  then show ?case
  proof cases
    case 1
    with IH(1) show ?thesis
      by (simp add: run_moves_def)
  next
    case 2
    with IH(2) [OF _ q [symmetric]] q obtain done' where
      "run_moves moves done'" "ops (hr_sys (move_elements wl moves q)) = ops (hr_sys q) @ map (\<lambda>(verb, elems). RunOp (nft_element_argv wl verb elems)) done'"
      by auto
    with 2 q o show ?thesis
      by (intro exI [of _ "(verb, elems) # done'"]) (auto simp: run_moves_def intro: exI [of _ "Suc _"])
  next
    case 3
    with q o show ?thesis
      by (intro exI [of _ "[(verb, elems)]"]) (auto simp: run_moves_def pass_simps intro!: exI [of _ 1])
  qed
qed

lemma sync_set_cases:
  obtains (unread) q where "sync_set parse wl wanted p = fail_costing (wl_name wl) NftCond (''cannot read the nft set inet cfab-fwd '' @ local_set wl) NFT_COST q"
      "ask (sys_run (nft_list_argv wl)) p = (fst (ask (sys_run (nft_list_argv wl)) p), q)"
    | (held) q r held where "ask (sys_run (nft_list_argv wl)) p = (Some r, q)" "output_ok r" "parse_set_elements parse (stdout r) = Some held"
      "sync_set parse wl wanted p = move_elements wl [(''add'', wanted - held), (''delete'', held - wanted)] q"
proof -
  obtain a q where q: "ask (sys_run (nft_list_argv wl)) p = (a, q)"
    by (rule prod.exhaust)
  define held where "held = (case a of Some o' \<Rightarrow> if output_ok o' then parse_set_elements parse (stdout o') else None | None \<Rightarrow> None)"
  show thesis
  proof (cases held)
    case None
    show thesis
      by (rule unread [of q]) (use None in \<open>simp_all add: sync_set_def q held_def\<close>)
  next
    case (Some h)
    then obtain r where "a = Some r" "output_ok r" "parse_set_elements parse (stdout r) = Some h"
      by (auto simp: held_def split: option.splits if_splits)
    then show thesis
      using q by (intro held [of r q h]) (simp_all add: sync_set_def del: move_elements.simps)
  qed
qed

lemma run_moves_Nil: "run_moves moves []"
  by (auto simp: run_moves_def intro: exI [of _ 0])

lemma sync_set_ops:
  "\<exists>held moves. run_moves [(''add'', wanted - held), (''delete'', held - wanted)] moves \<and>
     ops (hr_sys (sync_set parse wl wanted p)) =
       ops (hr_sys p) @ RunOp (nft_list_argv wl) # map (\<lambda>(verb, elems). RunOp (nft_element_argv wl verb elems)) moves"
  "quiet p (sync_set parse wl wanted p) \<and> hr_io (sync_set parse wl wanted p) = hr_io p"
proof -
  obtain a q where q: "ask (sys_run (nft_list_argv wl)) p = (a, q)" "hr_io q = hr_io p" "quiet p q"
    and o: "ops (hr_sys q) = ops (hr_sys p) @ [RunOp (nft_list_argv wl)]"
    by (rule ask_cases [of "sys_run (nft_list_argv wl)" p]) (simp add: pass_simps)
  show "\<exists>held moves. run_moves [(''add'', wanted - held), (''delete'', held - wanted)] moves \<and>
     ops (hr_sys (sync_set parse wl wanted p)) =
       ops (hr_sys p) @ RunOp (nft_list_argv wl) # map (\<lambda>(verb, elems). RunOp (nft_element_argv wl verb elems)) moves"
  proof (cases rule: sync_set_cases [of parse wl wanted p])
    case (unread q')
    with q o show ?thesis
      by (intro exI [of _ wanted] exI [of _ "[]"]) (simp add: pass_simps run_moves_Nil)
  next
    case (held q' r held)
    with q have "q' = q"
      by simp
    then show ?thesis
      using held(4) o move_elements_ops [of "[(''add'', wanted - held), (''delete'', held - wanted)]" wl q]
      by (intro exI [of _ held]) (simp del: move_elements.simps)
  qed
  show "quiet p (sync_set parse wl wanted p) \<and> hr_io (sync_set parse wl wanted p) = hr_io p"
  proof (cases rule: sync_set_cases [of parse wl wanted p])
    case (unread q')
    with q show ?thesis
      by (simp add: pass_simps quiet_then)
  next
    case (held q' r held)
    with q have "q' = q"
      by simp
    with held(4) q move_elements_quiet [of q wl "[(''add'', wanted - held), (''delete'', held - wanted)]"] show ?thesis
      by (auto simp del: move_elements.simps intro: quiet_trans)
  qed
qed

text \<open>The pass the probe is due in, and the requests of a pass.\<close>

definition probe_due :: "Row \<Rightarrow> instant \<Rightarrow> instant" where
  "probe_due r now = (case next_probe r of Some d \<Rightarrow> d | None \<Rightarrow> now)"

lemma probe_one_io:
  "\<exists>failed e q. foldl (probe_one wl src) (f0, e0, p) live = (failed, e, q) \<and> hr_sys q = hr_sys p \<and> (\<forall>n. row_of n q = row_of n p) \<and>
     net_ops (hr_io q) = net_ops (hr_io p) @ map (\<lambda>(a, m). SendOp (leg_ifname wl) (unicast_probe src m (wl_gw wl) a)) live"
proof (induction live arbitrary: f0 e0 p)
  case (Cons vm live)
  obtain a m where vm: "vm = (a, m)"
    by (rule prod.exhaust)
  define op where "op = SendOp (leg_ifname wl) (unicast_probe src m (wl_gw wl) a)"
  define q where "q = p\<lparr>hr_io := (hr_io p)\<lparr>net_ops := net_ops (hr_io p) @ [op]\<rparr>\<rparr>"
  obtain f1 e1 where "probe_one wl src (f0, e0, p) vm = (f1, e1, q)"
    by (cases "send_answer (hr_io p) (length (net_ops (hr_io p))) (leg_ifname wl) (unicast_probe src m (wl_gw wl) a)")
      (simp_all add: vm probe_one_def io_send_def q_def op_def)
  moreover have "hr_sys q = hr_sys p" "\<forall>n. row_of n q = row_of n p" "net_ops (hr_io q) = net_ops (hr_io p) @ [op]"
    by (simp_all add: q_def row_of_def)
  ultimately show ?case
    using Cons.IH [of f1 e1 q] by (auto simp: vm op_def)
qed simp

lemma send_probes_io:
  "hr_sys (send_probes wl live p) = hr_sys p \<and> quiet p (send_probes wl live p) \<and>
   net_ops (hr_io (send_probes wl live p)) = net_ops (hr_io p) @ MacOp (leg_ifname wl) #
     (case mac_answer (hr_io p) (length (net_ops (hr_io p))) (leg_ifname wl) of
        Inl _ \<Rightarrow> []
      | Inr src \<Rightarrow> map (\<lambda>(a, m). SendOp (leg_ifname wl) (unicast_probe src m (wl_gw wl) a)) live)"
proof -
  define q where "q = p\<lparr>hr_io := (hr_io p)\<lparr>net_ops := net_ops (hr_io p) @ [MacOp (leg_ifname wl)]\<rparr>\<rparr>"
  have q: "hr_sys q = hr_sys p" "quiet p q" "net_ops (hr_io q) = net_ops (hr_io p) @ [MacOp (leg_ifname wl)]"
    "io_mac (leg_ifname wl) p = (mac_answer (hr_io p) (length (net_ops (hr_io p))) (leg_ifname wl), q)"
    by (simp_all add: q_def io_mac_def quiet_def row_of_def)
  show ?thesis
  proof (cases "mac_answer (hr_io p) (length (net_ops (hr_io p))) (leg_ifname wl)")
    case (Inl e)
    with q show ?thesis
      by (simp add: send_probes_def Let_def pass_simps quiet_then)
  next
    case (Inr src)
    obtain failed e u where u: "foldl (probe_one wl src) (0, None, q) live = (failed, e, u)" "hr_sys u = hr_sys q" "\<forall>n. row_of n u = row_of n q"
      "net_ops (hr_io u) = net_ops (hr_io q) @ map (\<lambda>(a, m). SendOp (leg_ifname wl) (unicast_probe src m (wl_gw wl) a)) live"
      using probe_one_io by blast
    then have "quiet p u"
      using q(2) by (simp add: quiet_def)
    with q u Inr show ?thesis
      by (simp add: send_probes_def Let_def pass_simps quiet_then)
  qed
qed

text \<open>What the probe did to its row: the time it is next due.\<close>

definition scheduled :: "string \<Rightarrow> instant \<Rightarrow> Pass \<Rightarrow> Pass \<Rightarrow> bool" where
  "scheduled name t p q \<longleftrightarrow>
     (\<forall>n. same_row (if n = name then (row_of n p)\<lparr>next_probe := Some t\<rparr> else row_of n p) (row_of n q))"

lemma scheduled_quiet: "scheduled name t p q \<Longrightarrow> quiet q q' \<Longrightarrow> scheduled name t p q'"
  unfolding scheduled_def quiet_def by (blast intro: same_row_trans)

lemma maybe_probe_not_due:
  assumes "now < probe_due (row_of (wl_name wl) p) now"
  shows "hr_sys (maybe_probe wl live now p) = hr_sys p" "hr_io (maybe_probe wl live now p) = hr_io p"
    "scheduled (wl_name wl) (probe_due (row_of (wl_name wl) p) now) p (maybe_probe wl live now p)"
  using assms by (simp_all add: maybe_probe_def Let_def probe_due_def scheduled_def pass_simps)

lemma maybe_probe_due:
  assumes "\<not> now < probe_due (row_of (wl_name wl) p) now"
  defines "interval \<equiv> fst (fst (probe_interval (wl_uplink wl) (hr_sys p)))"
  shows "hr_sys (maybe_probe wl live now p) = snd (probe_interval (wl_uplink wl) (hr_sys p))"
    "scheduled (wl_name wl) (now + interval) p (maybe_probe wl live now p)"
    "net_ops (hr_io (maybe_probe wl live now p)) = net_ops (hr_io p) @
       (if live = [] then [] else MacOp (leg_ifname wl) #
          (case mac_answer (hr_io p) (length (net_ops (hr_io p))) (leg_ifname wl) of
             Inl _ \<Rightarrow> []
           | Inr src \<Rightarrow> map (\<lambda>(a, m). SendOp (leg_ifname wl) (unicast_probe src m (wl_gw wl) a)) live))"
proof -
  define p1 where "p1 = set_row (wl_name wl) ((row_of (wl_name wl) p)\<lparr>next_probe := Some (probe_due (row_of (wl_name wl) p) now)\<rparr>) p"
  obtain a q where q: "ask (probe_interval (wl_uplink wl)) p1 = (a, q)" "a = fst (probe_interval (wl_uplink wl) (hr_sys p1))"
    "hr_sys q = snd (probe_interval (wl_uplink wl) (hr_sys p1))" "hr_io q = hr_io p1" "\<And>n. row_of n q = row_of n p1"
    by (rule ask_cases [of "probe_interval (wl_uplink wl)" p1]) blast
  obtain fault where a: "a = (interval, fault)"
    using q(2) by (auto simp: interval_def p1_def pass_simps intro: that [of "snd a"])
  define p2 where "p2 = set_row (wl_name wl) ((row_of (wl_name wl) q)\<lparr>next_probe := Some (now + interval)\<rparr>) q"
  define p3 where "p3 = (case fault of
      Some why \<Rightarrow> fail_costing (wl_name wl) AgeingCond why (''probing at the default '' @ dec 300 @ ''s ageing_time assumption'') p2
    | None \<Rightarrow> on_row (wl_name wl) (recovered AgeingCond (wl_name wl)) p2)"
  have eq: "maybe_probe wl live now p = (if live = [] then p3 else send_probes wl live p3)"
    using assms(1) q(1)
    by (cases fault) (simp_all add: maybe_probe_def Let_def probe_due_def [symmetric] p1_def [symmetric] a p2_def p3_def)
  have p3: "hr_sys p3 = snd (probe_interval (wl_uplink wl) (hr_sys p))" "hr_io p3 = hr_io p" "quiet p2 p3"
    using q by (simp_all add: p3_def p2_def p1_def pass_simps split: option.splits)
  have "scheduled (wl_name wl) (now + interval) p p2"
    using q(5) by (simp add: scheduled_def p2_def p1_def pass_simps)
  then have s: "scheduled (wl_name wl) (now + interval) p p3"
    using p3(3) by (rule scheduled_quiet)
  show "hr_sys (maybe_probe wl live now p) = snd (probe_interval (wl_uplink wl) (hr_sys p))"
    "scheduled (wl_name wl) (now + interval) p (maybe_probe wl live now p)"
    "net_ops (hr_io (maybe_probe wl live now p)) = net_ops (hr_io p) @
       (if live = [] then [] else MacOp (leg_ifname wl) #
          (case mac_answer (hr_io p) (length (net_ops (hr_io p))) (leg_ifname wl) of
             Inl _ \<Rightarrow> []
           | Inr src \<Rightarrow> map (\<lambda>(a, m). SendOp (leg_ifname wl) (unicast_probe src m (wl_gw wl) a)) live))"
    using s p3 send_probes_io [of wl live p3] scheduled_quiet [OF s] by (auto simp: eq)
qed


section \<open>The packet filter's set\<close>

text \<open>What the element commands do to the set, as nft documents them.\<close>

fun apply_move :: "ipv4 set \<Rightarrow> string \<times> ipv4 set \<Rightarrow> ipv4 set" where
  "apply_move held (verb, elems) = (if verb = ''add'' then held \<union> elems else held - elems)"

lemma run_answer_ask: "ask (sys_run argv) p = (a, q) \<Longrightarrow> run_answer (hr_sys q) = run_answer (hr_sys p)"
  by (auto simp: ask_def sys_run_def log_op_def)

lemma move_elements_all:
  assumes "\<And>n verb elems. is_ok_and_ok (run_answer (hr_sys p) n (nft_element_argv wl verb elems))"
  shows "ops (hr_sys (move_elements wl moves p)) = ops (hr_sys p) @
           map (\<lambda>(verb, elems). RunOp (nft_element_argv wl verb elems)) (filter (\<lambda>(verb, elems). elems \<noteq> {}) moves) \<and>
         standing (row_of (wl_name wl) (move_elements wl moves p)) NftCond = None"
  using assms
proof (induction moves arbitrary: p)
  case Nil
  then show ?case
    by (simp add: pass_simps recovered_def split: option.splits)
next
  case (Cons m moves)
  obtain verb elems where m: "m = (verb, elems)"
    by (rule prod.exhaust)
  obtain a q where q: "ask (sys_run (nft_element_argv wl verb elems)) p = (a, q)" "a = fst (sys_run (nft_element_argv wl verb elems) (hr_sys p))"
    and o: "ops (hr_sys q) = ops (hr_sys p) @ [RunOp (nft_element_argv wl verb elems)]"
    by (rule ask_cases [of "sys_run (nft_element_argv wl verb elems)" p]) (simp add: pass_simps)
  have a: "is_ok_and_ok a"
    using Cons.prems by (simp add: q(2) sys_run_def)
  have "ops (hr_sys (move_elements wl moves q)) = ops (hr_sys q) @
           map (\<lambda>(verb, elems). RunOp (nft_element_argv wl verb elems)) (filter (\<lambda>(verb, elems). elems \<noteq> {}) moves) \<and>
         standing (row_of (wl_name wl) (move_elements wl moves q)) NftCond = None"
    by (rule Cons.IH) (use Cons.prems run_answer_ask [OF q(1)] in simp)
  then show ?case
    using Cons.IH [OF Cons.prems] q(1) a o by (auto simp: m)
qed

text \<open>C27: the packet filter's set follows the wanted set. Whenever the set can be listed, the
  element commands that are run never take out an address that stays wanted and never put in one
  that is not wanted, also when one of them fails; and when they succeed, the set they leave is
  exactly the wanted set, with nothing moved that was right already, and the fault is cleared.\<close>

theorem nft_set_follows:
  assumes "run_answer (hr_sys p) (length (ops (hr_sys p))) (nft_list_argv wl) = Some r" and "output_ok r"
    and "parse_set_elements parse (stdout r) = Some held"
  shows "\<exists>moves.
     ops (hr_sys (sync_set parse wl wanted p)) = ops (hr_sys p) @ RunOp (nft_list_argv wl) #
       map (\<lambda>(verb, elems). RunOp (nft_element_argv wl verb elems)) moves \<and>
     (\<forall>k. held \<inter> wanted \<subseteq> foldl apply_move held (take k moves) \<and> foldl apply_move held (take k moves) \<subseteq> held \<union> wanted) \<and>
     ((\<forall>n verb elems. is_ok_and_ok (run_answer (hr_sys p) n (nft_element_argv wl verb elems))) \<longrightarrow>
       foldl apply_move held moves = wanted \<and>
       standing (row_of (wl_name wl) (sync_set parse wl wanted p)) NftCond = None) \<and>
     (wanted = held \<longrightarrow> moves = [])"
proof -
  define plan where "plan = [(''add'', wanted - held), (''delete'', held - wanted)]"
  obtain a q where a: "ask (sys_run (nft_list_argv wl)) p = (a, q)" "a = fst (sys_run (nft_list_argv wl) (hr_sys p))"
    and o: "ops (hr_sys q) = ops (hr_sys p) @ [RunOp (nft_list_argv wl)]"
    by (rule ask_cases [of "sys_run (nft_list_argv wl)" p]) (simp add: pass_simps)
  then have q: "ask (sys_run (nft_list_argv wl)) p = (Some r, q)"
    using assms(1) by (simp add: sys_run_def)
  have s: "sync_set parse wl wanted p = move_elements wl plan q"
    using q assms(2,3) by (simp add: sync_set_def Let_def plan_def del: move_elements.simps)
  define todo where "todo = filter (\<lambda>(verb, elems). elems \<noteq> {}) plan"
  have safe: "held \<inter> wanted \<subseteq> foldl apply_move held (take k todo) \<and> foldl apply_move held (take k todo) \<subseteq> held \<union> wanted" for k
    by (cases k; cases "k - 1") (auto simp: todo_def plan_def)
  have whole: "foldl apply_move held todo = wanted" and nil: "wanted = held \<Longrightarrow> todo = []"
    by (auto simp: todo_def plan_def)
  show ?thesis
  proof (cases "\<forall>n verb elems. is_ok_and_ok (run_answer (hr_sys p) n (nft_element_argv wl verb elems))")
    case True
    then have "ops (hr_sys (move_elements wl plan q)) = ops (hr_sys q) @ map (\<lambda>(verb, elems). RunOp (nft_element_argv wl verb elems)) todo \<and>
         standing (row_of (wl_name wl) (move_elements wl plan q)) NftCond = None"
      unfolding todo_def by (intro move_elements_all) (simp add: run_answer_ask [OF q])
    then show ?thesis
      unfolding s by (intro exI [of _ todo]) (use safe whole nil o in simp)
  next
    case False
    obtain moves where m: "run_moves plan moves"
        "ops (hr_sys (move_elements wl plan q)) = ops (hr_sys q) @ map (\<lambda>(verb, elems). RunOp (nft_element_argv wl verb elems)) moves"
      using move_elements_ops by blast
    then obtain j where "moves = take j todo"
      by (auto simp: run_moves_def todo_def)
    then show ?thesis
      unfolding s by (intro exI [of _ moves]) (use safe nil False o m(2) in auto)
  qed
qed

text \<open>A set that holds one address and is to hold another.\<close>

definition set_doc :: "ipv4 \<Rightarrow> json" where
  "set_doc a = JObj [(''nftables'', JArr [JObj [(''set'', JObj [(''elem'', JArr [JStr (ipv4_str a)])])]])]"

definition set_sys :: Sys where
  "set_sys = blind_sys\<lparr>run_answer := (\<lambda>_ _. Some \<lparr>status = 0, stdout = ''listing'', stderr = []\<rparr>)\<rparr>"

theorem nft_set_follows_witness:
  "\<exists>moves. foldl apply_move {0x0A000007} moves = {0x0A000009} \<and>
     ops (hr_sys (sync_set (\<lambda>_. Some (set_doc 0x0A000007)) sample_wl {0x0A000009} (sample_pass set_sys))) =
       RunOp (nft_list_argv sample_wl) # map (\<lambda>(verb, elems). RunOp (nft_element_argv sample_wl verb elems)) moves"
proof -
  have r: "run_answer (hr_sys (sample_pass set_sys)) n argv = Some \<lparr>status = 0, stdout = ''listing'', stderr = []\<rparr>" for n argv
    by (simp add: sample_pass_def set_sys_def)
  have h: "parse_set_elements (\<lambda>_. Some (set_doc 0x0A000007)) t = Some {0x0A000007}" for t
    by (simp add: parse_set_elements_def set_doc_def elem_addr_def map_filter_simps parse_ipv4_str)
  have "ops (hr_sys (sample_pass set_sys)) = []"
    by (simp add: sample_pass_def set_sys_def blind_sys_def)
  then show ?thesis
    using nft_set_follows [of "sample_pass set_sys" sample_wl, OF r _ h, of "{0x0A000009}"]
    by (auto simp: output_ok_def is_ok_and_ok_def r)
qed

section \<open>The pace and the targets of the probe\<close>

lemma interval_of_bounds:
  "PERIOD \<le> interval_of c"
  "3 * PERIOD \<le> from_millis (c * 10) \<Longrightarrow> 3 * interval_of c \<le> from_millis (c * 10)"
  by (auto simp: interval_of_def from_millis_def)

lemma probe_interval_bound: "PERIOD \<le> fst (fst (probe_interval bridge s))"
  by (auto simp: probe_interval_def interval_of_bounds split: option.splits prod.splits)

text \<open>The idle-VM probe. Before its time nothing is sent and the time stays. At its time one
  unicast ARP request, from the leg's MAC and the gateway's address, goes to the MAC of every VM
  that was just read and asks for that VM's address, in the order of the addresses, and nothing
  else is sent (nothing at all when the leg's MAC cannot be read); the next time is at least five
  seconds later, and when the bridge's ageing time is read and is fifteen seconds or more, three
  probe intervals fit into it.\<close>

theorem idle_probe_paced:
  fixes p wl now live
  defines "q \<equiv> maybe_probe wl live now p" and "leg \<equiv> leg_ifname wl"
  defines "due \<equiv> probe_due (row_of (wl_name wl) p) now"
  shows "\<exists>t. next_probe (row_of (wl_name wl) q) = Some t \<and>
     (if now < due then t = due \<and> hr_io q = hr_io p
      else now + from_secs 5 \<le> t \<and>
        net_ops (hr_io q) = net_ops (hr_io p) @
          (if live = [] then [] else MacOp leg #
             (case mac_answer (hr_io p) (length (net_ops (hr_io p))) leg of
                Inl _ \<Rightarrow> []
              | Inr src \<Rightarrow> map (\<lambda>(a, m). SendOp leg (unicast_probe src m (wl_gw wl) a)) live)) \<and>
        (case Option.bind (fst (sys_read (ageing_path (wl_uplink wl)) (hr_sys p))) (\<lambda>x. parse_uint (2 ^ 64 - 1) (trim_text x)) of
           None \<Rightarrow> t = now + from_secs 100
         | Some c \<Rightarrow> if c = 0 then t = now + from_secs 100
                      else if from_millis (c * 10) < from_secs 15 then t = now + from_secs 5
                      else 3 * (t - now) \<le> from_millis (c * 10)))"
proof (cases "now < due")
  case True
  then show ?thesis
    using maybe_probe_not_due [of now wl p live] unfolding due_def q_def
    by (auto simp: scheduled_def same_row_def)
next
  case False
  note d = maybe_probe_due [of now wl p live, folded due_def, OF False]
  have n: "next_probe (row_of (wl_name wl) q) = Some (now + fst (fst (probe_interval (wl_uplink wl) (hr_sys p))))"
    using d(2) by (auto simp: q_def scheduled_def same_row_def)
  have small: "from_millis (c * 10) < from_secs 15 \<Longrightarrow> interval_of c = from_secs 5" for c
    by (auto simp: interval_of_def from_millis_def from_secs_def PERIOD_def)
  have big: "\<not> from_millis (c * 10) < from_secs 15 \<Longrightarrow> 3 * interval_of c \<le> from_millis (c * 10)" for c
    by (rule interval_of_bounds) (simp add: PERIOD_def from_secs_def)
  have deflt: "max (DEFAULT_AGEING div 3) PERIOD = from_secs 100"
    by (simp add: DEFAULT_AGEING_def PERIOD_def from_secs_def)
  define I where "I = fst (fst (probe_interval (wl_uplink wl) (hr_sys p)))"
  have I: "case Option.bind (fst (sys_read (ageing_path (wl_uplink wl)) (hr_sys p))) (\<lambda>x. parse_uint (2 ^ 64 - 1) (trim_text x)) of
             None \<Rightarrow> I = from_secs 100
           | Some c \<Rightarrow> if c = 0 then I = from_secs 100
                        else if from_millis (c * 10) < from_secs 15 then I = from_secs 5
                        else 3 * I \<le> from_millis (c * 10)"
    unfolding I_def probe_interval_def deflt
    by (cases "sys_read (ageing_path (wl_uplink wl)) (hr_sys p)") (auto simp: small big split: option.splits)
  have "from_secs 5 \<le> I"
    using probe_interval_bound by (simp add: I_def PERIOD_def)
  then show ?thesis
    using False n d(3) I unfolding q_def leg_def I_def [symmetric]
    by (intro exI [of _ "now + I"]) (auto split: option.splits if_splits)
qed

section \<open>One line per change of a fault\<close>

text \<open>The calls of one condition: a fault with its line, or the end of the condition.\<close>

definition cond_call :: "Cond \<Rightarrow> string \<Rightarrow> Row \<times> string list \<Rightarrow> string option \<Rightarrow> Row \<times> string list" where
  "cond_call cond name ro e = (case e of Some line \<Rightarrow> say_once cond line ro | None \<Rightarrow> recovered cond name ro)"

text \<open>What is said when the condition was \<open>prev\<close> and is now \<open>e\<close>: nothing for no change.\<close>

definition said :: "Cond \<Rightarrow> string \<Rightarrow> string option \<Rightarrow> string option \<Rightarrow> string list" where
  "said cond name prev e =
     (if e = prev then []
      else case e of
             Some line \<Rightarrow> [line]
           | None \<Rightarrow> [''cfab: workload '' @ name @ '': '' @ cond_str cond @ '' recovered''])"

lemma cond_call_step:
  "cond_call cond name (r, out) e = (r\<lparr>standing := (standing r)(cond := e)\<rparr>, out @ said cond name (standing r cond) e)"
  by (cases e; cases "standing r cond") (auto simp: cond_call_def say_once_def recovered_def said_def fun_upd_idem)

text \<open>A fault that lasts costs one journal line. Over any sequence of reports of a condition,
  each report says a line exactly when it differs from the one before it (the condition not
  standing at first): a new fault its line, the end of a standing fault its recovery, and a
  repeated report nothing. The other conditions of the row are not touched.\<close>

theorem one_line_per_change:
  "snd (foldl (cond_call cond name) (r, out) es) =
     out @ concat (map2 (said cond name) (standing r cond # es) es) \<and>
   standing (fst (foldl (cond_call cond name) (r, out) es)) = (standing r)(cond := last (standing r cond # es))"
  by (induction es arbitrary: r out) (simp_all add: cond_call_step)

end
