(* ===== verification/Supervisor_Workload.thy ===== *)
theory Supervisor_Workload
  imports Host_Reconcile
begin

text \<open>
  The workload task of the supervisor (\<open>src/src/supervisor/workload.rs\<close>): which rows get an
  announcer and when, what an FDB event or the polled trigger does to them, the beacon, and the
  tick that also drives the host routes. The state is the announcers with their facts, the state
  of the host-route pass (system, packet socket) and the journal. A panic of the announcer's
  burst counter is \<open>None\<close>.
\<close>

section \<open>Rows\<close>

datatype Trigger = NeighEvents | FdbPoll string

fun trigger_str :: "Trigger \<Rightarrow> string" where
  "trigger_str NeighEvents = ''neigh events''"
| "trigger_str (FdbPoll reason) = ''fdb poll ('' @ reason @ '')''"

datatype AnnCond = SendCond | MacCond | ScanCond

fun ann_cond_str :: "AnnCond \<Rightarrow> string" where
  "ann_cond_str SendCond = ''announce''"
| "ann_cond_str MacCond = ''MAC read''"
| "ann_cond_str ScanCond = ''bridge port scan''"

record AnnRow =
  ar_name :: string
  ar_announcer :: Announcer
  ar_up :: Uplink
  ar_mac :: mac
  ar_seen :: "(string \<times> string) set"
  ar_standing :: "AnnCond \<Rightarrow> string option"

record Workloads =
  w_trigger :: "Trigger option"
  w_rows :: "AnnRow list"
  w_deferred_said :: "string set"
  w_pass :: Pass
  w_journal :: "string list"

definition wl_line :: "string \<Rightarrow> string \<Rightarrow> string" where
  "wl_line name rest = ''cfab: workload '' @ name @ '': '' @ rest"

definition journal_once :: "AnnCond \<Rightarrow> string \<Rightarrow> AnnRow \<times> string list \<Rightarrow> AnnRow \<times> string list" where
  "journal_once cond line rj =
     (let (r, j) = rj in
      if ar_standing r cond = Some line then (r, j)
      else (r\<lparr>ar_standing := (ar_standing r)(cond \<mapsto> line)\<rparr>, j @ [line]))"

definition ann_recovered :: "AnnCond \<Rightarrow> AnnRow \<times> string list \<Rightarrow> AnnRow \<times> string list" where
  "ann_recovered cond rj =
     (let (r, j) = rj in
      case ar_standing r cond of
        None \<Rightarrow> (r, j)
      | Some _ \<Rightarrow> (r\<lparr>ar_standing := (ar_standing r)(cond := None)\<rparr>,
                   j @ [wl_line (ar_name r) (ann_cond_str cond @ '' recovered'')]))"

text \<open>A loop over the rows that reads and writes the host and the journal.\<close>

fun each_row ::
  "(AnnRow \<Rightarrow> Pass \<times> string list \<Rightarrow> (AnnRow \<times> Pass \<times> string list) option) \<Rightarrow> AnnRow list \<Rightarrow> Pass \<times> string list \<Rightarrow>
     (AnnRow list \<times> Pass \<times> string list) option" where
  "each_row f [] pj = Some ([], pj)"
| "each_row f (r # rs) pj =
     Option.bind (f r pj) (\<lambda>(r, pj). map_option (\<lambda>(rs, pj). (r # rs, pj)) (each_row f rs pj))"

definition read_mac :: "string \<Rightarrow> Pass \<Rightarrow> (string + mac) \<times> Pass" where
  "read_mac ifname p =
     (let (r, p) = io_mac ifname p in
      (case r of Inl e \<Rightarrow> Inl (''cannot read the MAC of '' @ ifname @ '': '' @ e) | Inr m \<Rightarrow> Inr m, p))"

definition hex_mac :: "mac \<Rightarrow> string" where
  "hex_mac = mac_str"

definition refresh_mac :: "instant \<Rightarrow> AnnRow \<Rightarrow> Pass \<times> string list \<Rightarrow> AnnRow \<times> Pass \<times> string list" where
  "refresh_mac now r pj =
     (let (p, j) = pj; ifname = an_ifname (ar_announcer r); (m, p) = read_mac ifname p in
      case m of
        Inr m \<Rightarrow>
          let (r, j) = ann_recovered MacCond (r, j) in
          if m = ar_mac r then (r, p, j)
          else (r\<lparr>ar_mac := m, ar_announcer := on_event (ar_announcer r) now\<rparr>, p,
                j @ [wl_line (ar_name r) (ifname @ '' MAC changed '' @ hex_mac (ar_mac r) @ '' -> '' @ hex_mac m)])
      | Inl why \<Rightarrow>
          let (r, j) = journal_once MacCond (wl_line (ar_name r) (why @ ''; announcing the last known MAC'')) (r, j) in
          (r, p, j))"

section \<open>The beacon\<close>

definition fire_row :: "instant \<Rightarrow> AnnRow \<Rightarrow> Pass \<times> string list \<Rightarrow> (AnnRow \<times> Pass \<times> string list) option" where
  "fire_row now r pj =
     (let ifname = an_ifname (ar_announcer r); (r, p, j) = refresh_mac now r pj in
      case announce_due (ar_announcer r) (\<lambda>i f. fst (io_send i f p)) (ar_mac r) now of
        None \<Rightarrow> None
      | Some (a, frames, outcome) \<Rightarrow>
          let p = foldl (\<lambda>p (i, f). snd (io_send i f p)) p frames; r = r\<lparr>ar_announcer := a\<rparr>;
              (r, j) = (case outcome of
                          Inr True \<Rightarrow> ann_recovered SendCond (r, j)
                        | Inr False \<Rightarrow> (r, j)
                        | Inl e \<Rightarrow> journal_once SendCond
                            (wl_line (ar_name r) (''announce on '' @ ifname @ '' failed: '' @ e)) (r, j)) in
          Some (r, p, j))"

definition on_rows ::
  "(AnnRow \<Rightarrow> Pass \<times> string list \<Rightarrow> (AnnRow \<times> Pass \<times> string list) option) \<Rightarrow> Workloads \<Rightarrow> Workloads option" where
  "on_rows f w =
     map_option (\<lambda>(rs, p, j). w\<lparr>w_rows := rs, w_pass := p, w_journal := j\<rparr>)
       (each_row f (w_rows w) (w_pass w, w_journal w))"

definition fire_due :: "instant \<Rightarrow> Workloads \<Rightarrow> Workloads option" where
  "fire_due now = on_rows (fire_row now)"

definition w_next_due :: "Workloads \<Rightarrow> instant option" where
  "w_next_due w =
     (case map (next_due \<circ> ar_announcer) (w_rows w) of [] \<Rightarrow> None | d # ds \<Rightarrow> Some (foldl min d ds))"

section \<open>Events\<close>

record NeighEvent =
  ne_ifindex :: u32
  ne_mac :: mac
  ne_permanent :: bool

datatype NeighSignal = NeighAdd NeighEvent | Overflow

definition burst :: "instant \<Rightarrow> AnnRow \<Rightarrow> AnnRow" where
  "burst now r = r\<lparr>ar_announcer := on_event (ar_announcer r) now\<rparr>"

definition event_row :: "NeighEvent \<Rightarrow> instant \<Rightarrow> AnnRow \<Rightarrow> Pass \<times> string list \<Rightarrow> (AnnRow \<times> Pass \<times> string list) option" where
  "event_row ev now r pj =
     (let (p, j) = pj; (ports, p) = ask (non_uplink_ifindexes (ar_up r)) p in
      case ports of
        Inr is \<Rightarrow>
          let (r, j) = ann_recovered ScanCond (r, j) in
          Some (if ne_ifindex ev \<in> is then burst now r else r, p, j)
      | Inl why \<Rightarrow>
          let (r, j) = journal_once ScanCond (wl_line (ar_name r) (why @ ''; burst skipped'')) (r, j) in
          Some (r, p, j))"

definition on_neigh :: "NeighSignal \<Rightarrow> instant \<Rightarrow> Workloads \<Rightarrow> Workloads option" where
  "on_neigh sig now w =
     (case sig of
        Overflow \<Rightarrow> Some (w\<lparr>w_rows := map (burst now) (w_rows w)\<rparr>)
      | NeighAdd ev \<Rightarrow> if ne_permanent ev then Some w else on_rows (event_row ev now) w)"

definition watch_died :: "string \<Rightarrow> Workloads \<Rightarrow> Workloads" where
  "watch_died why w =
     (case w_trigger w of
        None \<Rightarrow> w
      | Some t \<Rightarrow>
          let trigger = FdbPoll (''neighbor watch died: '' @ why) in
          if t = trigger then w
          else w\<lparr>w_trigger := Some trigger,
                 w_journal := w_journal w @
                   map (\<lambda>r. wl_line (ar_name r) (''announcer trigger '' @ trigger_str trigger)) (w_rows w)\<rparr>)"

section \<open>Starting announcers\<close>

definition start_row :: "Trigger \<Rightarrow> string set \<Rightarrow> instant \<Rightarrow> Workloads \<Rightarrow> WorkloadRow \<Rightarrow> Workloads" where
  "start_row trigger deferred now w row =
     (let wl = wr_wl row; name = wl_name wl; leg = leg_ifname wl in
      if list_ex (\<lambda>r. ar_name r = name) (w_rows w) then w
      else if name \<in> deferred then
        (if name \<in> w_deferred_said w then w
         else w\<lparr>w_deferred_said := insert name (w_deferred_said w),
                w_journal := w_journal w @ [wl_line name ''deferred; announcer not started'']\<rparr>)
      else
        (case ask (identify_declared (wl_uplink wl) (wl_vid wl)) (w_pass w) of
           (Inl why, p) \<Rightarrow> w\<lparr>w_pass := p, w_journal := w_journal w @ [wl_line name (why @ ''; announcer not started'')]\<rparr>
         | (Inr up, p) \<Rightarrow>
             (case read_mac leg p of
                (Inl why, p) \<Rightarrow> w\<lparr>w_pass := p, w_journal := w_journal w @ [wl_line name (why @ ''; announcer not started'')]\<rparr>
              | (Inr m, p) \<Rightarrow>
                  w\<lparr>w_pass := p,
                    w_rows := w_rows w @ [\<lparr>ar_name = name, ar_announcer = new_announcer leg (wl_gw wl) now, ar_up = up,
                                            ar_mac = m, ar_seen = {}, ar_standing = (\<lambda>_. None)\<rparr>],
                    w_journal := w_journal w @ [wl_line name (''announcer trigger '' @ trigger_str trigger)]\<rparr>)))"

definition start_pending :: "View \<Rightarrow> instant \<Rightarrow> Workloads \<Rightarrow> Workloads" where
  "start_pending v now w =
     (let rows = workload_rows v in
      if length rows = length (w_rows w) then w
      else case w_trigger w of
             None \<Rightarrow> w
           | Some trigger \<Rightarrow>
               let (deferred, p) = ask (deferred_names v) (w_pass w) in
               foldl (start_row trigger deferred now) (w\<lparr>w_pass := p\<rparr>) rows)"

text \<open>\<open>opened\<close> is what opening the neighbor subscription gave.\<close>

definition start_workloads :: "View \<Rightarrow> string option \<Rightarrow> Pass \<Rightarrow> instant \<Rightarrow> Workloads" where
  "start_workloads v opened p now =
     (let w = \<lparr>w_trigger = None, w_rows = [], w_deferred_said = {}, w_pass = p\<lparr>hr_rows := \<lambda>_. None\<rparr>, w_journal = []\<rparr> in
      if workload_rows v = [] then w
      else start_pending v now (w\<lparr>w_trigger := Some (case opened of
             None \<Rightarrow> NeighEvents
           | Some reason \<Rightarrow> FdbPoll (''RTNLGRP_NEIGH subscription failed: '' @ reason))\<rparr>))"

section \<open>The tick\<close>

fun set_uplink :: "string \<Rightarrow> Uplink \<Rightarrow> AnnRow list \<Rightarrow> AnnRow list \<times> string list" where
  "set_uplink name up [] = ([], [])"
| "set_uplink name up (r # rs) =
     (if ar_name r = name then
        (if ar_up r = up then (r # rs, [])
         else (r\<lparr>ar_up := up\<rparr> # rs,
               let old = join '','' (up_ports (ar_up r)); new = join '','' (up_ports up) in
               if old = new then [] else [wl_line name (''uplink ports '' @ old @ '' -> '' @ new)]))
      else let (rs, ls) = set_uplink name up rs in (r # rs, ls))"

definition refresh_uplink :: "Workloads \<Rightarrow> WorkloadRow \<Rightarrow> Workloads" where
  "refresh_uplink w row =
     (case ask (identify_declared (wl_uplink (wr_wl row)) (wl_vid (wr_wl row))) (w_pass w) of
        (Inl _, p) \<Rightarrow> w\<lparr>w_pass := p\<rparr>
      | (Inr up, p) \<Rightarrow>
          let (rs, ls) = set_uplink (wl_name (wr_wl row)) up (w_rows w) in
          w\<lparr>w_pass := p, w_rows := rs, w_journal := w_journal w @ ls\<rparr>)"

definition refresh_uplinks :: "View \<Rightarrow> Workloads \<Rightarrow> Workloads" where
  "refresh_uplinks v w = foldl refresh_uplink w (workload_rows v)"

definition poll_row :: "instant \<Rightarrow> AnnRow \<Rightarrow> Pass \<times> string list \<Rightarrow> (AnnRow \<times> Pass \<times> string list) option" where
  "poll_row now r pj =
     (let (p, j) = pj; (changed, seen, s) = fdb_poll_changed (ar_up r) (ar_seen r) (hr_sys p);
          r = r\<lparr>ar_seen := seen\<rparr> in
      Some (if changed then burst now r else r, p\<lparr>hr_sys := s\<rparr>, j))"

definition w_tick :: "(string \<Rightarrow> json option) \<Rightarrow> View \<Rightarrow> instant \<Rightarrow> Workloads \<Rightarrow> Workloads option" where
  "w_tick parse v now w =
     (let w = refresh_uplinks v (start_pending v now w);
          p = hr_tick parse v now (w_pass w);
          w = w\<lparr>w_pass := p, w_journal := w_journal w @ hr_out p\<rparr> in
      case w_trigger w of
        Some (FdbPoll _) \<Rightarrow> on_rows (poll_row now) w
      | _ \<Rightarrow> Some w)"

definition rows_for_status :: "Workloads \<Rightarrow> (string \<times> string \<times> string \<times> nat \<times> nat) list" where
  "rows_for_status w =
     map (\<lambda>r. (ar_name r, an_ifname (ar_announcer r),
               (case w_trigger w of Some t \<Rightarrow> trigger_str t | None \<Rightarrow> []), counters (ar_announcer r))) (w_rows w)"

end
