(* ===== verification/Workload_Frames.thy ===== *)
theory Workload_Frames
  imports Supervisor_Workload
begin

text \<open>
  What the workload task puts on the wire. Over any sequence of ticks, beacons, events and a dying
  neighbor watch, the announcers are those of declared rows, and every frame is a gratuitous ARP
  for a declared gateway on its leg, or a probe from that gateway to a VM address of the leg.
\<close>

section \<open>The frames of a host-route pass\<close>

definition frame_ok :: "View \<Rightarrow> NetOp \<Rightarrow> bool" where
  "frame_ok v op \<longleftrightarrow>
     (case op of
        MacOp _ \<Rightarrow> True
      | SendOp ifname f \<Rightarrow> \<exists>row\<in>set (workload_rows v). ifname = leg_ifname (wr_wl row) \<and>
          ((\<exists>m. f = gratuitous m (wl_gw (wr_wl row))) \<or>
           (\<exists>m vm a. f = unicast_probe m vm (wl_gw (wr_wl row)) a \<and> contains (wl_prefix (wr_wl row)) a \<and>
              a \<notin> fabric_addresses v (wr_wl row))))"

definition io_ok :: "View \<Rightarrow> Pass \<Rightarrow> bool" where
  "io_ok v p \<longleftrightarrow> list_all (frame_ok v) (net_ops (hr_io p))"

lemma om_insert_mem: "x \<in> set (om_insert k w m) \<Longrightarrow> x = (k, w) \<or> x \<in> set m"
  by (induction m) (auto split: if_splits)

lemma collect_mem:
  "x \<in> set (foldl (\<lambda>m e. case g e of None \<Rightarrow> m | Some (a, b) \<Rightarrow> om_insert a b m) m0 es) \<Longrightarrow>
     x \<in> set m0 \<or> (\<exists>e\<in>set es. g e = Some x)"
proof (induction es arbitrary: m0)
  case (Cons e es)
  have "x \<in> set (case g e of None \<Rightarrow> m0 | Some (a, b) \<Rightarrow> om_insert a b m0) \<Longrightarrow> x \<in> set m0 \<or> g e = Some x"
    by (cases "g e") (auto dest: om_insert_mem)
  then show ?case
    using Cons by auto
qed simp

lemma local_vm_macs_sound:
  assumes "local_vm_macs parse nj fj v wl ports = Some live" "(a, m) \<in> set live"
  shows "contains (wl_prefix wl) a \<and> a \<notin> fabric_addresses v wl"
proof -
  obtain macs neigh where "(a, m) \<in> set (foldl (\<lambda>m e. case neigh_vm macs (fabric_addresses v wl) wl e of
      None \<Rightarrow> m | Some (a, b) \<Rightarrow> om_insert a b m) [] neigh)"
    using assms by (auto simp: local_vm_macs_def bind_eq_Some_conv Let_def split: if_splits)
  then obtain e where "neigh_vm macs (fabric_addresses v wl) wl e = Some (a, m)"
    by (auto dest: collect_mem)
  then show ?thesis
    using neigh_vm_Some [of macs "fabric_addresses v wl" wl e a] by blast
qed

lemma maybe_probe_io:
  assumes "io_ok v p" "row \<in> set (workload_rows v)"
    and "\<And>a m. (a, m) \<in> set live \<Longrightarrow> contains (wl_prefix (wr_wl row)) a \<and> a \<notin> fabric_addresses v (wr_wl row)"
  shows "io_ok v (maybe_probe (wr_wl row) live now p)"
proof (cases "now < probe_due (row_of (wl_name (wr_wl row)) p) now")
  case True
  then show ?thesis
    using assms(1) maybe_probe_not_due(2) by (simp add: io_ok_def)
next
  case False
  have "frame_ok v (SendOp (leg_ifname (wr_wl row)) (unicast_probe src m (wl_gw (wr_wl row)) a))" if "(a, m) \<in> set live" for src a m
    unfolding frame_ok_def NetOp.case
    by (intro bexI [OF _ assms(2)] conjI disjI2 exI [of _ src] exI [of _ m] exI [of _ a] refl) (use assms(3) [OF that] in simp_all)
  then show ?thesis
    using assms(1) unfolding io_ok_def maybe_probe_due(3) [OF False]
    by (auto simp: list_all_iff frame_ok_def [of v "MacOp _"] split: sum.splits)
qed

lemma push_row_io:
  assumes "io_ok v p" "row \<in> set (workload_rows v)"
    and "\<And>a m. (a, m) \<in> set live \<Longrightarrow> contains (wl_prefix (wr_wl row)) a \<and> a \<notin> fabric_addresses v (wr_wl row)"
  shows "io_ok v (push_row parse v row installed live now p)"
proof -
  obtain idx q where q: "ask (leg_ifindex (leg_ifname (wr_wl row))) p = (idx, q)" "hr_io q = hr_io p"
    by (rule ask_cases [of "leg_ifindex (leg_ifname (wr_wl row))" p])
  obtain h wanted where h: "hd_observe (holddown (row_of (wl_name (wr_wl row)) q)) (set (map fst live)) now = (h, wanted)"
    by (rule prod.exhaust)
  define p4 where "p4 = sync_set parse (wr_wl row) wanted
    (ask_engine parse v (wr_wl row) (case idx of Some i \<Rightarrow> i | None \<Rightarrow> 0) (if installed then insert (wr_addr row) wanted else wanted)
      (if installed then reconcile_membership (wr_wl row) wanted
         (set_row (wl_name (wr_wl row)) ((row_of (wl_name (wr_wl row)) q)\<lparr>holddown := h\<rparr>) q)
       else set_row (wl_name (wr_wl row)) ((row_of (wl_name (wr_wl row)) q)\<lparr>holddown := h\<rparr>) q))"
  have "io_ok v p4"
    using assms(1) q(2) sync_set_ops(2) by (auto simp: io_ok_def p4_def pass_simps)
  moreover have "push_row parse v row installed live now p = (if installed then maybe_probe (wr_wl row) live now p4 else p4)"
    using q(1) h by (simp add: push_row_def Let_def p4_def)
  ultimately show ?thesis
    using maybe_probe_io [OF _ assms(2,3)] by simp
qed

lemma tick_row_io:
  assumes "io_ok v p" "row \<in> set (workload_rows v)"
  shows "io_ok v (tick_row parse v deferred now p row)"
proof -
  define p0 where "p0 = set_row (wl_name (wr_wl row)) (row_of (wl_name (wr_wl row)) p) p"
  have p0: "io_ok v p0"
    using assms(1) by (simp add: p0_def io_ok_def pass_simps)
  show ?thesis
  proof (cases "wl_name (wr_wl row) \<in> deferred")
    case True
    have "io_ok v (set_row (wl_name (wr_wl row)) ((row_of (wl_name (wr_wl row)) p0)\<lparr>holddown := [], last_wanted := {}\<rparr>) p0)"
      using p0 by (simp add: io_ok_def pass_simps)
    from push_row_io [OF this assms(2), of "[]" parse False now] show ?thesis
      using True by (simp add: tick_row_def Let_def p0_def [symmetric])
  next
    case False
    obtain live q where q: "observe_row parse v (wr_wl row) p0 = (live, q)"
      by (rule prod.exhaust)
    have io: "io_ok v q"
      using observe_row_reads [OF q] p0 by (simp add: io_ok_def)
    show ?thesis
    proof (cases live)
      case None
      then show ?thesis
        using False q io by (simp add: tick_row_def p0_def [symmetric])
    next
      case (Some l)
      have "contains (wl_prefix (wr_wl row)) a \<and> a \<notin> fabric_addresses v (wr_wl row)" if "(a, m) \<in> set l" for a m
        using q Some that
        by (auto simp: observe_row_def Let_def split: prod.splits sum.splits option.splits if_splits dest: local_vm_macs_sound)
      from push_row_io [OF io assms(2) this, where parse = parse and installed = True and now = now] show ?thesis
        using False q Some by (simp add: tick_row_def p0_def [symmetric])
    qed
  qed
qed

lemma hr_tick_io:
  assumes "io_ok v p"
  shows "io_ok v (hr_tick parse v now p)"
proof -
  have fold: "io_ok v p \<Longrightarrow> set rows \<subseteq> set (workload_rows v) \<Longrightarrow> io_ok v (foldl (tick_row parse v deferred now) p rows)" for p rows deferred
    by (induction rows arbitrary: p) (auto intro: tick_row_io)
  obtain ns q where "ask (deferred_names v) (p\<lparr>hr_out := []\<rparr>) = (ns, q)" "hr_io q = hr_io (p\<lparr>hr_out := []\<rparr>)"
    by (rule ask_cases [of "deferred_names v" "p\<lparr>hr_out := []\<rparr>"])
  then show ?thesis
    using assms fold [of q "workload_rows v" ns] by (simp add: hr_tick_def Let_def io_ok_def)
qed

section \<open>The announcers\<close>

text \<open>An announcer is one of a declared row, on its leg and for its gateway, and its burst counter is
  positive while a burst is due.\<close>

definition ann_ok :: "View \<Rightarrow> AnnRow \<Rightarrow> bool" where
  "ann_ok v r \<longleftrightarrow>
     (\<exists>row\<in>set (workload_rows v). ar_name r = wl_name (wr_wl row) \<and> an_ifname (ar_announcer r) = leg_ifname (wr_wl row) \<and>
        an_gw (ar_announcer r) = wl_gw (wr_wl row)) \<and>
     (burst_due (ar_announcer r) = None \<or> 0 < burst_left (ar_announcer r))"

definition ws_ok :: "View \<Rightarrow> Workloads \<Rightarrow> bool" where
  "ws_ok v w \<longleftrightarrow> distinct (map ar_name (w_rows w)) \<and> list_all (ann_ok v) (w_rows w) \<and> io_ok v (w_pass w)"

lemma on_event_keeps:
  "an_ifname (on_event a now) = an_ifname a \<and> an_gw (on_event a now) = an_gw a"
  "burst_due a = None \<or> 0 < burst_left a \<Longrightarrow> burst_due (on_event a now) = None \<or> 0 < burst_left (on_event a now)"
  by (auto simp: on_event_def BURST_LEN_def)

lemma fire_keeps:
  assumes "burst_due a = None \<or> 0 < burst_left a"
  obtains b sent where "fire a now = Some (b, sent)" "an_ifname b = an_ifname a" "an_gw b = an_gw a"
    "burst_due b = None \<or> 0 < burst_left b"
  using assms that by (auto simp: fire_def Let_def split: option.splits if_splits)

lemma ann_ok_burst: "ann_ok v r \<Longrightarrow> ann_ok v (burst now r)"
  using on_event_keeps [of "ar_announcer r" now] by (simp add: ann_ok_def burst_def)

lemma ann_ok_said:
  "ann_ok v r \<Longrightarrow> ann_ok v (fst (journal_once c l (r, j)))" "ar_name (fst (journal_once c l (r, j))) = ar_name r"
  "ann_ok v r \<Longrightarrow> ann_ok v (fst (ann_recovered c (r, j)))" "ar_name (fst (ann_recovered c (r, j))) = ar_name r"
  "ar_announcer (fst (ann_recovered c (r, j))) = ar_announcer r" "ar_announcer (fst (journal_once c l (r, j))) = ar_announcer r"
  by (auto simp: ann_ok_def journal_once_def ann_recovered_def split: option.splits)

lemma ask_io: "ask f p = (a, q) \<Longrightarrow> io_ok v q = io_ok v p"
  using ask_simps(4) [of f p] by (simp add: io_ok_def)

lemma read_mac_io: "read_mac i p = (r, q) \<Longrightarrow> io_ok v p \<Longrightarrow> io_ok v q"
  by (auto simp: read_mac_def io_mac_def io_ok_def frame_ok_def)

text \<open>A function on one row that keeps the row's name and the invariant.\<close>

definition keeps_row :: "View \<Rightarrow> (AnnRow \<Rightarrow> Pass \<times> string list \<Rightarrow> (AnnRow \<times> Pass \<times> string list) option) \<Rightarrow> bool" where
  "keeps_row v f \<longleftrightarrow> (\<forall>r p j. ann_ok v r \<longrightarrow> io_ok v p \<longrightarrow>
     (\<exists>r' p' j'. f r (p, j) = Some (r', p', j') \<and> ann_ok v r' \<and> ar_name r' = ar_name r \<and> io_ok v p'))"

lemma each_row_keeps:
  assumes "keeps_row v f" "list_all (ann_ok v) rs" "io_ok v p"
  shows "\<exists>rs' p' j'. each_row f rs (p, j) = Some (rs', p', j') \<and> list_all (ann_ok v) rs' \<and> map ar_name rs' = map ar_name rs \<and> io_ok v p'"
  using assms(2,3)
proof (induction rs arbitrary: p j)
  case (Cons r rs)
  obtain r' p' j' where f: "f r (p, j) = Some (r', p', j')" "ann_ok v r'" "ar_name r' = ar_name r" "io_ok v p'"
    using assms(1) Cons.prems unfolding keeps_row_def by fastforce
  show ?case
    using Cons.IH [OF _ f(4), of j'] Cons.prems f by auto
qed simp

lemma on_rows_ok:
  assumes "keeps_row v f" "ws_ok v w"
  obtains w' where "on_rows f w = Some w'" "ws_ok v w'" "w_trigger w' = w_trigger w"
proof -
  obtain rs p j where "each_row f (w_rows w) (w_pass w, w_journal w) = Some (rs, p, j)" "list_all (ann_ok v) rs"
      "map ar_name rs = map ar_name (w_rows w)" "io_ok v p"
    using each_row_keeps [OF assms(1), of "w_rows w" "w_pass w" "w_journal w"] assms(2) by (auto simp: ws_ok_def)
  then show thesis
    using assms(2) by (intro that [of "w\<lparr>w_rows := rs, w_pass := p, w_journal := j\<rparr>"]) (simp_all add: on_rows_def ws_ok_def)
qed

lemma refresh_mac_keeps:
  assumes "ann_ok v r" "io_ok v p"
  obtains r' p' j' where "refresh_mac now r (p, j) = (r', p', j')" "ann_ok v r'" "ar_name r' = ar_name r" "io_ok v p'"
proof -
  obtain m q where q: "read_mac (an_ifname (ar_announcer r)) p = (m, q)"
    by (rule prod.exhaust)
  have io: "io_ok v q"
    by (rule read_mac_io [OF q assms(2)])
  show thesis
  proof (cases m)
    case (Inl why)
    obtain r' j' where j: "journal_once MacCond (wl_line (ar_name r) (why @ ''; announcing the last known MAC'')) (r, j) = (r', j')"
      by (rule prod.exhaust)
    then have "ann_ok v r'" "ar_name r' = ar_name r"
      using ann_ok_said(1,2) assms(1) by (metis fst_conv)+
    then show thesis
      using q Inl j io by (intro that [of r' q j']) (simp_all add: refresh_mac_def)
  next
    case (Inr mc)
    obtain r1 j1 where j: "ann_recovered MacCond (r, j) = (r1, j1)"
      by (rule prod.exhaust)
    then have r1: "ann_ok v r1" "ar_name r1 = ar_name r"
      using ann_ok_said(3,4) assms(1) by (metis fst_conv)+
    have "ann_ok v (r1\<lparr>ar_mac := mc, ar_announcer := on_event (ar_announcer r1) now\<rparr>)"
      using ann_ok_burst [OF r1(1), of now] by (simp add: ann_ok_def burst_def)
    then show thesis
      using q Inr j r1 io that
      by (cases "mc = ar_mac r1") (simp_all add: refresh_mac_def)
  qed
qed

lemma fire_row_keeps: "keeps_row v (fire_row now)"
  unfolding keeps_row_def
proof (intro allI impI)
  fix r p j assume a: "ann_ok v r" "io_ok v p"
  obtain r1 p1 j1 where 1: "refresh_mac now r (p, j) = (r1, p1, j1)" "ann_ok v r1" "ar_name r1 = ar_name r" "io_ok v p1"
    by (rule refresh_mac_keeps [OF a, of now j])
  obtain b sent where f: "fire (ar_announcer r1) now = Some (b, sent)" "an_ifname b = an_ifname (ar_announcer r1)"
      "an_gw b = an_gw (ar_announcer r1)" "burst_due b = None \<or> 0 < burst_left b"
    by (rule fire_keeps [of "ar_announcer r1" now]) (use 1(2) in \<open>auto simp: ann_ok_def\<close>)
  define p2 where "p2 = (if sent then snd (io_send (an_ifname b) (gratuitous (ar_mac r1) (an_gw b)) p1) else p1)"
  obtain outcome frames where d: "announce_due (ar_announcer r1) (\<lambda>i f. fst (io_send i f p1)) (ar_mac r1) now = Some (b, frames, outcome)"
      "foldl (\<lambda>p (i, f). snd (io_send i f p)) p1 frames = p2"
    by (cases sent) (auto simp: announce_due_def f(1) p2_def Let_def)
  have "frame_ok v (SendOp (an_ifname b) (gratuitous (ar_mac r1) (an_gw b)))"
    using 1(2) f(2,3) unfolding frame_ok_def ann_ok_def NetOp.case by metis
  then have io: "io_ok v p2"
    using 1(4) by (simp add: p2_def io_send_def io_ok_def)
  define r2 where "r2 = r1\<lparr>ar_announcer := b\<rparr>"
  have r2: "ann_ok v r2" "ar_name r2 = ar_name r"
    using 1(2,3) f by (simp_all add: r2_def ann_ok_def)
  obtain r3 j3 where r3: "(case outcome of
        Inr True \<Rightarrow> ann_recovered SendCond (r2, j1)
      | Inr False \<Rightarrow> (r2, j1)
      | Inl e \<Rightarrow> journal_once SendCond (wl_line (ar_name r2) (''announce on '' @ an_ifname (ar_announcer r) @ '' failed: '' @ e)) (r2, j1)) = (r3, j3)"
    by (rule prod.exhaust)
  have "ann_ok v r3 \<and> ar_name r3 = ar_name r"
    using r2 ann_ok_said(1-4) arg_cong [OF r3, of fst] by (auto split: sum.splits bool.splits)
  then show "\<exists>r' p' j'. fire_row now r (p, j) = Some (r', p', j') \<and> ann_ok v r' \<and> ar_name r' = ar_name r \<and> io_ok v p'"
    using io by (intro exI [of _ r3] exI [of _ p2] exI [of _ j3]) (simp add: fire_row_def Let_def 1(1) d r3 [unfolded r2_def])
qed

lemma event_row_keeps: "keeps_row v (event_row ev now)"
  unfolding keeps_row_def
proof (intro allI impI)
  fix r p j assume a: "ann_ok v r" "io_ok v p"
  obtain ports q where q: "ask (non_uplink_ifindexes (ar_up r)) p = (ports, q)"
    by (rule prod.exhaust)
  have io: "io_ok v q"
    using a(2) by (simp add: ask_io [OF q])
  show "\<exists>r' p' j'. event_row ev now r (p, j) = Some (r', p', j') \<and> ann_ok v r' \<and> ar_name r' = ar_name r \<and> io_ok v p'"
  proof (cases ports)
    case (Inl why)
    obtain r1 j1 where j: "journal_once ScanCond (wl_line (ar_name r) (why @ ''; burst skipped'')) (r, j) = (r1, j1)"
      by (rule prod.exhaust)
    then have "ann_ok v r1" "ar_name r1 = ar_name r"
      using ann_ok_said(1,2) a(1) by (metis fst_conv)+
    then show ?thesis
      using q Inl j io by (simp add: event_row_def)
  next
    case (Inr ixs)
    obtain r1 j1 where j: "ann_recovered ScanCond (r, j) = (r1, j1)"
      by (rule prod.exhaust)
    then have "ann_ok v r1" "ar_name r1 = ar_name r"
      using ann_ok_said(3,4) a(1) by (metis fst_conv)+
    then show ?thesis
      using q Inr j io ann_ok_burst [of v r1 now] by (simp add: event_row_def) (simp add: burst_def)
  qed
qed

lemma poll_row_keeps: "keeps_row v (poll_row now)"
  unfolding keeps_row_def
proof (intro allI impI)
  fix r p j assume a: "ann_ok v r" "io_ok v p"
  obtain changed seen s where c: "fdb_poll_changed (ar_up r) (ar_seen r) (hr_sys p) = (changed, seen, s)"
    by (metis prod_cases3)
  have "ann_ok v (r\<lparr>ar_seen := seen\<rparr>)" "io_ok v (p\<lparr>hr_sys := s\<rparr>)"
    using a by (simp_all add: ann_ok_def io_ok_def)
  then show "\<exists>r' p' j'. poll_row now r (p, j) = Some (r', p', j') \<and> ann_ok v r' \<and> ar_name r' = ar_name r \<and> io_ok v p'"
    using ann_ok_burst [of v "r\<lparr>ar_seen := seen\<rparr>" now] by (simp add: poll_row_def c Let_def) (simp add: burst_def)
qed

section \<open>Starting and refreshing\<close>

lemma start_row_ok:
  assumes "ws_ok v w" "row \<in> set (workload_rows v)"
  shows "ws_ok v (start_row trigger deferred now w row) \<and> w_trigger (start_row trigger deferred now w row) = w_trigger w"
proof -
  let ?wl = "wr_wl row"
  obtain up p1 where 1: "ask (identify_declared (wl_uplink ?wl) (wl_vid ?wl)) (w_pass w) = (up, p1)"
    by (rule prod.exhaust)
  obtain m p2 where 2: "read_mac (leg_ifname ?wl) p1 = (m, p2)"
    by (rule prod.exhaust)
  have io: "io_ok v p1" "io_ok v p2"
    using assms(1) ask_io [OF 1] read_mac_io [OF 2] by (simp_all add: ws_ok_def)
  have new: "ann_ok v \<lparr>ar_name = wl_name ?wl, ar_announcer = new_announcer (leg_ifname ?wl) (wl_gw ?wl) now, ar_up = u, ar_mac = x,
      ar_seen = {}, ar_standing = (\<lambda>_. None)\<rparr>" for u x
    using assms(2) by (auto simp: ann_ok_def new_announcer_def)
  show ?thesis
    using assms(1) 1 2 io new
    by (auto simp: start_row_def Let_def ws_ok_def list_ex_iff split: sum.splits)
qed

lemma start_pending_ok: "ws_ok v w \<Longrightarrow> ws_ok v (start_pending v now w) \<and> w_trigger (start_pending v now w) = w_trigger w"
proof -
  assume w: "ws_ok v w"
  have fold: "ws_ok v u \<Longrightarrow> set rows \<subseteq> set (workload_rows v) \<Longrightarrow>
      ws_ok v (foldl (start_row t d now) u rows) \<and> w_trigger (foldl (start_row t d now) u rows) = w_trigger u" for u rows t d
    by (induction rows arbitrary: u) (use start_row_ok in auto)
  obtain ns q where q: "ask (deferred_names v) (w_pass w) = (ns, q)"
    by (rule prod.exhaust)
  have "ws_ok v (w\<lparr>w_pass := q\<rparr>)"
    using w ask_io [OF q] by (simp add: ws_ok_def)
  from fold [OF this order_refl] show ?thesis
    using w q by (auto simp: start_pending_def Let_def split: option.splits)
qed

lemma set_uplink_ok:
  "map ar_name (fst (set_uplink n up rs)) = map ar_name rs" "list_all (ann_ok v) rs \<Longrightarrow> list_all (ann_ok v) (fst (set_uplink n up rs))"
  by (induction rs) (auto simp: ann_ok_def split: prod.splits)

lemma refresh_uplink_ok:
  assumes "ws_ok v w"
  shows "ws_ok v (refresh_uplink w row) \<and> w_trigger (refresh_uplink w row) = w_trigger w"
proof -
  obtain up p1 where 1: "ask (identify_declared (wl_uplink (wr_wl row)) (wl_vid (wr_wl row))) (w_pass w) = (up, p1)"
    by (rule prod.exhaust)
  have io: "io_ok v p1"
    using assms ask_io [OF 1] by (simp add: ws_ok_def)
  show ?thesis
  proof (cases up)
    case (Inr u)
    obtain rs ls where s: "set_uplink (wl_name (wr_wl row)) u (w_rows w) = (rs, ls)"
      by (rule prod.exhaust)
    then show ?thesis
      using assms 1 Inr io set_uplink_ok(1) [of "wl_name (wr_wl row)" u "w_rows w"] set_uplink_ok(2) [of v "w_rows w" "wl_name (wr_wl row)" u] by (simp add: refresh_uplink_def ws_ok_def)
  qed (use assms 1 io in \<open>simp add: refresh_uplink_def ws_ok_def\<close>)
qed

lemma refresh_uplinks_ok: "ws_ok v w \<Longrightarrow> ws_ok v (refresh_uplinks v w) \<and> w_trigger (refresh_uplinks v w) = w_trigger w"
proof -
  have "ws_ok v w \<Longrightarrow> ws_ok v (foldl refresh_uplink w rows) \<and> w_trigger (foldl refresh_uplink w rows) = w_trigger w" for rows w
    by (induction rows arbitrary: w) (use refresh_uplink_ok in auto)
  then show "ws_ok v w \<Longrightarrow> ws_ok v (refresh_uplinks v w) \<and> w_trigger (refresh_uplinks v w) = w_trigger w"
    by (simp add: refresh_uplinks_def)
qed

section \<open>Any sequence of calls\<close>

text \<open>What the event loop does with the task: the periodic tick, the beacon when one is due, a
  signal of the neighbor watch, and the watch's death.\<close>

datatype w_call = Tick instant | Fire instant | Neigh NeighSignal instant | WatchDied string

fun w_do :: "(string \<Rightarrow> json option) \<Rightarrow> View \<Rightarrow> w_call \<Rightarrow> Workloads \<Rightarrow> Workloads option" where
  "w_do parse v (Tick now) w = w_tick parse v now w"
| "w_do parse v (Fire now) w = fire_due now w"
| "w_do parse v (Neigh sig now) w = on_neigh sig now w"
| "w_do parse v (WatchDied why) w = Some (watch_died why w)"

fun w_run :: "(string \<Rightarrow> json option) \<Rightarrow> View \<Rightarrow> w_call list \<Rightarrow> Workloads \<Rightarrow> Workloads option" where
  "w_run parse v [] w = Some w"
| "w_run parse v (c # cs) w = Option.bind (w_do parse v c w) (w_run parse v cs)"

lemma start_workloads_ok: "io_ok v p \<Longrightarrow> ws_ok v (start_workloads v opened p now)"
  by (auto simp: start_workloads_def Let_def start_pending_ok io_ok_def ws_ok_def [of v "\<lparr>w_trigger = _, w_rows = [], w_deferred_said = _, w_pass = _, w_journal = _\<rparr>"])

lemma w_tick_ok:
  assumes "ws_ok v w"
  obtains w' where "w_tick parse v now w = Some w'" "ws_ok v w'"
proof -
  define w1 where "w1 = refresh_uplinks v (start_pending v now w)"
  have w1: "ws_ok v w1"
    unfolding w1_def using assms refresh_uplinks_ok start_pending_ok by blast
  define p where "p = hr_tick parse v now (w_pass w1)"
  define w2 where "w2 = w1\<lparr>w_pass := p, w_journal := w_journal w1 @ hr_out p\<rparr>"
  have w2: "ws_ok v w2"
    using w1 hr_tick_io [of v "w_pass w1" parse now] by (simp add: w2_def p_def ws_ok_def)
  have tick: "w_tick parse v now w = (case w_trigger w2 of Some (FdbPoll _) \<Rightarrow> on_rows (poll_row now) w2 | _ \<Rightarrow> Some w2)"
    unfolding w2_def p_def w1_def w_tick_def Let_def by (rule refl)
  obtain w3 where "on_rows (poll_row now) w2 = Some w3" "ws_ok v w3"
    by (rule on_rows_ok [OF poll_row_keeps w2])
  then show thesis
    using tick w2 that by (auto split: option.splits Trigger.splits)
qed

lemma on_neigh_ok:
  assumes "ws_ok v w"
  obtains w' where "on_neigh sig now w = Some w'" "ws_ok v w'"
proof (cases sig)
  case (NeighAdd ev)
  obtain w3 where "on_rows (event_row ev now) w = Some w3" "ws_ok v w3"
    by (rule on_rows_ok [OF event_row_keeps assms])
  then show thesis
    using that NeighAdd assms by (cases "ne_permanent ev") (simp_all add: on_neigh_def)
next
  case Overflow
  have "ar_name \<circ> burst now = ar_name"
    by (auto simp: burst_def)
  then have "ws_ok v (w\<lparr>w_rows := map (burst now) (w_rows w)\<rparr>)"
    using assms ann_ok_burst by (auto simp: ws_ok_def list_all_iff)
  then show thesis
    using that Overflow by (simp add: on_neigh_def)
qed

lemma w_do_ok:
  assumes "ws_ok v w"
  obtains w' where "w_do parse v c w = Some w'" "ws_ok v w'"
proof (cases c)
  case (Tick now)
  then show thesis
    using that by (auto intro: w_tick_ok [OF assms, of parse now])
next
  case (Fire now)
  then show thesis
    using that by (auto simp: fire_due_def intro: on_rows_ok [OF fire_row_keeps assms, of now])
next
  case (Neigh sig now)
  then show thesis
    using that by (auto intro: on_neigh_ok [OF assms, of sig now])
next
  case (WatchDied why)
  have "ws_ok v (watch_died why w)"
    using assms by (auto simp: watch_died_def ws_ok_def Let_def split: option.splits)
  then show thesis
    using that WatchDied by simp
qed

lemma w_run_ok: "ws_ok v w \<Longrightarrow> \<exists>w'. w_run parse v cs w = Some w' \<and> ws_ok v w'"
proof (induction cs arbitrary: w)
  case (Cons c cs)
  obtain w1 where "w_do parse v c w = Some w1" "ws_ok v w1"
    by (rule w_do_ok [OF Cons.prems])
  then show ?case
    using Cons.IH by simp
qed simp

text \<open>C20: the workload task never panics and stays inside its declaration. Whatever the system
  answers, and over any sequence of ticks, beacons, neighbor signals and deaths of the neighbor watch
  after the start, every call returns; the announcers are distinct and each belongs to a declared row,
  with that row's leg and gateway; and every frame sent leaves a declared leg and is either the
  gratuitous ARP of that leg's gateway or a probe from it to an address of the leg's prefix that is
  not one of the fabric's own.\<close>

theorem workload_task_stays_declared:
  assumes "net_ops (hr_io p) = []"
  shows "\<exists>w. w_run parse v cs (start_workloads v opened p now) = Some w \<and>
    distinct (map ar_name (w_rows w)) \<and> list_all (ann_ok v) (w_rows w) \<and> list_all (frame_ok v) (net_ops (hr_io (w_pass w)))"
  using w_run_ok [OF start_workloads_ok [of v p opened now], of parse cs] assms by (auto simp: io_ok_def ws_ok_def)

theorem workload_task_stays_declared_witness:
  "\<forall>parse v. \<exists>w. w_run parse v [Tick 1, Fire 2, Neigh Overflow 3, WatchDied ''closed'', Tick 4]
       (start_workloads v None (sample_pass blind_sys) 0) = Some w \<and> list_all (frame_ok v) (net_ops (hr_io (w_pass w)))"
proof (intro allI)
  fix parse v
  have "net_ops (hr_io (sample_pass blind_sys)) = []"
    by (simp add: sample_pass_def)
  from workload_task_stays_declared [OF this]
  show "\<exists>w. w_run parse v [Tick 1, Fire 2, Neigh Overflow 3, WatchDied ''closed'', Tick 4]
       (start_workloads v None (sample_pass blind_sys) 0) = Some w \<and> list_all (frame_ok v) (net_ops (hr_io (w_pass w)))"
    by blast
qed

end
