(* ===== verification/Emit_Nft.thy ===== *)
theory Emit_Nft
  imports Fabric_Derive
begin

text \<open>
  The nftables language as far as the emitters write it: a rule is the list of its expressions in
  the order they are printed. What the kernel does with a chain is the locale \<open>nft\<close>, the documented
  rules of evaluation; it is interpreted on an evaluator that follows them.
\<close>

text \<open>What a collected iterator holds, and that it has an entry for every item.\<close>

lemma map_out_set: "map_out g xs = Ok ys \<Longrightarrow> set ys = {y. \<exists>x\<in>set xs. g x = Ok y}"
  by (induction xs arbitrary: ys) (auto simp: and_then_Ok)

lemma map_out_each: "map_out g xs = Ok ys \<Longrightarrow> x \<in> set xs \<Longrightarrow> \<exists>y\<in>set ys. g x = Ok y"
  by (induction xs arbitrary: ys) (auto simp: and_then_Ok)

section \<open>Rules\<close>

datatype CtState = CtInvalid | CtEstablished | CtRelated

fun ct_str :: "CtState \<Rightarrow> string" where
  "ct_str CtInvalid = ''invalid''"
| "ct_str CtEstablished = ''established''"
| "ct_str CtRelated = ''related''"

datatype Expr =
    IifIs string | OifIs string
  | IifIn string | OifIn string
  | IifNotIn string | OifNotIn string
  | OifAmong "string list"
  | DaddrNotIn string
  | CtIn "CtState list"
  | IpProtocol nat
  | UdpDport u16
  | RateOver nat nat
  | Counter
  | Comment string
  | DscpSet string
  | Accept | Drop | Return

type_synonym Rule = "Expr list"

definition quoted :: "string \<Rightarrow> string" where
  "quoted s = CHR 0x22 # s @ [CHR 0x22]"

definition quoted_list :: "string list \<Rightarrow> string" where
  "quoted_list xs = join '','' (map quoted xs)"

fun expr_str :: "Expr \<Rightarrow> string" where
  "expr_str (IifIs i) = ''iifname '' @ quoted i"
| "expr_str (OifIs i) = ''oifname '' @ quoted i"
| "expr_str (IifIn s) = ''iifname @'' @ s"
| "expr_str (OifIn s) = ''oifname @'' @ s"
| "expr_str (IifNotIn s) = ''iifname != @'' @ s"
| "expr_str (OifNotIn s) = ''oifname != @'' @ s"
| "expr_str (OifAmong xs) = ''oifname { '' @ quoted_list xs @ '' }''"
| "expr_str (DaddrNotIn s) = ''ip daddr != @'' @ s"
| "expr_str (CtIn ss) = ''ct state '' @ join '','' (map ct_str ss)"
| "expr_str (IpProtocol n) = ''ip protocol '' @ dec n"
| "expr_str (UdpDport p) = ''udp dport '' @ dec (unat p)"
| "expr_str (RateOver r b) = ''limit rate over '' @ dec r @ ''/second burst '' @ dec b @ '' packets''"
| "expr_str Counter = ''counter''"
| "expr_str (Comment c) = ''comment '' @ quoted c"
| "expr_str (DscpSet d) = ''ip dscp set '' @ d"
| "expr_str Accept = ''accept''"
| "expr_str Drop = ''drop''"
| "expr_str Return = ''return''"

definition rule_str :: "Rule \<Rightarrow> string" where
  "rule_str r = ''    '' @ join '' '' (map expr_str r) @ [CHR 0x0A]"

datatype SetDecl = IfSet string "string list" | AddrSet string "ipv4 list"

section \<open>What a chain does to a packet\<close>

text \<open>A conntrack state of \<open>None\<close> is a packet that is neither tracked as invalid nor part of a
  known flow.\<close>

record Packet =
  pk_iif :: string
  pk_oif :: string
  pk_ct :: "CtState option"
  pk_daddr :: ipv4
  pk_proto :: nat
  pk_dport :: u16
  pk_dscp :: string

datatype Verdict = Accepted | Dropped

text \<open>A name that is declared twice in a table is one set with the elements of both.\<close>

definition if_elem :: "SetDecl list \<Rightarrow> string \<Rightarrow> string \<Rightarrow> bool" where
  "if_elem S n i \<longleftrightarrow> list_ex (\<lambda>d. case d of IfSet n' xs \<Rightarrow> n' = n \<and> i \<in> set xs | AddrSet n' xs \<Rightarrow> False) S"

definition addr_elem :: "SetDecl list \<Rightarrow> string \<Rightarrow> ipv4 \<Rightarrow> bool" where
  "addr_elem S n a \<longleftrightarrow> list_ex (\<lambda>d. case d of AddrSet n' xs \<Rightarrow> n' = n \<and> a \<in> set xs | IfSet n' xs \<Rightarrow> False) S"

text \<open>Whether a limit is exceeded depends on the packets that came before, so it is an argument.\<close>

type_synonym over = "nat \<Rightarrow> nat \<Rightarrow> Packet \<Rightarrow> bool"

fun test :: "over \<Rightarrow> SetDecl list \<Rightarrow> Expr \<Rightarrow> (Packet \<Rightarrow> bool) option" where
  "test over S (IifIs i) = Some (\<lambda>k. pk_iif k = i)"
| "test over S (OifIs i) = Some (\<lambda>k. pk_oif k = i)"
| "test over S (IifIn s) = Some (\<lambda>k. if_elem S s (pk_iif k))"
| "test over S (OifIn s) = Some (\<lambda>k. if_elem S s (pk_oif k))"
| "test over S (IifNotIn s) = Some (\<lambda>k. \<not> if_elem S s (pk_iif k))"
| "test over S (OifNotIn s) = Some (\<lambda>k. \<not> if_elem S s (pk_oif k))"
| "test over S (OifAmong xs) = Some (\<lambda>k. pk_oif k \<in> set xs)"
| "test over S (DaddrNotIn s) = Some (\<lambda>k. \<not> addr_elem S s (pk_daddr k))"
| "test over S (CtIn ss) = Some (\<lambda>k. case pk_ct k of None \<Rightarrow> False | Some s \<Rightarrow> s \<in> set ss)"
| "test over S (IpProtocol n) = Some (\<lambda>k. pk_proto k = n)"
| "test over S (UdpDport p) = Some (\<lambda>k. pk_proto k = 17 \<and> pk_dport k = p)"
| "test over S (RateOver r b) = Some (over r b)"
| "test over S e = None"

text \<open>All tests of a rule hold.\<close>

definition guard :: "over \<Rightarrow> SetDecl list \<Rightarrow> Packet \<Rightarrow> Rule \<Rightarrow> bool" where
  "guard over S k r \<longleftrightarrow> list_all (\<lambda>e. case test over S e of None \<Rightarrow> True | Some t \<Rightarrow> t k) r"

locale nft =
  fixes over :: over
    and run :: "SetDecl list \<Rightarrow> Verdict \<Rightarrow> Rule list \<Rightarrow> Packet \<Rightarrow> Verdict \<times> Packet"
  assumes run_end: "run S p [] k = (p, k)"
    and run_rule_end: "run S p ([] # rs) k = run S p rs k"
    and run_test: "test over S e = Some t \<Longrightarrow>
      run S p ((e # r) # rs) k = (if t k then run S p (r # rs) k else run S p rs k)"
    and run_note: "run S p ((Counter # r) # rs) k = run S p (r # rs) k"
      "run S p ((Comment c # r) # rs) k = run S p (r # rs) k"
    and run_dscp: "run S p ((DscpSet d # r) # rs) k = run S p (r # rs) (k\<lparr>pk_dscp := d\<rparr>)"
    and run_accept: "run S p ((Accept # r) # rs) k = (Accepted, k)"
    and run_drop: "run S p ((Drop # r) # rs) k = (Dropped, k)"
    and run_return: "run S p ((Return # r) # rs) k = (p, k)"
begin

text \<open>What a rule that begins with its tests does: the rest of it, when all of them hold.\<close>

lemma run_tests:
  assumes "list_all (\<lambda>e. test over S e \<noteq> None) ts"
  shows "run S p ((ts @ r) # rs) k =
    (if list_all (\<lambda>e. the (test over S e) k) ts then run S p (r # rs) k else run S p rs k)"
  using assms by (induction ts) (auto simp: run_test)

lemmas run_action = run_end run_rule_end run_note run_dscp run_accept run_drop run_return

text \<open>A block of rules that only count is passed over.\<close>

lemma run_counting:
  assumes "\<And>r. r \<in> set rs \<Longrightarrow> \<exists>ts c. r = ts @ [Counter, Comment c] \<and> list_all (\<lambda>e. test over S e \<noteq> None) ts"
  shows "run S p (rs @ rest) k = run S p rest k"
  using assms
proof (induction rs)
  case (Cons r rs)
  obtain ts c where r: "r = ts @ [Counter, Comment c]" "list_all (\<lambda>e. test over S e \<noteq> None) ts"
    using Cons.prems [of r] by auto
  have "run S p (rs @ rest) k = run S p rest k"
    by (rule Cons.IH, rule Cons.prems) simp
  then show ?case
    unfolding r(1) by (simp add: run_tests [OF r(2)] run_action)
qed simp

text \<open>A block of rules that accept decides for the packets one of them matches.\<close>

lemma run_accepting:
  assumes "\<And>r. r \<in> set rs \<Longrightarrow> \<exists>ts c. r = ts @ [Counter, Accept, Comment c] \<and> list_all (\<lambda>e. test over S e \<noteq> None) ts"
  shows "run S p (rs @ rest) k = (if \<exists>r\<in>set rs. guard over S k r then (Accepted, k) else run S p rest k)"
  using assms
proof (induction rs)
  case (Cons r rs)
  obtain ts c where r: "r = ts @ [Counter, Accept, Comment c]" "list_all (\<lambda>e. test over S e \<noteq> None) ts"
    using Cons.prems [of r] by auto
  have "run S p (rs @ rest) k = (if \<exists>r\<in>set rs. guard over S k r then (Accepted, k) else run S p rest k)"
    by (rule Cons.IH, rule Cons.prems) simp
  moreover have "guard over S k r \<longleftrightarrow> list_all (\<lambda>e. the (test over S e) k) ts"
    using r(2) unfolding r(1) guard_def by (induction ts) auto
  ultimately show ?case
    unfolding r(1) by (simp add: run_tests [OF r(2)] run_action)
qed simp

end

text \<open>An evaluator that follows the rules.\<close>

function nft_run :: "over \<Rightarrow> SetDecl list \<Rightarrow> Verdict \<Rightarrow> Rule list \<Rightarrow> Packet \<Rightarrow> Verdict \<times> Packet" where
  "nft_run over S p [] k = (p, k)"
| "nft_run over S p ([] # rs) k = nft_run over S p rs k"
| "nft_run over S p ((e # r) # rs) k =
     (case test over S e of
        Some t \<Rightarrow> if t k then nft_run over S p (r # rs) k else nft_run over S p rs k
      | None \<Rightarrow> (case e of
          DscpSet d \<Rightarrow> nft_run over S p (r # rs) (k\<lparr>pk_dscp := d\<rparr>)
        | Accept \<Rightarrow> (Accepted, k)
        | Drop \<Rightarrow> (Dropped, k)
        | Return \<Rightarrow> (p, k)
        | _ \<Rightarrow> nft_run over S p (r # rs) k))"
  by pat_completeness auto
termination
  by (relation "measure (\<lambda>(over, S, p, rs, k). sum_list (map (Suc \<circ> length) rs))") auto

interpretation nf: nft over "nft_run over" for over
  by unfold_locales simp_all

end
