(* ===== verification/Emit_Policy.thy ===== *)
theory Emit_Policy
  imports Emit_Nft Fabric_Ownership Ordered_Map Text_Scan
begin

text \<open>
  The forward policy of a member (\<open>emit/policy.rs\<close>): the sets and the rules of the table \<open>inet
  cfab-fwd\<close>, the text they are printed as, and the normal form in which two texts are compared.
\<close>

section \<open>The table\<close>

type_synonym locals = "(string, ipv4 list) omap"

record Policy =
  pol_admin :: "string list"
  pol_zones :: "(string \<times> string list) list"
  pol_cfab :: "string list"
  pol_locals :: "(string \<times> ipv4 list) list"
  pol_rules :: "Rule list"

definition policy_decls :: "Policy \<Rightarrow> SetDecl list" where
  "policy_decls p =
     IfSet ''admin'' (pol_admin p) # map (\<lambda>(n, ifs). IfSet n ifs) (pol_zones p) @
     IfSet ''cfab'' (pol_cfab p) # map (\<lambda>(n, vms). AddrSet n vms) (pol_locals p)"

definition head_rules :: "Rule list" where
  "head_rules = [
     [IifIn ''admin'', Counter, Drop, Comment ''admin-in''],
     [OifIn ''admin'', Counter, Drop, Comment ''admin-out''],
     [IifNotIn ''cfab'', OifNotIn ''cfab'', Counter, Accept, Comment ''foreign-transit''],
     [CtIn [CtInvalid], Counter, Comment ''ct-invalid-seen'']]"

definition stray_rules :: "Workload \<Rightarrow> Rule list" where
  "stray_rules wl =
     map (\<lambda>z. [IifIn z, OifIs (leg_ifname wl), DaddrNotIn (local_set wl), Counter, Comment (''stray-'' @ wl_name wl)]) (wl_allow wl)"

definition return_rule :: Rule where
  "return_rule = [CtIn [CtEstablished, CtRelated], Accept, Comment ''return-of-allowed'']"

definition allow_rule :: "string \<times> string \<Rightarrow> Rule" where
  "allow_rule p =
     (case p of (from, to) \<Rightarrow> [IifIn from, OifIn to, Counter, Accept, Comment (''allow-'' @ from @ ''-'' @ to)])"

definition zone_pair :: "Workload \<Rightarrow> string \<Rightarrow> Rule list" where
  "zone_pair wl z =
     [[IifIs (leg_ifname wl), OifIn z, Counter, Accept, Comment (''allow-'' @ wl_name wl @ ''-'' @ z)],
      [IifIn z, OifIs (leg_ifname wl), Counter, Accept, Comment (''allow-'' @ z @ ''-'' @ wl_name wl)]]"

definition gw_pair :: "Fabric \<Rightarrow> Workload \<Rightarrow> GwRow \<Rightarrow> Rule list result" where
  "gw_pair f wl r =
     and_then (zone_of f (gr_zone r)) (\<lambda>z. let gwid = ''gw'' @ dec (unat (zone_id z)) in
       Ok [[IifIs (leg_ifname wl), OifIs (gr_ifname r), Counter, Accept, Comment (''allow-'' @ wl_name wl @ ''-'' @ gwid)],
           [IifIs (gr_ifname r), OifIs (leg_ifname wl), Counter, Accept, Comment (''allow-'' @ gwid @ ''-'' @ wl_name wl)]])"

definition gw_pairs :: "View \<Rightarrow> GwRow list \<Rightarrow> Rule list result" where
  "gw_pairs v gws =
     and_then (map_out (\<lambda>row. and_then (map_out (gw_pair (v_fabric v) (wr_wl row)) gws) (\<lambda>rs. Ok (concat rs))) (workload_rows v))
       (\<lambda>rs. Ok (concat rs))"

definition zone_set :: "View \<Rightarrow> Zone \<Rightarrow> (string \<times> string list) result" where
  "zone_set v z = and_then (zone_ifs v (zone_name z)) (\<lambda>ifs. Ok (zone_name z, ifs))"

definition local_elements :: "locals \<Rightarrow> WorkloadRow \<Rightarrow> string \<times> ipv4 list" where
  "local_elements locals row =
     (let s = local_set (wr_wl row) in (s, case om_get locals s of None \<Rightarrow> [] | Some vms \<Rightarrow> vms))"

definition policy_of :: "View \<Rightarrow> locals \<Rightarrow> Policy result" where
  "policy_of v locals =
     and_then (gw_rows v) (\<lambda>gws.
     and_then (map_out (zone_set v) (fab_zones (v_fabric v))) (\<lambda>zones.
     and_then (owned_forwarding v) (\<lambda>own.
     and_then (gw_pairs v gws) (\<lambda>pairs.
       Ok \<lparr>pol_admin = admin_ifs v, pol_zones = zones, pol_cfab = map fst own,
           pol_locals = map (local_elements locals) (workload_rows v),
           pol_rules = head_rules @
             concat (map (stray_rules \<circ> wr_wl) (workload_rows v)) @
             return_rule #
             map allow_rule (fab_forward_allow (v_fabric v)) @
             concat (map (\<lambda>row. concat (map (zone_pair (wr_wl row)) (wl_allow (wr_wl row)))) (workload_rows v)) @
             pairs @
             [[Counter, Comment ''default-deny'']]\<rparr>))))"

section \<open>The text\<close>

definition if_set_str :: "string \<Rightarrow> string list \<Rightarrow> string" where
  "if_set_str n ifs = ''  set '' @ n @ '' { type ifname; elements = { '' @ quoted_list ifs @ '' } }'' @ [CHR 0x0A]"

definition if_set_or_empty :: "string \<Rightarrow> string list \<Rightarrow> string" where
  "if_set_or_empty n ifs = (if ifs = [] then ''  set '' @ n @ '' { type ifname; }'' @ [CHR 0x0A] else if_set_str n ifs)"

definition local_set_str :: "string \<Rightarrow> ipv4 list \<Rightarrow> string" where
  "local_set_str n vms =
     (if vms = [] then ''  set '' @ n @ '' { type ipv4_addr; }'' @ [CHR 0x0A]
      else ''  set '' @ n @ '' { type ipv4_addr; elements = { '' @ join '', '' (map ipv4_str vms) @ '' } }'' @ [CHR 0x0A])"

definition policy_str :: "Policy \<Rightarrow> string" where
  "policy_str p =
     ''table inet cfab-fwd'' @ [CHR 0x0A] @ ''delete table inet cfab-fwd'' @ [CHR 0x0A] @
     ''table inet cfab-fwd {'' @ [CHR 0x0A] @
     if_set_or_empty ''admin'' (pol_admin p) @
     concat (map (\<lambda>(n, ifs). if_set_or_empty n ifs) (pol_zones p)) @
     if_set_str ''cfab'' (pol_cfab p) @
     concat (map (\<lambda>(n, vms). local_set_str n vms) (pol_locals p)) @
     ''  chain forward {'' @ [CHR 0x0A] @
     ''    type filter hook forward priority filter; policy drop;'' @ [CHR 0x0A] @
     concat (map rule_str (pol_rules p)) @
     ''  }'' @ [CHR 0x0A] @ ''}'' @ [CHR 0x0A]"

definition generate_seeded :: "View \<Rightarrow> locals \<Rightarrow> string result" where
  "generate_seeded v locals = and_then (policy_of v locals) (\<lambda>p. Ok (policy_str p))"

definition generate :: "View \<Rightarrow> string result" where
  "generate v = generate_seeded v []"

section \<open>What the policy lets through\<close>

definition in_zone :: "View \<Rightarrow> string \<Rightarrow> string \<Rightarrow> bool" where
  "in_zone v z i \<longleftrightarrow> (case zone_ifs v z of Ok ifs \<Rightarrow> i \<in> set ifs | _ \<Rightarrow> False)"

definition owned :: "View \<Rightarrow> string \<Rightarrow> bool" where
  "owned v i \<longleftrightarrow> (case owned_forwarding v of Ok own \<Rightarrow> i \<in> fst ` set own | _ \<Rightarrow> False)"

definition is_gw_leg :: "View \<Rightarrow> string \<Rightarrow> bool" where
  "is_gw_leg v i \<longleftrightarrow> (case gw_rows v of Ok gws \<Rightarrow> i \<in> gr_ifname ` set gws | _ \<Rightarrow> False)"

text \<open>The pairs of interfaces the declaration lets a new flow cross.\<close>

definition granted :: "View \<Rightarrow> string \<Rightarrow> string \<Rightarrow> bool" where
  "granted v i j \<longleftrightarrow>
     (\<exists>(from, to)\<in>set (fab_forward_allow (v_fabric v)). in_zone v from i \<and> in_zone v to j) \<or>
     (\<exists>row\<in>set (workload_rows v). let wl = wr_wl row in
        (i = leg_ifname wl \<and> ((\<exists>z\<in>set (wl_allow wl). in_zone v z j) \<or> is_gw_leg v j)) \<or>
        (j = leg_ifname wl \<and> ((\<exists>z\<in>set (wl_allow wl). in_zone v z i) \<or> is_gw_leg v i)))"

lemma if_elem_policy:
  "if_elem (policy_decls p) n i \<longleftrightarrow>
     n = ''admin'' \<and> i \<in> set (pol_admin p) \<or> (\<exists>ifs. (n, ifs) \<in> set (pol_zones p) \<and> i \<in> set ifs) \<or>
     n = ''cfab'' \<and> i \<in> set (pol_cfab p)"
proof -
  have "if_elem (map (\<lambda>(n, ifs). IfSet n ifs) zs) n i \<longleftrightarrow> (\<exists>ifs. (n, ifs) \<in> set zs \<and> i \<in> set ifs)" for zs
    by (induction zs) (auto simp: if_elem_def)
  moreover have "\<not> if_elem (map (\<lambda>(n, vms). AddrSet n vms) ls) n i" for ls
    by (induction ls) (auto simp: if_elem_def)
  ultimately show ?thesis
    by (auto simp: policy_decls_def if_elem_def)
qed

lemma policy_sets:
  assumes "policy_of v locals = Ok p" "\<And>z. z \<in> set (fab_zones (v_fabric v)) \<Longrightarrow> zone_name z \<notin> {''admin'', ''cfab''}"
  shows "if_elem (policy_decls p) ''admin'' i \<longleftrightarrow> i \<in> set (admin_ifs v)"
    and "if_elem (policy_decls p) ''cfab'' i \<longleftrightarrow> owned v i"
    and "z \<in> set (fab_zones (v_fabric v)) \<Longrightarrow> if_elem (policy_decls p) (zone_name z) i \<longleftrightarrow> in_zone v (zone_name z) i"
proof -
  obtain gws zones own pairs where p: "map_out (zone_set v) (fab_zones (v_fabric v)) = Ok zones"
    "owned_forwarding v = Ok own" "pol_admin p = admin_ifs v" "pol_zones p = zones" "pol_cfab p = map fst own"
    using assms(1) by (auto simp: policy_of_def outcome_simps)
  have name: "n \<noteq> ''admin'' \<and> n \<noteq> ''cfab''" if "(n, ifs) \<in> set zones" for n ifs
    using map_out_all [OF p(1) that] assms(2) by (auto simp: zone_set_def outcome_simps)
  have elem: "if_elem (policy_decls p) n i \<longleftrightarrow>
      n = ''admin'' \<and> i \<in> set (admin_ifs v) \<or> (\<exists>ifs. (n, ifs) \<in> set zones \<and> i \<in> set ifs) \<or>
      n = ''cfab'' \<and> i \<in> fst ` set own" for n
    unfolding if_elem_policy p(3-5) by auto
  show "if_elem (policy_decls p) ''admin'' i \<longleftrightarrow> i \<in> set (admin_ifs v)"
    "if_elem (policy_decls p) ''cfab'' i \<longleftrightarrow> owned v i"
    using name unfolding elem by (auto simp: owned_def p(2) dest: name)
  assume z: "z \<in> set (fab_zones (v_fabric v))"
  have ifs: "(n, ifs) \<in> set zones \<Longrightarrow> zone_ifs v n = Ok ifs" for n ifs
    using map_out_all [OF p(1), of "(n, ifs)"] by (auto simp: zone_set_def outcome_simps)
  obtain ifs where z': "(zone_name z, ifs) \<in> set zones"
    using map_out_each [OF p(1) z] by (auto simp: zone_set_def outcome_simps)
  have "(\<exists>ifs. (zone_name z, ifs) \<in> set zones \<and> i \<in> set ifs) \<longleftrightarrow> i \<in> set ifs"
    using z' ifs by (metis outcome.inject(2))
  then show "if_elem (policy_decls p) (zone_name z) i \<longleftrightarrow> in_zone v (zone_name z) i"
    using assms(2) [OF z] unfolding elem in_zone_def ifs [OF z'] by simp
qed

lemma policy_rules:
  assumes "policy_of v locals = Ok p"
  obtains gws pairs where "gw_rows v = Ok gws" "gw_pairs v gws = Ok pairs"
    "pol_rules p = head_rules @ concat (map (stray_rules \<circ> wr_wl) (workload_rows v)) @ [return_rule] @
       (map allow_rule (fab_forward_allow (v_fabric v)) @
        concat (map (\<lambda>row. concat (map (zone_pair (wr_wl row)) (wl_allow (wr_wl row)))) (workload_rows v)) @ pairs) @
       [[Counter, Comment ''default-deny'']]"
  using assms by (auto simp: policy_of_def outcome_simps)

lemma two_tests:
  assumes "test over S e \<noteq> None" "test over S e' \<noteq> None"
  shows "\<exists>ts. (\<exists>c'. [e, e', Counter, Accept, Comment c] = ts @ [Counter, Accept, Comment c']) \<and>
    list_all (\<lambda>e. \<exists>t. test over S e = Some t) ts"
  using assms by (intro exI [of _ "[e, e']"]) simp

lemma three_tests:
  assumes "test over S e \<noteq> None" "test over S e' \<noteq> None" "test over S e'' \<noteq> None"
  shows "\<exists>ts. (\<exists>c'. [e, e', e'', Counter, Comment c] = ts @ [Counter, Comment c']) \<and>
    list_all (\<lambda>e. \<exists>t. test over S e = Some t) ts"
  using assms by (intro exI [of _ "[e, e', e'']"]) simp

lemma gw_pair_Ok:
  assumes "gw_pair f wl g = Ok rs"
  obtains c c' where
    "rs = [[IifIs (leg_ifname wl), OifIs (gr_ifname g), Counter, Accept, Comment c],
           [IifIs (gr_ifname g), OifIs (leg_ifname wl), Counter, Accept, Comment c']]"
  using assms by (auto simp: gw_pair_def Let_def outcome_simps)

lemma gw_pairs_each:
  assumes "gw_pairs v gws = Ok pairs"
  shows "r \<in> set pairs \<longleftrightarrow> (\<exists>row\<in>set (workload_rows v). \<exists>g\<in>set gws. \<exists>rs. gw_pair (v_fabric v) (wr_wl row) g = Ok rs \<and> r \<in> set rs)"
    and "row \<in> set (workload_rows v) \<Longrightarrow> g \<in> set gws \<Longrightarrow> \<exists>rs. gw_pair (v_fabric v) (wr_wl row) g = Ok rs"
proof -
  obtain rss where rss: "map_out (\<lambda>row. and_then (map_out (gw_pair (v_fabric v) (wr_wl row)) gws) (\<lambda>rs. Ok (concat rs)))
      (workload_rows v) = Ok rss" "pairs = concat rss"
    using assms by (auto simp: gw_pairs_def outcome_simps)
  have row: "\<exists>rs. map_out (gw_pair (v_fabric v) (wr_wl row)) gws = Ok rs \<and> concat rs \<in> set rss" if "row \<in> set (workload_rows v)" for row
    using map_out_each [OF rss(1) that] by (auto simp: outcome_simps)
  show each: "\<exists>rs. gw_pair (v_fabric v) (wr_wl row) g = Ok rs" if "row \<in> set (workload_rows v)" "g \<in> set gws" for row g
    using row [OF that(1)] map_out_each [OF _ that(2)] by blast
  show "r \<in> set pairs \<longleftrightarrow> (\<exists>row\<in>set (workload_rows v). \<exists>g\<in>set gws. \<exists>rs. gw_pair (v_fabric v) (wr_wl row) g = Ok rs \<and> r \<in> set rs)"
  proof
    assume "r \<in> set pairs"
    then obtain rs where "rs \<in> set rss" "r \<in> set rs"
      unfolding rss(2) by auto
    then show "\<exists>row\<in>set (workload_rows v). \<exists>g\<in>set gws. \<exists>rs. gw_pair (v_fabric v) (wr_wl row) g = Ok rs \<and> r \<in> set rs"
      using map_out_all [OF rss(1), of rs] by (fastforce simp: outcome_simps dest: map_out_all)
  next
    assume "\<exists>row\<in>set (workload_rows v). \<exists>g\<in>set gws. \<exists>rs. gw_pair (v_fabric v) (wr_wl row) g = Ok rs \<and> r \<in> set rs"
    then obtain row g rs where r: "row \<in> set (workload_rows v)" "g \<in> set gws" "gw_pair (v_fabric v) (wr_wl row) g = Ok rs" "r \<in> set rs"
      by blast
    obtain rs' where rs': "map_out (gw_pair (v_fabric v) (wr_wl row)) gws = Ok rs'" "concat rs' \<in> set rss"
      using row [OF r(1)] by blast
    then have "rs \<in> set rs'"
      using r(2,3) map_out_set [OF rs'(1)] by blast
    then show "r \<in> set pairs"
      using rs'(2) r(4) unfolding rss(2) set_concat by (metis UN_I set_concat)
  qed
qed

lemma gw_pairs_rules:
  assumes "gw_pairs v gws = Ok pairs"
  shows "r \<in> set pairs \<Longrightarrow> \<exists>ts c. r = ts @ [Counter, Accept, Comment c] \<and> list_all (\<lambda>e. test over S e \<noteq> None) ts"
    and "(\<exists>r\<in>set pairs. guard over S k r) \<longleftrightarrow> (\<exists>row\<in>set (workload_rows v). \<exists>g\<in>set gws.
       pk_iif k = leg_ifname (wr_wl row) \<and> pk_oif k = gr_ifname g \<or> pk_oif k = leg_ifname (wr_wl row) \<and> pk_iif k = gr_ifname g)"
proof -
  have one: "(\<exists>r\<in>set rs. guard over S k r) \<longleftrightarrow>
      pk_iif k = leg_ifname wl \<and> pk_oif k = gr_ifname g \<or> pk_oif k = leg_ifname wl \<and> pk_iif k = gr_ifname g"
    if "gw_pair f wl g = Ok rs" for f wl g rs
    using that by (elim gw_pair_Ok) (auto simp: guard_def)
  then show "(\<exists>r\<in>set pairs. guard over S k r) \<longleftrightarrow> (\<exists>row\<in>set (workload_rows v). \<exists>g\<in>set gws.
      pk_iif k = leg_ifname (wr_wl row) \<and> pk_oif k = gr_ifname g \<or> pk_oif k = leg_ifname (wr_wl row) \<and> pk_iif k = gr_ifname g)"
    using gw_pairs_each [OF assms] by meson
  assume "r \<in> set pairs"
  then obtain f wl g rs where "gw_pair f wl g = Ok rs" "r \<in> set rs"
    using gw_pairs_each(1) [OF assms] by blast
  then show "\<exists>ts c. r = ts @ [Counter, Accept, Comment c] \<and> list_all (\<lambda>e. test over S e \<noteq> None) ts"
    by (elim gw_pair_Ok) (auto intro!: two_tests)
qed

definition refers_zones :: "View \<Rightarrow> bool" where
  "refers_zones v \<longleftrightarrow> (let names = zone_name ` set (fab_zones (v_fabric v)) in
     (\<forall>z\<in>set (fab_zones (v_fabric v)). zone_name z \<notin> {''admin'', ''cfab''}) \<and>
     (\<forall>(a, b)\<in>set (fab_forward_allow (v_fabric v)). a \<in> names \<and> b \<in> names) \<and>
     (\<forall>row\<in>set (workload_rows v). set (wl_allow (wr_wl row)) \<subseteq> names))"

context nft
begin

lemma run_policy:
  assumes p: "policy_of v locals = Ok p" and "refers_zones v"
  shows "fst (run (policy_decls p) Dropped (pol_rules p) k) = Accepted \<longleftrightarrow>
    pk_iif k \<notin> set (admin_ifs v) \<and> pk_oif k \<notin> set (admin_ifs v) \<and>
    (\<not> owned v (pk_iif k) \<and> \<not> owned v (pk_oif k) \<or> pk_ct k \<in> {Some CtEstablished, Some CtRelated} \<or>
     granted v (pk_iif k) (pk_oif k))"
proof -
  let ?S = "policy_decls p" and ?strays = "concat (map (stray_rules \<circ> wr_wl) (workload_rows v))"
  let ?zones = "concat (map (\<lambda>row. concat (map (zone_pair (wr_wl row)) (wl_allow (wr_wl row)))) (workload_rows v))"
  let ?allow = "map allow_rule (fab_forward_allow (v_fabric v))"
  obtain gws pairs where gws: "gw_rows v = Ok gws" "gw_pairs v gws = Ok pairs"
    and rules: "pol_rules p = head_rules @ ?strays @ [return_rule] @ (?allow @ ?zones @ pairs) @ [[Counter, Comment ''default-deny'']]"
    by (rule policy_rules [OF p])
  have "zone_name z \<notin> {''admin'', ''cfab''}" if "z \<in> set (fab_zones (v_fabric v))" for z
    using assms(2) that unfolding refers_zones_def Let_def by simp
  note sets = policy_sets [OF p this]
  have zone: "if_elem ?S n i \<longleftrightarrow> in_zone v n i" if "n \<in> zone_name ` set (fab_zones (v_fabric v))" for n i
    using sets(3) that by blast
  have strays: "run ?S Dropped (?strays @ rest) k = run ?S Dropped rest k" for rest
    by (rule run_counting) (auto simp: stray_rules_def intro!: three_tests)
  have accepts: "run ?S Dropped ((?allow @ ?zones @ pairs) @ rest) k =
      (if \<exists>r\<in>set (?allow @ ?zones @ pairs). guard over ?S k r then (Accepted, k) else run ?S Dropped rest k)" for rest
  proof (rule run_accepting)
    fix r
    assume "r \<in> set (?allow @ ?zones @ pairs)"
    then consider a where "r = allow_rule a" | wl z where "r \<in> set (zone_pair wl z)" | "r \<in> set pairs"
      by auto
    then show "\<exists>ts c. r = ts @ [Counter, Accept, Comment c] \<and> list_all (\<lambda>e. test over ?S e \<noteq> None) ts"
      by cases (auto simp: allow_rule_def zone_pair_def split: prod.splits dest: gw_pairs_rules(1) [OF gws(2), of _ over ?S] intro!: two_tests)
  qed
  have "(\<exists>r\<in>set ?allow. guard over ?S k r) \<longleftrightarrow>
      (\<exists>(from, to)\<in>set (fab_forward_allow (v_fabric v)). in_zone v from (pk_iif k) \<and> in_zone v to (pk_oif k))"
  proof -
    have "guard over ?S k (allow_rule a) \<longleftrightarrow> (case a of (from, to) \<Rightarrow> in_zone v from (pk_iif k) \<and> in_zone v to (pk_oif k))"
      if "a \<in> set (fab_forward_allow (v_fabric v))" for a
    proof -
      have "fst a \<in> zone_name ` set (fab_zones (v_fabric v))" "snd a \<in> zone_name ` set (fab_zones (v_fabric v))"
        using assms(2) that unfolding refers_zones_def Let_def split_beta by blast+
      then show ?thesis
        by (cases a) (simp add: allow_rule_def guard_def zone)
    qed
    then show ?thesis
      unfolding set_map bex_simps by (rule bex_cong [OF refl])
  qed
  moreover have "(\<exists>r\<in>set ?zones. guard over ?S k r) \<longleftrightarrow>
      (\<exists>row\<in>set (workload_rows v). \<exists>z\<in>set (wl_allow (wr_wl row)).
         pk_iif k = leg_ifname (wr_wl row) \<and> in_zone v z (pk_oif k) \<or> in_zone v z (pk_iif k) \<and> pk_oif k = leg_ifname (wr_wl row))"
  proof -
    have "(\<exists>r\<in>set (zone_pair wl z). guard over ?S k r) \<longleftrightarrow>
        pk_iif k = leg_ifname wl \<and> in_zone v z (pk_oif k) \<or> in_zone v z (pk_iif k) \<and> pk_oif k = leg_ifname wl"
      if "z \<in> zone_name ` set (fab_zones (v_fabric v))" for wl z
      using zone [OF that] by (simp add: zone_pair_def guard_def)
    moreover have "z \<in> zone_name ` set (fab_zones (v_fabric v))" if "row \<in> set (workload_rows v)" "z \<in> set (wl_allow (wr_wl row))" for row z
      using assms(2) that unfolding refers_zones_def Let_def by (simp add: subset_iff del: set_map)
    moreover have "(\<exists>r\<in>set ?zones. P r) \<longleftrightarrow>
        (\<exists>row\<in>set (workload_rows v). \<exists>z\<in>set (wl_allow (wr_wl row)). \<exists>r\<in>set (zone_pair (wr_wl row) z). P r)" for P
      by auto
    ultimately show ?thesis
      by (simp cong: bex_cong)
  qed
  ultimately have granted: "(\<exists>r\<in>set (?allow @ ?zones @ pairs). guard over ?S k r) \<longleftrightarrow> granted v (pk_iif k) (pk_oif k)"
    unfolding set_append bex_Un gw_pairs_rules(2) [OF gws(2)] granted_def is_gw_leg_def gws(1) Let_def by auto
  have tail: "fst (run ?S Dropped ((?allow @ ?zones @ pairs) @ [[Counter, Comment ''default-deny'']]) k) = Accepted \<longleftrightarrow>
      granted v (pk_iif k) (pk_oif k)"
    unfolding accepts granted by (simp add: run_action)
  show ?thesis
    unfolding rules head_rules_def
    by (auto simp: run_test run_action strays tail [unfolded append_assoc] sets(1,2) return_rule_def split: option.splits)
qed

end

end
