(* ===== verification/Emit_Transit.thy ===== *)
theory Emit_Transit
  imports Emit_Policy Fabric_Sample
begin

text \<open>
  What the printed forward policy lets through on a member of an accepted fabric.
\<close>

lemma gw_rows_zone:
  assumes "gw_rows_of f m = Ok gs" "g \<in> set gs"
  shows "gr_zone g \<in> zone_name ` set (fab_zones f)"
proof -
  obtain rows where rows: "map_out (gw_row f m) (fab_zones f) = Ok rows" "gs = List.map_filter id rows"
    using assms by (auto simp: gw_rows_of_def filter_map_out_def outcome_simps split: if_splits)
  have "Some g \<in> set rows"
    using assms(2) unfolding rows(2) by (auto simp: List.map_filter_def)
  then obtain z where z: "z \<in> set (fab_zones f)" "gw_row f m z = Ok (Some g)"
    using map_out_all [OF rows(1)] by blast
  then have "gr_zone g = zone_name z"
    by (auto simp: gw_row_def Let_def outcome_simps split: option.splits SegScope.splits)
  then show ?thesis
    using z(1) by simp
qed

lemma map_out_defined: "(\<And>x. x \<in> set xs \<Longrightarrow> \<exists>y. g x = Ok y) \<Longrightarrow> \<exists>ys. map_out g xs = Ok ys"
proof (induction xs)
  case (Cons x xs)
  then obtain y ys where "g x = Ok y" "map_out g xs = Ok ys"
    by (metis list.set_intros)
  then show ?case
    by simp
qed simp

lemma policy_of_total:
  assumes "from_decl d = Ok f" "m \<in> set (fab_members f)"
  shows "\<exists>p. policy_of \<lparr>v_fabric = f, v_member = m\<rparr> locals = Ok p"
proof -
  let ?v = "\<lparr>v_fabric = f, v_member = m\<rparr>"
  have sized: "sized f"
    by (rule accepted_sized [OF assms(1)])
  then have ranked: "all_ranked f"
    by (simp add: sized_def)
  obtain gs where gs: "gw_rows_of f m = Ok gs"
    using gw_rows_total [OF ranked assms(2)] by blast
  have "\<exists>ifs. zone_ifs ?v z = Ok ifs" for z
    using gs class_rows_total [OF sized_ranked [OF sized assms(2)]] fallback_rows_total [OF ranked assms(2)]
    by (simp add: zone_ifs_def class_rows_def fallback_rows_def gw_rows_def)
  then have "\<exists>zs. map_out (zone_set ?v) (fab_zones f) = Ok zs"
    by (intro map_out_defined) (auto simp: zone_set_def outcome_simps)
  moreover obtain own where "owned_forwarding ?v = Ok own"
    using owned_forwarding_eq [OF sized assms(2)] by metis
  moreover have "\<exists>rs. gw_pair f wl g = Ok rs" if "g \<in> set gs" for wl g
    using gw_rows_zone [OF gs that] zone_of_Ok [of f "gr_zone g"] by (auto simp: gw_pair_def Let_def outcome_simps)
  then have "\<exists>ps. gw_pairs ?v gs = Ok ps"
    unfolding gw_pairs_def and_then_Ok using map_out_defined [of "workload_rows ?v" "\<lambda>row. and_then (map_out (gw_pair f (wr_wl row)) gs) (\<lambda>rs. Ok (concat rs))"]
      map_out_defined [of gs "gw_pair f wl" for wl] by (simp add: and_then_Ok)
  ultimately show ?thesis
    using gs by (auto simp: policy_of_def gw_rows_def outcome_simps)
qed

lemma accepted_forward:
  assumes "from_decl d = Ok f" "(a, b) \<in> set (fab_forward_allow f)"
  shows "a \<in> zone_name ` set (fab_zones f)" "b \<in> zone_name ` set (fab_zones f)"
proof -
  have "check_forward f = Ok ()"
    using accepted_validated [OF assms(1)] by (auto simp: validate_def outcome_simps)
  then show "a \<in> zone_name ` set (fab_zones f)" "b \<in> zone_name ` set (fab_zones f)"
    using assms(2) by (auto simp: check_forward_def outcome_simps)
qed

lemma accepted_allow:
  assumes "from_decl d = Ok f" "wl \<in> set (fab_workloads f)" "z \<in> set (wl_allow wl)"
  shows "z \<in> zone_name ` set (fab_zones f)"
proof -
  obtain seen where "check_workload f seen wl = Ok ()"
    by (rule accepted_workloads [OF assms(1,2)]) blast
  then show ?thesis
    using assms(3) by (auto simp: check_workload_def Let_def outcome_simps)
qed

lemma accepted_refers_zones:
  assumes "from_decl d = Ok f" "\<forall>z\<in>set (fab_zones f). zone_name z \<notin> {''admin'', ''cfab''}"
  shows "refers_zones \<lparr>v_fabric = f, v_member = m\<rparr>"
proof -
  have "wr_wl row \<in> set (fab_workloads f)" if "row \<in> set (workload_rows \<lparr>v_fabric = f, v_member = m\<rparr>)" for row
    using that by (auto simp: workload_rows_def List.map_filter_def)
  then show ?thesis
    using assms(2) accepted_forward [OF assms(1)] accepted_allow [OF assms(1)]
    unfolding refers_zones_def Let_def View.simps subset_iff by blast
qed

text \<open>C11: the forward policy is exact. On every member of an accepted fabric no zone of which is
  called \<open>admin\<close> or \<open>cfab\<close>, the policy is generated, and a kernel that evaluates the printed table by
  the rules of nftables forwards a packet if and only if it touches no wire of the host and either
  touches no interface of cfab at all, belongs to a known flow, or goes from one declared pair of
  zones, workload leg and zone that may talk, or workload leg and ingress leg, to the other. The
  virtual machines the sets are seeded with change nothing of this.\<close>

theorem forward_policy_exact:
  assumes "nft over run" "from_decl d = Ok f" "m \<in> set (fab_members f)"
    and "\<forall>z\<in>set (fab_zones f). zone_name z \<notin> {''admin'', ''cfab''}"
  defines "v \<equiv> \<lparr>v_fabric = f, v_member = m\<rparr>"
  shows "\<exists>p. policy_of v locals = Ok p \<and> generate_seeded v locals = Ok (policy_str p) \<and>
    (\<forall>k. fst (run (policy_decls p) Dropped (pol_rules p) k) = Accepted \<longleftrightarrow>
       pk_iif k \<notin> set (admin_ifs v) \<and> pk_oif k \<notin> set (admin_ifs v) \<and>
       (\<not> owned v (pk_iif k) \<and> \<not> owned v (pk_oif k) \<or> pk_ct k \<in> {Some CtEstablished, Some CtRelated} \<or>
        granted v (pk_iif k) (pk_oif k)))"
proof -
  obtain p where p: "policy_of v locals = Ok p"
    unfolding v_def using policy_of_total [OF assms(2,3)] by blast
  have "refers_zones v"
    unfolding v_def by (rule accepted_refers_zones [OF assms(2,4)])
  then show ?thesis
    using nft.run_policy [OF assms(1) p] p by (auto simp: generate_seeded_def)
qed

text \<open>On the sample, a new flow from the machines' leg into the storage segment is forwarded, the
  same flow into the host's wire is not.\<close>

lemma in_zone_segment:
  assumes "from_decl d = Ok f" "m \<in> set (fab_members f)" "s \<in> set (fab_segments f)" "segment_row f m s = Some r"
  shows "in_zone \<lparr>v_fabric = f, v_member = m\<rparr> (seg_zone s) (seg_ifname s)"
proof -
  have sized: "sized f"
    by (rule accepted_sized [OF assms(1)])
  then have ranked: "all_ranked f"
    by (simp add: sized_def)
  obtain gs where gs: "gw_rows_of f m = Ok gs"
    using gw_rows_total [OF ranked assms(2)] by blast
  have "r \<in> set (the_rows f m)" "cr_ifname r = seg_ifname s" "cr_zone r = seg_zone s"
    using assms(3,4) by (auto simp: the_rows_iff segment_row_Some)
  then show ?thesis
    using gs class_rows_total [OF sized_ranked [OF sized assms(2)]] fallback_rows_total [OF ranked assms(2)]
    by (force simp: in_zone_def zone_ifs_def class_rows_def fallback_rows_def gw_rows_def)
qed

definition vm_packet :: "string \<Rightarrow> Packet" where
  "vm_packet out = \<lparr>pk_iif = ''cfab-work-vms'', pk_oif = out, pk_ct = None, pk_daddr = 0x0a050109, pk_proto = 6, pk_dport = 2049, pk_dscp = ''cs0''\<rparr>"

lemma sample_legs:
  "map (\<lambda>row. (leg_ifname (wr_wl row), wl_allow (wr_wl row))) (workload_rows \<lparr>v_fabric = sample_fabric, v_member = sample_h1\<rparr>) =
     [(''cfab-work-vms'', [''storage''])]"
  by (simp add: workload_rows_def sample_fabric_def sample_members List.map_filter_simps sample_leg)

lemma sample_granted: "granted \<lparr>v_fabric = sample_fabric, v_member = sample_h1\<rparr> ''cfab-work-vms'' ''stor-a''"
proof -
  let ?v = "\<lparr>v_fabric = sample_fabric, v_member = sample_h1\<rparr>" and ?s = "hd (fab_segments sample_fabric)"
  have facts: "sample_h1 \<in> set (fab_members sample_fabric)" "?s \<in> set (fab_segments sample_fabric)" "seg_ifname ?s = ''stor-a''"
    "seg_zone ?s = ''storage''" "segment_row sample_fabric sample_h1 ?s \<noteq> None"
    by (simp_all add: sample_fabric_def sample_members segment_row_def wire_on_def)
  have "in_zone ?v ''storage'' ''stor-a''"
    using in_zone_segment [OF sample_accepted facts(1,2)] facts(3-5) by force
  moreover obtain row where "row \<in> set (workload_rows ?v)" "leg_ifname (wr_wl row) = ''cfab-work-vms'' \<and> wl_allow (wr_wl row) = [''storage'']"
    using sample_legs by (cases "workload_rows ?v") auto
  ultimately show ?thesis
    unfolding granted_def Let_def by (intro disjI2 [of _ "\<exists>row\<in>_. _ row"] bexI [of _ row]) simp_all
qed

lemma sample_facts:
  "sample_h1 \<in> set (fab_members sample_fabric)" "\<forall>z\<in>set (fab_zones sample_fabric). zone_name z \<notin> {''admin'', ''cfab''}"
  "''stor-a'' \<notin> set (admin_ifs \<lparr>v_fabric = sample_fabric, v_member = sample_h1\<rparr>)"
  "''eth0'' \<in> set (admin_ifs \<lparr>v_fabric = sample_fabric, v_member = sample_h1\<rparr>)"
  "''cfab-work-vms'' \<notin> set (admin_ifs \<lparr>v_fabric = sample_fabric, v_member = sample_h1\<rparr>)"
  by (simp_all add: sample_fabric_def sample_members admin_ifs_def)

lemma sample_forwards:
  "\<exists>p. policy_of \<lparr>v_fabric = sample_fabric, v_member = sample_h1\<rparr> [] = Ok p \<and>
     (\<forall>d. fst (nft_run over (policy_decls p) Dropped (pol_rules p) (vm_packet ''stor-a''\<lparr>pk_dscp := d\<rparr>)) = Accepted)"
proof -
  obtain p where p: "policy_of \<lparr>v_fabric = sample_fabric, v_member = sample_h1\<rparr> [] = Ok p"
    using policy_of_total [OF sample_accepted sample_facts(1)] by blast
  then show ?thesis
    using nf.run_policy [OF p accepted_refers_zones [OF sample_accepted sample_facts(2)]] sample_granted sample_facts(3,5)
    by (simp add: vm_packet_def)
qed

theorem forward_policy_exact_witness:
  "\<exists>p. policy_of \<lparr>v_fabric = sample_fabric, v_member = sample_h1\<rparr> [] = Ok p \<and>
     fst (nft_run (\<lambda>r b k. False) (policy_decls p) Dropped (pol_rules p) (vm_packet ''stor-a'')) = Accepted \<and>
     fst (nft_run (\<lambda>r b k. False) (policy_decls p) Dropped (pol_rules p) (vm_packet ''eth0'')) \<noteq> Accepted"
proof -
  let ?v = "\<lparr>v_fabric = sample_fabric, v_member = sample_h1\<rparr>"
  obtain p where "policy_of ?v [] = Ok p"
    "\<forall>k. fst (nft_run (\<lambda>r b k. False) (policy_decls p) Dropped (pol_rules p) k) = Accepted \<longleftrightarrow>
       pk_iif k \<notin> set (admin_ifs ?v) \<and> pk_oif k \<notin> set (admin_ifs ?v) \<and>
       (\<not> owned ?v (pk_iif k) \<and> \<not> owned ?v (pk_oif k) \<or> pk_ct k \<in> {Some CtEstablished, Some CtRelated} \<or>
        granted ?v (pk_iif k) (pk_oif k))"
    using forward_policy_exact [OF nf.nft_axioms sample_accepted sample_facts(1,2)] by blast
  then show ?thesis
    using sample_granted sample_facts(3-5) by (auto simp: vm_packet_def)
qed

end
