(* ===== verification/Emit_Compare.thy ===== *)
theory Emit_Compare
  imports Emit_Transit Shape_Record
begin

text \<open>
  The comparison of policies (\<open>without_local_elements\<close> of \<open>emit/policy.rs\<close>): a text is read line by
  line and the elements of the sets of local machines are left out.
\<close>

definition is_brace :: "char \<Rightarrow> bool" where
  "is_brace c \<longleftrightarrow> c = CHR ''{'' \<or> c = CHR ''}''"

definition balance :: "string \<Rightarrow> int" where
  "balance s = int (length (filter (\<lambda>c. c = CHR ''{'') s)) - int (length (filter (\<lambda>c. c = CHR ''}'') s))"

definition ends_with :: "string \<Rightarrow> string \<Rightarrow> bool" where
  "ends_with e s \<longleftrightarrow> drop (length s - length e) s = e"

definition is_local_set_open :: "string \<Rightarrow> bool" where
  "is_local_set_open trimmed =
     (case strip_prefix ''set '' trimmed of
        None \<Rightarrow> False
      | Some r \<Rightarrow> (case split_whitespace r of [] \<Rightarrow> False | n # ns \<Rightarrow> ends_with ''-local'' n))"

text \<open>\<open>str::find\<close>: where a word first occurs.\<close>

fun find_str :: "string \<Rightarrow> string \<Rightarrow> nat option" where
  "find_str w [] = (if w = [] then Some 0 else None)"
| "find_str w (c # s) = (if take (length w) (c # s) = w then Some 0 else map_option Suc (find_str w s))"

text \<open>The place of the brace that closes the clause.\<close>

fun close_at :: "int \<Rightarrow> string \<Rightarrow> nat option" where
  "close_at depth [] = None"
| "close_at depth (c # s) =
     (if c = CHR ''{'' then map_option Suc (close_at (depth + 1) s)
      else if c = CHR ''}'' then (if depth - 1 = 0 then Some 0 else map_option Suc (close_at (depth - 1) s))
      else map_option Suc (close_at depth s))"

text \<open>The clause carries its brace, so the second search cannot fail.\<close>

definition without_elements_clause :: "string \<Rightarrow> string" where
  "without_elements_clause line =
     (case find_str '' elements = {'' line of
        None \<Rightarrow> line
      | Some at \<Rightarrow> (case find_str ''{'' (drop at line) of
          None \<Rightarrow> line
        | Some o' \<Rightarrow> (case close_at 0 (drop (at + o') line) of
            None \<Rightarrow> line
          | Some i \<Rightarrow> take at line @ drop (at + o' + i + 1) line)))"

record Scan =
  sc_in_local :: "int option"
  sc_skip :: int
  sc_depth :: int

definition scan_line :: "Scan \<Rightarrow> string \<Rightarrow> string option \<times> Scan" where
  "scan_line st line =
     (let t = trim_text line; bal = balance t in
      if sc_skip st > 0 then (None, st\<lparr>sc_skip := max (sc_skip st + bal) 0\<rparr>)
      else if sc_in_local st \<noteq> None \<and> starts_with ''elements = {'' t then (None, st\<lparr>sc_skip := max bal 0\<rparr>)
      else
        (let outside = sc_depth st; st = st\<lparr>sc_depth := outside + bal\<rparr> in
         if (case sc_in_local st of None \<Rightarrow> False | Some d \<Rightarrow> sc_depth st \<le> d) then (Some line, st\<lparr>sc_in_local := None\<rparr>)
         else if is_local_set_open t then
           (if bal > 0 then (Some line, st\<lparr>sc_in_local := Some outside\<rparr>)
            else (Some (without_elements_clause line), st))
         else (Some line, st)))"

fun scan_lines :: "Scan \<Rightarrow> string list \<Rightarrow> string" where
  "scan_lines st [] = []"
| "scan_lines st (l # ls) =
     (let (kept, st) = scan_line st l in
      (case kept of None \<Rightarrow> [] | Some k \<Rightarrow> k @ [CHR 0x0A]) @ scan_lines st ls)"

definition without_local_elements :: "string \<Rightarrow> string" where
  "without_local_elements text = scan_lines \<lparr>sc_in_local = None, sc_skip = 0, sc_depth = 0\<rparr> (str_lines text)"

section \<open>Lines\<close>

definition clean :: "string \<Rightarrow> bool" where
  "clean t \<longleftrightarrow> CHR 0x0A \<notin> set t"

lemma clean_simps [simp]:
  "clean []" "clean (c # t) \<longleftrightarrow> c \<noteq> CHR 0x0A \<and> clean t" "clean (s @ t) \<longleftrightarrow> clean s \<and> clean t"
  by (auto simp: clean_def)

lemma clean_join: "clean sep \<Longrightarrow> list_all clean xs \<Longrightarrow> clean (join sep xs)"
  by (induction sep xs rule: join.induct) auto

lemma clean_dec [simp]: "clean (dec n)"
  using visible_dec [of n] by (auto simp: clean_def list_all_iff visible_def)

definition printed :: "string list \<Rightarrow> string" where
  "printed ls = concat (map (\<lambda>l. l @ [CHR 0x0A]) ls)"

lemma str_lines_printed:
  assumes "list_all (\<lambda>l. clean l \<and> (l = [] \<or> last l \<noteq> CHR 0x0D)) ls"
  shows "str_lines (printed ls) = ls"
  using assms by (induction ls) (simp_all add: printed_def clean_def str_lines_line strip_cr_keep)

text \<open>While every set of local machines is on one line, the reader is never inside a block.\<close>

definition one_line_set :: "string \<Rightarrow> bool" where
  "one_line_set l \<longleftrightarrow> is_local_set_open (trim_text l) \<longrightarrow> balance (trim_text l) \<le> 0"

lemma scan_lines_flat:
  assumes "list_all one_line_set ls" "sc_in_local st = None" "sc_skip st = 0"
  shows "scan_lines st ls =
    printed (map (\<lambda>l. if is_local_set_open (trim_text l) then without_elements_clause l else l) ls)"
  using assms
proof (induction ls arbitrary: st)
  case (Cons l ls)
  let ?st = "st\<lparr>sc_depth := sc_depth st + balance (trim_text l)\<rparr>"
  have "scan_line st l = (Some (if is_local_set_open (trim_text l) then without_elements_clause l else l), ?st)"
    using Cons.prems by (auto simp: scan_line_def Let_def one_line_set_def)
  then show ?case
    using Cons.IH [of ?st] Cons.prems by (simp add: printed_def)
qed (simp add: printed_def)

section \<open>The lines of a policy\<close>

lemma trim_with_suffix: "\<exists>w. s = w @ trim_with ws s"
proof (induction ws s rule: trim_with.induct)
  case (1 ws s)
  show ?case
  proof (cases "cut ws s")
    case (Some r)
    then obtain w w' where "s = w @ r" "r = w' @ trim_with ws r"
      using 1 [OF Some] cut_Some [OF Some] by blast
    then have "s = (w @ w') @ trim_with ws r"
      by simp
    moreover have "trim_with ws s = trim_with ws r"
      by (simp add: trim_with.simps [of ws s] Some)
    ultimately show ?thesis
      by metis
  qed (simp add: trim_with.simps [of ws s])
qed

lemma trim_with_space: "trim_with white (CHR '' '' # s) = trim_with white s"
  by (simp add: trim_with.simps [of white "CHR '' '' # s"] cut_space)

lemma trim_with_visible: "visible c \<Longrightarrow> trim_with white (c # s) = c # s"
  by (intro trim_with_id) (use visible_not_head(1) in auto)

text \<open>A text whose ends are visible keeps everything; any text keeps its first visible character.\<close>

lemma trim_text_ends: "visible c \<Longrightarrow> visible (last (c # s)) \<Longrightarrow> trim_text (c # s) = c # s"
  unfolding trim_text_def
  by (subst trim_with_visible, assumption, subst trim_with_id) (use visible_not_head(2) [of "last (c # s)"] in \<open>auto simp: hd_append hd_rev split: if_splits\<close>)

lemma trim_text_space: "trim_text (CHR '' '' # s) = trim_text s"
  by (simp add: trim_text_def trim_with_space)

lemma not_set_line:
  assumes "visible c" "c \<noteq> CHR ''s''"
  shows "\<not> is_local_set_open (trim_text (c # s))"
proof -
  obtain w where "rev (c # s) = w @ trim_with (map rev white) (rev (c # s))"
    using trim_with_suffix by blast
  then have "c # s = trim_text (c # s) @ rev w"
    unfolding trim_text_def trim_with_visible [OF assms(1)] by (metis rev_append rev_rev_ident)
  then have "trim_text (c # s) = [] \<or> hd (trim_text (c # s)) = c"
    by (metis hd_append2 list.sel(1))
  then show ?thesis
    using assms(2) by (auto simp: is_local_set_open_def strip_prefix_Some split: option.splits)
qed

lemma set_line:
  assumes "list_all visible n" "n \<noteq> []" "visible (last rest)" "rest \<noteq> []" "hd rest = CHR '' ''"
  shows "trim_text (''  set '' @ n @ rest) = ''set '' @ n @ rest"
    and "is_local_set_open (''set '' @ n @ rest) \<longleftrightarrow> ends_with ''-local'' n"
proof -
  have "visible (last (''set '' @ n @ rest))"
    using assms(3,4) by simp
  then show "trim_text (''  set '' @ n @ rest) = ''set '' @ n @ rest"
    using trim_text_ends [of "CHR ''s''" "''et '' @ n @ rest"] by (simp add: trim_text_space visible_def)
  obtain c r where rest: "rest = CHR '' '' # r"
    using assms(4,5) by (cases rest) auto
  have "\<exists>ws. split_whitespace (n @ rest) = n # ws"
    using assms(1,2) unfolding rest split_whitespace_def
    by (simp add: split_ws_word split_ws.simps [of _ "CHR '' '' # _"] cut_space)
  then show "is_local_set_open (''set '' @ n @ rest) \<longleftrightarrow> ends_with ''-local'' n"
    using strip_prefix_append [of "''set ''" "n @ rest"] by (auto simp: is_local_set_open_def)
qed

lemma balance_append [simp]: "balance (a @ b) = balance a + balance b"
  by (simp add: balance_def)

lemma balance_plain: "list_all (\<lambda>c. \<not> is_brace c) a \<Longrightarrow> balance a = 0"
  by (induction a) (auto simp: balance_def is_brace_def)

lemma find_str_skip: "CHR '' '' \<notin> set n \<Longrightarrow> find_str (CHR '' '' # w) (n @ s) = map_option (\<lambda>k. length n + k) (find_str (CHR '' '' # w) s)"
  by (cases "find_str (CHR '' '' # w) s"; induction n) auto

lemma close_at_skip: "list_all (\<lambda>c. \<not> is_brace c) a \<Longrightarrow> close_at d (a @ s) = map_option (\<lambda>k. length a + k) (close_at d s)"
  by (cases "close_at d s"; induction a) (auto simp: is_brace_def)

lemma find_str_name:
  assumes "CHR '' '' \<notin> set n"
  shows "find_str '' elements = {'' (CHR '' '' # n @ '' {'' @ s) = map_option (\<lambda>k. Suc (length n + k)) (find_str '' elements = {'' ('' {'' @ s))"
proof -
  have "n @ '' {'' @ s \<noteq> ''elements = {'' @ y" for y
  proof
    assume eq: "n @ '' {'' @ s = ''elements = {'' @ y"
    have "takeWhile (\<lambda>c. c \<noteq> CHR '' '') (n @ '' {'' @ s) = n"
      using assms by (subst takeWhile_append2) auto
    then have "n = ''elements''"
      unfolding eq by simp
    then show False
      using eq by simp
  qed
  then have "take (length '' elements = {'') (CHR '' '' # n @ '' {'' @ s) \<noteq> '' elements = {''"
    by (metis append_Cons append_take_drop_id list.inject)
  then show ?thesis
    unfolding find_str.simps(2) find_str_skip [OF assms] by (simp add: option.map_comp comp_def)
qed

lemma without_elements_clause_eq:
  assumes "line = a @ '' elements = '' @ CHR ''{'' # r" "find_str '' elements = {'' line = Some (length a)" "close_at 0 (CHR ''{'' # r) = Some i"
  shows "without_elements_clause line = a @ drop i r"
proof -
  have "length '' elements = '' = 12"
    by simp
  then have d: "drop (length a) line = '' elements = '' @ CHR ''{'' # r" "drop (length a + 12) line = CHR ''{'' # r"
    "drop (length a + 12 + i + 1) line = drop i r" "take (length a) line = a"
    unfolding assms(1) drop_append by simp_all
  have "find_str ''{'' ('' elements = '' @ CHR ''{'' # r) = Some 12"
    by simp
  then show ?thesis
    unfolding without_elements_clause_def assms(2) d option.simps assms(3) by (simp only: option.simps d assms(3))
qed

lemma cut_clause:
  assumes "CHR '' '' \<notin> set n" "list_all (\<lambda>c. \<not> is_brace c) els"
  shows "without_elements_clause (''  set '' @ n @ '' { type ipv4_addr; elements = { '' @ els @ '' } }'') = ''  set '' @ n @ '' { type ipv4_addr; }''"
    and "without_elements_clause (''  set '' @ n @ '' { type ipv4_addr; }'') = ''  set '' @ n @ '' { type ipv4_addr; }''"
proof -
  let ?a = "''  set '' @ n @ '' { type ipv4_addr;''" and ?r = "'' '' @ els @ '' } }''"
  have "without_elements_clause (''  set '' @ n @ '' { type ipv4_addr; elements = { '' @ els @ '' } }'') = ?a @ drop (3 + length els) ?r"
  proof (rule without_elements_clause_eq)
    show "find_str '' elements = {'' (''  set '' @ n @ '' { type ipv4_addr; elements = { '' @ els @ '' } }'') = Some (length ?a)"
      using find_str_name [OF assms(1), of "'' type ipv4_addr; elements = { '' @ els @ '' } }''"] by simp
    show "close_at 0 (CHR ''{'' # ?r) = Some (3 + length els)"
      using close_at_skip [OF assms(2), of 1 "'' } }''"] by simp
  qed simp
  moreover have "drop (3 + length els) ?r = '' }''"
    by (simp add: numeral_3_eq_3)
  ultimately show "without_elements_clause (''  set '' @ n @ '' { type ipv4_addr; elements = { '' @ els @ '' } }'') = ''  set '' @ n @ '' { type ipv4_addr; }''"
    by simp
  show "without_elements_clause (''  set '' @ n @ '' { type ipv4_addr; }'') = ''  set '' @ n @ '' { type ipv4_addr; }''"
    using find_str_name [OF assms(1), of "'' type ipv4_addr; }''"] by (simp add: without_elements_clause_def)
qed

end
