(* ===== verification/Emit_Drift.thy ===== *)
theory Emit_Drift
  imports Emit_Compare
begin

text \<open>
  Two renderings of one member's policy differ only in the machines the sets are seeded with, and
  the comparison does not see those.
\<close>

section \<open>A policy is its lines\<close>

definition if_line :: "string \<Rightarrow> string list \<Rightarrow> string" where
  "if_line n ifs = ''  set '' @ n @ '' { type ifname; elements = { '' @ quoted_list ifs @ '' } }''"

definition if_or_empty_line :: "string \<Rightarrow> string list \<Rightarrow> string" where
  "if_or_empty_line n ifs = (if ifs = [] then ''  set '' @ n @ '' { type ifname; }'' else if_line n ifs)"

definition local_line :: "string \<Rightarrow> ipv4 list \<Rightarrow> string" where
  "local_line n vms =
     (if vms = [] then ''  set '' @ n @ '' { type ipv4_addr; }''
      else ''  set '' @ n @ '' { type ipv4_addr; elements = { '' @ join '', '' (map ipv4_str vms) @ '' } }'')"

definition rule_line :: "Rule \<Rightarrow> string" where
  "rule_line r = ''    '' @ join '' '' (map expr_str r)"

definition policy_lines :: "Policy \<Rightarrow> string list" where
  "policy_lines p =
     [''table inet cfab-fwd'', ''delete table inet cfab-fwd'', ''table inet cfab-fwd {'', if_or_empty_line ''admin'' (pol_admin p)] @
     map (\<lambda>(n, ifs). if_or_empty_line n ifs) (pol_zones p) @ [if_line ''cfab'' (pol_cfab p)] @
     map (\<lambda>(n, vms). local_line n vms) (pol_locals p) @
     [''  chain forward {'', ''    type filter hook forward priority filter; policy drop;''] @
     map rule_line (pol_rules p) @ [''  }'', ''}'']"

lemma policy_str_lines: "policy_str p = printed (policy_lines p)"
proof -
  have "if_set_str n ifs = if_line n ifs @ [CHR 0x0A]" "if_set_or_empty n ifs = if_or_empty_line n ifs @ [CHR 0x0A]"
    "local_set_str n vms = local_line n vms @ [CHR 0x0A]" "rule_str r = rule_line r @ [CHR 0x0A]" for n ifs vms r
    by (simp_all add: if_set_str_def if_line_def if_set_or_empty_def if_or_empty_line_def local_set_str_def local_line_def
        rule_str_def rule_line_def)
  then show ?thesis
    unfolding policy_str_def policy_lines_def printed_def by (simp add: comp_def split_def cong: map_cong)
qed

section \<open>Lines the reader keeps\<close>

definition keeps :: "string \<Rightarrow> bool" where
  "keeps l \<longleftrightarrow> clean l \<and> (l = [] \<or> last l \<noteq> CHR 0x0D) \<and> \<not> is_local_set_open (trim_text l)"

definition plain :: "string \<Rightarrow> bool" where
  "plain n \<longleftrightarrow> n \<noteq> [] \<and> list_all (\<lambda>c. visible c \<and> \<not> is_brace c) n"

lemma visible_chars [simp]:
  "visible (CHR ''}'')" "visible (CHR '';'')" "visible (CHR ''{'')" "visible (CHR ''d'')" "visible (CHR ''t'')" "visible (CHR ''c'')"
  "visible (CHR ''i'')" "visible (CHR ''o'')" "visible (CHR ''u'')" "visible (CHR ''l'')" "visible (CHR ''a'')" "visible (CHR ''r'')"
  by (simp_all add: visible_def)

lemma plain_visible: "plain n \<Longrightarrow> list_all visible n \<and> n \<noteq> [] \<and> clean n \<and> CHR '' '' \<notin> set n"
  by (auto simp: plain_def list_all_iff clean_def visible_def)

lemma clean_quoted_list: "list_all clean ifs \<Longrightarrow> clean (quoted_list ifs)"
  unfolding quoted_list_def by (rule clean_join) (auto simp: list_all_iff quoted_def)

lemma keeps_if_line:
  assumes "plain n" "\<not> ends_with ''-local'' n" "list_all clean ifs"
  shows "keeps (if_or_empty_line n ifs)" "keeps (if_line n ifs)"
proof -
  have keeps: "keeps (''  set '' @ n @ '' { type ifname;'' @ rest @ '' }'')" if "clean rest" for rest
    using set_line [of n "'' { type ifname;'' @ rest @ '' }''"] plain_visible [OF assms(1)] assms(2) that by (simp add: keeps_def)
  show "keeps (if_line n ifs)"
    using keeps [of "'' elements = { '' @ quoted_list ifs @ '' }''"] clean_quoted_list [OF assms(3)] by (simp add: if_line_def)
  then show "keeps (if_or_empty_line n ifs)"
    using keeps [of "[]"] by (simp add: if_or_empty_line_def)
qed

lemma expr_str_head: "\<exists>c s. expr_str e = c # s \<and> visible c \<and> c \<noteq> CHR ''s''"
  by (cases e) (auto simp: visible_def)

lemma join_Cons: "join sep (x # xs) = (if xs = [] then x else x @ sep @ join sep xs)"
  by (cases xs) simp_all

lemma join_exprs_head: "r \<noteq> [] \<Longrightarrow> \<exists>c s. join '' '' (map expr_str r) = c # s \<and> visible c \<and> c \<noteq> CHR ''s''"
  using expr_str_head [of "hd r"] by (cases r) (auto simp: join_Cons)

lemma join_exprs_last: "r \<noteq> [] \<Longrightarrow> last r = Comment c \<Longrightarrow> last (join '' '' (map expr_str r)) = CHR 0x22"
proof (induction r)
  case (Cons a r)
  then show ?case
    using join_exprs_head [of r] by (cases "r = []") (auto simp: join_Cons quoted_def)
qed simp

lemma keeps_rule:
  assumes "clean (rule_line r)" "r \<noteq> []" "last r = Comment c"
  shows "keeps (rule_line r)"
proof -
  obtain x s where s: "join '' '' (map expr_str r) = x # s" "visible x" "x \<noteq> CHR ''s''"
    using join_exprs_head [OF assms(2)] by blast
  have "last (rule_line r) = CHR 0x22"
    using join_exprs_last [OF assms(2,3)] s(1) by (simp add: rule_line_def)
  then show ?thesis
    using assms(1) not_set_line [OF s(2,3)] by (simp add: keeps_def rule_line_def s(1) trim_text_space)
qed

section \<open>Lines the reader empties\<close>

lemma ipv4_chars:
  "list_all (\<lambda>c. \<not> is_brace c \<and> c \<noteq> CHR 0x0A) (ipv4_str a)"
proof -
  have "of_char c \<in> {48 :: nat..57}" if "c \<in> set (dec n)" for c n
    using subsetD [OF set_dec that] by (auto simp: digit_def)
  then have "list_all (\<lambda>c. \<not> is_brace c \<and> c \<noteq> CHR 0x0A) (dec n)" for n
    unfolding list_all_iff is_brace_def by fastforce
  then show ?thesis
    by (simp add: ipv4_str_def octets_def is_brace_def)
qed

lemma join_chars: "list_all P sep \<Longrightarrow> list_all (list_all P) xs \<Longrightarrow> list_all P (join sep xs)"
  by (induction sep xs rule: join.induct) auto

lemma local_line:
  assumes "plain n" "ends_with ''-local'' n"
  shows "clean (local_line n vms)" "last (local_line n vms) \<noteq> CHR 0x0D" "one_line_set (local_line n vms)"
    "is_local_set_open (trim_text (local_line n vms))" "without_elements_clause (local_line n vms) = local_line n []"
proof -
  let ?els = "join '', '' (map ipv4_str vms)"
  have els: "list_all (\<lambda>c. \<not> is_brace c \<and> c \<noteq> CHR 0x0A) ?els"
    by (rule join_chars) (simp add: is_brace_def, simp add: list_all_iff [of _ "map _ _"] ipv4_chars)
  then have els': "list_all (\<lambda>c. \<not> is_brace c) ?els" "clean ?els"
    by (auto simp: list_all_iff clean_def)
  note n = plain_visible [OF assms(1)]
  have bal: "balance n = 0" "balance ?els = 0"
    using assms(1) els'(1) by (auto intro!: balance_plain simp: plain_def list_all_iff)
  show "clean (local_line n vms)" "last (local_line n vms) \<noteq> CHR 0x0D"
    using n els'(2) by (simp_all add: local_line_def)
  have line: "trim_text (local_line n vms) = ''set '' @ n @ rest \<and> is_local_set_open (''set '' @ n @ rest)"
    if "local_line n vms = ''  set '' @ n @ rest" "rest \<noteq> []" "hd rest = CHR '' ''" "last rest = CHR ''}''" for rest
    using set_line [of n rest] n that assms(2) by simp
  have "is_local_set_open (trim_text (local_line n vms)) \<and> balance (trim_text (local_line n vms)) = 0"
  proof (cases "vms = []")
    case True
    then show ?thesis
      using line [of "'' { type ipv4_addr; }''"] bal by (simp add: local_line_def) (simp add: balance_def)
  next
    case False
    then show ?thesis
      using line [of "'' { type ipv4_addr; elements = { '' @ ?els @ '' } }''"] bal by (simp add: local_line_def) (simp add: balance_def)
  qed
  then show "one_line_set (local_line n vms)" "is_local_set_open (trim_text (local_line n vms))"
    by (simp_all add: one_line_set_def)
  show "without_elements_clause (local_line n vms) = local_line n []"
    using cut_clause [of n ?els] n els'(1) by (simp add: local_line_def)
qed

section \<open>The whole text\<close>

definition emptied :: "Policy \<Rightarrow> Policy" where
  "emptied p = p\<lparr>pol_locals := map (\<lambda>(n, vms). (n, [])) (pol_locals p)\<rparr>"

definition policy_clean :: "Policy \<Rightarrow> bool" where
  "policy_clean p \<longleftrightarrow>
     list_all clean (pol_admin p) \<and> list_all clean (pol_cfab p) \<and>
     list_all (\<lambda>(n, ifs). plain n \<and> \<not> ends_with ''-local'' n \<and> list_all clean ifs) (pol_zones p) \<and>
     list_all (\<lambda>(n, vms). plain n \<and> ends_with ''-local'' n) (pol_locals p) \<and>
     list_all (\<lambda>r. clean (rule_line r) \<and> r \<noteq> [] \<and> (\<exists>c. last r = Comment c)) (pol_rules p)"

text \<open>A line is kept, or is the line of a set of local machines and is emptied.\<close>

definition emptied_line :: "string \<Rightarrow> string" where
  "emptied_line l = (if is_local_set_open (trim_text l) then without_elements_clause l else l)"

lemma keeps_fixed:
  "keeps ''table inet cfab-fwd''" "keeps ''delete table inet cfab-fwd''" "keeps ''table inet cfab-fwd {''" "keeps ''  chain forward {''"
  "keeps ''    type filter hook forward priority filter; policy drop;''" "keeps ''  }''" "keeps ''}''"
  by (simp_all add: keeps_def trim_text_space not_set_line)

lemma policy_clean_parts:
  assumes "policy_clean p"
  shows "keeps (if_or_empty_line ''admin'' (pol_admin p))" "keeps (if_line ''cfab'' (pol_cfab p))"
    and "e \<in> set (pol_zones p) \<Longrightarrow> keeps (case e of (n, ifs) \<Rightarrow> if_or_empty_line n ifs)"
    and "s \<in> set (pol_locals p) \<Longrightarrow> plain (fst s) \<and> ends_with ''-local'' (fst s)"
    and "r \<in> set (pol_rules p) \<Longrightarrow> keeps (rule_line r)"
proof -
  have "plain ''admin''" "plain ''cfab''" "\<not> ends_with ''-local'' ''admin''" "\<not> ends_with ''-local'' ''cfab''"
    by (simp_all add: plain_def visible_def is_brace_def ends_with_def)
  then show "keeps (if_or_empty_line ''admin'' (pol_admin p))" "keeps (if_line ''cfab'' (pol_cfab p))"
    using assms keeps_if_line unfolding policy_clean_def by blast+
  show "e \<in> set (pol_zones p) \<Longrightarrow> keeps (case e of (n, ifs) \<Rightarrow> if_or_empty_line n ifs)"
    using assms keeps_if_line(1) [of "fst e" "snd e"] unfolding policy_clean_def list_all_iff [of _ "pol_zones p"] split_beta by blast
  show "s \<in> set (pol_locals p) \<Longrightarrow> plain (fst s) \<and> ends_with ''-local'' (fst s)"
    using assms unfolding policy_clean_def list_all_iff [of _ "pol_locals p"] split_beta by blast
  show "r \<in> set (pol_rules p) \<Longrightarrow> keeps (rule_line r)"
    using assms keeps_rule unfolding policy_clean_def list_all_iff [of _ "pol_rules p"] by blast
qed

definition readable :: "string \<Rightarrow> bool" where
  "readable l \<longleftrightarrow> (clean l \<and> (l = [] \<or> last l \<noteq> CHR 0x0D)) \<and> one_line_set l"

lemma readable_lines:
  assumes "policy_clean p"
  shows "list_all readable (policy_lines p)"
proof -
  note parts = policy_clean_parts [OF assms]
  have keeps: "keeps l \<Longrightarrow> readable l" for l
    by (simp add: keeps_def readable_def one_line_set_def)
  have "readable (case s of (n, vms) \<Rightarrow> local_line n vms)" if "s \<in> set (pol_locals p)" for s
    using local_line(1,2,3) [of "fst s" "snd s"] parts(4) [OF that] by (simp add: readable_def split_beta)
  then show ?thesis
    unfolding policy_lines_def list_all_append
    using keeps_fixed [THEN keeps] parts(1,2,3,5) [THEN keeps] by (simp add: list_all_iff [of _ "map _ _"])
qed

lemma emptied_lines:
  assumes "policy_clean p"
  shows "map emptied_line (policy_lines p) = policy_lines (emptied p)"
proof -
  note parts = policy_clean_parts [OF assms]
  have keep: "keeps l \<Longrightarrow> emptied_line l = l" for l
    by (simp add: emptied_line_def keeps_def)
  have "map (emptied_line \<circ> (\<lambda>(n, ifs). if_or_empty_line n ifs)) (pol_zones p) = map (\<lambda>(n, ifs). if_or_empty_line n ifs) (pol_zones p)"
    by (rule map_cong [OF refl]) (use keep [OF parts(3)] in simp)
  moreover have "map (emptied_line \<circ> (\<lambda>(n, vms). local_line n vms)) (pol_locals p) =
      map ((\<lambda>(n, vms). local_line n vms) \<circ> (\<lambda>(n, vms). (n, []))) (pol_locals p)"
    by (rule map_cong [OF refl]) (use local_line(4,5) parts(4) in \<open>simp add: emptied_line_def split_beta\<close>)
  moreover have "map (emptied_line \<circ> rule_line) (pol_rules p) = map rule_line (pol_rules p)"
    by (rule map_cong [OF refl]) (use keep [OF parts(5)] in simp)
  ultimately show ?thesis
    unfolding policy_lines_def emptied_def map_append list.map map_map by (simp add: keep keeps_fixed parts(1,2))
qed

lemma without_local_elements_policy:
  assumes "policy_clean p"
  shows "without_local_elements (policy_str p) = policy_str (emptied p)"
proof -
  have "list_all (\<lambda>l. clean l \<and> (l = [] \<or> last l \<noteq> CHR 0x0D)) (policy_lines p)" "list_all one_line_set (policy_lines p)"
    using readable_lines [OF assms] unfolding readable_def by (simp_all add: list_all_iff)
  then show ?thesis
    unfolding without_local_elements_def policy_str_lines
    by (simp add: str_lines_printed scan_lines_flat emptied_line_def [symmetric] emptied_lines [OF assms])
qed

section \<open>The names of an accepted fabric\<close>

definition plain_names :: "Fabric \<Rightarrow> bool" where
  "plain_names f \<longleftrightarrow>
     list_all (\<lambda>z. plain (zone_name z) \<and> \<not> ends_with ''-local'' (zone_name z)) (fab_zones f) \<and>
     list_all (\<lambda>s. plain (seg_ifname s)) (fab_segments f) \<and>
     list_all (\<lambda>m. list_all (\<lambda>w. plain (wire_name w)) (mem_wires m)) (fab_members f) \<and>
     list_all (\<lambda>wl. plain (wl_name wl)) (fab_workloads f)"

lemma clean_fixed_names: "clean (gw_ifname i)" "clean (fst (identity_ifnames i))" "clean (snd (identity_ifnames i))"
  by (simp_all add: gw_ifname_def identity_ifnames_def)

lemma class_rows_clean:
  assumes "plain_names f" "class_rows_of f m = Ok cs" "r \<in> set cs"
  shows "clean (cr_ifname r)"
proof -
  obtain s where "s \<in> set (fab_segments f)" "class_row m (prefs_of f m) s = Ok (Some r)"
    using assms(2,3) by (auto simp: class_rows_of_def filter_map_out_def List.map_filter_def outcome_simps dest!: map_out_all)
  moreover from this have "cr_ifname r = seg_ifname s"
    by (auto simp: class_row_def outcome_simps split: option.splits)
  ultimately show ?thesis
    using assms(1) plain_visible by (simp add: plain_names_def list_all_iff [of _ "fab_segments f"])
qed

lemma ports_clean:
  assumes "clean i" "\<And>w. w \<in> set (mem_wires m) \<Longrightarrow> clean (wire_domain w)" "p \<in> set (ports_of m i)"
  shows "clean (port_ifname p)"
  using assms by (auto simp: ports_of_def)

lemma fallback_rows_clean:
  assumes "plain_names f" "fallback_rows_of f m = Ok fs" "r \<in> set fs" "\<And>w. w \<in> set (mem_wires m) \<Longrightarrow> clean (wire_domain w)"
  shows "clean (fr_ifname r)" "p \<in> set (fr_ports r) \<Longrightarrow> clean (port_ifname p)"
proof -
  obtain s where s: "s \<in> set (fab_segments f)" "fallback_row f m s = Ok (Some r)"
    using assms(2,3) by (auto simp: fallback_rows_of_def filter_map_out_def List.map_filter_def outcome_simps dest!: map_out_all)
  then have r: "fr_ifname r = seg_ifname s" "fr_ports r = ports_of m (seg_ifname s)"
    by (auto simp: fallback_row_def Let_def outcome_simps split: option.splits)
  show "clean (fr_ifname r)"
    using assms(1) s(1) plain_visible unfolding r by (simp add: plain_names_def list_all_iff [of _ "fab_segments f"])
  then show "p \<in> set (fr_ports r) \<Longrightarrow> clean (port_ifname p)"
    using ports_clean assms(4) unfolding r by blast
qed

lemma gw_rows_clean:
  assumes "gw_rows_of f m = Ok gs" "r \<in> set gs" "\<And>w. w \<in> set (mem_wires m) \<Longrightarrow> clean (wire_domain w)"
  shows "clean (gr_ifname r)" "p \<in> set (gr_ports r) \<Longrightarrow> clean (port_ifname p)"
proof -
  obtain z where "gw_row f m z = Ok (Some r)"
    using assms(1,2) by (auto simp: gw_rows_of_def filter_map_out_def List.map_filter_def outcome_simps split: if_splits dest!: map_out_all)
  then have r: "gr_ifname r = gw_ifname (zone_id z)" "set (gr_ports r) \<subseteq> set (ports_of m (gw_ifname (zone_id z)))"
    by (auto simp: gw_row_def Let_def outcome_simps split: option.splits SegScope.splits)
  show "clean (gr_ifname r)"
    unfolding r by (rule clean_fixed_names)
  show "p \<in> set (gr_ports r) \<Longrightarrow> clean (port_ifname p)"
    using ports_clean [OF clean_fixed_names(1) assms(3)] r(2) by blast
qed

lemma zone_ifs_clean:
  assumes "plain_names f" "zone_ifs \<lparr>v_fabric = f, v_member = m\<rparr> z = Ok ifs" "\<And>w. w \<in> set (mem_wires m) \<Longrightarrow> clean (wire_domain w)"
  shows "list_all clean ifs"
  using assms(2) class_rows_clean [OF assms(1)] fallback_rows_clean(1) [OF assms(1) _ _ assms(3)] gw_rows_clean(1) [OF _ _ assms(3)]
  by (auto simp: zone_ifs_def class_rows_def fallback_rows_def gw_rows_def outcome_simps list_all_iff)

lemma plain_leg: "plain (wl_name wl) \<Longrightarrow> plain (leg_ifname wl)"
  by (auto simp: plain_def leg_ifname_def Let_def LEG_PREFIX_def list_all_iff visible_def is_brace_def dest!: in_set_takeD)

lemma plain_local_set: "plain (wl_name wl) \<Longrightarrow> plain (local_set wl) \<and> ends_with ''-local'' (local_set wl)"
  using plain_leg [of wl] by (simp add: plain_def local_set_def ends_with_def visible_def is_brace_def)

lemma workload_rows_plain:
  assumes "plain_names f" "row \<in> set (workload_rows \<lparr>v_fabric = f, v_member = m\<rparr>)"
  shows "plain (wl_name (wr_wl row))" "wr_wl row \<in> set (fab_workloads f)"
proof -
  show "wr_wl row \<in> set (fab_workloads f)"
    using assms(2) by (auto simp: workload_rows_def List.map_filter_def)
  then show "plain (wl_name (wr_wl row))"
    using assms(1) by (auto simp: plain_names_def list_all_iff [of _ "fab_workloads f"])
qed

lemma owned_clean:
  assumes "plain_names f" "m \<in> set (fab_members f)" "owned_forwarding \<lparr>v_fabric = f, v_member = m\<rparr> = Ok own"
    and "\<And>w. w \<in> set (mem_wires m) \<Longrightarrow> clean (wire_domain w)"
  shows "list_all clean (map fst own)"
proof -
  obtain cs gs fs where rows: "class_rows_of f m = Ok cs" "gw_rows_of f m = Ok gs" "fallback_rows_of f m = Ok fs"
    "own = dedup_fst (sort (forwarding_entries f m cs gs fs))"
    using assms(3)
    by (auto simp: owned_forwarding_def forwarding_entries_def Let_def class_rows_def gw_rows_def fallback_rows_def outcome_simps)
  have wires: "clean (wire_name w)" if "w \<in> set (mem_wires m)" for w
    using assms(1,2) that plain_visible unfolding plain_names_def list_all_iff by blast
  have legs: "clean (leg_ifname (wr_wl row))" if "row \<in> set (workload_rows \<lparr>v_fabric = f, v_member = m\<rparr>)" for row
    using plain_visible [OF plain_leg [OF workload_rows_plain(1) [OF assms(1) that]]] by blast
  have "clean n" if "(n, b) \<in> set (forwarding_entries f m cs gs fs)" for n b
    using that wires legs class_rows_clean [OF assms(1) rows(1)] gw_rows_clean [OF rows(2) _ assms(4)]
      fallback_rows_clean [OF assms(1) rows(3) _ assms(4)] clean_fixed_names(2,3)
    unfolding forwarding_entries_def Let_def split_beta by auto
  then show ?thesis
    using dedup_fst_subset [of "sort (forwarding_entries f m cs gs fs)"] unfolding rows(4) by (fastforce simp: list_all_iff)
qed

definition clean_rule :: "Rule \<Rightarrow> bool" where
  "clean_rule r \<longleftrightarrow> list_all (\<lambda>e. clean (expr_str e)) r \<and> r \<noteq> [] \<and> (\<exists>c. last r = Comment c)"

lemma clean_rule_line: "clean_rule r \<Longrightarrow> clean (rule_line r) \<and> r \<noteq> [] \<and> (\<exists>c. last r = Comment c)"
  unfolding clean_rule_def rule_line_def by (auto simp: list_all_iff intro: clean_join)

lemma clean_rules:
  "list_all clean_rule head_rules" "clean_rule return_rule" "clean_rule [Counter, Comment ''default-deny'']"
  "clean a \<Longrightarrow> clean b \<Longrightarrow> clean_rule (allow_rule (a, b))"
  by (simp_all add: clean_rule_def head_rules_def return_rule_def allow_rule_def quoted_def)

lemma clean_workload_rules:
  assumes "plain (wl_name wl)" "\<And>z. z \<in> set (wl_allow wl) \<Longrightarrow> clean z"
  shows "list_all clean_rule (stray_rules wl)" "z \<in> set (wl_allow wl) \<Longrightarrow> list_all clean_rule (zone_pair wl z)"
    and "gw_pair f wl g = Ok rs \<Longrightarrow> clean (gr_ifname g) \<Longrightarrow> list_all clean_rule rs"
proof -
  have "clean (leg_ifname wl)" "clean (local_set wl)" "clean (wl_name wl)"
    using plain_visible plain_leg plain_local_set assms(1) by blast+
  note names = this
  show "list_all clean_rule (stray_rules wl)" "z \<in> set (wl_allow wl) \<Longrightarrow> list_all clean_rule (zone_pair wl z)"
    using assms(2) names by (auto simp: stray_rules_def zone_pair_def clean_rule_def quoted_def list_all_iff [of _ "map _ _"])
  show "gw_pair f wl g = Ok rs \<Longrightarrow> clean (gr_ifname g) \<Longrightarrow> list_all clean_rule rs"
    using names by (auto simp: gw_pair_def Let_def clean_rule_def quoted_def outcome_simps)
qed

lemma accepted_policy_clean:
  assumes "from_decl d = Ok f" "m \<in> set (fab_members f)" "plain_names f"
    and p: "policy_of \<lparr>v_fabric = f, v_member = m\<rparr> locals = Ok p"
  shows "policy_clean p"
proof -
  let ?v = "\<lparr>v_fabric = f, v_member = m\<rparr>"
  have domains: "clean (wire_domain w)" if "w \<in> set (mem_wires m)" for w
  proof -
    have "wire_domain w \<in> set (fab_domains f)"
      using checked_members(3) [OF accepted_checked [OF assms(1)] assms(2)] that by blast
    then show ?thesis
      using resolved_domains [OF accepted_resolved [OF assms(1)]] by (force simp: clean_def list_all_iff is_ascii_alphabetic_def)
  qed
  obtain gws zones own pairs where parts: "gw_rows ?v = Ok gws" "map_out (zone_set ?v) (fab_zones f) = Ok zones"
    "owned_forwarding ?v = Ok own" "gw_pairs ?v gws = Ok pairs" "pol_admin p = admin_ifs ?v" "pol_zones p = zones" "pol_cfab p = map fst own"
    "pol_locals p = map (local_elements locals) (workload_rows ?v)"
    "pol_rules p = head_rules @ concat (map (stray_rules \<circ> wr_wl) (workload_rows ?v)) @ return_rule # map allow_rule (fab_forward_allow f) @
       concat (map (\<lambda>row. concat (map (zone_pair (wr_wl row)) (wl_allow (wr_wl row)))) (workload_rows ?v)) @ pairs @
       [[Counter, Comment ''default-deny'']]"
    using p by (auto simp: policy_of_def outcome_simps)
  have zone: "plain (zone_name z) \<and> \<not> ends_with ''-local'' (zone_name z)" if "z \<in> set (fab_zones f)" for z
    using assms(3) that by (auto simp: plain_names_def list_all_iff [of _ "fab_zones f"])
  then have zone_clean: "clean n" if "n \<in> zone_name ` set (fab_zones f)" for n
    using that plain_visible by blast
  have wires: "list_all clean (pol_admin p)"
    using assms(2,3) plain_visible unfolding parts(5) admin_ifs_def plain_names_def list_all_iff by (cases "mem_kind m") auto
  have sets: "list_all (\<lambda>(n, ifs). plain n \<and> \<not> ends_with ''-local'' n \<and> list_all clean ifs) (pol_zones p)"
    unfolding parts(6) list_all_iff [of _ zones] using zone zone_ifs_clean [OF assms(3) _ domains]
    by (fastforce simp: zone_set_def outcome_simps dest!: map_out_all [OF parts(2)])
  have locals: "list_all (\<lambda>(n, vms). plain n \<and> ends_with ''-local'' n) (pol_locals p)"
    unfolding parts(8) list_all_iff
    using plain_local_set [OF workload_rows_plain(1) [OF assms(3)]] by (auto simp: local_elements_def Let_def split_beta)
  have wl: "list_all clean_rule (stray_rules (wr_wl row)) \<and> (\<forall>z\<in>set (wl_allow (wr_wl row)). list_all clean_rule (zone_pair (wr_wl row) z)) \<and>
      (\<forall>g\<in>set gws. \<forall>rs. gw_pair f (wr_wl row) g = Ok rs \<longrightarrow> list_all clean_rule rs)" if "row \<in> set (workload_rows ?v)" for row
  proof -
    have "clean z" if "z \<in> set (wl_allow (wr_wl row))" for z
      using accepted_allow [OF assms(1) workload_rows_plain(2) [OF assms(3) \<open>row \<in> _\<close>] that] zone_clean by blast
    then show ?thesis
      using clean_workload_rules [OF workload_rows_plain(1) [OF assms(3) that]] gw_rows_clean(1) [OF _ _ domains] parts(1)
      by (auto simp: gw_rows_def)
  qed
  have "clean_rule r" if "r \<in> set pairs" for r
    using that wl unfolding gw_pairs_each(1) [OF parts(4)] by (auto simp: list_all_iff [of clean_rule])
  moreover have "clean_rule (allow_rule a)" if "a \<in> set (fab_forward_allow f)" for a
    using accepted_forward [OF assms(1), of "fst a" "snd a"] that zone_clean clean_rules(4) [of "fst a" "snd a"] by simp
  ultimately have "list_all clean_rule (pol_rules p)"
    unfolding parts(9) list_all_append list.pred_inject using clean_rules(1,2,3) wl by (auto simp: list_all_iff [of clean_rule])
  then have "list_all (\<lambda>r. clean (rule_line r) \<and> r \<noteq> [] \<and> (\<exists>c. last r = Comment c)) (pol_rules p)"
    using clean_rule_line by (auto simp: list_all_iff [of _ "pol_rules p"])
  then show ?thesis
    unfolding policy_clean_def using wires sets locals owned_clean [OF assms(3,2) parts(3) domains] parts(7) by simp
qed

lemma policy_of_emptied: "policy_of v locals = Ok p \<Longrightarrow> policy_of v [] = Ok (emptied p)"
  by (auto simp: policy_of_def outcome_simps emptied_def local_elements_def Let_def split_beta)

text \<open>C29: the comparison of policies sees everything but the machines. On a member of an accepted
  fabric whose names are plain words and whose zones are not called like a set of local machines,
  taking the elements of those sets out of any seeded policy gives exactly the policy that is
  printed without seeds. So two policies of one declaration always compare equal, whatever machines
  came and went between them, and policies whose unseeded texts differ never do.\<close>

theorem comparison_ignores_machines:
  assumes "from_decl d = Ok f" "m \<in> set (fab_members f)" "plain_names f"
  defines "v \<equiv> \<lparr>v_fabric = f, v_member = m\<rparr>"
  shows "\<exists>seeded unseeded. generate_seeded v locals = Ok seeded \<and> generate v = Ok unseeded \<and>
    without_local_elements seeded = unseeded"
proof -
  obtain p where p: "policy_of v locals = Ok p"
    unfolding v_def using policy_of_total [OF assms(1,2)] by blast
  then have "policy_clean p"
    unfolding v_def by (rule accepted_policy_clean [OF assms(1,2,3)])
  then show ?thesis
    using p policy_of_emptied [OF p] without_local_elements_policy by (simp add: generate_seeded_def generate_def)
qed

theorem comparison_ignores_machines_witness:
  "\<exists>seeded unseeded. generate_seeded \<lparr>v_fabric = sample_fabric, v_member = sample_h1\<rparr> [(''cfab-work-vms-local'', [0xc0a81407, 0xc0a81409])] = Ok seeded \<and>
     generate \<lparr>v_fabric = sample_fabric, v_member = sample_h1\<rparr> = Ok unseeded \<and> without_local_elements seeded = unseeded"
proof (rule comparison_ignores_machines [OF sample_accepted])
  show "sample_h1 \<in> set (fab_members sample_fabric)"
    by (simp add: sample_fabric_def)
  show "plain_names sample_fabric"
    by code_simp
qed

end
