(* ===== verification/Emit_Mark.thy ===== *)
theory Emit_Mark
  imports Emit_Transit
begin

text \<open>
  Traffic-class marking (\<open>emit/mark.rs\<close>): the ceiling of control packets on a fallback bond and its
  arithmetic, the table \<open>inet cfab\<close> with its two chains, and its text.
\<close>

section \<open>The ceiling\<close>

definition CEILING_HEADROOM :: u64 where "CEILING_HEADROOM = 4"
definition CEILING_RXMT_SECS :: u64 where "CEILING_RXMT_SECS = 5"
definition CEILING_FLOOR_PPS :: u64 where "CEILING_FLOOR_PPS = 20"

record Ceiling =
  ce_zone :: string
  ce_ifname :: string
  ce_members :: u64
  ce_lans :: u64
  ce_lsas :: u64
  ce_peers :: u64
  ce_base_pps :: u64
  ce_rate_pps :: u64
  ce_burst_pkts :: u64

definition div_ceil :: "u64 \<Rightarrow> u64 \<Rightarrow> u64" where
  "div_ceil a b = (if a mod b > 0 then a div b + 1 else a div b)"

definition ceiling_pps :: "u64 \<Rightarrow> u64 \<Rightarrow> u32 \<Rightarrow> u64 \<times> u64 \<times> u64 \<times> u64" where
  "ceiling_pps members lans hello_s =
     (let peers = (if members = 0 then 0 else members - 1);
          lsas = members + lans;
          hello = div_ceil 1 (max (ucast hello_s) 1);
          flood = 2 * lsas;
          retx = div_ceil (lsas * peers) CEILING_RXMT_SECS;
          base = hello + flood + retx;
          rate = max (base * CEILING_HEADROOM) (CEILING_FLOOR_PPS * CEILING_HEADROOM) in
      (peers, lsas, base, rate))"

definition udec :: "u64 \<Rightarrow> string" where
  "udec w = dec (unat w)"

definition ceiling_comment :: "Ceiling \<Rightarrow> string" where
  "ceiling_comment ce =
     ''    # ceiling '' @ ce_zone ce @ '': '' @ udec (ce_members ce) @ '' members, '' @ udec (ce_lsas ce) @ '' LSAs ('' @
     udec (ce_members ce) @ '' router + '' @ udec (ce_lans ce) @ '' network), '' @ udec (ce_peers ce) @ '' peers'' @ [CHR 0x0A] @
     ''    #   base = 1 hello + 2x'' @ udec (ce_lsas ce) @ '' flood + ceil('' @ udec (ce_lsas ce) @ ''x'' @ udec (ce_peers ce) @ ''/'' @
     udec CEILING_RXMT_SECS @ '') retx = '' @ udec (ce_base_pps ce) @ '' pkt/s; x'' @ udec CEILING_HEADROOM @ '' headroom = '' @
     udec (ce_base_pps ce * CEILING_HEADROOM) @ ''; floor '' @ udec CEILING_FLOOR_PPS @ '' pkt/s (measured burst) x'' @
     udec CEILING_HEADROOM @ '' = '' @ udec (CEILING_FLOOR_PPS * CEILING_HEADROOM) @ [CHR 0x0A]"

definition zone_members :: "Fabric \<Rightarrow> string \<Rightarrow> nat result" where
  "zone_members f zone =
     and_then (map_out (class_rows_of f) (fab_members f)) (\<lambda>rows.
       Ok (length (filter (\<lambda>cs. \<exists>c\<in>set cs. cr_zone c = zone) rows)))"

definition ceiling_of :: "Fabric \<Rightarrow> FallbackRow \<Rightarrow> Ceiling result" where
  "ceiling_of f r =
     and_then (zone_members f (fr_zone r)) (\<lambda>n.
       let members = of_nat n;
           lans = of_nat (length (filter (\<lambda>s. seg_zone s = fr_zone r) (fab_segments f)));
           (peers, lsas, base_pps, rate_pps) = ceiling_pps members lans (fab_ospf_hello f) in
       Ok \<lparr>ce_zone = fr_zone r, ce_ifname = fr_ifname r, ce_members = members, ce_lans = lans, ce_lsas = lsas,
           ce_peers = peers, ce_base_pps = base_pps, ce_rate_pps = rate_pps, ce_burst_pkts = rate_pps * 2\<rparr>)"

definition ceilings :: "View \<Rightarrow> Ceiling list result" where
  "ceilings v = and_then (fallback_rows v) (\<lambda>rows. map_out (ceiling_of (v_fabric v)) rows)"

section \<open>The chains\<close>

definition ceiling_rule :: "Ceiling \<Rightarrow> Rule" where
  "ceiling_rule ce =
     [OifAmong [ce_ifname ce], IpProtocol 89, RateOver (unat (ce_rate_pps ce)) (unat (ce_burst_pkts ce)), Counter, Drop,
      Comment (''ceiling-'' @ ce_zone ce)]"

definition clamp_rules :: "Fabric \<Rightarrow> Zone \<Rightarrow> string list \<Rightarrow> Rule list" where
  "clamp_rules f z ifs =
     (if ifs = [] then []
      else [[OifAmong ifs, IpProtocol 89, Return, Comment (''guard-'' @ zone_name z @ ''-ospf'')],
            [OifAmong ifs, UdpDport (fab_bfd_port f), Return, Comment (''guard-'' @ zone_name z @ ''-bfd'')],
            [OifAmong ifs, DscpSet (dscp_str (zone_dscp z)), Comment (''dscp-'' @ zone_name z @ ''-bulk'')]])"

definition clamps :: "View \<Rightarrow> Rule list result" where
  "clamps v =
     (if fab_dscp_mark (v_fabric v)
      then and_then (map_out (\<lambda>z. and_then (zone_ifs v (zone_name z)) (\<lambda>ifs. Ok (clamp_rules (v_fabric v) z ifs))) (fab_zones (v_fabric v)))
        (\<lambda>rs. Ok (concat rs))
      else Ok [])"

definition vm_zone_rules :: "View \<Rightarrow> Workload \<Rightarrow> string \<Rightarrow> Rule list result" where
  "vm_zone_rules v wl zname =
     and_then (zone_ifs v zname) (\<lambda>ifs.
       if ifs = [] then Ok []
       else and_then (zone_of (v_fabric v) zname) (\<lambda>z.
         Ok [[IifIs (leg_ifname wl), OifAmong ifs, DscpSet (dscp_str (zone_dscp z)), Comment (''dscp-'' @ wl_name wl @ ''-'' @ zname)]]))"

definition vm_gw_rule :: "View \<Rightarrow> Workload \<Rightarrow> GwRow \<Rightarrow> Rule result" where
  "vm_gw_rule v wl r =
     and_then (zone_of (v_fabric v) (gr_zone r)) (\<lambda>z.
       Ok [IifIs (leg_ifname wl), OifIs (gr_ifname r), DscpSet (dscp_str (zone_dscp z)),
           Comment (''dscp-'' @ wl_name wl @ ''-gw'' @ dec (unat (zone_id z)))])"

definition vm_rules :: "View \<Rightarrow> WorkloadRow \<Rightarrow> Rule list result" where
  "vm_rules v row =
     and_then (map_out (vm_zone_rules v (wr_wl row)) (wl_allow (wr_wl row))) (\<lambda>zones.
     and_then (gw_rows v) (\<lambda>gws.
     and_then (map_out (vm_gw_rule v (wr_wl row)) gws) (\<lambda>gw.
       Ok (concat zones @ gw))))"

record MarkTable =
  mk_ceilings :: "Ceiling list"
  mk_clamps :: "Rule list"
  mk_forward :: "Rule list option"

definition mark_table :: "View \<Rightarrow> MarkTable result" where
  "mark_table v =
     and_then (ceilings v) (\<lambda>ces.
     and_then (clamps v) (\<lambda>cl.
     and_then (if workload_rows v = [] then Ok None
               else and_then (map_out (vm_rules v) (workload_rows v)) (\<lambda>rs. Ok (Some (concat rs)))) (\<lambda>fwd.
       Ok \<lparr>mk_ceilings = ces, mk_clamps = cl, mk_forward = fwd\<rparr>)))"

definition out_chain :: "MarkTable \<Rightarrow> Rule list" where
  "out_chain t = map ceiling_rule (mk_ceilings t) @ mk_clamps t"

definition mark_str :: "MarkTable \<Rightarrow> string" where
  "mark_str t =
     ''table inet cfab'' @ [CHR 0x0A] @ ''delete table inet cfab'' @ [CHR 0x0A] @ ''table inet cfab {'' @ [CHR 0x0A] @
     ''  chain out {'' @ [CHR 0x0A] @ ''    type filter hook output priority mangle;'' @ [CHR 0x0A] @
     concat (map (\<lambda>ce. ceiling_comment ce @ rule_str (ceiling_rule ce)) (mk_ceilings t)) @
     concat (map rule_str (mk_clamps t)) @
     ''  }'' @ [CHR 0x0A] @
     (case mk_forward t of
        None \<Rightarrow> []
      | Some rs \<Rightarrow> ''  chain forward {'' @ [CHR 0x0A] @ ''    type filter hook forward priority mangle; policy accept;'' @ [CHR 0x0A] @
          concat (map rule_str rs) @ ''  }'' @ [CHR 0x0A]) @
     ''}'' @ [CHR 0x0A]"

definition mark_generate :: "View \<Rightarrow> string result" where
  "mark_generate v = and_then (mark_table v) (\<lambda>t. Ok (mark_str t))"

section \<open>What the ceiling is\<close>

text \<open>The rate over the natural numbers: a hello, a flood of every announcement with its
  acknowledgement, a round of retransmissions, with headroom, and never below the measured burst.\<close>

definition cadence :: "nat \<Rightarrow> nat \<Rightarrow> nat" where
  "cadence members lans =
     (let lsas = members + lans; peers = members - 1 in 1 + 2 * lsas + (lsas * peers + 4) div 5)"

lemma of_nat_small: "a < 2 ^ 64 \<Longrightarrow> unat (of_nat a :: u64) = a"
  by (simp add: unat_of_nat)

lemma div_ceil_5:
  assumes "a < 2 ^ 64"
  shows "div_ceil (of_nat a) 5 = of_nat ((a + 4) div 5)"
proof -
  have "unat ((of_nat a :: u64) div 5) = a div 5" "unat ((of_nat a :: u64) mod 5) = a mod 5"
    using of_nat_small [OF assms] by (simp_all add: unat_div_distrib unat_mod_distrib)
  then have "(of_nat a :: u64) div 5 = of_nat (a div 5)" "0 < (of_nat a :: u64) mod 5 \<longleftrightarrow> 0 < a mod 5"
    using of_nat_small [of "a div 5"] assms by (simp_all add: word_unat_eq_iff word_less_nat_alt)
  moreover have "(a + 4) div 5 = (if 0 < a mod 5 then a div 5 + 1 else a div 5)"
    by presburger
  ultimately show ?thesis
    by (simp add: div_ceil_def)
qed

lemma one_hello: "div_ceil 1 (max (ucast (h :: u32)) 1) = 1"
proof -
  let ?b = "max (ucast h) 1 :: u64"
  have b: "1 \<le> unat ?b"
    by (metis max.cobounded2 unat_1 word_le_nat_alt)
  have "unat (1 div ?b) = 1 div unat ?b" "unat (1 mod ?b) = 1 mod unat ?b"
    using unat_div_distrib [of 1 ?b] unat_mod_distrib [of 1 ?b] by (simp_all only: unat_1)
  then have "1 div ?b = 0 \<and> 0 < 1 mod ?b" if "?b \<noteq> 1"
  proof -
    have "1 < unat ?b"
      using b that by (metis le_neq_implies_less unat_1 word_unat_eq_iff)
    then show ?thesis
      using \<open>unat (1 div ?b) = _\<close> \<open>unat (1 mod ?b) = _\<close> by (simp add: word_unat_eq_iff word_less_nat_alt)
  qed
  then show ?thesis
    by (cases "?b = 1") (simp_all add: div_ceil_def)
qed

lemma of_nat_max: "a < 2 ^ 64 \<Longrightarrow> b < 2 ^ 64 \<Longrightarrow> max (of_nat a) (of_nat b) = (of_nat (max a b) :: u64)"
  by (auto simp: max_def word_le_nat_alt of_nat_small)

lemma cadence_bound:
  assumes "members \<le> 256" "lans \<le> 53"
  shows "cadence members lans \<le> 16378"
proof -
  have "(members + lans) * (members - 1) \<le> 309 * 255"
    using assms by (intro mult_le_mono) auto
  then have "((members + lans) * (members - 1) + 4) div 5 \<le> (309 * 255 + 4) div 5"
    by (intro div_le_mono) simp
  then show ?thesis
    using assms unfolding cadence_def Let_def by simp
qed

lemma ceiling_pps_exact:
  assumes "members \<le> 256" "lans \<le> 53"
  shows "ceiling_pps (of_nat members) (of_nat lans) h =
    (of_nat (members - 1), of_nat (members + lans), of_nat (cadence members lans), of_nat (max (4 * cadence members lans) 80))"
proof -
  let ?c = "cadence members lans"
  have "(members + lans) * (members - 1) \<le> 309 * 255"
    using assms by (intro mult_le_mono) auto
  then have retx: "div_ceil (of_nat ((members + lans) * (members - 1))) 5 = of_nat (((members + lans) * (members - 1) + 4) div 5)"
    by (intro div_ceil_5) simp
  have peers: "(if of_nat members = (0 :: u64) then 0 else of_nat members - 1) = (of_nat (members - 1) :: u64)"
  proof (cases members)
    case (Suc n)
    have "unat (of_nat members :: u64) = members"
      using assms(1) by (intro of_nat_small) simp
    then have "of_nat members \<noteq> (0 :: u64)"
      using Suc by (metis nat.distinct(1) unat_0)
    then show ?thesis
      using Suc by simp
  qed simp
  have base: "1 + 2 * (of_nat members + of_nat lans) + div_ceil ((of_nat members + of_nat lans) * of_nat (members - 1)) CEILING_RXMT_SECS = (of_nat ?c :: u64)"
    using retx unfolding cadence_def Let_def CEILING_RXMT_SECS_def by simp
  have "max (of_nat ?c * CEILING_HEADROOM) (CEILING_FLOOR_PPS * CEILING_HEADROOM) = (of_nat (max (4 * ?c) 80) :: u64)"
    using of_nat_max [of "4 * ?c" 80] cadence_bound [OF assms] by (simp add: CEILING_HEADROOM_def CEILING_FLOOR_PPS_def mult.commute)
  then show ?thesis
    unfolding ceiling_pps_def Let_def one_hello peers base by simp
qed

lemma zone_members_total:
  assumes "from_decl d = Ok f"
  obtains n where "zone_members f zone = Ok n" "n \<le> 256"
proof -
  have sized: "sized f"
    by (rule accepted_sized [OF assms])
  have "map_out (class_rows_of f) (fab_members f) = Ok (map (the_rows f) (fab_members f))"
    by (rule map_out_eq) (rule class_rows_total [OF sized_ranked [OF sized]])
  then have "zone_members f zone = Ok (length (filter (\<lambda>cs. \<exists>c\<in>set cs. cr_zone c = zone) (map (the_rows f) (fab_members f))))"
    by (simp add: zone_members_def)
  moreover have "length (filter (\<lambda>cs. \<exists>c\<in>set cs. cr_zone c = zone) (map (the_rows f) (fab_members f))) \<le> 256"
    by (rule le_trans [OF length_filter_le]) (use sized in \<open>simp add: sized_def\<close>)
  ultimately show ?thesis
    using that by blast
qed

lemma ceiling_of_exact:
  assumes "from_decl d = Ok f" "zone_members f (fr_zone r) = Ok n"
  defines "lans \<equiv> length (filter (\<lambda>s. seg_zone s = fr_zone r) (fab_segments f))"
  shows "ceiling_of f r = Ok \<lparr>ce_zone = fr_zone r, ce_ifname = fr_ifname r, ce_members = of_nat n, ce_lans = of_nat lans,
      ce_lsas = of_nat (n + lans), ce_peers = of_nat (n - 1), ce_base_pps = of_nat (cadence n lans),
      ce_rate_pps = of_nat (max (4 * cadence n lans) 80), ce_burst_pkts = of_nat (max (4 * cadence n lans) 80) * 2\<rparr>"
    and "cadence n lans \<le> 16378"
proof -
  have "n \<le> 256"
    by (rule zone_members_total [OF assms(1), of "fr_zone r"]) (use assms(2) in simp)
  moreover have "lans \<le> 53"
    using accepted_sized [OF assms(1)] by (simp add: sized_def lans_def)
  ultimately show "ceiling_of f r = Ok \<lparr>ce_zone = fr_zone r, ce_ifname = fr_ifname r, ce_members = of_nat n, ce_lans = of_nat lans,
      ce_lsas = of_nat (n + lans), ce_peers = of_nat (n - 1), ce_base_pps = of_nat (cadence n lans),
      ce_rate_pps = of_nat (max (4 * cadence n lans) 80), ce_burst_pkts = of_nat (max (4 * cadence n lans) 80) * 2\<rparr>"
    "cadence n lans \<le> 16378"
    using ceiling_pps_exact [of n lans "fab_ospf_hello f"] cadence_bound by (simp_all add: ceiling_of_def assms(2) Let_def lans_def del: of_nat_add)
qed

text \<open>What a ceiling promises for its row, over the natural numbers.\<close>

definition ceiling_holds :: "Fabric \<Rightarrow> FallbackRow \<Rightarrow> Ceiling \<Rightarrow> bool" where
  "ceiling_holds f r ce \<longleftrightarrow> (\<exists>members. zone_members f (fr_zone r) = Ok members \<and>
     (let lans = length (filter (\<lambda>s. seg_zone s = fr_zone r) (fab_segments f)); base = cadence members lans in
      ce_ifname ce = fr_ifname r \<and> ce_zone ce = fr_zone r \<and> unat (ce_base_pps ce) = base \<and>
      unat (ce_rate_pps ce) = max (4 * base) 80 \<and> unat (ce_rate_pps ce) \<le> 65512 \<and>
      unat (ce_burst_pkts ce) = 2 * unat (ce_rate_pps ce)))"

lemma ceiling_of_holds:
  assumes "from_decl d = Ok f" "ceiling_of f r = Ok ce"
  shows "ceiling_holds f r ce"
proof -
  obtain n where n: "zone_members f (fr_zone r) = Ok n"
    using zone_members_total [OF assms(1)] by metis
  define lans c where "lans = length (filter (\<lambda>s. seg_zone s = fr_zone r) (fab_segments f))" and "c = cadence n lans"
  note exact = ceiling_of_exact [OF assms(1) n, folded lans_def, folded c_def]
  have "unat (of_nat c :: u64) = c" "unat (of_nat (max (4 * c) 80) :: u64) = max (4 * c) 80"
    "unat (of_nat (2 * max (4 * c) 80) :: u64) = 2 * max (4 * c) 80"
    using exact(2) by (intro of_nat_small; simp)+
  moreover have "of_nat (max (4 * c) 80) * 2 = (of_nat (2 * max (4 * c) 80) :: u64)"
    by simp
  ultimately have "unat (ce_base_pps ce) = c" "unat (ce_rate_pps ce) = max (4 * c) 80" "unat (ce_burst_pkts ce) = 2 * max (4 * c) 80"
    "ce_ifname ce = fr_ifname r" "ce_zone ce = fr_zone r"
    using assms(2) exact(1) by (auto simp del: of_nat_mult)
  then show ?thesis
    using exact(2) n unfolding ceiling_holds_def Let_def lans_def [symmetric] c_def [symmetric] by (auto simp: c_def)
qed

lemma ceilings_total:
  assumes "from_decl d = Ok f" "m \<in> set (fab_members f)"
  obtains rows ces where "fallback_rows \<lparr>v_fabric = f, v_member = m\<rparr> = Ok rows" "ceilings \<lparr>v_fabric = f, v_member = m\<rparr> = Ok ces"
    "map_out (ceiling_of f) rows = Ok ces"
proof -
  have "all_ranked f"
    using accepted_sized [OF assms(1)] by (simp add: sized_def)
  then obtain rows where rows: "fallback_rows \<lparr>v_fabric = f, v_member = m\<rparr> = Ok rows"
    using fallback_rows_total assms(2) by (simp add: fallback_rows_def)
  have "\<exists>ce. ceiling_of f r = Ok ce" for r
    by (rule zone_members_total [OF assms(1), of "fr_zone r"]) (simp add: ceiling_of_exact [OF assms(1)])
  then obtain ces where "map_out (ceiling_of f) rows = Ok ces"
    using map_out_defined [of rows "ceiling_of f"] by blast
  then show ?thesis
    using that rows by (simp add: ceilings_def)
qed

text \<open>The ceiling of a fallback bond. On every member of an accepted fabric there is one ceiling
  for each fallback row, in the order of the rows, and no step of its 64-bit arithmetic wraps: with the
  routers and segments counted over the whole fabric, the rate is four times a hello, a doubled flood
  of one announcement per router and segment, and a fifth of a retransmission to every neighbor,
  rounded up, and at least eighty; it is at most 65512 packets a second, and the burst is twice the
  rate.\<close>

theorem ceilings_exact:
  assumes "from_decl d = Ok f" "m \<in> set (fab_members f)"
  shows "\<exists>rows ces. fallback_rows \<lparr>v_fabric = f, v_member = m\<rparr> = Ok rows \<and> ceilings \<lparr>v_fabric = f, v_member = m\<rparr> = Ok ces \<and>
    list_all2 (ceiling_holds f) rows ces"
proof -
  obtain rows ces where ces: "fallback_rows \<lparr>v_fabric = f, v_member = m\<rparr> = Ok rows" "ceilings \<lparr>v_fabric = f, v_member = m\<rparr> = Ok ces"
    "map_out (ceiling_of f) rows = Ok ces"
    by (rule ceilings_total [OF assms])
  have "list_all2 (ceiling_holds f) rows ces"
    using map_out_Ok [THEN iffD1, OF ces(3)] by (rule list_all2_mono) (rule ceiling_of_holds [OF assms(1)])
  then show ?thesis
    using ces by blast
qed

theorem ceilings_exact_witness:
  "\<exists>rows ces. fallback_rows \<lparr>v_fabric = sample_fabric, v_member = sample_h1\<rparr> = Ok rows \<and>
     ceilings \<lparr>v_fabric = sample_fabric, v_member = sample_h1\<rparr> = Ok ces \<and> list_all2 (ceiling_holds sample_fabric) rows ces \<and>
     cadence 3 3 = 16"
proof -
  have "sample_h1 \<in> set (fab_members sample_fabric)" "cadence 3 3 = 16"
    by (simp_all add: sample_fabric_def cadence_def)
  then show ?thesis
    using ceilings_exact [OF sample_accepted] by blast
qed

end
