(* ===== verification/Emit_Remark.thy ===== *)
theory Emit_Remark
  imports Emit_Mark
begin

text \<open>
  What the marking table does to packets: control leaves untouched and below its ceiling, everything
  else a member sends carries the class of its zone, and whatever the forward policy lets out of a
  workload leg is remarked.
\<close>

definition is_control :: "Fabric \<Rightarrow> Packet \<Rightarrow> bool" where
  "is_control f k \<longleftrightarrow> pk_proto k = 89 \<or> pk_proto k = 17 \<and> pk_dport k = fab_bfd_port f"

text \<open>The class of the last zone an interface belongs to.\<close>

fun class_in :: "(Zone \<times> string list) list \<Rightarrow> string \<Rightarrow> string option" where
  "class_in [] i = None"
| "class_in ((z, ifs) # zs) i =
     (case class_in zs i of
        Some d \<Rightarrow> Some d
      | None \<Rightarrow> if i \<in> set ifs then Some (dscp_str (zone_dscp z)) else None)"

definition remarked :: "string option \<Rightarrow> Packet \<Rightarrow> Packet" where
  "remarked d k = (case d of None \<Rightarrow> k | Some d \<Rightarrow> k\<lparr>pk_dscp := d\<rparr>)"

definition over_ceiling :: "over \<Rightarrow> Ceiling list \<Rightarrow> Packet \<Rightarrow> bool" where
  "over_ceiling over ces k \<longleftrightarrow> pk_proto k = 89 \<and>
     (\<exists>ce\<in>set ces. pk_oif k = ce_ifname ce \<and> over (unat (ce_rate_pps ce)) (unat (ce_burst_pkts ce)) k)"

text \<open>The leg, the interfaces and the class of a rule that remarks.\<close>

definition remarks :: "Rule \<Rightarrow> string \<Rightarrow> string list \<Rightarrow> string \<Rightarrow> bool" where
  "remarks r l js d \<longleftrightarrow>
     (\<exists>j c. r = [IifIs l, OifIs j, DscpSet d, Comment c] \<and> js = [j]) \<or> (\<exists>c. r = [IifIs l, OifAmong js, DscpSet d, Comment c])"

lemma remarks_unique: "remarks r l js d \<Longrightarrow> remarks r l' js' d' \<Longrightarrow> l' = l \<and> js' = js \<and> d' = d"
  by (auto simp: remarks_def)

context nft
begin

lemma run_clamp:
  "run S Accepted (clamp_rules f z ifs @ rest) k =
     (if pk_oif k \<in> set ifs then if is_control f k then (Accepted, k) else run S Accepted rest (k\<lparr>pk_dscp := dscp_str (zone_dscp z)\<rparr>)
      else run S Accepted rest k)"
  by (auto simp: clamp_rules_def is_control_def run_test run_action)

lemma run_clamps:
  "run S Accepted (concat (map (\<lambda>(z, ifs). clamp_rules f z ifs) zs)) k =
     (Accepted, if is_control f k then k else remarked (class_in zs (pk_oif k)) k)"
proof (induction zs arbitrary: k)
  case (Cons e zs)
  obtain z ifs where e: "e = (z, ifs)"
    by (cases e)
  have "is_control f (k\<lparr>pk_dscp := d\<rparr>) = is_control f k" for d
    by (simp add: is_control_def)
  then show ?case
    unfolding e by (auto simp: run_clamp Cons.IH remarked_def split: option.splits)
qed (simp add: run_action remarked_def)

lemma run_ceilings:
  "run S Accepted (map ceiling_rule ces @ rest) k = (if over_ceiling over ces k then (Dropped, k) else run S Accepted rest k)"
  by (induction ces) (auto simp: ceiling_rule_def over_ceiling_def run_test run_action)

lemma run_remark:
  assumes "remarks r l js d"
  shows "run S p (r # rs) k = run S p rs (if pk_iif k = l \<and> pk_oif k \<in> set js then k\<lparr>pk_dscp := d\<rparr> else k)"
  using assms unfolding remarks_def by (auto simp: run_test run_action)

lemma run_remarks:
  assumes "\<And>r. r \<in> set rs \<Longrightarrow> \<exists>l js d. remarks r l js d"
  shows "run S p rs k = (p, k) \<and> (\<forall>r\<in>set rs. \<forall>l js d. remarks r l js d \<longrightarrow> \<not> (pk_iif k = l \<and> pk_oif k \<in> set js)) \<or>
    (\<exists>r\<in>set rs. \<exists>l js d. remarks r l js d \<and> pk_iif k = l \<and> pk_oif k \<in> set js \<and> run S p rs k = (p, k\<lparr>pk_dscp := d\<rparr>))"
  using assms
proof (induction rs arbitrary: k)
  case (Cons r rs)
  obtain l js d where r: "remarks r l js d"
    using Cons.prems [of r] by auto
  define k' where "k' = (if pk_iif k = l \<and> pk_oif k \<in> set js then k\<lparr>pk_dscp := d\<rparr> else k)"
  have k': "pk_iif k' = pk_iif k" "pk_oif k' = pk_oif k" "k'\<lparr>pk_dscp := x\<rparr> = k\<lparr>pk_dscp := x\<rparr>" for x
    by (simp_all add: k'_def)
  have step: "run S p (r # rs) k = run S p rs k'"
    unfolding k'_def by (rule run_remark [OF r])
  have "(run S p rs k' = (p, k') \<and> (\<forall>r\<in>set rs. \<forall>l js d. remarks r l js d \<longrightarrow> \<not> (pk_iif k = l \<and> pk_oif k \<in> set js))) \<or>
    (\<exists>r\<in>set rs. \<exists>l js d. remarks r l js d \<and> pk_iif k = l \<and> pk_oif k \<in> set js \<and> run S p rs k' = (p, k\<lparr>pk_dscp := d\<rparr>))"
    using Cons.IH [of k'] Cons.prems unfolding k' by simp
  then consider (none) "run S p rs k' = (p, k')" "\<forall>r\<in>set rs. \<forall>l js d. remarks r l js d \<longrightarrow> \<not> (pk_iif k = l \<and> pk_oif k \<in> set js)"
    | (some) r' l' js' d' where "r' \<in> set rs" "remarks r' l' js' d' \<and> pk_iif k = l' \<and> pk_oif k \<in> set js' \<and> run S p rs k' = (p, k\<lparr>pk_dscp := d'\<rparr>)"
    by blast
  then show ?case
  proof cases
    case none
    show ?thesis
    proof (cases "pk_iif k = l \<and> pk_oif k \<in> set js")
      case True
      then show ?thesis
        using none(1) r unfolding step k'_def by (intro disjI2 bexI [of _ r]) auto
    next
      case False
      then have "\<forall>l js d. remarks r l js d \<longrightarrow> \<not> (pk_iif k = l \<and> pk_oif k \<in> set js)"
        using remarks_unique [OF r] by blast
      then show ?thesis
        using none False unfolding step k'_def by (intro disjI1) auto
    qed
  next
    case some
    then show ?thesis
      unfolding step by (intro disjI2 bexI [of _ r']) auto
  qed
qed (simp add: run_action)

end

section \<open>Packets a member sends\<close>

definition ifs_of :: "View \<Rightarrow> string \<Rightarrow> string list" where
  "ifs_of v z = (case zone_ifs v z of Ok ifs \<Rightarrow> ifs | _ \<Rightarrow> [])"

lemma in_zone_ifs_of: "in_zone v z i \<longleftrightarrow> i \<in> set (ifs_of v z)"
  by (simp add: in_zone_def ifs_of_def split: outcome.splits)

lemma in_zone_iff: "in_zone v z i \<longleftrightarrow> (\<exists>ifs. zone_ifs v z = Ok ifs \<and> i \<in> set ifs)"
  by (cases "zone_ifs v z") (simp_all add: in_zone_def)

definition zone_class :: "View \<Rightarrow> string \<Rightarrow> string option" where
  "zone_class v i = map_option (dscp_str \<circ> zone_dscp) (find (\<lambda>z. in_zone v (zone_name z) i) (rev (fab_zones (v_fabric v))))"

lemma find_append: "find P (xs @ ys) = (case find P xs of None \<Rightarrow> find P ys | Some x \<Rightarrow> Some x)"
  by (induction xs) auto

lemma class_in_zones:
  "class_in (map (\<lambda>z. (z, ifs_of v (zone_name z))) zs) i = map_option (dscp_str \<circ> zone_dscp) (find (\<lambda>z. in_zone v (zone_name z) i) (rev zs))"
  by (induction zs) (auto simp: find_append in_zone_ifs_of split: option.splits)

lemma zone_ifs_total:
  assumes "from_decl d = Ok f" "m \<in> set (fab_members f)"
  shows "zone_ifs \<lparr>v_fabric = f, v_member = m\<rparr> z = Ok (ifs_of \<lparr>v_fabric = f, v_member = m\<rparr> z)"
proof -
  have sized: "sized f"
    by (rule accepted_sized [OF assms(1)])
  then have ranked: "all_ranked f"
    by (simp add: sized_def)
  obtain gs where "gw_rows_of f m = Ok gs"
    using gw_rows_total [OF ranked assms(2)] by blast
  then show ?thesis
    using class_rows_total [OF sized_ranked [OF sized assms(2)]] fallback_rows_total [OF ranked assms(2)]
    by (simp add: ifs_of_def zone_ifs_def class_rows_def fallback_rows_def gw_rows_def)
qed

lemma clamps_total:
  assumes "from_decl d = Ok f" "m \<in> set (fab_members f)"
  defines "v \<equiv> \<lparr>v_fabric = f, v_member = m\<rparr>"
  shows "clamps v = Ok (if fab_dscp_mark f
    then concat (map (\<lambda>(z, ifs). clamp_rules f z ifs) (map (\<lambda>z. (z, ifs_of v (zone_name z))) (fab_zones f))) else [])"
proof -
  have "map_out (\<lambda>z. and_then (zone_ifs v (zone_name z)) (\<lambda>ifs. Ok (clamp_rules f z ifs))) (fab_zones f) =
      Ok (map (\<lambda>z. clamp_rules f z (ifs_of v (zone_name z))) (fab_zones f))"
    by (rule map_out_eq) (simp add: v_def zone_ifs_total [OF assms(1,2)])
  then show ?thesis
    by (simp add: clamps_def v_def comp_def)
qed

lemma vm_rules_total:
  assumes "from_decl d = Ok f" "m \<in> set (fab_members f)" "row \<in> set (workload_rows \<lparr>v_fabric = f, v_member = m\<rparr>)"
  shows "\<exists>rs. vm_rules \<lparr>v_fabric = f, v_member = m\<rparr> row = Ok rs"
proof -
  let ?v = "\<lparr>v_fabric = f, v_member = m\<rparr>"
  have "all_ranked f"
    using accepted_sized [OF assms(1)] by (simp add: sized_def)
  then obtain gs where gs: "gw_rows_of f m = Ok gs"
    using gw_rows_total assms(2) by blast
  have wl: "wr_wl row \<in> set (fab_workloads f)"
    using assms(3) by (auto simp: workload_rows_def List.map_filter_def)
  have "\<exists>rs. vm_zone_rules ?v (wr_wl row) z = Ok rs" if "z \<in> set (wl_allow (wr_wl row))" for z
    using accepted_allow [OF assms(1) wl that] zone_of_Ok [of f z]
    by (auto simp: vm_zone_rules_def zone_ifs_total [OF assms(1,2)] outcome_simps)
  moreover have "\<exists>r. vm_gw_rule ?v (wr_wl row) g = Ok r" if "g \<in> set gs" for g
    using gw_rows_zone [OF gs that] zone_of_Ok [of f "gr_zone g"] by (auto simp: vm_gw_rule_def outcome_simps)
  ultimately show ?thesis
    using map_out_defined [of "wl_allow (wr_wl row)" "vm_zone_rules ?v (wr_wl row)"] map_out_defined [of gs "vm_gw_rule ?v (wr_wl row)"] gs
    by (simp add: vm_rules_def gw_rows_def and_then_Ok) blast
qed

lemma mark_table_total:
  assumes "from_decl d = Ok f" "m \<in> set (fab_members f)"
  shows "\<exists>t. mark_table \<lparr>v_fabric = f, v_member = m\<rparr> = Ok t"
proof -
  let ?v = "\<lparr>v_fabric = f, v_member = m\<rparr>"
  have "\<exists>ces. ceilings ?v = Ok ces"
    using ceilings_total [OF assms] by blast
  moreover have "\<exists>rs. map_out (vm_rules ?v) (workload_rows ?v) = Ok rs"
    by (rule map_out_defined) (rule vm_rules_total [OF assms])
  ultimately show ?thesis
    using clamps_total [OF assms] by (auto simp: mark_table_def and_then_Ok)
qed

lemma clamps_run:
  assumes "nft over run" "from_decl d = Ok f" "m \<in> set (fab_members f)"
  defines "v \<equiv> \<lparr>v_fabric = f, v_member = m\<rparr>"
  assumes "clamps v = Ok rs"
  shows "run [] Accepted rs k = (Accepted, if fab_dscp_mark f \<and> \<not> is_control f k then remarked (zone_class v (pk_oif k)) k else k)"
proof (cases "fab_dscp_mark f")
  case True
  then have "rs = concat (map (\<lambda>(z, ifs). clamp_rules f z ifs) (map (\<lambda>z. (z, ifs_of v (zone_name z))) (fab_zones f)))"
    using assms(5) clamps_total [OF assms(2,3)] unfolding v_def by simp
  then show ?thesis
    using True nft.run_clamps [OF assms(1), of "[]" f "map (\<lambda>z. (z, ifs_of v (zone_name z))) (fab_zones f)" k]
    unfolding class_in_zones by (simp add: zone_class_def v_def)
next
  case False
  then show ?thesis
    using assms(5) clamps_total [OF assms(2,3)] nft.run_end [OF assms(1)] unfolding v_def by simp
qed

lemma clamps_accept:
  assumes "nft over run" "from_decl d = Ok f" "m \<in> set (fab_members f)" "clamps \<lparr>v_fabric = f, v_member = m\<rparr> = Ok rs"
  shows "fst (run [] Accepted rs k) = Accepted"
  by (simp add: clamps_run [OF assms])


section \<open>Packets of the workloads\<close>

text \<open>The leg of a workload is an interface of cfab, and of no zone.\<close>

lemma leg_not_taken:
  assumes "from_decl d = Ok f" "wl \<in> set (fab_workloads f)"
  shows "\<not> leg_collides f (leg_ifname wl)"
proof -
  obtain seen where "check_workload f seen wl = Ok ()"
    by (rule accepted_workloads [OF assms]) blast
  then show ?thesis
    by (auto simp: check_workload_def Let_def outcome_simps)
qed

lemma zone_interfaces:
  assumes "gw_rows_of f m = Ok gs" "g \<in> set gs"
  shows "\<exists>z\<in>set (fab_zones f). gr_ifname g = gw_ifname (zone_id z)"
proof -
  obtain z where "z \<in> set (fab_zones f)" "gw_row f m z = Ok (Some g)"
    using assms by (auto simp: gw_rows_of_def filter_map_out_def List.map_filter_def outcome_simps split: if_splits dest!: map_out_all)
  then show ?thesis
    by (auto simp: gw_row_def Let_def outcome_simps split: option.splits SegScope.splits intro!: bexI [of _ z])
qed

lemma leg_apart:
  assumes "from_decl d = Ok f" "wl \<in> set (fab_workloads f)"
  shows "\<not> in_zone \<lparr>v_fabric = f, v_member = m\<rparr> z (leg_ifname wl)" "\<not> is_gw_leg \<lparr>v_fabric = f, v_member = m\<rparr> (leg_ifname wl)"
proof -
  note free = leg_not_taken [OF assms(1,2)]
  have seg: "seg_ifname s \<noteq> leg_ifname wl" if "s \<in> set (fab_segments f)" for s
    using free that by (auto simp: leg_collides_def)
  have gw: "gr_ifname g \<noteq> leg_ifname wl" if "gw_rows_of f m = Ok gs" "g \<in> set gs" for gs g
    using free zone_interfaces [OF that] by (auto simp: leg_collides_def)
  have "cr_ifname r \<noteq> leg_ifname wl" if "class_rows_of f m = Ok cs" "r \<in> set cs" for cs r
    using that seg by (auto simp: class_rows_of_def filter_map_out_def List.map_filter_def class_row_def outcome_simps
        split: option.splits dest!: map_out_all)
  moreover have "fr_ifname r \<noteq> leg_ifname wl" if "fallback_rows_of f m = Ok fs" "r \<in> set fs" for fs r
    using that seg by (auto simp: fallback_rows_of_def filter_map_out_def List.map_filter_def fallback_row_def Let_def outcome_simps
        split: option.splits dest!: map_out_all)
  ultimately show "\<not> in_zone \<lparr>v_fabric = f, v_member = m\<rparr> z (leg_ifname wl)"
    using gw by (auto simp: in_zone_iff zone_ifs_def class_rows_def fallback_rows_def gw_rows_def outcome_simps) metis+
  show "\<not> is_gw_leg \<lparr>v_fabric = f, v_member = m\<rparr> (leg_ifname wl)"
    using gw by (cases "gw_rows_of f m") (auto simp: is_gw_leg_def gw_rows_def, metis)
qed

lemma leg_owned:
  assumes "owned_forwarding v = Ok own" "row \<in> set (workload_rows v)"
  shows "owned v (leg_ifname (wr_wl row))"
proof -
  obtain cs gs fs where own: "own = dedup_fst (sort (forwarding_entries (v_fabric v) (v_member v) cs gs fs))"
    using assms(1) by (cases v) (auto simp: owned_forwarding_def forwarding_entries_def Let_def outcome_simps)
  let ?t = "mem_kind (v_member v) = Host \<and> fab_host_forward (v_fabric v)"
  have "(leg_ifname (wr_wl row), ?t) \<in> set (map (\<lambda>r. (leg_ifname (wr_wl r), ?t)) (workload_rows v))"
    unfolding set_map by (rule image_eqI [OF refl assms(2)])
  then have "(leg_ifname (wr_wl row), ?t) \<in> set (forwarding_entries (v_fabric v) (v_member v) cs gs fs)"
    unfolding forwarding_entries_def Let_def set_append by (cases v) simp
  then have "leg_ifname (wr_wl row) \<in> fst ` set (forwarding_entries (v_fabric v) (v_member v) cs gs fs)"
    by (rule image_eqI [rotated]) simp
  then show ?thesis
    using dedup_fst_names [of "sort (forwarding_entries (v_fabric v) (v_member v) cs gs fs)"] unfolding owned_def assms(1) own by simp
qed

text \<open>The rules of one workload, each a remark with the class of a zone it may reach.\<close>

definition reach :: "View \<Rightarrow> Workload \<Rightarrow> Zone \<Rightarrow> string \<Rightarrow> bool" where
  "reach v wl z j \<longleftrightarrow> zone_name z \<in> set (wl_allow wl) \<and> in_zone v (zone_name z) j \<or>
     (\<exists>gws g. gw_rows v = Ok gws \<and> g \<in> set gws \<and> gr_zone g = zone_name z \<and> gr_ifname g = j)"

lemma zone_of_named: "zone_of f n = Ok z \<Longrightarrow> z \<in> set (fab_zones f) \<and> zone_name z = n"
  unfolding zone_of_def by (auto simp: outcome_simps find_Some_iff)

lemma vm_rules_remark:
  assumes "vm_rules v row = Ok rs" "r \<in> set rs"
  shows "\<exists>js z. remarks r (leg_ifname (wr_wl row)) js (dscp_str (zone_dscp z)) \<and> z \<in> set (fab_zones (v_fabric v)) \<and>
    (\<forall>j\<in>set js. reach v (wr_wl row) z j)"
proof -
  obtain zones gws gw where parts: "map_out (vm_zone_rules v (wr_wl row)) (wl_allow (wr_wl row)) = Ok zones" "gw_rows v = Ok gws"
    "map_out (vm_gw_rule v (wr_wl row)) gws = Ok gw" "rs = concat zones @ gw"
    using assms(1) by (auto simp: vm_rules_def outcome_simps)
  consider zr n where "r \<in> set zr" "n \<in> set (wl_allow (wr_wl row))" "vm_zone_rules v (wr_wl row) n = Ok zr"
    | g where "g \<in> set gws" "vm_gw_rule v (wr_wl row) g = Ok r"
    using assms(2) unfolding parts(4) by (auto dest!: map_out_all [OF parts(1)] map_out_all [OF parts(3)])
  then show ?thesis
  proof cases
    case 1
    then obtain ifs z where "zone_ifs v n = Ok ifs" "zone_of (v_fabric v) n = Ok z"
      "r = [IifIs (leg_ifname (wr_wl row)), OifAmong ifs, DscpSet (dscp_str (zone_dscp z)), Comment (''dscp-'' @ wl_name (wr_wl row) @ ''-'' @ n)]"
      by (auto simp: vm_zone_rules_def outcome_simps split: if_splits)
    then show ?thesis
      using 1(2) zone_of_named by (intro exI [of _ ifs] exI [of _ z]) (auto simp: remarks_def reach_def in_zone_iff)
  next
    case 2
    then obtain z c where "zone_of (v_fabric v) (gr_zone g) = Ok z"
      "r = [IifIs (leg_ifname (wr_wl row)), OifIs (gr_ifname g), DscpSet (dscp_str (zone_dscp z)), Comment c]"
      by (auto simp: vm_gw_rule_def outcome_simps)
    then show ?thesis
      using 2(1) parts(2) zone_of_named by (intro exI [of _ "[gr_ifname g]"] exI [of _ z]) (auto simp: remarks_def reach_def)
  qed
qed

lemma vm_rules_cover:
  assumes "vm_rules v row = Ok rs" "(\<exists>z\<in>set (wl_allow (wr_wl row)). in_zone v z j) \<or> is_gw_leg v j"
  shows "\<exists>r\<in>set rs. \<exists>js d. remarks r (leg_ifname (wr_wl row)) js d \<and> j \<in> set js"
proof -
  obtain zones gws gw where parts: "map_out (vm_zone_rules v (wr_wl row)) (wl_allow (wr_wl row)) = Ok zones" "gw_rows v = Ok gws"
    "map_out (vm_gw_rule v (wr_wl row)) gws = Ok gw" "rs = concat zones @ gw"
    using assms(1) by (auto simp: vm_rules_def outcome_simps)
  from assms(2) show ?thesis
  proof
    assume "\<exists>z\<in>set (wl_allow (wr_wl row)). in_zone v z j"
    then obtain n ifs where n: "n \<in> set (wl_allow (wr_wl row))" "zone_ifs v n = Ok ifs" "j \<in> set ifs"
      by (auto simp: in_zone_iff)
    obtain zr where "zr \<in> set zones" "vm_zone_rules v (wr_wl row) n = Ok zr"
      using map_out_each [OF parts(1) n(1)] by blast
    moreover from this obtain r d c where "zr = [r]" "r = [IifIs (leg_ifname (wr_wl row)), OifAmong ifs, DscpSet d, Comment c]"
      using n(2,3) by (auto simp: vm_zone_rules_def outcome_simps split: if_splits)
    ultimately have "r \<in> set (concat zones)" "remarks r (leg_ifname (wr_wl row)) ifs d"
      by (force, simp add: remarks_def)
    then show ?thesis
      using n(3) unfolding parts(4) set_append by blast
  next
    assume "is_gw_leg v j"
    then obtain g where g: "g \<in> set gws" "gr_ifname g = j"
      using parts(2) by (auto simp: is_gw_leg_def)
    obtain r where "r \<in> set gw" "vm_gw_rule v (wr_wl row) g = Ok r"
      using map_out_each [OF parts(3) g(1)] by blast
    then show ?thesis
      using g(2) unfolding parts(4) by (intro bexI [of _ r]) (auto simp: remarks_def vm_gw_rule_def outcome_simps)
  qed
qed

lemma granted_from_leg:
  assumes "from_decl d = Ok f" "row \<in> set (workload_rows \<lparr>v_fabric = f, v_member = m\<rparr>)"
    and "granted \<lparr>v_fabric = f, v_member = m\<rparr> (leg_ifname (wr_wl row)) j"
  shows "(\<exists>z\<in>set (wl_allow (wr_wl row)). in_zone \<lparr>v_fabric = f, v_member = m\<rparr> z j) \<or> is_gw_leg \<lparr>v_fabric = f, v_member = m\<rparr> j"
proof -
  have wl: "wr_wl row' \<in> set (fab_workloads f)" if "row' \<in> set (workload_rows \<lparr>v_fabric = f, v_member = m\<rparr>)" for row'
    using that by (auto simp: workload_rows_def List.map_filter_def)
  have same: "wr_wl row' = wr_wl row" if "row' \<in> set (workload_rows \<lparr>v_fabric = f, v_member = m\<rparr>)" "leg_ifname (wr_wl row) = leg_ifname (wr_wl row')" for row'
    using rows_unique [OF assms(1) wl [OF that(1)] wl [OF assms(2)], of leg_ifname] check_workload_facts(5) that(2) by force
  show ?thesis
    using assms(3) leg_apart [OF assms(1) wl [OF assms(2)], of m] same unfolding granted_def Let_def View.simps split_beta by metis
qed




end
