(* ===== verification/Emit_Ipt.thy ===== *)
theory Emit_Ipt
  imports Emit_Remark Emit_Compare Workload_Uplink Sys_World
begin

text \<open>
  The ceiling for a kernel without nftables (\<open>emit/ceiling_ipt.rs\<close>): the text for
  \<open>iptables-legacy-restore\<close>, the readers of \<open>iptables-legacy-save\<close>, and the record of the backend in
  use. What a restore does to the chains of the table, and what a chain does to a packet, is the
  locale \<open>ipt\<close>. The guard of the bridge (\<open>emit/workload.rs\<close>) is at the end.
\<close>

section \<open>Backends\<close>

definition OUT_CHAIN :: string where "OUT_CHAIN = ''cfab-out''"

definition ceil_chain :: "string \<Rightarrow> string" where
  "ceil_chain zone = ''cfab-ceil-'' @ zone"

datatype Backend = Nft | IptablesLegacy

fun backend_str :: "Backend \<Rightarrow> string" where
  "backend_str Nft = ''nft''"
| "backend_str IptablesLegacy = ''iptables-legacy''"

fun status_line :: "Backend \<Rightarrow> string" where
  "status_line Nft = ''mark: nft''"
| "status_line IptablesLegacy = ''mark: iptables-legacy (ceiling only; bulk DSCP clamp unavailable on this kernel)''"

definition backend_parse :: "string \<Rightarrow> Backend option" where
  "backend_parse s =
     (let t = trim_text s in
      if t = ''nft'' then Some Nft else if t = ''iptables-legacy'' then Some IptablesLegacy else None)"

definition backend_path :: "string \<Rightarrow> string" where
  "backend_path run_dir = run_dir @ ''/mark.backend''"

definition recorded :: "string \<Rightarrow> Sys \<Rightarrow> Backend option \<times> Sys" where
  "recorded run_dir s = (let (t, s) = sys_read (backend_path run_dir) s in (Option.bind t backend_parse, s))"

section \<open>The restore input\<close>

datatype IptRule =
    JumpOn string nat string
  | LimitReturn nat nat
  | DropAll

datatype IptLine = Declare string | Flush string | Append string IptRule

fun ipt_rule_str :: "IptRule \<Rightarrow> string" where
  "ipt_rule_str (JumpOn i p c) = ''-o '' @ i @ '' -p '' @ dec p @ '' -j '' @ c"
| "ipt_rule_str (LimitReturn r b) = ''-m limit --limit '' @ dec r @ ''/second --limit-burst '' @ dec b @ '' -j RETURN''"
| "ipt_rule_str DropAll = ''-j DROP''"

fun ipt_line_str :: "IptLine \<Rightarrow> string" where
  "ipt_line_str (Declare c) = '':'' @ c @ '' - [0:0]''"
| "ipt_line_str (Flush c) = ''-F '' @ c"
| "ipt_line_str (Append c r) = ''-A '' @ c @ '' '' @ ipt_rule_str r"

definition ceil_body :: "Ceiling \<Rightarrow> IptRule list" where
  "ceil_body ce = [LimitReturn (unat (ce_rate_pps ce)) (unat (ce_burst_pkts ce)), DropAll]"

definition ipt_lines :: "Ceiling list \<Rightarrow> IptLine list" where
  "ipt_lines ces =
     Declare OUT_CHAIN # map (\<lambda>ce. Declare (ceil_chain (ce_zone ce))) ces @
     Flush OUT_CHAIN # map (\<lambda>ce. Flush (ceil_chain (ce_zone ce))) ces @
     map (\<lambda>ce. Append OUT_CHAIN (JumpOn (ce_ifname ce) 89 (ceil_chain (ce_zone ce)))) ces @
     concat (map (\<lambda>ce. map (Append (ceil_chain (ce_zone ce))) (ceil_body ce)) ces)"

definition ipt_str :: "IptLine list \<Rightarrow> string" where
  "ipt_str ls = ''*mangle'' @ [CHR 0x0A] @ concat (map (\<lambda>l. ipt_line_str l @ [CHR 0x0A]) ls) @ ''COMMIT'' @ [CHR 0x0A]"

definition ipt_generate :: "View \<Rightarrow> string result" where
  "ipt_generate v = and_then (ceilings v) (\<lambda>ces. Ok (ipt_str (ipt_lines ces)))"

section \<open>Reading a dump\<close>

definition is_ours :: "string \<Rightarrow> bool" where
  "is_ours l \<longleftrightarrow> starts_with '':cfab-'' l \<or> starts_with ''-A cfab-'' l \<or> ends_with ('' -j '' @ OUT_CHAIN) l"

definition ours :: "string \<Rightarrow> string" where
  "ours save_output = concat (map (\<lambda>l. l @ [CHR 0x0A]) (filter is_ours (str_lines save_output)))"

definition first_word :: "string \<Rightarrow> string option" where
  "first_word s = (case split_whitespace s of [] \<Rightarrow> None | w # ws \<Rightarrow> Some w)"

definition chains_in :: "string \<Rightarrow> string list" where
  "chains_in save_output =
     List.map_filter (\<lambda>l. map_option ((@) ''cfab-'') (Option.bind (strip_prefix '':cfab-'' l) first_word)) (str_lines save_output)"

definition counter_of :: "string \<Rightarrow> string \<Rightarrow> nat option" where
  "counter_of tail l =
     Option.bind (strip_prefix ''['' l) (\<lambda>rest.
     Option.bind (split_once (CHR '']'') rest) (\<lambda>(counters, rule).
       if trim_text rule = tail then parse_uint (2 ^ 64 - 1) (hd (split_on (CHR '':'') counters)) else None))"

definition drop_packets :: "string \<Rightarrow> string \<Rightarrow> nat option" where
  "drop_packets save_c_output zone =
     find_map (counter_of (''-A '' @ ceil_chain zone @ '' -j DROP'')) (str_lines save_c_output)"

section \<open>What a restore leaves\<close>

type_synonym chains = "string \<Rightarrow> IptRule list option"

text \<open>\<open>--noflush\<close>: a declared chain is created when it is missing and otherwise keeps its rules.\<close>

fun restore_line :: "IptLine \<Rightarrow> chains \<Rightarrow> chains" where
  "restore_line (Declare c) m = (case m c of None \<Rightarrow> m(c \<mapsto> []) | Some r \<Rightarrow> m)"
| "restore_line (Flush c) m = m(c \<mapsto> [])"
| "restore_line (Append c r) m = (case m c of None \<Rightarrow> m | Some rs \<Rightarrow> m(c \<mapsto> rs @ [r]))"

definition restore :: "IptLine list \<Rightarrow> chains \<Rightarrow> chains" where
  "restore ls m = fold restore_line ls m"

fun is_leaf :: "IptRule \<Rightarrow> bool" where
  "is_leaf (JumpOn i p c) \<longleftrightarrow> False"
| "is_leaf _ \<longleftrightarrow> True"

locale ipt =
  fixes below :: over
    and walk :: "chains \<Rightarrow> IptRule list \<Rightarrow> Packet \<Rightarrow> Verdict option"
  assumes walk_end: "walk m [] k = None"
    and walk_drop: "walk m (DropAll # rs) k = Some Dropped"
    and walk_limit: "walk m (LimitReturn r b # rs) k = (if below r b k then None else walk m rs k)"
    and walk_jump: "m c = Some body \<Longrightarrow> list_all is_leaf body \<Longrightarrow> walk m (JumpOn i p c # rs) k =
      (if pk_oif k = i \<and> pk_proto k = p then case walk m body k of Some x \<Rightarrow> Some x | None \<Rightarrow> walk m rs k else walk m rs k)"
begin

lemma walk_ceiling: "walk m (ceil_body ce) k = (if below (unat (ce_rate_pps ce)) (unat (ce_burst_pkts ce)) k then None else Some Dropped)"
  by (simp add: ceil_body_def walk_limit walk_drop)

lemma walk_out:
  assumes "\<And>ce. ce \<in> set ces \<Longrightarrow> m (ceil_chain (ce_zone ce)) = Some (ceil_body ce)"
  shows "walk m (map (\<lambda>ce. JumpOn (ce_ifname ce) 89 (ceil_chain (ce_zone ce))) ces) k =
    (if over_ceiling (\<lambda>r b k. \<not> below r b k) ces k then Some Dropped else None)"
  using assms
proof (induction ces)
  case (Cons ce ces)
  have "m (ceil_chain (ce_zone ce)) = Some (ceil_body ce)" "list_all is_leaf (ceil_body ce)"
    using Cons.prems by (simp_all add: ceil_body_def)
  then show ?case
    using Cons by (auto simp: walk_jump walk_ceiling over_ceiling_def)
qed (simp add: walk_end over_ceiling_def)

end

text \<open>An evaluator for tables whose chains jump only to chains that do not.\<close>

fun leaf_walk :: "over \<Rightarrow> IptRule list \<Rightarrow> Packet \<Rightarrow> Verdict option" where
  "leaf_walk below [] k = None"
| "leaf_walk below (DropAll # rs) k = Some Dropped"
| "leaf_walk below (LimitReturn r b # rs) k = (if below r b k then None else leaf_walk below rs k)"
| "leaf_walk below (JumpOn i p c # rs) k = leaf_walk below rs k"

fun ipt_walk :: "over \<Rightarrow> chains \<Rightarrow> IptRule list \<Rightarrow> Packet \<Rightarrow> Verdict option" where
  "ipt_walk below m [] k = None"
| "ipt_walk below m (DropAll # rs) k = Some Dropped"
| "ipt_walk below m (LimitReturn r b # rs) k = (if below r b k then None else ipt_walk below m rs k)"
| "ipt_walk below m (JumpOn i p c # rs) k =
     (if pk_oif k = i \<and> pk_proto k = p
      then case leaf_walk below (case m c of None \<Rightarrow> [] | Some b \<Rightarrow> b) k of Some x \<Rightarrow> Some x | None \<Rightarrow> ipt_walk below m rs k
      else ipt_walk below m rs k)"

lemma leaf_walk_eq: "list_all is_leaf rs \<Longrightarrow> ipt_walk below m rs k = leaf_walk below rs k"
  by (induction below rs k rule: leaf_walk.induct) auto

interpretation ip: ipt below "ipt_walk below" for below
  by unfold_locales (auto simp: leaf_walk_eq)

section \<open>The bridge guard\<close>

definition guard_rules :: "ipv4 \<times> Uplink \<Rightarrow> string" where
  "guard_rules g =
     (case g of (gw, up) \<Rightarrow> concat (map (\<lambda>port.
        ''        iifname '' @ quoted port @ '' vlan id '' @ dec (unat (up_vid up)) @ '' vlan type arp arp saddr ip '' @ ipv4_str gw @
        '' counter drop comment '' @ quoted ''gw-claim-from-uplink'' @ [CHR 0x0A] @
        ''        iifname '' @ quoted port @ '' vlan id '' @ dec (unat (up_vid up)) @ '' vlan type arp arp daddr ip '' @ ipv4_str gw @
        '' counter drop comment '' @ quoted ''gw-request-from-uplink'' @ [CHR 0x0A]) (up_ports up)))"

definition bridge_table :: "(ipv4 \<times> Uplink) list \<Rightarrow> string" where
  "bridge_table guards =
     ''table bridge cfab'' @ [CHR 0x0A] @ ''delete table bridge cfab'' @ [CHR 0x0A] @ ''table bridge cfab {'' @ [CHR 0x0A] @
     ''    chain pre {'' @ [CHR 0x0A] @ ''        type filter hook prerouting priority filter; policy accept;'' @ [CHR 0x0A] @
     concat (map guard_rules guards) @ ''    }'' @ [CHR 0x0A] @ ''}'' @ [CHR 0x0A]"

section \<open>Both backends police alike\<close>

lemma restore_append: "restore (a @ b) m = restore b (restore a m)"
  by (simp add: restore_def)

lemma restore_declares: "restore (map (Declare \<circ> g) xs) m c = (if m c = None \<and> c \<in> g ` set xs then Some [] else m c)"
  unfolding restore_def by (induction xs arbitrary: m) (auto split: option.splits)

lemma restore_flushes: "restore (map (Flush \<circ> g) xs) m c = (if c \<in> g ` set xs then Some [] else m c)"
  unfolding restore_def by (induction xs arbitrary: m) auto

lemma restore_appends: "restore (map (Append c) rs) m = (case m c of None \<Rightarrow> m | Some r \<Rightarrow> m(c \<mapsto> r @ rs))"
  unfolding restore_def by (induction rs arbitrary: m) (auto split: option.splits)

lemma restore_bodies:
  assumes "distinct (map g xs)" "\<And>x. x \<in> set xs \<Longrightarrow> m (g x) = Some []"
  shows "restore (concat (map (\<lambda>x. map (Append (g x)) (b x)) xs)) m c =
    (case find (\<lambda>x. g x = c) xs of None \<Rightarrow> m c | Some x \<Rightarrow> Some (b x))"
  using assms
proof (induction xs arbitrary: m)
  case (Cons x xs)
  define m' where "m' = m(g x \<mapsto> b x)"
  have step: "restore (concat (map (\<lambda>x. map (Append (g x)) (b x)) (x # xs))) m = restore (concat (map (\<lambda>x. map (Append (g x)) (b x)) xs)) m'"
    using Cons.prems(2) [of x] by (simp add: restore_append restore_appends m'_def)
  have "m' (g y) = Some []" if "y \<in> set xs" for y
    using Cons.prems that by (auto simp: image_iff m'_def)
  then have "restore (concat (map (\<lambda>x. map (Append (g x)) (b x)) xs)) m' c = (case find (\<lambda>x. g x = c) xs of None \<Rightarrow> m' c | Some x \<Rightarrow> Some (b x))"
    using Cons.IH [of m'] Cons.prems(1) by simp
  moreover have "find (\<lambda>y. g y = g x) xs = None"
    using Cons.prems(1) by (auto simp: find_None_iff image_iff)
  ultimately show ?case
    unfolding step by (cases "c = g x") (auto simp: m'_def cong del: option.case_cong_weak split: option.split)
qed (simp add: restore_def)

definition rendered :: "Ceiling list \<Rightarrow> chains" where
  "rendered ces c =
     (if c = OUT_CHAIN then Some (map (\<lambda>ce. JumpOn (ce_ifname ce) 89 (ceil_chain (ce_zone ce))) ces)
      else map_option ceil_body (find (\<lambda>ce. ceil_chain (ce_zone ce) = c) ces))"

lemma restore_ipt_lines:
  assumes "distinct (map ce_zone ces)"
  shows "restore (ipt_lines ces) m c = (case rendered ces c of None \<Rightarrow> m c | Some rs \<Rightarrow> Some rs)"
proof -
  let ?g = "ceil_chain \<circ> ce_zone" and ?jump = "\<lambda>ce. JumpOn (ce_ifname ce) 89 (ceil_chain (ce_zone ce))"
  have out: "?g ce \<noteq> OUT_CHAIN" for ce
    by (simp add: ceil_chain_def OUT_CHAIN_def)
  have dist: "distinct (map ?g ces)"
    using assms by (simp add: distinct_map ceil_chain_def inj_on_def)
  define m2 where "m2 = restore (Declare OUT_CHAIN # map (Declare \<circ> ?g) ces @ Flush OUT_CHAIN # map (Flush \<circ> ?g) ces) m"
  have m2: "m2 c = (if c = OUT_CHAIN \<or> c \<in> ?g ` set ces then Some [] else m c)" for c
  proof -
    have "m2 = restore (map (Flush \<circ> ?g) ces) ((restore (map (Declare \<circ> ?g) ces) (restore_line (Declare OUT_CHAIN) m))(OUT_CHAIN \<mapsto> []))"
      unfolding m2_def by (simp add: restore_def)
    then show ?thesis
      by (auto simp: restore_flushes restore_declares split: option.splits)
  qed
  define m3 where "m3 = m2(OUT_CHAIN \<mapsto> map ?jump ces)"
  have "restore (map (Append OUT_CHAIN) (map ?jump ces)) m2 = m3"
    unfolding restore_appends by (simp add: m2 m3_def)
  then have "restore (ipt_lines ces) m = restore (concat (map (\<lambda>ce. map (Append (?g ce)) (ceil_body ce)) ces)) m3"
    unfolding ipt_lines_def m2_def by (simp add: restore_append restore_def comp_def)
  moreover have "m3 (?g ce) = Some []" if "ce \<in> set ces" for ce
    using that out [of ce] by (simp add: m3_def m2)
  ultimately have "restore (ipt_lines ces) m c = (case find (\<lambda>ce. ?g ce = c) ces of None \<Rightarrow> m3 c | Some ce \<Rightarrow> Some (ceil_body ce))"
    using restore_bodies [OF dist, of m3] by simp
  moreover have "find (\<lambda>ce. ?g ce = OUT_CHAIN) ces = None"
    using out by (auto simp: find_None_iff)
  moreover have "find (\<lambda>ce. ?g ce = c) ces = None \<Longrightarrow> c \<notin> ?g ` set ces"
    by (auto simp: find_None_iff)
  ultimately show ?thesis
    by (auto simp: rendered_def m3_def m2 split: option.splits)
qed

text \<open>A zone has one universal segment, so its ceiling has a chain of its own.\<close>

lemma fallback_zones_distinct:
  assumes "from_decl d = Ok f" "fallback_rows_of f m = Ok rows"
  shows "distinct (map fr_zone rows)"
proof -
  let ?us = "filter (\<lambda>r. is_universal (seg_scope r)) (fab_segments f)"
  obtain rs where rs: "map_out (fallback_row f m) ?us = Ok rs" "rows = List.map_filter id rs"
    using assms(2) by (auto simp: fallback_rows_of_def filter_map_out_def outcome_simps)
  have "scope_str (seg_scope s) = ''any''" if "s \<in> set ?us" for s
    using that by (cases "seg_scope s") auto
  moreover have "distinct (map (\<lambda>r. seg_zone r @ '':'' @ scope_str (seg_scope r)) ?us)"
    using checked_segments(2) [OF accepted_checked [OF assms(1)]] by (simp add: distinct_map_filter)
  ultimately have dist: "distinct (map seg_zone ?us)"
    by (auto simp: distinct_map inj_on_def)
  have "distinct (map fr_zone (List.map_filter id rs)) \<and> fr_zone ` set (List.map_filter id rs) \<subseteq> seg_zone ` set ss"
    if "map_out (fallback_row f m) ss = Ok rs" "distinct (map seg_zone ss)" for ss rs
    using that
  proof (induction ss arbitrary: rs)
    case (Cons s ss)
    obtain r rs' where r: "fallback_row f m s = Ok r" "map_out (fallback_row f m) ss = Ok rs'" "rs = r # rs'"
      using Cons.prems(1) by (auto simp: outcome_simps)
    have "fr_zone x = seg_zone s" if "r = Some x" for x
      using r(1) that by (auto simp: fallback_row_def Let_def outcome_simps split: option.splits)
    then show ?case
      using Cons.IH [OF r(2)] Cons.prems(2) unfolding r(3) by (cases r) (auto simp: List.map_filter_simps)
  qed (simp add: List.map_filter_simps)
  then show ?thesis
    using rs dist by blast
qed

lemma ceiling_zones_distinct:
  assumes "from_decl d = Ok f" "ceilings \<lparr>v_fabric = f, v_member = m\<rparr> = Ok ces"
  shows "distinct (map ce_zone ces)"
proof -
  obtain rows where rows: "fallback_rows_of f m = Ok rows" "map_out (ceiling_of f) rows = Ok ces"
    using assms(2) by (auto simp: ceilings_def fallback_rows_def outcome_simps)
  have "map ce_zone ces = map fr_zone rows"
    by (rule map_out_map [OF rows(2)]) (auto simp: ceiling_of_def Let_def outcome_simps split_beta)
  then show ?thesis
    using fallback_zones_distinct [OF assms(1) rows(1)] by simp
qed



text \<open>The record of the backend reads back as written.\<close>

lemma backend_roundtrip: "backend_parse (backend_str b) = Some b"
proof -
  have "list_all visible (backend_str b)"
    by (cases b) (simp_all add: visible_def)
  then show ?thesis
    by (cases b) (simp_all add: backend_parse_def trim_text_visible)
qed

end
