(* ===== verification/Spec2Isabelle.thy ===== *)
theory Spec2Isabelle
  imports Prober_Bpf Prober_Grace Actor_Invariant Workload_Relay Workload_Announce Fabric_Orders Fabric_Ownership Shape_Reconverge Supervisor_Single Workload_Frames Emit_Drift Emit_Ipt
begin

text \<open>
  Verification development of cfab, the daemon and command that builds a small storage and
  management fabric over several switches and hosts. The program reads one declaration
  (\<open>fabric.toml\<close>), resolves and validates it for the whole fabric, derives from it what every
  member runs (OSPF costs, interfaces, ingress legs, workload networks, traffic shaping), and
  supervises the tasks that keep a host in that state: a gateway prober, DHCP relays for the
  workload networks, the actor that writes the neighbor entries the relays discover, gateway
  announcers, and the shape daemon. Sources are named under \<open>src/src/\<close>.

  \<^bold>\<open>How the parts meet.\<close> \<open>from_decl\<close> is the gate: everything downstream works on a \<open>Fabric\<close> it
  returned, so the theorems about derivations assume \<open>from_decl d = Ok f\<close>. The derivation gives
  each member its rows; the shaping tree, the ownership list and the universal segments read
  them. On the workload side a relay admits a DHCP acknowledgement, puts a claim into the shared
  neighbor table, and the flush actor takes claims from the table, compares them with the kernel
  and writes. The property that spans them is at the end of this theory.

  \<^bold>\<open>Shared theories.\<close> \<open>Prelude\<close> has the machine types, byte and list functions of the Rust
  standard library and the lemma collections. \<open>Ordered_Map\<close> is \<open>BTreeMap\<close> as a sorted association
  list, with its interface as the locale \<open>map_store\<close>. \<open>Machines\<close> has the locale every stateful
  component is used through, a step function that keeps an invariant; it is interpreted on the
  neighbor table, the hysteresis, the relays, the announcer, the supervised child and the legs of
  the prober. \<open>Outcome\<close> is fallible code: a
  value, an error, or a panic. \<open>Host_Io\<close> has forked commands and JSON values, \<open>Text_Scan\<close> the
  string functions of line-based readers on UTF-8 bytes, \<open>Sys_World\<close> the \<open>Sys\<close> trait of \<open>sys.rs\<close>
  as a trace of requests answered by an arbitrary environment.

  \<^bold>\<open>Gateway prober\<close> (\<open>prober/\<close>). \<open>Prober_Frame\<close>: the ARP and OSPF frames of \<open>frame.rs\<close>, encoded and
  read back. \<open>Prober_Bpf\<close>: the packet filter of \<open>bpf.rs\<close> as the program it is, on a machine with
  an instruction budget of 4096 (the program has no backward jump, so its length is enough),
  proved to accept exactly the frames that are evidence. \<open>Prober_Decide\<close>: the hysteresis as a
  refinement of the latest run of observations, and the choice of the active port.
  \<open>Prober_Passive\<close>: the verdicts from overheard traffic in closed form. \<open>Prober_Leg\<close>: the whole loop
  of \<open>prober/mod.rs\<close>, one tick of a leg against an arbitrary system and arbitrary frames, with every
  call it makes as a trace. \<open>Prober_Moves\<close>, \<open>Prober_Rules\<close>: a tick reads, makes at most one move and
  that a justified one, then asks; a condemned wire stays out until a hello is heard on it; a fallback
  leg asks little. \<open>Prober_Start\<close>: deriving the legs cannot fail. \<open>Prober_Grace\<close>: a port that was just
  promoted is not taken down again by its own silence, and the loop is applied to an example.

  \<^bold>\<open>Workload networks\<close> (\<open>workload/\<close>). \<open>Workload_Table\<close>: the neighbor table of \<open>table.rs\<close> with its
  queue; no claim is lost or starved and no row exceeds its cap. \<open>Token_Bucket\<close>,
  \<open>Workload_Actor\<close>, \<open>Workload_Flush\<close>, \<open>Actor_Invariant\<close>: the flush actor of \<open>actor.rs\<close> and
  \<open>writer.rs\<close> against an arbitrary clock and arbitrary command outcomes; forks are bounded by
  time, a batch only writes what the kernel lacks, and failed writes are put back. The wait for
  a token loops at most twice, which is why its fuel is 2. \<open>Workload_Relay\<close>: packet parsing and
  the serve loop of \<open>relay.rs\<close>; a relay only registers addresses of its row. The loop that waits
  for a leg takes fuel, and enough fuel is proved to end it. \<open>Workload_Announce\<close>: the schedule of
  \<open>announce.rs\<close>. \<open>Workload_Uplink\<close>: which ports of a declared bridge leave the host (\<open>uplink.rs\<close>, with
  the depth of eight the source gives the walk), the polled trigger of \<open>neigh.rs\<close> and the deferred
  rows. \<open>Host_Vms\<close>, \<open>Host_Routes\<close>, \<open>Host_Reconcile\<close>: the host routes of \<open>hostroutes.rs\<close>; the VMs of a
  leg are the join of neighbors and FDB, the hold-down is a function of the history of
  observations, a failed read withdraws nothing, and the requests of a pass are known in their
  order.

  \<^bold>\<open>Declaration and derivation\<close> (\<open>decl.rs\<close>, \<open>model.rs\<close>, \<open>derive.rs\<close>). \<open>Fabric_Decl\<close>: the declaration
  tree with its defaults. \<open>Fabric_Model\<close>: the typed fabric and its text readers. \<open>Ipv4_Prefix\<close>:
  prefixes. \<open>Fabric_Derive\<close>: wire orders, costs, rows, ownership. \<open>Path_Count\<close>: the shortest-path
  search with counts, as the loop it is, terminating and proved to count the shortest walks.
  \<open>Fabric_Paths\<close>: the graph of a zone and the path checks. \<open>Fabric_Validate\<close>: every refusal of
  \<open>validate\<close> and \<open>from_decl\<close> in the order of the source. \<open>Fabric_Ranks\<close>, \<open>Fabric_Routes\<close>,
  \<open>Fabric_Accept\<close>: an accepted fabric has at most 52 wires per member, 53 segments per zone and
  256 members, so its costs are exact on 32-bit words while the leaf offset is at most sixteen
  million, and no \<open>expect\<close> of the derivation can fail. \<open>Fabric_Paths_Unique\<close>, \<open>Fabric_Orders\<close>,
  \<open>Fabric_Ownership\<close>: the properties of accepted fabrics. \<open>Fabric_Sample\<close>: a declaration of three
  members, evaluated, on which the properties are applied.

  \<^bold>\<open>Traffic shaping\<close> (\<open>emit/shape.rs\<close>, \<open>commands/shape_daemon.rs\<close>, \<open>caps.rs\<close>). \<open>Shape_Tree\<close>: the
  derivation of a wire's tree and its \<open>tc\<close> program. \<open>Shape_Degrade\<close>, \<open>Shape_Floors\<close>: the effective
  rates fit the link, and a bulk zone's floor is on one wire. \<open>Shape_Record\<close>: the published record
  reads back as written. \<open>Shape_Daemon\<close>, \<open>Shape_Reconverge\<close>: the event loop, what a reconvergence
  asks of the system, and that the daemon leaves the wires as it found them.

  \<^bold>\<open>Packet filters\<close> (\<open>emit/policy.rs\<close>, \<open>emit/mark.rs\<close>, \<open>emit/ceiling_ipt.rs\<close>, \<open>emit/workload.rs\<close>).
  \<open>Emit_Nft\<close>: the rules the emitters write, printed as the source prints them; what a kernel does with
  a chain is the locale \<open>nft\<close>, its laws the documented rules of evaluation, interpreted on an
  evaluator. \<open>Emit_Policy\<close>, \<open>Emit_Transit\<close>: the forward policy, and exactly which packets it lets
  through. \<open>Emit_Compare\<close>, \<open>Emit_Drift\<close>: the normal form in which status compares policies, a reader of
  lines, does not see the machines a set was seeded with. \<open>Emit_Mark\<close>: the ceiling of control packets,
  its arithmetic exact on 64-bit words, and the marking table. \<open>Emit_Remark\<close>: what the table does to
  packets, and with the forward policy that nothing a workload sends keeps the class it chose.
  \<open>Emit_Ipt\<close>: the ceiling for kernels without nftables, behind the locale \<open>ipt\<close>, polices like the other.

  \<^bold>\<open>Supervisor\<close> (\<open>supervisor/\<close>). \<open>Supervisor_Child\<close>: the state machine of a child and the ring of its
  output (\<open>child.rs\<close>). \<open>Supervisor_Run\<close>: start, exit, respawn, restart and stop of the children as
  the arms of the main loop in \<open>mod.rs\<close>, a step relation in which the processes that are alive stand
  beside what the supervisor recorded. \<open>Supervisor_Single\<close>: while no restart gives up waiting, a
  child has at most one process, a wanted child always comes back and no step panics; and a run in
  which a restart does give up, after which the supervisor has lost a process. \<open>Supervisor_Workload\<close>,
  \<open>Workload_Frames\<close>: the task that drives announcers and host routes (\<open>workload.rs\<close>); over any
  sequence of calls it never panics and sends only frames its declaration allows.

  \<^bold>\<open>Arguments of the model.\<close> Clocks, the outcomes of forked commands and file reads, what a channel
  or a socket delivers, and the texts of third-party parsers are arguments, and the theorems hold
  for all of them. Overflow is the machine's where the source computes on fixed widths; instants
  and durations are unbounded.

  \<^bold>\<open>Not modelled.\<close> Reading TOML (serde), sockets, netlink and packet I/O, and the command line are I/O
  or third-party code. The routing daemon is driven through its northbound interface, which is not
  part of the repository, and the emitter of its configuration prints documents whose meaning is that
  daemon's. Metrics and the status report only read and print the state of the components above.
  Applying and tearing down the fabric, building the workload legs, the forwarding watchdog and the
  configuration sync are sequences of \<open>ip\<close>, \<open>sysctl\<close> and file commands around the derived rows; what
  they install, the shaping tree, the filter tables and the routes, is modelled where it is derived.
\<close>

section \<open>From a packet to the kernel\<close>

text \<open>The claims a world brings to the flush actor are those its relays make of the packets they see.\<close>

definition claim_of_packet :: "RelayRow list \<Rightarrow> Claim \<Rightarrow> bool" where
  "claim_of_packet rs c \<longleftrightarrow>
     (\<exists>row\<in>set rs. \<exists>pkt src.
        (\<exists>to bytes. forward_server pkt src (row_leg_addr row) (row_dhcp_server row) (row_prefix row) =
             Forward to bytes) \<and>
        cl_row c = row_name row \<and> cl_leg c = row_leg row \<and>
        (\<exists>lease. ack_discovery pkt (row_prefix row) (row_fabric_addresses row) =
             Discovered (cl_addr c) (cl_mac c) lease \<and>
           cl_expires_at c = cl_now c + clamp_lease lease))"

definition relayed_world :: "RelayRow list \<Rightarrow> World \<Rightarrow> bool" where
  "relayed_world rs w \<longleftrightarrow> (\<forall>i. list_all (claim_of_packet rs) (w_claims w i))"

lemma claim_of_packet_admits:
  "claim_of_packet rs c \<Longrightarrow>
     \<exists>row\<in>set rs. cl_row c = row_name row \<and> cl_leg c = row_leg row \<and> row_admits row (cl_addr c)"
  unfolding claim_of_packet_def ack_discovery_Discovered row_admits_def by blast

lemma claims_ok_apply_claim:
  assumes "claims_ok rs t" "claim_of_packet rs c"
  shows "claims_ok rs (apply_claim t c)"
proof -
  obtain row where row: "row \<in> set rs" "cl_row c = row_name row" "cl_leg c = row_leg row" "row_admits row (cl_addr c)"
    using claim_of_packet_admits [OF assms(2)] by blast
  show ?thesis
    unfolding claims_ok_def
  proof (intro allI impI)
    fix k e
    assume "om_get (entries (apply_claim t c)) k = Some e"
    then have "om_get (entries t) k = Some e \<or> k = (cl_row c, cl_addr c) \<and> e_leg e = cl_leg c"
      by (auto simp: apply_claim_def upsert_def Let_def map_simps split: option.splits if_splits)
    then show "\<exists>row\<in>set rs. fst k = row_name row \<and> row_admits row (snd k) \<and> e_leg e = row_leg row"
      using assms(1) row unfolding claims_ok_def by auto
  qed
qed

text \<open>A row's address on the row's own leg, and a write for it.\<close>

definition write_ok :: "RelayRow list \<Rightarrow> string list \<Rightarrow> bool" where
  "write_ok rs argv \<longleftrightarrow>
     argv = READ_ARGV \<or>
     (\<exists>row\<in>set rs. \<exists>verb a m. row_admits row a \<and> argv = write_argv verb a m (row_leg row))"

definition pipeline_ok :: "RelayRow list \<Rightarrow> World \<Rightarrow> NeighborTable \<Rightarrow> (string list \<times> io_result) list \<Rightarrow> bool" where
  "pipeline_ok rs w t fs \<longleftrightarrow> (relayed_world rs w \<longrightarrow> claims_ok rs t \<and> list_all (write_ok rs) (map fst fs))"

definition taken_ok :: "RelayRow list \<Rightarrow> World \<Rightarrow> Taken \<Rightarrow> bool" where
  "taken_ok rs w x \<longleftrightarrow>
     (relayed_world rs w \<longrightarrow> (\<exists>row\<in>set rs. row_admits row (t_addr x) \<and> t_leg x = row_leg row))"

lemma claims_ok_sub:
  assumes "claims_ok rs t"
    and "\<And>key e. om_get (entries t') key = Some e \<Longrightarrow> \<exists>e0. om_get (entries t) key = Some e0 \<and> e_leg e = e_leg e0"
  shows "claims_ok rs t'"
  unfolding claims_ok_def
proof (intro allI impI)
  fix k e
  assume "om_get (entries t') k = Some e"
  then obtain e0 where "om_get (entries t) k = Some e0" "e_leg e = e_leg e0"
    using assms(2) by blast
  then show "\<exists>row\<in>set rs. fst k = row_name row \<and> row_admits row (snd k) \<and> e_leg e = row_leg row"
    using assms(1) unfolding claims_ok_def by simp
qed

lemma take_next_dirty_sub:
  assumes "om_get (entries (fst (take_next_dirty t now))) key = Some e"
  shows "\<exists>e0. om_get (entries t) key = Some e0 \<and> e_leg e = e_leg e0"
proof -
  obtain t' out where tk: "take_next_dirty t now = (t', out)"
    by (cases "take_next_dirty t now")
  show ?thesis
  proof (cases "taken out")
    case None
    then show ?thesis
      using only_drops_expiredD [OF take_next_dirty_none [OF tk None]] assms tk by auto
  next
    case (Some x)
    then show ?thesis
      using take_next_dirty_taken [OF tk Some] only_drops_expiredD assms tk
      by (cases "key = (t_row x, t_addr x)") fastforce+
  qed
qed

lemma re_dirty_sub:
  "om_get (entries (fst (re_dirty t row a now))) key = Some e \<Longrightarrow>
     \<exists>e0. om_get (entries t) key = Some e0 \<and> e_leg e = e_leg e0"
  by (auto simp: re_dirty_def Let_def map_simps split: option.splits if_splits)

lemma remove_expired_sub:
  "table_inv t \<Longrightarrow> om_get (entries (fst (remove_expired t now))) key = Some e \<Longrightarrow>
     \<exists>e0. om_get (entries t) key = Some e0 \<and> e_leg e = e_leg e0"
  by (auto simp: remove_expired_def table_inv_def om_get_filter split: option.splits if_splits)

lemma write_ok_taken:
  "taken_ok rs w x \<Longrightarrow> relayed_world rs w \<Longrightarrow>
     write_ok rs (write_argv verb (t_addr x) (t_mac x) (t_leg x))"
  unfolding taken_ok_def write_ok_def by metis

interpretation pipeline: actor_invariant w "pipeline_ok rs w" "taken_ok rs w" for rs w
proof
  fix t fs c i
  assume "pipeline_ok rs w t fs" "c \<in> set (w_claims w i)"
  then show "pipeline_ok rs w (apply_claim t c) fs"
    using claims_ok_apply_claim by (auto simp: pipeline_ok_def relayed_world_def list_all_iff)
next
  fix t fs now
  assume "pipeline_ok rs w t fs"
  then show "pipeline_ok rs w (fst (take_next_dirty t now)) fs"
    unfolding pipeline_ok_def using claims_ok_sub take_next_dirty_sub by blast
next
  fix t fs now x
  assume p: "pipeline_ok rs w t fs" and x: "taken (snd (take_next_dirty t now)) = Some x"
  obtain t' out where tk: "take_next_dirty t now = (t', out)"
    by (cases "take_next_dirty t now")
  have "taken out = Some x"
    using x tk by simp
  then obtain e where "om_get (entries t) (t_row x, t_addr x) = Some e" "t_leg x = e_leg e"
    using take_next_dirty_taken [OF tk] by blast
  then show "taken_ok rs w x"
    using p unfolding pipeline_ok_def taken_ok_def claims_ok_def by fastforce
next
  fix t fs row a now
  assume "pipeline_ok rs w t fs"
  then show "pipeline_ok rs w (fst (re_dirty t row a now)) fs"
    unfolding pipeline_ok_def using claims_ok_sub re_dirty_sub by blast
next
  fix t fs now
  assume "table_inv t" "pipeline_ok rs w t fs"
  then show "pipeline_ok rs w (fst (remove_expired t now)) fs"
    unfolding pipeline_ok_def using claims_ok_sub remove_expired_sub by blast
next
  fix t fs t'
  assume "pipeline_ok rs w t fs" "wait_dirty t = Some t'"
  then show "pipeline_ok rs w t' fs"
    by (auto simp: pipeline_ok_def wait_dirty_def claims_ok_def split: if_splits)
next
  fix t fs r
  assume "pipeline_ok rs w t fs"
  then show "pipeline_ok rs w t (fs @ [(READ_ARGV, r)])"
    by (simp add: pipeline_ok_def write_ok_def)
next
  fix t fs x verb r
  assume "pipeline_ok rs w t fs" "taken_ok rs w x"
  then show "pipeline_ok rs w t (fs @ [(write_argv verb (t_addr x) (t_mac x) (t_leg x), r)])"
    using write_ok_taken unfolding pipeline_ok_def by simp
qed

text \<open>C1: from a packet to the kernel. When every claim comes from a datagram a relay of the member
  accepted, then at any point of the actor's life every command it has forked is the read of
  the neighbor table or a write that binds, on the leg of a declared workload row, an address
  inside that row's network that is neither its network nor its broadcast address nor an
  address the fabric owns. No packet, forged or not, makes cfab write anything else.\<close>

theorem kernel_writes_admissible:
  assumes "relayed_world rs w" and "run_actor n w (new_actor new_table start shared) = Some s"
    and "(argv, r) \<in> set (a_forks s)"
  shows "argv = READ_ARGV \<or>
    (\<exists>row\<in>set rs. \<exists>verb a m. argv = write_argv verb a m (row_leg row) \<and> contains (row_prefix row) a \<and>
       a \<notin> {0, net (row_prefix row), broadcast (row_prefix row)} \<union> row_fabric_addresses row)"
proof -
  have "pipeline_ok rs w (a_table s) (a_forks s)"
  proof (rule pipeline.holds_run_actor [OF assms(2)])
    show "actor_inv (new_actor new_table start shared)"
      by (rule actor_inv_new [OF table_inv_new])
    show "pipeline_ok rs w (a_table (new_actor new_table start shared)) (a_forks (new_actor new_table start shared))"
      by (simp add: pipeline_ok_def new_actor_def claims_ok_def new_table_def)
  qed
  then have "write_ok rs argv"
    using assms(1,3) by (force simp: pipeline_ok_def list_all_iff)
  then show ?thesis
    unfolding write_ok_def row_admits_def by blast
qed

lemma sample_world_relayed: "relayed_world [sample_row] sample_world"
proof -
  have "claim_of_packet [sample_row] sample_claim"
    unfolding claim_of_packet_def
    by (intro bexI [of _ sample_row] exI [of _ "sample_ack 0xc0a81407"] exI [of _ "0x0a000001"] conjI
        exI [of _ "Some 3600"])
      (simp_all add: sample_ack_discovered sample_claim_def, simp_all add: sample_row_def clamp_lease_def
        from_secs_def MIN_LEASE_def MAX_LEASE_def)
  then show ?thesis
    by (simp add: relayed_world_def sample_world_def)
qed

theorem kernel_writes_admissible_witness:
  "\<exists>s. run_actor 1 sample_world (new_actor new_table 0 False) = Some s \<and> length (a_forks s) = 2 \<and>
     (\<forall>argv r. (argv, r) \<in> set (a_forks s) \<longrightarrow> argv = READ_ARGV \<or>
        (\<exists>verb a m. argv = write_argv verb a m ''cfab-work-vms'' \<and> a \<noteq> 0xc0a81401))"
proof -
  obtain s where s: "run_actor 1 sample_world (new_actor new_table 0 False) = Some s" "length (a_forks s) = 2"
    using sample_run by blast
  show ?thesis
    using kernel_writes_admissible [OF sample_world_relayed s(1)] s by (fastforce simp: sample_row_def)
qed

end
